(* ===== verification/Prelude.thy ===== *)
theory Prelude
  imports Main "HOL-Library.Word"
begin

unbundle bit_operations_syntax

text \<open>
  What the components share: the machine integers of the i686 build, the faults that stop the
  kernel, the result type of code that can fault, the access to C arrays, and the loop
  combinator of the bounded \<open>for\<close> loops.
\<close>

named_theorems res_simps \<open>equations of the result type and of checked array accesses\<close>

section \<open>Machine integers\<close>

type_synonym u8 = "8 word"
type_synonym u16 = "16 word"
type_synonym u32 = "32 word"
type_synonym u64 = "64 word"
type_synonym bytes = "u8 list"

text \<open>A boolean condition of C: an integer that is not zero.\<close>

abbreviation nz :: "'a::len word \<Rightarrow> bool" where
  "nz w \<equiv> w \<noteq> 0"

text \<open>The character constants of C, as bytes, and string literals with their final NUL.\<close>

abbreviation ch :: "char \<Rightarrow> u8" where
  "ch c \<equiv> of_char c"

definition lit :: "string \<Rightarrow> bytes" where
  "lit s = map of_char s @ [0]"

section \<open>Faults and results\<close>

text \<open>
  \<open>AssertFail\<close> and \<open>Panic\<close> are the two ways the kernel stops itself (\<open>assert\<close>
  and \<open>panic\<close> of \<open>sys/assert.h\<close>, \<open>sys/panic.h\<close>). The other faults mark behaviour that C
  leaves undefined and that the code does not check: a read or write outside an array, a null
  or dangling pointer, a loop that never ends.
\<close>

datatype fault = AssertFail | Panic | OutOfBounds | NullDeref | UseAfterFree | Diverges

type_synonym 'a res = "fault + 'a"

definition bindR :: "'a res \<Rightarrow> ('a \<Rightarrow> 'b res) \<Rightarrow> 'b res" where
  "bindR r f = (case r of Inl e \<Rightarrow> Inl e | Inr x \<Rightarrow> f x)"

lemma bindR_Inl [simp]: "bindR (Inl e) f = Inl e"
  by (simp add: bindR_def)

lemma bindR_Inr [simp]: "bindR (Inr x) f = f x"
  by (simp add: bindR_def)

lemma bindR_eq_Inr: "bindR r f = Inr y \<longleftrightarrow> (\<exists>x. r = Inr x \<and> f x = Inr y)"
  by (cases r) auto

lemma bindR_eq_Inl: "bindR r f = Inl e \<longleftrightarrow> r = Inl e \<or> (\<exists>x. r = Inr x \<and> f x = Inl e)"
  by (cases r) auto

lemma bindR_cong [fundef_cong]:
  "r = r' \<Longrightarrow> (\<And>x. r' = Inr x \<Longrightarrow> f x = f' x) \<Longrightarrow> bindR r f = bindR r' f'"
  by (cases r') auto

lemma bindR_assoc: "bindR (bindR r f) g = bindR r (\<lambda>x. bindR (f x) g)"
  by (cases r) auto

text \<open>\<open>assert(c); k\<close>\<close>

definition assertR :: "bool \<Rightarrow> 'a res \<Rightarrow> 'a res" where
  "assertR c k = (if c then k else Inl AssertFail)"

lemma assertR_simps [simp]: "assertR True k = k" "assertR False k = Inl AssertFail"
  by (simp_all add: assertR_def)

lemma assertR_eq_Inr: "assertR c k = Inr x \<longleftrightarrow> c \<and> k = Inr x"
  by (simp add: assertR_def)

definition is_ok :: "'a res \<Rightarrow> bool" where
  "is_ok r = (case r of Inl _ \<Rightarrow> False | Inr _ \<Rightarrow> True)"

lemma is_ok_simps [simp]: "is_ok (Inr x)" "\<not> is_ok (Inl e)"
  by (simp_all add: is_ok_def)

lemma is_ok_iff: "is_ok r \<longleftrightarrow> (\<exists>x. r = Inr x)"
  by (cases r) auto

section \<open>C arrays\<close>

text \<open>An array of C is a list. Reading or writing past its end is the fault \<open>OutOfBounds\<close>.\<close>

definition rd :: "'a list \<Rightarrow> nat \<Rightarrow> 'a res" where
  "rd xs i = (if i < length xs then Inr (xs ! i) else Inl OutOfBounds)"

definition wr :: "'a list \<Rightarrow> nat \<Rightarrow> 'a \<Rightarrow> 'a list res" where
  "wr xs i v = (if i < length xs then Inr (xs[i := v]) else Inl OutOfBounds)"

lemma rd_ok [res_simps]: "i < length xs \<Longrightarrow> rd xs i = Inr (xs ! i)"
  by (simp add: rd_def)

lemma wr_ok [res_simps]: "i < length xs \<Longrightarrow> wr xs i v = Inr (xs[i := v])"
  by (simp add: wr_def)

lemma rd_eq_Inr: "rd xs i = Inr v \<longleftrightarrow> i < length xs \<and> v = xs ! i"
  by (auto simp: rd_def)

lemma wr_eq_Inr: "wr xs i v = Inr ys \<longleftrightarrow> i < length xs \<and> ys = xs[i := v]"
  by (auto simp: wr_def)

lemmas res_conv = bindR_eq_Inr assertR_eq_Inr rd_eq_Inr wr_eq_Inr

text \<open>A pointer to the remaining bytes of an array, read through and advanced.\<close>

definition deref :: "bytes \<Rightarrow> u8 res" where
  "deref p = (case p of [] \<Rightarrow> Inl OutOfBounds | c # _ \<Rightarrow> Inr c)"

lemma deref_simps [simp]: "deref [] = Inl OutOfBounds" "deref (c # p) = Inr c"
  by (simp_all add: deref_def)

section \<open>Bounded loops\<close>

text \<open>\<open>for (i : is) s = f(i, s)\<close>, left at the first fault.\<close>

fun foldR :: "('i \<Rightarrow> 's \<Rightarrow> 's res) \<Rightarrow> 'i list \<Rightarrow> 's \<Rightarrow> 's res" where
  "foldR f [] s = Inr s"
| "foldR f (i # is) s = bindR (f i s) (foldR f is)"

lemma foldR_append: "foldR f (is @ js) s = bindR (foldR f is s) (foldR f js)"
proof (induction "is" arbitrary: s)
  case (Cons i "is")
  then show ?case by (cases "f i s") simp_all
qed simp

lemma foldR_invariant:
  assumes "foldR f is s = Inr t" and "P s"
    and "\<And>i s t. i \<in> set is \<Longrightarrow> P s \<Longrightarrow> f i s = Inr t \<Longrightarrow> P t"
  shows "P t"
  using assms
proof (induction "is" arbitrary: s)
  case Nil
  then show ?case by simp
next
  case (Cons i "is")
  from Cons.prems(1) obtain u where u: "f i s = Inr u" and rest: "foldR f is u = Inr t"
    by (auto simp: bindR_eq_Inr)
  have "P u" using Cons.prems(2,3) u by auto
  then show ?case using Cons.IH [OF rest] Cons.prems(3) by auto
qed

section \<open>Words\<close>

lemma unat_add_nowrap:
  fixes a b :: "'a::len word"
  shows "unat a + unat b < 2 ^ LENGTH('a) \<Longrightarrow> unat (a + b) = unat a + unat b"
  by (simp add: unat_word_ariths)

lemma unat_sub_le:
  fixes a b :: "'a::len word"
  shows "b \<le> a \<Longrightarrow> unat (a - b) = unat a - unat b"
  by (simp add: unat_sub)

lemma unat_Suc_lt:
  fixes p l :: "'a::len word"
  assumes "p < l"
  shows "unat (p + 1) = Suc (unat p)"
proof -
  have "unat p < unat l" using assms by (simp add: word_less_nat_alt)
  moreover have "unat l < 2 ^ LENGTH('a)" by simp
  ultimately have "unat p + 1 < 2 ^ LENGTH('a)" by linarith
  then show ?thesis by (simp add: unat_word_ariths)
qed

lemma unat_diff_Suc:
  fixes p l :: "'a::len word"
  assumes "p < l"
  shows "unat (l - p) = Suc (unat (l - (p + 1)))"
proof -
  have "p + 1 \<le> l" using assms by (simp add: inc_le)
  moreover have "unat p < unat l" using assms by (simp add: word_less_nat_alt)
  ultimately show ?thesis
    using assms by (simp add: unat_sub unat_Suc_lt [OF assms] order_less_imp_le)
qed

lemma ucast_of_nat_unat: "ucast (w :: 'a::len word) = (of_nat (unat w) :: 'b::len word)"
  by (simp add: unsigned_of_nat) 

lemma unat_lt: "unat (x :: 'a::len word) < 2 ^ LENGTH('a)"
  by simp

lemma unat_ucast_up:
  "LENGTH('a) \<le> LENGTH('b) \<Longrightarrow> unat (ucast (x :: 'a::len word) :: 'b::len word) = unat x"
  by (simp add: unsigned_ucast_eq take_bit_nat_eq_self order_less_le_trans [OF unat_lt])

lemma xor_cancel_mid: "b XOR (a XOR b) = (a :: 'a::len word)"
  by (simp add: xor.left_commute [of b])

lemma list_update_drop_0: "n < length xs \<Longrightarrow> (drop n xs)[0 := y] = y # drop (Suc n) xs"
  by (simp add: Cons_nth_drop_Suc [symmetric])

lemma list_update_drop_1: "Suc n < length xs \<Longrightarrow> (drop n xs)[0 := y, Suc 0 := z] = y # z # drop (Suc (Suc n)) xs"
  by (simp add: list_update_drop_0)

lemma scast_32_64_eq_0: "scast (w :: u32) = (0 :: u64) \<longleftrightarrow> w = 0"
proof
  assume "scast w = (0 :: u64)"
  moreover have "(scast (scast w :: u64) :: u32) = w" by (simp add: scast_up_scast_id is_up)
  ultimately show "w = 0" by simp
qed simp

lemma sint_half:
  fixes x :: "'a::len word"
  obtains B :: int where "2 ^ LENGTH('a) = 2 * B" "0 < B" "- B \<le> sint x" "sint x < B"
proof
  show "2 ^ LENGTH('a) = 2 * (2 ^ (LENGTH('a) - 1) :: int)"
    by (metis len_gt_0 power_minus_mult mult.commute)
  show "- (2 ^ (LENGTH('a) - 1)) \<le> sint x" using sint_greater_eq [of x] by simp
  show "sint x < 2 ^ (LENGTH('a) - 1)" using sint_less [of x] by simp
qed simp

lemma uint_sint_cases:
  fixes x :: "'a::len word"
  shows "uint x = (if sint x < 0 then sint x + 2 ^ LENGTH('a) else sint x)"
proof -
  obtain B :: int where B: "2 ^ LENGTH('a) = 2 * B" "0 < B" "- B \<le> sint x" "sint x < B"
    by (rule sint_half)
  have m: "uint x = sint x mod (2 * B)" using B(1) by (simp add: uint_sint take_bit_eq_mod)
  show ?thesis
  proof (cases "sint x < 0")
    case True
    have "sint x mod (2 * B) = (sint x + 2 * B) mod (2 * B)" by simp
    also have "\<dots> = sint x + 2 * B" using True B by (intro mod_pos_pos_trivial) auto
    finally show ?thesis using True m B(1) by simp
  next
    case False
    then have "sint x mod (2 * B) = sint x" using B by (intro mod_pos_pos_trivial) auto
    then show ?thesis using False m by simp
  qed
qed

lemma unat_sint_nonneg: "\<not> sint (x :: 'a::len word) < 0 \<Longrightarrow> unat x = nat (sint x)"
  by (simp only: unat_eq_nat_uint uint_sint_cases if_False)

lemma twos_complement_sign:
  fixes u i :: int
  assumes "u = (if i < 0 then i + 4294967296 else i)" "- 2147483648 \<le> i" "i < 2147483648"
  shows "(i < 0) = (2147483648 \<le> u)"
  using assms by (cases "i < 0") auto

lemma sint32_neg_iff: "sint (x :: u32) < 0 \<longleftrightarrow> 2147483648 \<le> unat x"
proof -
  have "uint x = (if sint x < 0 then sint x + 4294967296 else sint x)"
    using uint_sint_cases [of x] by simp
  moreover have "- 2147483648 \<le> sint x" "sint x < 2147483648"
    using sint_greater_eq [of x] sint_less [of x] by simp_all
  ultimately have "sint x < 0 \<longleftrightarrow> 2147483648 \<le> uint x" by (rule twos_complement_sign)
  also have "\<dots> \<longleftrightarrow> 2147483648 \<le> unat x"
    by (simp only: unat_eq_nat_uint le_nat_iff [OF uint_ge_0] of_nat_numeral)
  finally show ?thesis .
qed

lemma unat_uminus_neg:
  assumes "sint (x :: 'a::len word) < 0"
  shows "unat (- x) = nat (- sint x)"
proof -
  have "x \<noteq> 0" using assms by auto
  then have pos: "0 < unat x" by (simp add: unat_gt_0)
  then have "int (unat (- x)) = 2 ^ LENGTH('a) - int (unat x)"
    using unat_sub_if' [of 0 x] unat_lt [of x]
    by (simp add: of_nat_diff order_less_imp_le)
  then have "uint (- x) = - sint x" using uint_sint_cases [of x] assms by simp
  then show ?thesis by (simp only: unat_eq_nat_uint)
qed

lemma unat_scast_pos:
  assumes "\<not> sint (y :: u32) < 0"
  shows "unat (scast y :: u64) = unat y"
proof -
  have "sint (scast y :: u64) = sint y" by (simp add: sint_up_scast is_up)
  then show ?thesis using assms by (simp add: unat_sint_nonneg)
qed

lemma unat_and_15: "unat (v AND 15 :: u64) = unat v mod 16"
proof -
  have "v AND 15 = take_bit 4 v" by (simp add: take_bit_eq_mask mask_numeral)
  then show ?thesis by (simp add: take_bit_eq_mod unat_mod)
qed

lemma unat_drop: "unat (drop_bit n w :: 'a::len word) = unat w div 2 ^ n"
proof -
  have "unat (drop_bit n w) = drop_bit n (take_bit LENGTH('a) (unat w))" by (rule unsigned_drop_bit_eq)
  then show ?thesis by (simp add: drop_bit_eq_div take_bit_nat_eq_self)
qed

lemma unat_take: "n \<le> LENGTH('a) \<Longrightarrow> unat (take_bit n w :: 'a::len word) = unat w mod 2 ^ n"
proof -
  have "unat (take_bit n w) = take_bit n (unat w)" by (rule unsigned_take_bit_eq)
  also have "\<dots> = unat w mod 2 ^ n" by (rule take_bit_eq_mod)
  finally show ?thesis .
qed

lemma unat_of_nat_small: "n < 2 ^ LENGTH('a) \<Longrightarrow> unat (of_nat n :: 'a::len word) = n"
  by (simp add: unat_of_nat take_bit_nat_eq_self)

end
