(* ===== verification/CString.thy ===== *)
theory CString
  imports Prelude
begin

text \<open>
  The string and memory routines of \<open>src/src/sys/string.c\<close>, \<open>sys/mem.c\<close>,
  \<open>sys/ctype.c\<close>, \<open>sys/atoi.c\<close> and of the user library \<open>usr/lib/posix/string.c\<close>.
  A \<open>char *\<close> is the list of the bytes from the pointer to the end of the array it points
  into; a read or write past that end is the fault \<open>OutOfBounds\<close>. A routine that writes
  through its pointer returns the new bytes. The predicate \<open>cstr p s\<close> says that \<open>p\<close> points
  to the NUL-terminated string with the characters \<open>s\<close>.
\<close>

named_theorems cstr_simps \<open>results of the string routines on terminated strings\<close>

section \<open>sys/string.c\<close>

fun strlen_loop :: "bytes \<Rightarrow> u32 \<Rightarrow> u32 res" where
  "strlen_loop [] l = Inl OutOfBounds"
| "strlen_loop (c # s) l = (if nz c then strlen_loop s (l + 1) else Inr l)"

definition strlen :: "bytes \<Rightarrow> u32 res" where
  "strlen s = strlen_loop s 0"

text \<open>
  The comparison loop of \<open>strncmp\<close> and the test after it, which reads both characters again
  before it looks at \<open>p != l\<close>. Whichever way the loop is left, both pointers are read, so
  the routine faults as soon as one of them has run off its array.
\<close>

definition strncmp_end :: "bytes \<Rightarrow> bytes \<Rightarrow> u32 \<Rightarrow> u32 \<Rightarrow> int res" where
  "strncmp_end a b p l =
     bindR (deref a) (\<lambda>ca. bindR (deref b) (\<lambda>cb.
       Inr (if ca \<noteq> cb \<and> p \<noteq> l then 1 else 0)))"

fun strncmp_loop :: "bytes \<Rightarrow> bytes \<Rightarrow> u32 \<Rightarrow> u32 \<Rightarrow> int res" where
  "strncmp_loop (ca # a) (cb # b) p l =
     (if p < l \<and> nz ca \<and> nz cb then
        (if ca \<noteq> cb then Inr 1 else strncmp_loop a b (p + 1) l)
      else strncmp_end (ca # a) (cb # b) p l)"
| "strncmp_loop a b p l = Inl OutOfBounds"

definition strncmp :: "bytes \<Rightarrow> bytes \<Rightarrow> u32 \<Rightarrow> int res" where
  "strncmp a b l = strncmp_loop a b 0 l"

definition strcmp :: "bytes \<Rightarrow> bytes \<Rightarrow> int res" where
  "strcmp a b = strncmp a b 0xFFFFFFFF"

fun strncmn_loop :: "bytes \<Rightarrow> bytes \<Rightarrow> u32 \<Rightarrow> u32 \<Rightarrow> u32 res" where
  "strncmn_loop a b i n =
     (if i < n then
        bindR (deref a) (\<lambda>ca. if ca = 0 then Inr i else
        bindR (deref b) (\<lambda>cb. if cb = 0 then Inr i else
          if ca \<noteq> cb then Inr i
          else (case a of [] \<Rightarrow> Inl OutOfBounds | _ # a' \<Rightarrow> strncmn_loop a' (tl b) (i + 1) n)))
      else Inr i)"

declare strncmn_loop.simps [simp del]

text \<open>In \<open>strncmn\<close> the counters \<open>i\<close> and \<open>cmn\<close> advance together, so one of them is kept.\<close>

definition strncmn :: "bytes \<Rightarrow> bytes \<Rightarrow> u32 \<Rightarrow> u32 res" where
  "strncmn a b n = strncmn_loop a b 0 n"

fun strcpy :: "bytes \<Rightarrow> bytes \<Rightarrow> bytes res" where
  "strcpy dst [] = Inl OutOfBounds"
| "strcpy [] (c # src) = Inl OutOfBounds"
| "strcpy (d # dst) (c # src) =
     (if nz c then bindR (strcpy dst src) (\<lambda>r. Inr (c # r)) else Inr (0 # dst))"

fun strncpy_loop :: "bytes \<Rightarrow> bytes \<Rightarrow> u32 \<Rightarrow> u32 \<Rightarrow> bytes res" where
  "strncpy_loop dst [] i l = Inl OutOfBounds"
| "strncpy_loop dst (c # src) i l =
     (if nz c \<and> i < l then
        (case dst of [] \<Rightarrow> Inl OutOfBounds
         | d # ds \<Rightarrow> bindR (strncpy_loop ds src (i + 1) l) (\<lambda>r. Inr (c # r)))
      else if i \<noteq> l then
        (case dst of [] \<Rightarrow> Inl OutOfBounds | d # ds \<Rightarrow> Inr (0 # ds))
      else Inr dst)"

definition strncpy :: "bytes \<Rightarrow> bytes \<Rightarrow> u32 \<Rightarrow> bytes res" where
  "strncpy dst src l = strncpy_loop dst src 0 l"

text \<open>\<open>strchr\<close> returns a pointer into \<open>s\<close>, or \<open>NULL\<close> (\<open>None\<close>).\<close>

fun strchr :: "bytes \<Rightarrow> u8 \<Rightarrow> bytes option res" where
  "strchr [] c = Inl OutOfBounds"
| "strchr (x # s) c =
     (if nz x then (if x = c then Inr (Some (x # s)) else strchr s c) else Inr None)"

fun strchrnul :: "bytes \<Rightarrow> u8 \<Rightarrow> bytes res" where
  "strchrnul [] c = Inl OutOfBounds"
| "strchrnul (x # s) c =
     (if x = 0 then Inr (x # s) else if x = c then Inr (x # s) else strchrnul s c)"

section \<open>sys/mem.c\<close>

fun memset_loop :: "bytes \<Rightarrow> u8 \<Rightarrow> nat \<Rightarrow> bytes res" where
  "memset_loop p v 0 = Inr p"
| "memset_loop [] v (Suc n) = Inl OutOfBounds"
| "memset_loop (x # p) v (Suc n) = bindR (memset_loop p v n) (\<lambda>r. Inr (v # r))"

definition memset :: "bytes \<Rightarrow> u8 \<Rightarrow> u32 \<Rightarrow> bytes res" where
  "memset p v len = memset_loop p v (unat len)"

text \<open>The same loop over 16-bit and 32-bit elements.\<close>

fun fill_loop :: "'a list \<Rightarrow> 'a \<Rightarrow> nat \<Rightarrow> 'a list res" where
  "fill_loop p v 0 = Inr p"
| "fill_loop [] v (Suc n) = Inl OutOfBounds"
| "fill_loop (x # p) v (Suc n) = bindR (fill_loop p v n) (\<lambda>r. Inr (v # r))"

definition memsetw :: "u16 list \<Rightarrow> u16 \<Rightarrow> u32 \<Rightarrow> u16 list res" where
  "memsetw p v len = fill_loop p v (unat len)"

definition memsetl :: "u32 list \<Rightarrow> u32 \<Rightarrow> u32 \<Rightarrow> u32 list res" where
  "memsetl p v len = fill_loop p v (unat len)"

lemma fill_loop_ok: "n \<le> length p \<Longrightarrow> fill_loop p v n = Inr (replicate n v @ drop n p)"
  by (induction p v n rule: fill_loop.induct) auto

fun memcpy_loop :: "bytes \<Rightarrow> bytes \<Rightarrow> nat \<Rightarrow> bytes res" where
  "memcpy_loop dst src 0 = Inr dst"
| "memcpy_loop (d # dst) (s # src) (Suc n) = bindR (memcpy_loop dst src n) (\<lambda>r. Inr (s # r))"
| "memcpy_loop dst src (Suc n) = Inl OutOfBounds"

definition memcpy :: "bytes \<Rightarrow> bytes \<Rightarrow> u32 \<Rightarrow> bytes res" where
  "memcpy dst src len = memcpy_loop dst src (unat len)"

text \<open>Writing through a pointer \<open>off\<close> bytes into a buffer: the bytes before it are kept.\<close>

definition at_off :: "(bytes \<Rightarrow> bytes res) \<Rightarrow> bytes \<Rightarrow> nat \<Rightarrow> bytes res" where
  "at_off f buf off =
     (if off \<le> length buf then bindR (f (drop off buf)) (\<lambda>r. Inr (take off buf @ r))
      else Inl OutOfBounds)"

section \<open>sys/ctype.c\<close>

text \<open>\<open>char\<close> is signed on this target, so the comparisons are signed.\<close>

abbreviation sle :: "u8 \<Rightarrow> u8 \<Rightarrow> bool" where
  "sle a b \<equiv> sint a \<le> sint b"

definition isspace :: "u8 \<Rightarrow> bool" where
  "isspace c \<longleftrightarrow> c = 10 \<or> c = 9 \<or> c = 32"

definition isprint :: "u8 \<Rightarrow> bool" where
  "isprint c \<longleftrightarrow> 0x20 \<le> sint c \<and> sint c \<le> 0x7F"

definition islower :: "u8 \<Rightarrow> bool" where
  "islower c \<longleftrightarrow> sle 97 c \<and> sle c 122"

definition isupper :: "u8 \<Rightarrow> bool" where
  "isupper c \<longleftrightarrow> sle 65 c \<and> sle c 90"

definition tolower :: "u8 \<Rightarrow> u8" where
  "tolower c = (if isupper c then c OR 0x20 else c)"

definition toupper :: "u8 \<Rightarrow> u8" where
  "toupper c = (if islower c then c AND 0x5F else c)"

definition togglecase :: "u8 \<Rightarrow> u8" where
  "togglecase c = (if isupper c then c OR 0x20 else toupper c)"

section \<open>sys/atoi.c\<close>

text \<open>
  The accumulator is an \<open>int\<close>; its overflow is undefined in C and wraps in the compiled code,
  which is what the 32-bit word does.
\<close>

definition is_digit :: "u8 \<Rightarrow> bool" where
  "is_digit c \<longleftrightarrow> sle 48 c \<and> sle c 57"

fun atoi_loop :: "bytes \<Rightarrow> u32 \<Rightarrow> u32 res" where
  "atoi_loop [] r = Inl OutOfBounds"
| "atoi_loop (c # s) r =
     (if nz c then
        (if is_digit c then atoi_loop s (r * 10 + (ucast c - 48)) else Inr r)
      else Inr r)"

definition atoi :: "bytes \<Rightarrow> u32 res" where
  "atoi s = atoi_loop s 0"

section \<open>usr/lib/posix/string.c\<close>

text \<open>The user library has its own \<open>strcmp\<close>, an unbounded loop over both strings.\<close>

fun usr_strcmp :: "bytes \<Rightarrow> bytes \<Rightarrow> int res" where
  "usr_strcmp (ca # a) (cb # b) =
     (if ca \<noteq> cb then Inr 1 else if ca = 0 then Inr 0 else usr_strcmp a b)"
| "usr_strcmp a b = Inl OutOfBounds"

fun usr_strlen_loop :: "bytes \<Rightarrow> u32 \<Rightarrow> u32 res" where
  "usr_strlen_loop [] l = Inl OutOfBounds"
| "usr_strlen_loop (c # s) l = (if c = 0 then Inr l else usr_strlen_loop s (l + 1))"

definition usr_strlen :: "bytes \<Rightarrow> u32 res" where
  "usr_strlen s = usr_strlen_loop s 0"

section \<open>The routines on terminated strings\<close>

definition cstr :: "bytes \<Rightarrow> bytes \<Rightarrow> bool" where
  "cstr p s \<longleftrightarrow> 0 \<notin> set s \<and> take (Suc (length s)) p = s @ [0]"

lemma cstr_Nil [simp]: "cstr p [] \<longleftrightarrow> (\<exists>r. p = 0 # r)"
  by (cases p) (auto simp: cstr_def)

lemma cstr_Cons [simp]: "cstr p (c # s) \<longleftrightarrow> nz c \<and> (\<exists>r. p = c # r \<and> cstr r s)"
  by (cases p) (auto simp: cstr_def)

lemma cstr_empty [simp]: "\<not> cstr [] s"
  by (simp add: cstr_def)

lemma cstr_append: "0 \<notin> set s \<Longrightarrow> cstr (s @ 0 # r) s"
  by (simp add: cstr_def)

lemma cstr_lit: "0 \<notin> set (map of_char s :: bytes) \<Longrightarrow> cstr (lit s) (map of_char s)"
  by (simp add: cstr_def lit_def)

lemma cstr_unique: "cstr p s \<Longrightarrow> cstr p t \<Longrightarrow> s = t"
  by (induction s arbitrary: p t; case_tac t) auto

lemma cstr_zero_notin: "cstr p s \<Longrightarrow> 0 \<notin> set s"
  by (simp add: cstr_def)

lemma cstr_length: "cstr p s \<Longrightarrow> length s < length p"
proof -
  assume "cstr p s"
  then have "length (take (Suc (length s)) p) = Suc (length s)" by (simp add: cstr_def)
  then show ?thesis by simp
qed

lemma cstr_drop: "cstr p (s @ t) \<Longrightarrow> cstr (drop (length s) p) t"
  by (induction s arbitrary: p) auto

lemma strlen_loop_cstr: "cstr p s \<Longrightarrow> strlen_loop p l = Inr (l + of_nat (length s))"
  by (induction s arbitrary: p l) (auto simp: algebra_simps)

lemma strlen_cstr [cstr_simps]: "cstr p s \<Longrightarrow> strlen p = Inr (of_nat (length s))"
  by (simp add: strlen_def strlen_loop_cstr)

lemma strncmp_loop_cstr:
  assumes "cstr a s" "cstr b t" "p \<le> l"
  shows "strncmp_loop a b p l =
    Inr (if take (unat (l - p)) s = take (unat (l - p)) t then 0 else 1)"
  using assms
proof (induction a b p l arbitrary: s t rule: strncmp_loop.induct)
  case (1 ca a cb b p l)
  show ?case
  proof (cases "p < l \<and> nz ca \<and> nz cb")
    case False
    with "1.prems" show ?thesis
      by (cases s; cases t; cases "p = l") (auto simp: strncmp_end_def unat_gt_0 take_Cons')
  next
    case True
    then have eq: "unat (l - p) = Suc (unat (l - (p + 1)))" by (simp add: unat_diff_Suc)
    from True "1.prems" obtain s' t' where "s = ca # s'" "t = cb # t'"
      by (cases s; cases t) auto
    moreover have "p + 1 \<le> l" using True by (simp add: inc_le)
    ultimately show ?thesis using True eq "1.prems" "1.IH" [of s' t'] by auto
  qed
qed auto

lemma strncmp_cstr [cstr_simps]:
  assumes "cstr a s" "cstr b t"
  shows "strncmp a b l = Inr (if take (unat l) s = take (unat l) t then 0 else 1)"
  using strncmp_loop_cstr [OF assms, of 0 l] by (simp add: strncmp_def)

lemma take_big_eq:
  assumes "length s < n" "length t < n"
  shows "take n s = take n t \<longleftrightarrow> s = t"
  using assms by simp

lemma strcmp_cstr [cstr_simps]:
  assumes "cstr a s" "cstr b t" "length s < 0xFFFFFFFF" "length t < 0xFFFFFFFF"
  shows "strcmp a b = Inr (if s = t then 0 else 1)"
  using assms by (simp add: strcmp_def strncmp_cstr)

lemma strncmn_cstr:
  "cstr a s \<Longrightarrow> cstr b t \<Longrightarrow> i \<le> n \<Longrightarrow> \<exists>k. strncmn_loop a b i n = Inr (i + of_nat k) \<and>
     k \<le> unat (n - i) \<and> take k s = take k t"
proof (induction a b i n arbitrary: s t rule: strncmn_loop.induct)
  case (1 a b i n)
  note IH = "1.IH" and prems = "1.prems"
  show ?case
  proof (cases "i < n \<and> s \<noteq> [] \<and> t \<noteq> [] \<and> hd s = hd t")
    case False
    then have "strncmn_loop a b i n = Inr i"
      using prems by (subst strncmn_loop.simps) (cases s; cases t; auto)
    then show ?thesis by (intro exI [of _ 0]) simp
  next
    case True
    then obtain c s' t' where st: "s = c # s'" "t = c # t'"
      by (cases s; cases t) auto
    with prems obtain a' b' where ab: "a = c # a'" "b = c # b'" "cstr a' s'" "cstr b' t'" "nz c"
      by auto
    have "i + 1 \<le> n" using True by (simp add: inc_le)
    then obtain k where k: "strncmn_loop a' b' (i + 1) n = Inr (i + 1 + of_nat k)"
      "k \<le> unat (n - (i + 1))" "take k s' = take k t'"
      using IH [of c c c a' s' t'] True ab by auto
    have "strncmn_loop a b i n = strncmn_loop a' b' (i + 1) n"
      using True ab by (subst strncmn_loop.simps) simp
    then show ?thesis using k st True
      by (intro exI [of _ "Suc k"]) (simp add: unat_diff_Suc algebra_simps)
  qed
qed

lemma strcpy_cstr [cstr_simps]:
  assumes "cstr src s" "length s < length dst"
  shows "strcpy dst src = Inr (s @ 0 # drop (Suc (length s)) dst)"
  using assms
proof (induction dst src arbitrary: s rule: strcpy.induct)
  case (3 d dst c src)
  then show ?case by (cases s) auto
qed auto

lemma strcpy_overflow:
  assumes "cstr src s" "length dst \<le> length s"
  shows "strcpy dst src = Inl OutOfBounds"
  using assms
proof (induction dst src arbitrary: s rule: strcpy.induct)
  case (3 d dst c src)
  then show ?case by (cases s) auto
qed auto

lemma strncpy_loop_exact:
  "0 \<notin> set s \<Longrightarrow> length s \<le> length dst \<Longrightarrow> unat i + length s < 2 ^ 32 \<Longrightarrow>
   strncpy_loop dst (s @ c # r) i (i + of_nat (length s)) = Inr (s @ drop (length s) dst)"
proof (induction s arbitrary: dst i)
  case (Cons x s)
  then obtain y ds where dst: "dst = y # ds" by (cases dst) auto
  have i: "unat (i + 1) = unat i + 1" using Cons.prems(3) by (subst unat_add_nowrap) auto
  have e: "i + of_nat (length (x # s)) = (i + 1) + of_nat (length s)" by simp
  have "i < i + of_nat (length (x # s))"
  proof -
    have "unat (of_nat (length (x # s)) :: u32) = length (x # s)" using Cons.prems(3) by (intro unat_of_nat_small) simp
    then have "unat (i + of_nat (length (x # s))) = unat i + length (x # s)"
      using Cons.prems(3) by (subst unat_add_nowrap) (auto simp del: of_nat_Suc)
    then show ?thesis by (simp add: word_less_nat_alt)
  qed
  moreover have "strncpy_loop ds (s @ c # r) (i + 1) ((i + 1) + of_nat (length s)) = Inr (s @ drop (length s) ds)"
    using Cons.prems i dst by (intro Cons.IH) auto
  ultimately show ?case using Cons.prems(1) dst e by (simp add: add.assoc)
qed simp

lemma strchr_cstr [cstr_simps]:
  "cstr p s \<Longrightarrow> strchr p c =
     Inr (if c \<in> set s then Some (drop (length (takeWhile (\<lambda>x. x \<noteq> c) s)) p) else None)"
  by (induction s arbitrary: p) auto

lemma strchrnul_cstr [cstr_simps]:
  "cstr p s \<Longrightarrow> strchrnul p c = Inr (drop (length (takeWhile (\<lambda>x. x \<noteq> c) s)) p)"
  by (induction s arbitrary: p) auto

lemma memset_loop_ok: "n \<le> length p \<Longrightarrow> memset_loop p v n = Inr (replicate n v @ drop n p)"
  by (induction p v n rule: memset_loop.induct) auto

lemma memset_ok [cstr_simps]:
  "unat n \<le> length p \<Longrightarrow> memset p v n = Inr (replicate (unat n) v @ drop (unat n) p)"
  by (simp add: memset_def memset_loop_ok)

lemma memcpy_loop_ok:
  "n \<le> length dst \<Longrightarrow> n \<le> length src \<Longrightarrow> memcpy_loop dst src n = Inr (take n src @ drop n dst)"
  by (induction dst src n rule: memcpy_loop.induct) auto

lemma memcpy_ok [cstr_simps]:
  "unat n \<le> length dst \<Longrightarrow> unat n \<le> length src \<Longrightarrow>
   memcpy dst src n = Inr (take (unat n) src @ drop (unat n) dst)"
  by (simp add: memcpy_def memcpy_loop_ok)

lemma memset_loop_length: "memset_loop p v n = Inr q \<Longrightarrow> length q = length p"
  by (induction p v n arbitrary: q rule: memset_loop.induct) (auto simp: bindR_eq_Inr)

lemma memcpy_loop_length: "memcpy_loop dst src n = Inr q \<Longrightarrow> length q = length dst"
  by (induction dst src n arbitrary: q rule: memcpy_loop.induct) (auto simp: bindR_eq_Inr)

lemma usr_strcmp_cstr: "cstr a s \<Longrightarrow> cstr b t \<Longrightarrow> usr_strcmp a b = Inr (if s = t then 0 else 1)"
proof (induction a b arbitrary: s t rule: usr_strcmp.induct)
  case (1 ca a cb b)
  then show ?case by (cases s; cases t) auto
qed auto

end
