(* ===== verification/DebugFmt.thy ===== *)
theory DebugFmt
  imports CString
begin

text \<open>
  Number formatting and the kernel's formatted debug output: \<open>src/src/sys/debug.c\<close> and
  \<open>fmtsiz\<close> of \<open>sys/mem.c\<close>. A routine that fills a \<open>char *\<close> takes the buffer and returns it
  updated. Output is collected in the two sinks of \<open>debugc\<close>: the serial port and the text
  console. The variable arguments are a list of typed values; fetching an argument of another
  type, or one more than was passed, is the fault \<open>OutOfBounds\<close>.
\<close>

section \<open>debug_ds and debug_xs\<close>

function ds_digits :: "u64 \<Rightarrow> bytes \<Rightarrow> nat \<Rightarrow> (bytes \<times> nat) res" where
  "ds_digits v buf c =
     (if nz v then
        bindR (wr buf c (48 + ucast (v mod 10))) (\<lambda>buf'. ds_digits (v div 10) buf' (Suc c))
      else Inr (buf, c))"
  by pat_completeness auto
termination
  by (relation "measure (\<lambda>(v, _, _). unat v)")
    (auto simp: unat_div word_neq_0_conv word_less_nat_alt)

declare ds_digits.simps [simp del]

text \<open>The in-place reversal: each pair of bytes is exchanged by three exclusive-ors.\<close>

definition xor_swap :: "bytes \<Rightarrow> nat \<Rightarrow> nat \<Rightarrow> bytes res" where
  "xor_swap buf i j =
     bindR (rd buf i) (\<lambda>a. bindR (rd buf j) (\<lambda>b.
     bindR (wr buf i (a XOR b)) (\<lambda>buf1. bindR (rd buf1 i) (\<lambda>a.
     bindR (wr buf1 j (b XOR a)) (\<lambda>buf2. bindR (rd buf2 j) (\<lambda>b.
     wr buf2 i (a XOR b)))))))"

fun rev_loop :: "bytes \<Rightarrow> nat \<Rightarrow> nat \<Rightarrow> bytes res" where
  "rev_loop buf i j =
     (if i < j then bindR (xor_swap buf i j) (\<lambda>buf'. rev_loop buf' (Suc i) (j - 1))
      else Inr buf)"

declare rev_loop.simps [simp del]

text \<open>
  The sign handling of \<open>debug_ds\<close>: the magnitude that is printed and whether a minus sign
  follows the digits. With \<open>sz = 0\<close> the argument is looked at as an \<open>int32_t\<close>.
\<close>

definition ds_magnitude :: "u64 \<Rightarrow> bool \<Rightarrow> bool \<Rightarrow> u64 \<times> bool" where
  "ds_magnitude x s sz =
     (if sz then (if s \<and> sint x < 0 then (- x, True) else (x, False))
      else (if s \<and> sint (ucast x :: u32) < 0 then (scast (- (ucast x :: u32)), True)
            else (x, False)))"

definition debug_ds :: "u64 \<Rightarrow> bytes \<Rightarrow> bool \<Rightarrow> bool \<Rightarrow> bytes res" where
  "debug_ds x res s sz =
     (if x = 0 then bindR (wr res 0 48) (\<lambda>res. wr res 1 0)
      else (case ds_magnitude x s sz of (v, neg) \<Rightarrow>
        bindR (ds_digits v res 0) (\<lambda>(res, c).
        bindR (if neg then wr res c 45 else Inr res) (\<lambda>res.
        let c = (if neg then Suc c else c) in
        bindR (wr res c 0) (\<lambda>res. rev_loop res 0 (c - 1))))))"

function xs_digits :: "u64 \<Rightarrow> bytes \<Rightarrow> bytes \<Rightarrow> nat \<Rightarrow> (bytes \<times> nat) res" where
  "xs_digits v cset buf c =
     (if nz v then
        bindR (rd cset (unat (v AND 0xF))) (\<lambda>d.
        bindR (wr buf c d) (\<lambda>buf'. xs_digits (drop_bit 4 v) cset buf' (Suc c)))
      else Inr (buf, c))"
  by pat_completeness auto
termination
  by (relation "measure (\<lambda>(v, _, _, _). unat v)")
    (auto simp: drop_bit_eq_div unat_div word_neq_0_conv word_less_nat_alt)

declare xs_digits.simps [simp del]

definition debug_xs :: "u64 \<Rightarrow> bytes \<Rightarrow> bytes \<Rightarrow> bytes res" where
  "debug_xs v res cset =
     (if v = 0 then bindR (wr res 0 48) (\<lambda>res. wr res 1 0)
      else bindR (xs_digits v cset res 0) (\<lambda>(res, c).
        bindR (wr res c 0) (\<lambda>res. rev_loop res 0 (c - 1))))"

definition debug_xs_set0 :: bytes where
  "debug_xs_set0 = lit ''0123456789abcdef''"

definition debug_xs_set1 :: bytes where
  "debug_xs_set1 = lit ''0123456789ABCDEF''"

section \<open>fmtsiz\<close>

function fmtsiz_scale :: "u32 \<Rightarrow> u32 \<Rightarrow> nat \<Rightarrow> u32 \<times> u32 \<times> nat" where
  "fmtsiz_scale f r pwr =
     (if f \<ge> 1536 then fmtsiz_scale (f div 1024) (((f mod 1024) * 10) div 1024) (Suc pwr)
      else (f, r, pwr))"
  by pat_completeness auto
termination
  by (relation "measure (\<lambda>(f, _, _). unat f)")
    (auto simp: unat_div word_le_nat_alt word_less_nat_alt)

declare fmtsiz_scale.simps [simp del]

definition fmtsiz_pwrs :: bytes where
  "fmtsiz_pwrs = lit ''kMGPTE???''"

definition put :: "bytes \<times> nat \<Rightarrow> u8 \<Rightarrow> (bytes \<times> nat) res" where
  "put bl c = (case bl of (buf, l) \<Rightarrow> bindR (wr buf l c) (\<lambda>buf. Inr (buf, Suc l)))"

definition fmtsiz :: "u32 \<Rightarrow> bytes \<Rightarrow> bytes res" where
  "fmtsiz sz out =
     (case fmtsiz_scale sz 0 0 of (f, r, pwr) \<Rightarrow>
      bindR (debug_ds (ucast f) out False False) (\<lambda>out.
      bindR (strlen out) (\<lambda>l.
      bindR (if pwr \<noteq> 0 then
               bindR (put (out, unat l) 46) (\<lambda>bl.
               bindR (put bl (48 + ucast r)) (\<lambda>bl.
               bindR (rd fmtsiz_pwrs (pwr - 1)) (\<lambda>p.
               bindR (put bl p) (\<lambda>bl. put bl 105))))
             else Inr (out, unat l)) (\<lambda>bl.
      bindR (put bl 66) (\<lambda>bl.
      bindR (put bl 0) (\<lambda>(out, _). Inr out))))))"

section \<open>debugc, debugs and the padded forms\<close>

record dbg =
  serial_level :: int
  disp_level :: int
  serial_out :: bytes
  disp_out :: bytes

definition debugc :: "int \<Rightarrow> u8 \<Rightarrow> dbg \<Rightarrow> dbg" where
  "debugc level c d =
     (let d = (if level \<ge> serial_level d then d\<lparr>serial_out := serial_out d @ [c]\<rparr> else d)
      in if level \<ge> disp_level d then d\<lparr>disp_out := disp_out d @ [c]\<rparr> else d)"

fun debugs :: "int \<Rightarrow> bytes \<Rightarrow> dbg \<Rightarrow> dbg res" where
  "debugs level [] d = Inl OutOfBounds"
| "debugs level (c # s) d = (if nz c then debugs level s (debugc level c d) else Inr d)"

text \<open>\<open>for (size_t i = l; i < c; ++i) debugc(level, p);\<close>\<close>

definition debug_pad :: "int \<Rightarrow> u8 \<Rightarrow> u32 \<Rightarrow> u32 \<Rightarrow> dbg \<Rightarrow> dbg" where
  "debug_pad level p l c d = (debugc level p ^^ (unat c - unat l)) d"

definition debugspl :: "int \<Rightarrow> bytes \<Rightarrow> u8 \<Rightarrow> u32 \<Rightarrow> dbg \<Rightarrow> dbg res" where
  "debugspl level s p c d =
     bindR (strlen s) (\<lambda>l. debugs level s (debug_pad level p l c d))"

definition debugspr :: "int \<Rightarrow> bytes \<Rightarrow> u8 \<Rightarrow> u32 \<Rightarrow> dbg \<Rightarrow> dbg res" where
  "debugspr level s p c d =
     bindR (strlen s) (\<lambda>l. bindR (debugs level s d) (\<lambda>d. Inr (debug_pad level p l c d)))"

definition debugsp :: "int \<Rightarrow> bytes \<Rightarrow> u8 \<Rightarrow> u32 \<Rightarrow> dbg \<Rightarrow> dbg res" where
  "debugsp level s padc padl d =
     (if sint padl > 0 then debugspl level s padc padl d
      else debugspr level s padc (- padl) d)"

section \<open>debugfv\<close>

datatype vararg = VA32 u32 | VA64 u64 | VAStr "bytes option"

type_synonym va_list = "vararg list"

fun va32 :: "va_list \<Rightarrow> (u32 \<times> va_list) res" where
  "va32 (VA32 x # args) = Inr (x, args)"
| "va32 args = Inl OutOfBounds"

fun va64 :: "va_list \<Rightarrow> (u64 \<times> va_list) res" where
  "va64 (VA64 x # args) = Inr (x, args)"
| "va64 args = Inl OutOfBounds"

fun vastr :: "va_list \<Rightarrow> (bytes option \<times> va_list) res" where
  "vastr (VAStr x # args) = Inr (x, args)"
| "vastr args = Inl OutOfBounds"

definition fmt_buf :: bytes where
  "fmt_buf = replicate 64 0"

text \<open>
  The field width: \<open>while (c >= '0' && c <= '9') ...\<close>, from the current character to the
  conversion character. \<open>padn\<close> is an \<open>int\<close> and wraps like one.
\<close>

fun fmt_width :: "bytes \<Rightarrow> u32 \<Rightarrow> u32 \<Rightarrow> (bytes \<times> u32) res" where
  "fmt_width [] padd padn = Inl OutOfBounds"
| "fmt_width (c # f) padd padn =
     (if is_digit c then fmt_width f padd (padn * 10 + padd * (ucast c - 48))
      else Inr (c # f, padn))"

text \<open>The conversions after \<open>%l\<close>, and the others; \<open>c\<close> is the conversion character.\<close>

definition fmt_long :: "int \<Rightarrow> u8 \<Rightarrow> u8 \<Rightarrow> u32 \<Rightarrow> va_list \<Rightarrow> dbg \<Rightarrow> (va_list \<times> dbg) res" where
  "fmt_long level c padc padn args d =
    (if c = ch CHR ''d'' then
       bindR (va64 args) (\<lambda>(v, args). bindR (debug_ds v fmt_buf True True) (\<lambda>buf.
       bindR (debugsp level buf padc padn d) (\<lambda>d. Inr (args, d))))
     else if c = ch CHR ''u'' then
       bindR (va64 args) (\<lambda>(v, args). bindR (debug_ds v fmt_buf False True) (\<lambda>buf.
       bindR (debugsp level buf padc padn d) (\<lambda>d. Inr (args, d))))
     else if c = ch CHR ''x'' then
       bindR (va64 args) (\<lambda>(v, args). bindR (debug_xs v fmt_buf debug_xs_set0) (\<lambda>buf.
       bindR (debugsp level buf padc padn d) (\<lambda>d. Inr (args, d))))
     else if c = ch CHR ''X'' then
       bindR (va64 args) (\<lambda>(v, args). bindR (debug_xs v fmt_buf debug_xs_set1) (\<lambda>buf.
       bindR (debugsp level buf padc padn d) (\<lambda>d. Inr (args, d))))
     else if c = ch CHR ''p'' then
       bindR (va64 args) (\<lambda>(v, args).
       let d = debugc level (ch CHR ''x'') (debugc level (ch CHR ''0'') d) in
       bindR (debug_xs v fmt_buf debug_xs_set0) (\<lambda>buf.
       bindR (debugspl level buf (ch CHR ''0'') 16 d) (\<lambda>d. Inr (args, d))))
     else Inr (args, debugc level c (debugc level (ch CHR ''l'') (debugc level (ch CHR ''%'') d))))"

definition fmt_conv :: "int \<Rightarrow> u8 \<Rightarrow> u8 \<Rightarrow> u32 \<Rightarrow> va_list \<Rightarrow> dbg \<Rightarrow> (va_list \<times> dbg) res" where
  "fmt_conv level c padc padn args d =
    (if c = ch CHR ''c'' then
       bindR (va32 args) (\<lambda>(v, args). Inr (args, debugc level (ucast v) d))
     else if c = ch CHR ''d'' then
       bindR (va32 args) (\<lambda>(v, args). bindR (debug_ds (ucast v) fmt_buf True False) (\<lambda>buf.
       bindR (debugsp level buf padc padn d) (\<lambda>d. Inr (args, d))))
     else if c = ch CHR ''u'' then
       bindR (va32 args) (\<lambda>(v, args). bindR (debug_ds (ucast v) fmt_buf False False) (\<lambda>buf.
       bindR (debugsp level buf padc padn d) (\<lambda>d. Inr (args, d))))
     else if c = ch CHR ''x'' then
       bindR (va32 args) (\<lambda>(v, args). bindR (debug_xs (ucast v) fmt_buf debug_xs_set0) (\<lambda>buf.
       bindR (debugsp level buf padc padn d) (\<lambda>d. Inr (args, d))))
     else if c = ch CHR ''X'' then
       bindR (va32 args) (\<lambda>(v, args). bindR (debug_xs (ucast v) fmt_buf debug_xs_set1) (\<lambda>buf.
       bindR (debugsp level buf padc padn d) (\<lambda>d. Inr (args, d))))
     else if c = ch CHR ''p'' then
       bindR (va32 args) (\<lambda>(v, args).
       let d = debugc level (ch CHR ''x'') (debugc level (ch CHR ''0'') d) in
       bindR (debug_xs (ucast v) fmt_buf debug_xs_set0) (\<lambda>buf.
       bindR (debugspl level buf (ch CHR ''0'') 8 d) (\<lambda>d. Inr (args, d))))
     else if c = ch CHR ''s'' then
       bindR (vastr args) (\<lambda>(v, args).
       bindR (debugsp level (case v of Some s \<Rightarrow> s | None \<Rightarrow> lit ''(null)'') padc padn d) (\<lambda>d.
       Inr (args, d)))
     else Inr (args, debugc level c (debugc level (ch CHR ''%'') d)))"

text \<open>
  One directive: \<open>f\<close> points to the character after \<open>%\<close>. The result has the pointer to the last
  character the directive uses; the caller advances past it.
\<close>

definition fmt_flags :: "bytes \<Rightarrow> (u8 \<times> bytes \<times> u32) res" where
  "fmt_flags f =
     bindR (deref f) (\<lambda>c.
       let padc = (if c = ch CHR ''0'' then c else ch CHR '' '') in
       if c = ch CHR ''-'' then bindR (deref (tl f)) (\<lambda>_. Inr (padc, tl f, - 1))
       else Inr (padc, f, 1))"

definition fmt_directive :: "int \<Rightarrow> bytes \<Rightarrow> va_list \<Rightarrow> dbg \<Rightarrow> (bytes \<times> va_list \<times> dbg) res" where
  "fmt_directive level f args d =
     bindR (fmt_flags f) (\<lambda>(padc, f, padd).
     bindR (fmt_width f padd 0) (\<lambda>(f, padn).
     bindR (deref f) (\<lambda>c.
       if c = ch CHR ''l'' then
         bindR (deref (tl f)) (\<lambda>c.
         bindR (fmt_long level c padc padn args d) (\<lambda>(args, d). Inr (tl f, args, d)))
       else
         bindR (fmt_conv level c padc padn args d) (\<lambda>(args, d). Inr (f, args, d)))))"

lemma fmt_width_length: "fmt_width f a b = Inr (f', n) \<Longrightarrow> length f' \<le> length f"
  by (induction f a b rule: fmt_width.induct) (auto split: if_splits)

lemma fmt_flags_length: "fmt_flags f = Inr (c, f', n) \<Longrightarrow> length f' \<le> length f"
  by (auto simp: fmt_flags_def bindR_eq_Inr Let_def split: if_splits)

lemma fmt_directive_length: "fmt_directive level f args d = Inr (f', r) \<Longrightarrow> length f' \<le> length f"
  by (force simp: fmt_directive_def bindR_eq_Inr split: if_splits prod.splits
      dest: fmt_width_length fmt_flags_length)

function debugfv :: "int \<Rightarrow> bytes \<Rightarrow> va_list \<Rightarrow> dbg \<Rightarrow> dbg res" where
  "debugfv level fmt args d =
     bindR (deref fmt) (\<lambda>c.
       if c = 0 then Inr d
       else if c = ch CHR ''%'' then
         bindR (fmt_directive level (tl fmt) args d) (\<lambda>(f, args, d).
           debugfv level (tl f) args d)
       else debugfv level (tl fmt) args (debugc level c d))"
  by pat_completeness auto
termination
  by (relation "measure (\<lambda>(_, fmt, _, _). length fmt)")
    (auto simp: deref_def split: list.splits dest!: fmt_directive_length)

declare debugfv.simps [simp del]

definition debugf :: "int \<Rightarrow> bytes \<Rightarrow> va_list \<Rightarrow> dbg \<Rightarrow> dbg res" where
  "debugf level f args d = debugfv level f args d"

section \<open>debug_dump\<close>

text \<open>
  The memory is the array \<open>block\<close> at address \<open>addr\<close>; \<open>len\<close> may be smaller than the array. A
  16-bit word is read whenever its first byte is before \<open>len\<close>, so an odd \<open>len\<close> reads one byte
  more. (With \<open>len\<close> above \<open>0xFFFFFFF0\<close> the index of the code wraps; the model's does not.)
\<close>

definition dump_nibble :: "int \<Rightarrow> u8 \<Rightarrow> dbg \<Rightarrow> dbg res" where
  "dump_nibble level v d = bindR (rd debug_xs_set1 (unat (v AND 15))) (\<lambda>c. Inr (debugc level c d))"

definition dump_word :: "int \<Rightarrow> bytes \<Rightarrow> nat \<Rightarrow> nat \<Rightarrow> dbg \<Rightarrow> dbg res" where
  "dump_word level block len j d =
     bindR (if j < len then
              bindR (rd block j) (\<lambda>lo. bindR (rd block (Suc j)) (\<lambda>hi.
              bindR (dump_nibble level (drop_bit 4 lo) d) (\<lambda>d.
              bindR (dump_nibble level lo d) (\<lambda>d.
              bindR (dump_nibble level (drop_bit 4 hi) d) (\<lambda>d.
              dump_nibble level hi d)))))
            else Inr (debugc level (ch CHR '' '') (debugc level (ch CHR '' '') d)))
       (\<lambda>d. Inr (debugc level (ch CHR '' '') d))"

definition dump_char :: "int \<Rightarrow> bytes \<Rightarrow> nat \<Rightarrow> dbg \<Rightarrow> dbg res" where
  "dump_char level block j d =
     bindR (rd block j) (\<lambda>c. Inr (debugc level (if isprint c then c else ch CHR ''.'') d))"

definition dump_line :: "int \<Rightarrow> u32 \<Rightarrow> bytes \<Rightarrow> nat \<Rightarrow> nat \<Rightarrow> dbg \<Rightarrow> dbg res" where
  "dump_line level addr block len i d =
     bindR (debugf level (lit ''%p: '') [VA32 (addr + of_nat i)] d) (\<lambda>d.
     bindR (foldR (\<lambda>k. dump_word level block len (i + 2 * k)) [0..<8] d) (\<lambda>d.
     bindR (foldR (dump_char level block) [i..<min (i + 16) len] (debugc level (ch CHR '' '') d)) (\<lambda>d.
     Inr (debugc level 10 d))))"

definition debug_dump :: "int \<Rightarrow> u32 \<Rightarrow> bytes \<Rightarrow> u32 \<Rightarrow> dbg \<Rightarrow> dbg res" where
  "debug_dump level addr block len d =
     bindR (debugf level (lit ''--- Memory dump at %p, %uB ---\<newline>'') [VA32 addr, VA32 len] d) (\<lambda>d.
     bindR (foldR (\<lambda>k. dump_line level addr block (unat len) (16 * k)) [0..<(unat len + 15) div 16] d) (\<lambda>d.
     debugf level (lit ''--- End dump ---\<newline>'') [] d))"

section \<open>The number routines print what they should\<close>

lemma xor_swap_ok:
  assumes "i < length buf" "j < length buf" "i \<noteq> j"
  shows "xor_swap buf i j = Inr (buf[i := buf ! j, j := buf ! i])"
  using assms
  by (simp add: xor_swap_def res_simps list_update_swap xor.assoc xor_cancel_mid)

lemma rev_loop_nth:
  assumes "j < length buf"
  shows "rev_loop buf i j =
    Inr (map (\<lambda>k. if i \<le> k \<and> k \<le> j then buf ! (i + j - k) else buf ! k) [0..<length buf])"
  using assms
proof (induction buf i j rule: rev_loop.induct)
  case (1 buf i j)
  show ?case
  proof (cases "i < j")
    case False
    then show ?thesis using "1.prems"
      by (subst rev_loop.simps) (auto intro!: nth_equalityI arg_cong [where f = "(!) buf"])
  next
    case True
    let ?b = "buf[i := buf ! j, j := buf ! i]"
    have sw: "xor_swap buf i j = Inr ?b" using True "1.prems" by (simp add: xor_swap_ok)
    then have "rev_loop buf i j = rev_loop ?b (Suc i) (j - 1)"
      using True by (subst rev_loop.simps) simp
    also have "\<dots> = Inr (map (\<lambda>k. if Suc i \<le> k \<and> k \<le> j - 1 then ?b ! (Suc i + (j - 1) - k)
        else ?b ! k) [0..<length buf])"
      using "1.IH" [OF True sw] "1.prems" by simp
    also have "\<dots> = Inr (map (\<lambda>k. if i \<le> k \<and> k \<le> j then buf ! (i + j - k) else buf ! k)
        [0..<length buf])"
      using True "1.prems" by (auto intro!: nth_equalityI simp: nth_list_update)
    finally show ?thesis .
  qed
qed

lemma rev_loop_ok:
  assumes "n \<le> length buf" "0 < n"
  shows "rev_loop buf 0 (n - 1) = Inr (rev (take n buf) @ drop n buf)"
  using assms
  by (auto simp: rev_loop_nth nth_append rev_nth min_def intro!: nth_equalityI arg_cong [where f = "(!) buf"])

fun dec_rev :: "nat \<Rightarrow> bytes" where
  "dec_rev n = (if n = 0 then [] else (48 + of_nat (n mod 10)) # dec_rev (n div 10))"

declare dec_rev.simps [simp del]

lemma dec_rev_0 [simp]: "dec_rev 0 = []"
  by (simp add: dec_rev.simps)

lemma dec_rev_pos: "0 < n \<Longrightarrow> dec_rev n = (48 + of_nat (n mod 10)) # dec_rev (n div 10)"
  by (simp add: dec_rev.simps)

lemma dec_rev_length: "n < 10 ^ k \<Longrightarrow> length (dec_rev n) \<le> k"
proof (induction k arbitrary: n)
  case (Suc k)
  then show ?case by (cases "n = 0") (auto simp: dec_rev_pos less_mult_imp_div_less mult.commute)
qed simp

lemma digit_nz: "k < 10 \<Longrightarrow> (48 + of_nat k :: u8) \<noteq> 0 \<and> is_digit (48 + of_nat k)
   \<and> (ucast (48 + of_nat k :: u8) :: u32) - 48 = of_nat k"
proof -
  assume "k < 10"
  then have "k \<in> {0,1,2,3,4,5,6,7,8,9}" by auto
  then show ?thesis by (elim insertE) (auto simp: is_digit_def)
qed

lemma dec_rev_digits: "d \<in> set (dec_rev n) \<Longrightarrow> nz d \<and> is_digit d"
  by (induction n rule: dec_rev.induct) (metis digit_nz dec_rev_0 dec_rev_pos empty_iff empty_set neq0_conv set_ConsD mod_less_divisor zero_less_numeral)

lemma ds_digits_ok:
  assumes "c + length (dec_rev (unat v)) \<le> length buf"
  shows "ds_digits v buf c = Inr (take c buf @ dec_rev (unat v) @
    drop (c + length (dec_rev (unat v))) buf, c + length (dec_rev (unat v)))"
  using assms
proof (induction v buf c rule: ds_digits.induct)
  case (1 v buf c)
  show ?case
  proof (cases "v = 0")
    case True
    then show ?thesis by (subst ds_digits.simps) simp
  next
    case False
    then have pos: "0 < unat v" by (simp add: unat_gt_0)
    let ?d = "48 + ucast (v mod 10) :: u8" and ?r = "dec_rev (unat (v div 10))"
    have d: "dec_rev (unat v) = ?d # ?r"
      using pos by (simp add: dec_rev_pos unat_div unat_mod ucast_of_nat_unat)
    have c: "c < length buf" using "1.prems" d by simp
    then have w: "wr buf c ?d = Inr (buf[c := ?d])" by (simp add: res_simps)
    have "Suc c + length ?r \<le> length (buf[c := ?d])" using "1.prems" d by simp
    note IH = "1.IH" [OF False w this]
    have "ds_digits v buf c = ds_digits (v div 10) (buf[c := ?d]) (Suc c)"
      using False w by (subst ds_digits.simps) simp
    also have "\<dots> = Inr (take (Suc c) (buf[c := ?d]) @ ?r @
        drop (Suc c + length ?r) (buf[c := ?d]), Suc c + length ?r)"
      by (rule IH)
    also have "take (Suc c) (buf[c := ?d]) = take c buf @ [?d]"
      using c by (simp add: take_Suc_conv_app_nth)
    finally show ?thesis using d by simp
  qed
qed

definition dec_str :: "nat \<Rightarrow> bytes" where
  "dec_str n = (if n = 0 then [48] else rev (dec_rev n))"

definition sgn_str :: "u64 \<times> bool \<Rightarrow> bytes" where
  "sgn_str p = (if snd p then [45] else []) @ dec_str (unat (fst p))"

lemma dec_str_length: "n < 10 ^ k \<Longrightarrow> 0 < k \<Longrightarrow> length (dec_str n) \<le> k"
  by (simp add: dec_str_def dec_rev_length)

lemma dec_str_digits: "d \<in> set (dec_str n) \<Longrightarrow> nz d \<and> is_digit d"
  by (auto simp: dec_str_def is_digit_def split: if_splits dest!: dec_rev_digits)

lemma ds_magnitude_nz: "x \<noteq> 0 \<Longrightarrow> fst (ds_magnitude x s sz) \<noteq> 0"
  by (auto simp: ds_magnitude_def scast_32_64_eq_0)

lemma debug_ds_ok:
  assumes "length (sgn_str (ds_magnitude x s sz)) < length res"
  shows "debug_ds x res s sz = Inr (sgn_str (ds_magnitude x s sz) @ 0 #
     drop (Suc (length (sgn_str (ds_magnitude x s sz)))) res)"
proof (cases "x = 0")
  case True
  then obtain a b r where "res = a # b # r" using assms
    by (cases res; cases "tl res") (auto simp: ds_magnitude_def sgn_str_def dec_str_def split: if_splits)
  then show ?thesis using True by (simp add: debug_ds_def wr_def ds_magnitude_def sgn_str_def dec_str_def)
next
  case False
  obtain v neg where vn: "ds_magnitude x s sz = (v, neg)" by fastforce
  then have v: "0 < unat v" using ds_magnitude_nz [OF False, of s sz] by (simp add: unat_gt_0)
  let ?d = "dec_rev (unat v)" and ?m = "if neg then [45] else [] :: bytes"
  have len: "length (?d @ ?m) < length res" using assms vn v by (auto simp: sgn_str_def dec_str_def)
  have d: "ds_digits v res 0 = Inr (?d @ drop (length ?d) res, length ?d)"
    using ds_digits_ok [of 0 v res] len by simp
  let ?n = "length (?d @ ?m)"
  have pos: "0 < ?n" using v by (simp add: dec_rev_pos)
  have "debug_ds x res s sz = rev_loop (?d @ ?m @ 0 # drop (Suc ?n) res) 0 (?n - 1)"
    using False vn d len
    by (cases neg) (auto simp: debug_ds_def wr_def Let_def list_update_append list_update_drop_0 list_update_drop_1)
  also have "\<dots> = Inr (rev (?d @ ?m) @ 0 # drop (Suc ?n) res)"
    using rev_loop_ok [of ?n "?d @ ?m @ 0 # drop (Suc ?n) res"] pos by simp
  finally show ?thesis using vn v by (simp add: sgn_str_def dec_str_def)
qed

lemma debug_ds_cstr:
  assumes "length (sgn_str (ds_magnitude x s sz)) < length res"
  shows "\<exists>buf. debug_ds x res s sz = Inr buf \<and> length buf = length res \<and>
    cstr buf (sgn_str (ds_magnitude x s sz))"
  using assms
  by (auto simp: debug_ds_ok sgn_str_def intro!: cstr_append dest: dec_str_digits)

definition int_str :: "int \<Rightarrow> bytes" where
  "int_str i = (if i < 0 then 45 # dec_str (nat (- i)) else dec_str (nat i))"

lemma sgn_str_signed64: "sgn_str (ds_magnitude x True True) = int_str (sint x)"
  by (auto simp: ds_magnitude_def sgn_str_def int_str_def unat_uminus_neg unat_sint_nonneg)

lemma sgn_str_unsigned: "sgn_str (ds_magnitude x False sz) = dec_str (unat x)"
  by (simp add: ds_magnitude_def sgn_str_def)

text \<open>\<open>%d\<close>: the 32-bit case is exact for every value but the most negative one.\<close>

lemma sgn_str_signed32:
  assumes "sint (y :: u32) \<noteq> - 2147483648"
  shows "sgn_str (ds_magnitude (ucast y) True False) = int_str (sint y)"
proof (cases "sint y < 0")
  case True
  have "- 2147483648 \<le> sint y" using sint_greater_eq [of y] by simp
  then have "- sint y < 2147483648" using assms by linarith
  then have "unat (- y) < 2147483648" by (subst unat_uminus_neg [OF True]) linarith
  then have "\<not> sint (- y) < 0" by (simp only: sint32_neg_iff not_le)
  then have "unat (scast (- y) :: u64) = nat (- sint y)"
    using True by (simp add: unat_scast_pos unat_uminus_neg)
  then show ?thesis using True by (simp add: ds_magnitude_def sgn_str_def int_str_def ucast_up_ucast_id is_up)
next
  case False
  moreover have "unat (ucast y :: u64) = unat y" by (simp add: unat_ucast_up)
  ultimately show ?thesis
    by (simp add: ds_magnitude_def sgn_str_def int_str_def ucast_up_ucast_id is_up unat_sint_nonneg)
qed

section \<open>atoi inverts the decimal output\<close>

lemma atoi_loop_digits:
  "cstr p s \<Longrightarrow> (\<forall>c\<in>set s. is_digit c) \<Longrightarrow>
   atoi_loop p r = Inr (foldl (\<lambda>r c. r * 10 + (ucast c - 48)) r s)"
  by (induction s arbitrary: p r) auto

lemma foldr_dec_rev:
  "foldr (\<lambda>c r. r * 10 + (ucast c - 48)) (dec_rev n) 0 = (of_nat n :: u32)"
proof (induction n rule: dec_rev.induct)
  case (1 n)
  show ?case
  proof (cases "n = 0")
    case False
    have "of_nat (n div 10) * 10 + of_nat (n mod 10) = (of_nat n :: u32)"
      by (metis div_mult_mod_eq of_nat_add of_nat_mult of_nat_numeral)
    then show ?thesis using False "1.IH" digit_nz [of "n mod 10"] by (simp add: dec_rev_pos)
  qed simp
qed

lemma atoi_dec_str: "cstr p (dec_str n) \<Longrightarrow> atoi p = Inr (of_nat n)"
  by (simp add: atoi_def atoi_loop_digits dec_str_digits foldl_conv_foldr foldr_dec_rev dec_str_def
      split: if_splits)

section \<open>hex\<close>

fun hex_rev :: "bytes \<Rightarrow> nat \<Rightarrow> bytes" where
  "hex_rev cset n = (if n = 0 then [] else cset ! (n mod 16) # hex_rev cset (n div 16))"

declare hex_rev.simps [simp del]

lemma hex_rev_0 [simp]: "hex_rev cset 0 = []"
  by (simp add: hex_rev.simps)

lemma hex_rev_pos: "0 < n \<Longrightarrow> hex_rev cset n = cset ! (n mod 16) # hex_rev cset (n div 16)"
  by (simp add: hex_rev.simps)

lemma hex_rev_length: "n < 16 ^ k \<Longrightarrow> length (hex_rev cset n) \<le> k"
proof (induction k arbitrary: n)
  case (Suc k)
  then show ?case by (cases "n = 0") (auto simp: hex_rev_pos less_mult_imp_div_less mult.commute)
qed simp

lemma hex_rev_set: "16 \<le> length cset \<Longrightarrow> set (hex_rev cset n) \<subseteq> set (take 16 cset)"
proof (induction cset n rule: hex_rev.induct)
  case (1 cset n)
  have "cset ! (n mod 16) = take 16 cset ! (n mod 16)" by simp
  moreover have "n mod 16 < length (take 16 cset)" using "1.prems" by simp
  ultimately have "cset ! (n mod 16) \<in> set (take 16 cset)" by (metis nth_mem)
  then show ?case using 1 by (cases "n = 0") (auto simp: hex_rev_pos)
qed

lemma xs_digits_ok:
  assumes "16 \<le> length cset" "c + length (hex_rev cset (unat v)) \<le> length buf"
  shows "xs_digits v cset buf c = Inr (take c buf @ hex_rev cset (unat v) @
    drop (c + length (hex_rev cset (unat v))) buf, c + length (hex_rev cset (unat v)))"
  using assms
proof (induction v cset buf c rule: xs_digits.induct)
  case (1 v cset buf c)
  show ?case
  proof (cases "v = 0")
    case True
    then show ?thesis by (subst xs_digits.simps) simp
  next
    case False
    then have pos: "0 < unat v" by (simp add: unat_gt_0)
    let ?d = "cset ! (unat v mod 16)" and ?r = "hex_rev cset (unat (drop_bit 4 v))"
    have d: "hex_rev cset (unat v) = ?d # ?r"
      using pos by (simp add: hex_rev_pos drop_bit_eq_div unat_div)
    have r: "rd cset (unat (v AND 0xF)) = Inr ?d"
      using "1.prems"(1) by (simp add: unat_and_15 rd_def order_less_le_trans [OF mod_less_divisor])
    have c: "c < length buf" using "1.prems" d by simp
    then have w: "wr buf c ?d = Inr (buf[c := ?d])" by (simp add: res_simps)
    have "Suc c + length ?r \<le> length (buf[c := ?d])" using "1.prems" d by simp
    note IH = "1.IH" [OF False r w "1.prems"(1) this]
    have "xs_digits v cset buf c = xs_digits (drop_bit 4 v) cset (buf[c := ?d]) (Suc c)"
      using False r w by (subst xs_digits.simps) simp
    also have "\<dots> = Inr (take (Suc c) (buf[c := ?d]) @ ?r @
        drop (Suc c + length ?r) (buf[c := ?d]), Suc c + length ?r)"
      by (rule IH)
    also have "take (Suc c) (buf[c := ?d]) = take c buf @ [?d]"
      using c by (simp add: take_Suc_conv_app_nth)
    finally show ?thesis using d by simp
  qed
qed

definition hex_str :: "bytes \<Rightarrow> nat \<Rightarrow> bytes" where
  "hex_str cset n = (if n = 0 then [48] else rev (hex_rev cset n))"

lemma debug_xs_ok:
  assumes "16 \<le> length cset" "length (hex_str cset (unat v)) < length res"
  shows "debug_xs v res cset = Inr (hex_str cset (unat v) @ 0 #
     drop (Suc (length (hex_str cset (unat v)))) res)"
proof (cases "v = 0")
  case True
  then obtain a b r where "res = a # b # r" using assms
    by (cases res; cases "tl res") (auto simp: hex_str_def split: if_splits)
  then show ?thesis using True by (simp add: debug_xs_def wr_def hex_str_def)
next
  case False
  then have v: "0 < unat v" by (simp add: unat_gt_0)
  let ?d = "hex_rev cset (unat v)"
  have len: "length ?d < length res" using assms v by (auto simp: hex_str_def)
  have d: "xs_digits v cset res 0 = Inr (?d @ drop (length ?d) res, length ?d)"
    using xs_digits_ok [of cset 0 v res] len assms(1) by simp
  let ?n = "length ?d"
  have pos: "0 < ?n" using v by (simp add: hex_rev_pos)
  have "debug_xs v res cset = rev_loop (?d @ 0 # drop (Suc ?n) res) 0 (?n - 1)"
    using False d len by (simp add: debug_xs_def wr_def list_update_append list_update_drop_0)
  also have "\<dots> = Inr (rev ?d @ 0 # drop (Suc ?n) res)"
    using rev_loop_ok [of ?n "?d @ 0 # drop (Suc ?n) res"] pos by simp
  finally show ?thesis using v by (simp add: hex_str_def)
qed

section \<open>fmtsiz\<close>

lemma fmtsiz_scale_bounds:
  "r \<le> 9 \<Longrightarrow> unat f < 1536 * 1024 ^ k \<Longrightarrow> fmtsiz_scale f r pwr = (f', r', pwr') \<Longrightarrow>
   f' < 1536 \<and> r' \<le> 9 \<and> pwr' \<le> pwr + k"
proof (induction f r pwr arbitrary: k rule: fmtsiz_scale.induct)
  case (1 f r pwr)
  show ?case
  proof (cases "f \<ge> 1536")
    case False
    then show ?thesis using "1.prems" by (subst (asm) fmtsiz_scale.simps) auto
  next
    case True
    have "k \<noteq> 0"
    proof
      assume "k = 0"
      with True "1.prems"(2) show False by (simp add: word_le_nat_alt)
    qed
    then obtain k' where k: "k = Suc k'" by (cases k) auto
    have r: "((f mod 1024) * 10) div 1024 \<le> 9"
    proof -
      have m: "unat (f mod 1024) < 1024" by (simp add: unat_mod)
      then have "unat ((f mod 1024) * 10) = unat (f mod 1024) * 10"
        by (simp add: unat_word_ariths)
      then show ?thesis using m by (simp add: word_le_nat_alt unat_div)
    qed
    have "unat (f div 1024) < 1536 * 1024 ^ k'"
      using "1.prems"(2) k by (simp add: unat_div less_mult_imp_div_less)
    with "1.IH" [OF True r] show ?thesis
      using "1.prems"(3) True k by (subst (asm) fmtsiz_scale.simps) fastforce
  qed
qed

lemma put_ok: "l < length buf \<Longrightarrow> put (buf, l) c = Inr (buf[l := c], Suc l)"
  by (simp add: put_def wr_def)

text \<open>
  \<open>fmtsiz\<close> never writes past the 12-byte buffers its callers give it, whatever the size: it
  returns, and the buffer keeps its length.
\<close>

theorem fmtsiz_fits:
  assumes "12 \<le> length out"
  shows "\<exists>out'. fmtsiz sz out = Inr out' \<and> length out' = length out"
proof -
  obtain f r pwr where scale: "fmtsiz_scale sz 0 0 = (f, r, pwr)" using prod_cases3 by blast
  have "unat sz < 1536 * 1024 ^ 3" using unat_lt [of sz] by simp
  then have b: "f < 1536" "pwr \<le> 3" using fmtsiz_scale_bounds [of 0 sz 3, OF _ _ scale] by auto
  define s where "s = dec_str (unat f)"
  have "unat f < 10 ^ 4" using b(1) by (simp add: word_less_nat_alt)
  then have s4: "length s \<le> 4" unfolding s_def by (rule dec_str_length) simp
  have "sgn_str (ds_magnitude (ucast f) False False) = s"
    by (simp add: sgn_str_unsigned s_def unat_ucast_up)
  then have ds: "debug_ds (ucast f) out False False = Inr (s @ 0 # drop (Suc (length s)) out)"
    using debug_ds_ok [of "ucast f" False False out] assms s4 by simp
  have "cstr (s @ 0 # drop (Suc (length s)) out) s"
    by (rule cstr_append) (auto simp: s_def dest: dec_str_digits)
  then have len: "strlen (s @ 0 # drop (Suc (length s)) out) = Inr (of_nat (length s))"
    by (rule strlen_cstr)
  have u: "unat (of_nat (length s) :: u32) = length s" using s4 by (simp add: unat_of_nat)
  have p: "pwr \<noteq> 0 \<Longrightarrow> \<exists>c. rd fmtsiz_pwrs (pwr - 1) = Inr c"
    using b(2) by (simp add: rd_def fmtsiz_pwrs_def lit_def)
  show ?thesis
  proof (cases "pwr = 0")
    case True
    then show ?thesis using assms s4 u by (simp add: fmtsiz_def scale ds len put_ok)
  next
    case False
    then obtain c where "rd fmtsiz_pwrs (pwr - 1) = Inr c" using p by blast
    then show ?thesis using assms s4 u False by (simp add: fmtsiz_def scale ds len put_ok)
  qed
qed

theorem fmtsiz_fits_witness:
  "\<exists>out'. fmtsiz 3000000000 (replicate 12 0) = Inr out' \<and> length out' = 12"
  using fmtsiz_fits [of "replicate 12 0" 3000000000] by simp

section \<open>Properties of the number routines\<close>

lemma int_str_fits: "length (int_str (sint (x :: u64))) < 22"
proof -
  have "- (2 ^ 63) \<le> sint x" "sint x < 2 ^ 63"
    using sint_greater_eq [of x] sint_less [of x] by simp_all
  then have "nat (sint x) < 10 ^ 20" "nat (- sint x) < 10 ^ 20" by simp_all
  then have "length (dec_str (nat (sint x))) \<le> 20" "length (dec_str (nat (- sint x))) \<le> 20"
    by (auto intro!: dec_str_length)
  then show ?thesis by (simp add: int_str_def)
qed

lemma dec_str_fits: "length (dec_str (unat (x :: u64))) < 22"
proof -
  have "unat x < 10 ^ 20" using unat_lt [of x] by simp
  then have "length (dec_str (unat x)) \<le> 20" by (rule dec_str_length) simp
  then show ?thesis by simp
qed

text \<open>
  \<open>debug_ds\<close> in its signed 64-bit form (\<open>%ld\<close>) writes the decimal representation of every
  \<open>int64_t\<close>, the most negative one included, into any buffer of at least 22 bytes, and
  terminates it; nothing outside the buffer is written.
\<close>

theorem debug_ds_prints:
  assumes "22 \<le> length res"
  shows "\<exists>buf. debug_ds x res True True = Inr buf \<and> length buf = length res \<and>
    cstr buf (int_str (sint x))"
  using debug_ds_cstr [of x True True res] int_str_fits [of x] assms
  by (simp add: sgn_str_signed64)

theorem debug_ds_prints_witness:
  "\<exists>buf. debug_ds (- 1203) (replicate 64 0) True True = Inr buf \<and> length buf = 64 \<and>
    cstr buf (int_str (sint (- 1203 :: u64)))"
  using debug_ds_prints [of "replicate 64 0" "- 1203"] by simp



text \<open>
  The 32-bit signed form \<open>%d\<close> is exact for every value but the most negative one, which comes
  out as a 20-digit number: the negation is done in 32 bits, and its result is sign-extended.
\<close>

lemma debug_ds_prints32:
  assumes "22 \<le> length res" "sint (y :: u32) \<noteq> - 2147483648"
  shows "\<exists>buf. debug_ds (ucast y) res True False = Inr buf \<and> cstr buf (int_str (sint y))"
proof -
  have "length (int_str (sint y)) < 22"
    using int_str_fits [of "scast y"] by (simp add: sint_up_scast is_up)
  then show ?thesis
    using debug_ds_cstr [of "ucast y" True False res] assms by (auto simp: sgn_str_signed32)
qed

lemma debug_ds_int_min:
  "debug_ds (ucast (0x80000000 :: u32)) (replicate 22 0) True False =
   Inr (map of_char ''-18446744071562067968'' @ [0])"
  by code_simp

text \<open>
  \<open>debug_xs\<close> writes the hexadecimal digits of every 64-bit value into any buffer of at
  least 17 bytes and terminates the string.
\<close>

theorem debug_xs_prints:
  assumes "17 \<le> length res"
  shows "\<exists>buf. debug_xs v res debug_xs_set0 = Inr buf \<and> length buf = length res \<and>
    cstr buf (hex_str debug_xs_set0 (unat v))"
proof -
  have "unat v < 16 ^ 16" using unat_lt [of v] by simp
  then have len: "length (hex_str debug_xs_set0 (unat v)) \<le> 16"
    by (simp add: hex_str_def hex_rev_length)
  have "0 \<notin> set (take 16 debug_xs_set0)" by (simp add: debug_xs_set0_def lit_def)
  then have "0 \<notin> set (hex_rev debug_xs_set0 (unat v))"
    using hex_rev_set [of debug_xs_set0 "unat v"] by (auto simp: debug_xs_set0_def lit_def)
  then have "0 \<notin> set (hex_str debug_xs_set0 (unat v))" by (simp add: hex_str_def)
  then show ?thesis
    using debug_xs_ok [of debug_xs_set0 v res] len assms
    by (auto simp: debug_xs_set0_def lit_def intro!: cstr_append)
qed

theorem debug_xs_prints_witness:
  "\<exists>buf. debug_xs 48879 (replicate 64 0) debug_xs_set0 = Inr buf \<and> length buf = 64 \<and>
    cstr buf (hex_str debug_xs_set0 (unat (48879 :: u64)))"
  using debug_xs_prints [where res = "replicate 64 0" and v = 48879] by simp

end
