(* ===== verification/Heap.thy ===== *)
theory Heap
  imports Prelude
begin

text \<open>
  The kernel heap, \<open>src/src/sys/heap.c\<close>: an implicit list of blocks, each with a 16-byte packed
  header, inside byte-addressed memory. Addresses and sizes are 32-bit words and wrap as in C.
  The build enables the allocation counters (\<open>ENABLE_HEAP_ALLOC_COUNT\<close>) and leaves the trace
  output off; the debug prints are not modelled. The walks over the list follow the \<open>next\<close>
  pointers found in memory, so they are partial functions: \<open>None\<close> is a walk that never ends.
\<close>

named_theorems hdr_simps \<open>reading header fields and bytes after header writes\<close>

section \<open>Byte-addressed memory\<close>

type_synonym mem = "u32 \<Rightarrow> u8"

definition load32 :: "mem \<Rightarrow> u32 \<Rightarrow> u32" where
  "load32 m a = ucast (m a) OR push_bit 8 (ucast (m (a + 1)))
     OR push_bit 16 (ucast (m (a + 2))) OR push_bit 24 (ucast (m (a + 3)))"

definition store32 :: "mem \<Rightarrow> u32 \<Rightarrow> u32 \<Rightarrow> mem" where
  "store32 m a v = m(a := ucast v, a + 1 := ucast (drop_bit 8 v),
     a + 2 := ucast (drop_bit 16 v), a + 3 := ucast (drop_bit 24 v))"

section \<open>struct heap_block and the constants\<close>

definition HEAP_MAGIC :: u32 where "HEAP_MAGIC = 0xDEADF00D"
definition HEAP_FLG_USED :: u32 where "HEAP_FLG_USED = 0x10"
definition HEAP_FLG_EXCLUDE :: u32 where "HEAP_FLG_EXCLUDE = 0x20"

definition HEAP_MAX :: nat where "HEAP_MAX = 16"

text \<open>\<open>sizeof(struct heap_block)\<close> and \<open>HEAP_DATA\<close>\<close>

abbreviation hdr_size :: u32 where "hdr_size \<equiv> 16"

definition HEAP_DATA :: "u32 \<Rightarrow> u32" where
  "HEAP_DATA b = b + hdr_size"

definition MM_ALIGN_UP :: "u32 \<Rightarrow> u32 \<Rightarrow> u32" where
  "MM_ALIGN_UP p a = (p + a - 1) AND NOT (a - 1)"

definition blk_flags :: "mem \<Rightarrow> u32 \<Rightarrow> u32" where "blk_flags m b = load32 m b"
definition blk_size :: "mem \<Rightarrow> u32 \<Rightarrow> u32" where "blk_size m b = load32 m (b + 4)"
definition blk_prev :: "mem \<Rightarrow> u32 \<Rightarrow> u32" where "blk_prev m b = load32 m (b + 8)"
definition blk_next :: "mem \<Rightarrow> u32 \<Rightarrow> u32" where "blk_next m b = load32 m (b + 12)"

definition set_flags :: "u32 \<Rightarrow> u32 \<Rightarrow> mem \<Rightarrow> mem" where "set_flags b v m = store32 m b v"
definition set_size :: "u32 \<Rightarrow> u32 \<Rightarrow> mem \<Rightarrow> mem" where "set_size b v m = store32 m (b + 4) v"
definition set_prev :: "u32 \<Rightarrow> u32 \<Rightarrow> mem \<Rightarrow> mem" where "set_prev b v m = store32 m (b + 8) v"
definition set_next :: "u32 \<Rightarrow> u32 \<Rightarrow> mem \<Rightarrow> mem" where "set_next b v m = store32 m (b + 12) v"

definition is_used :: "mem \<Rightarrow> u32 \<Rightarrow> bool" where
  "is_used m b \<longleftrightarrow> nz (blk_flags m b AND HEAP_FLG_USED)"

definition has_magic :: "mem \<Rightarrow> u32 \<Rightarrow> bool" where
  "has_magic m b \<longleftrightarrow> blk_flags m b AND HEAP_MAGIC = HEAP_MAGIC"

record heap =
  hmem :: mem
  s_heap_regions :: "u32 list"
  heap_allocs :: u32
  heap_frees :: u32
  heap_alloc_bytes :: u32
  heap_free_bytes :: u32

section \<open>Regions\<close>

definition heap_init :: "heap \<Rightarrow> heap" where
  "heap_init h = h\<lparr>s_heap_regions := replicate HEAP_MAX 0\<rparr>"

text \<open>The loop that looks for a free region slot.\<close>

fun heap_add_slot :: "u32 \<Rightarrow> nat list \<Rightarrow> heap \<Rightarrow> heap res" where
  "heap_add_slot heap [] h = Inl Panic"
| "heap_add_slot heap (i # is) h =
     bindR (rd (s_heap_regions h) i) (\<lambda>r.
       if r = 0 then
         bindR (wr (s_heap_regions h) i heap) (\<lambda>rs. Inr (h\<lparr>s_heap_regions := rs\<rparr>))
       else heap_add_slot heap is h)"

definition heap_add_region :: "u32 \<Rightarrow> u32 \<Rightarrow> heap \<Rightarrow> heap res" where
  "heap_add_region a b h =
     (let a = MM_ALIGN_UP a 8;
          sz = b - a - hdr_size;
          m = set_next a 0 (set_prev a 0 (set_size a sz (set_flags a HEAP_MAGIC (hmem h))))
      in heap_add_slot a [0..<HEAP_MAX] (h\<lparr>hmem := m\<rparr>))"

definition region_get_intersect :: "u32 \<Rightarrow> u32 \<Rightarrow> u32 \<Rightarrow> u32 \<Rightarrow> bool \<times> u32 \<times> u32" where
  "region_get_intersect a sa b sb =
     (if a > b then (a - b < sb, a, min sa (sb - (a - b)))
      else (b - a < sa, b, min sb (sa - (b - a))))"

text \<open>
  One round of the loop of \<open>heap_remove_region\<close> for a region in use without a second block;
  \<open>start\<close> is a variable of the whole loop and is moved by a round that cuts the region in two.
\<close>

definition heap_remove_one :: "nat \<Rightarrow> u32 \<Rightarrow> u32 \<Rightarrow> heap \<Rightarrow> (heap \<times> u32 \<times> bool) res" where
  "heap_remove_one i start sz h =
     bindR (rd (s_heap_regions h) i) (\<lambda>base.
     let m = hmem h in
     if nz (blk_next m base) then Inr (h, start, False)
     else if fst (region_get_intersect base (hdr_size + blk_size m base) start sz) then
       (if start - base < hdr_size then
          bindR (wr (s_heap_regions h) i (start + sz + hdr_size)) (\<lambda>rs.
          Inr (h\<lparr>s_heap_regions := rs\<rparr>, start, True))
        else
          (let fin = start + sz;
               start = start - hdr_size;
               alloced = start;
               new_free = fin;
               m = set_prev alloced base m;
               m = set_flags alloced (HEAP_FLG_USED OR HEAP_FLG_EXCLUDE OR HEAP_MAGIC) m;
               m = set_size alloced sz m;
               m = set_next alloced new_free m;
               m = set_size new_free (blk_size m base - (fin - base) - hdr_size) m;
               m = set_flags new_free HEAP_MAGIC m;
               m = set_next new_free 0 m;
               m = set_prev new_free alloced m;
               m = set_size base (start - base - hdr_size) m;
               m = set_next base alloced m
           in Inr (h\<lparr>hmem := m\<rparr>, start, True)))
     else Inr (h, start, False))"

fun heap_remove_loop ::
  "nat list \<Rightarrow> u32 \<Rightarrow> u32 \<Rightarrow> bool \<Rightarrow> heap \<Rightarrow> (heap \<times> bool) res" where
  "heap_remove_loop [] start sz match h = Inr (h, match)"
| "heap_remove_loop (i # is) start sz match h =
     bindR (rd (s_heap_regions h) i) (\<lambda>r.
       if r = 0 then Inr (h, match)
       else bindR (heap_remove_one i start sz h) (\<lambda>(h, start, hit).
              heap_remove_loop is start sz (match \<or> hit) h))"

definition heap_remove_region :: "u32 \<Rightarrow> u32 \<Rightarrow> heap \<Rightarrow> heap res" where
  "heap_remove_region start sz h =
     bindR (heap_remove_loop [0..<HEAP_MAX] (start AND (- 8)) (MM_ALIGN_UP sz 16) False h)
       (\<lambda>(h, match). if match then Inr h else Inl Panic)"

section \<open>Allocation\<close>

definition count_alloc :: "u32 \<Rightarrow> heap \<Rightarrow> heap" where
  "count_alloc count h =
     h\<lparr>heap_allocs := heap_allocs h + 1, heap_alloc_bytes := heap_alloc_bytes h + count\<rparr>"

text \<open>Case 1 of the code: the block is taken whole. Case 2: a new block is cut off its end.\<close>

definition alloc_exact :: "u32 \<Rightarrow> u32 \<Rightarrow> mem \<Rightarrow> mem" where
  "alloc_exact it count m =
     set_size it count (set_flags it (blk_flags m it OR HEAP_FLG_USED) m)"

definition alloc_split :: "u32 \<Rightarrow> u32 \<Rightarrow> mem \<Rightarrow> mem" where
  "alloc_split it count m =
     (let newb = HEAP_DATA it + count;
          m = set_next newb (blk_next m it) m;
          m = set_prev newb it m;
          m = set_next it newb m;
          m = set_size newb (blk_size m it - count - hdr_size) m;
          m = set_size it count m;
          m = set_flags it (blk_flags m it OR HEAP_FLG_USED) m
      in set_flags newb HEAP_MAGIC m)"

partial_function (option) heap_alloc_single :: "heap \<Rightarrow> u32 \<Rightarrow> u32 \<Rightarrow> (heap \<times> u32) option" where
  "heap_alloc_single h it count =
     (if it = 0 then Some (h, 0)
      else if is_used (hmem h) it then heap_alloc_single h (blk_next (hmem h) it) count
      else if blk_size (hmem h) it < count then
        heap_alloc_single h (blk_next (hmem h) it) count
      else if blk_size (hmem h) it \<ge> count \<and> blk_size (hmem h) it < count + hdr_size then
        Some (count_alloc count (h\<lparr>hmem := alloc_exact it count (hmem h)\<rparr>), HEAP_DATA it)
      else
        Some (count_alloc count (h\<lparr>hmem := alloc_split it count (hmem h)\<rparr>), HEAP_DATA it))"

declare heap_alloc_single.simps [code]

fun heap_alloc_loop :: "u32 list \<Rightarrow> u32 \<Rightarrow> heap \<Rightarrow> (heap \<times> u32) option" where
  "heap_alloc_loop [] count h = Some (h, 0)"
| "heap_alloc_loop (r # rs) count h =
     (if r = 0 then Some (h, 0)
      else Option.bind (heap_alloc_single h r count) (\<lambda>(h', res).
        if nz res then Some (h', res) else heap_alloc_loop rs count h'))"

definition heap_alloc :: "u32 \<Rightarrow> heap \<Rightarrow> (heap \<times> u32) option" where
  "heap_alloc count h = heap_alloc_loop (s_heap_regions h) count h"

section \<open>Freeing\<close>

definition free_merge_next :: "u32 \<Rightarrow> mem \<Rightarrow> mem" where
  "free_merge_next it m =
     (let next = blk_next m it in
      if nz next \<and> \<not> is_used m next then
        (let m = set_size it (blk_size m it + blk_size m next + hdr_size) m;
             m = (if nz (blk_next m next) then set_prev (blk_next m next) it m else m);
             m = set_flags next (blk_flags m next AND NOT HEAP_MAGIC) m
         in set_next it (blk_next m next) m)
      else m)"

definition free_merge_prev :: "u32 \<Rightarrow> mem \<Rightarrow> mem" where
  "free_merge_prev it m =
     (if nz (blk_prev m it) \<and> \<not> is_used m (blk_prev m it) then
        (let it = blk_prev m it;
             next = blk_next m it;
             m = set_size it (blk_size m it + blk_size m next + hdr_size) m;
             m = set_flags next (blk_flags m next AND NOT HEAP_MAGIC) m;
             m = set_next it (blk_next m next) m
         in if nz (blk_next m it) then set_prev (blk_next m it) it m else m)
      else m)"

text \<open>The region argument of \<open>heap_free_single\<close> is not used by its body.\<close>

definition heap_free_single :: "u32 \<Rightarrow> heap \<Rightarrow> heap \<times> int" where
  "heap_free_single ptr h =
     (let it = ptr - hdr_size; m = hmem h in
      if has_magic m it \<and> is_used m it then
        (let h = h\<lparr>heap_frees := heap_frees h + 1,
                   heap_free_bytes := heap_free_bytes h + blk_size m it\<rparr>;
             m = set_flags it (blk_flags m it XOR HEAP_FLG_USED) m;
             m = free_merge_next it m;
             m = free_merge_prev it m
         in (h\<lparr>hmem := m\<rparr>, 0))
      else (h, - 1))"

fun heap_free_loop :: "u32 list \<Rightarrow> u32 \<Rightarrow> heap \<Rightarrow> heap res" where
  "heap_free_loop [] ptr h = Inl Panic"
| "heap_free_loop (r # rs) ptr h =
     (if r = 0 then Inl Panic
      else if ptr > r then
        (case heap_free_single ptr h of (h', res) \<Rightarrow>
          if res = 0 then Inr h' else heap_free_loop rs ptr h')
      else heap_free_loop rs ptr h)"

definition heap_free :: "u32 \<Rightarrow> heap \<Rightarrow> heap res" where
  "heap_free ptr h = (if ptr = 0 then Inr h else heap_free_loop (s_heap_regions h) ptr h)"

section \<open>Resizing\<close>

text \<open>The branch that makes a block smaller by \<open>- diff\<close> bytes, 16 or more.\<close>

definition realloc_shrink :: "u32 \<Rightarrow> u32 \<Rightarrow> u32 \<Rightarrow> mem \<Rightarrow> mem" where
  "realloc_shrink it count diff m =
     (let newb = HEAP_DATA it + count;
          m = set_size newb (- diff - hdr_size) m;
          m = set_prev newb it m;
          m = set_flags newb HEAP_MAGIC m;
          m = set_size it count m
      in if nz (blk_next m it) then
           (let m = set_next newb (blk_next m it) m;
                m = set_next it newb m;
                m = (if nz (blk_next m newb) then set_prev (blk_next m newb) newb m else m);
                next = blk_next m newb
            in if \<not> is_used m next then
                 (let m = set_size newb (blk_size m newb + (hdr_size + blk_size m next)) m;
                      m = set_next newb (blk_next m next) m;
                      m = (if nz (blk_next m next) then set_prev (blk_next m next) newb m else m)
                  in set_flags next (blk_flags m next XOR HEAP_MAGIC) m)
               else m)
         else set_next newb 0 m)"

definition realloc_absorb :: "u32 \<Rightarrow> u32 \<Rightarrow> u32 \<Rightarrow> mem \<Rightarrow> mem" where
  "realloc_absorb it count next m =
     (let m = set_next it (blk_next m next) m;
          m = (if nz (blk_next m it) then set_prev (blk_next m it) it m else m);
          m = set_flags next (blk_flags m next XOR HEAP_MAGIC) m
      in set_size it count m)"

definition realloc_insert :: "u32 \<Rightarrow> u32 \<Rightarrow> u32 \<Rightarrow> u32 \<Rightarrow> mem \<Rightarrow> mem" where
  "realloc_insert it count diff next m =
     (let newb = HEAP_DATA it + count;
          m = set_prev newb it m;
          m = set_next newb (blk_next m next) m;
          m = (if nz (blk_next m newb) then set_prev (blk_next m newb) newb m else m);
          m = set_next it newb m;
          m = set_flags next (blk_flags m next XOR HEAP_MAGIC) m;
          m = set_size newb (blk_size m next - diff) m;
          m = set_size it count m
      in set_flags newb HEAP_MAGIC m)"

text \<open>\<open>diff\<close> is a signed \<open>int\<close>; the comparisons with sizes are unsigned.\<close>

definition heap_realloc :: "u32 \<Rightarrow> u32 \<Rightarrow> heap \<Rightarrow> (heap \<times> u32) res" where
  "heap_realloc ptr count h =
     (let it = ptr - hdr_size; m = hmem h in
      if \<not> has_magic m it then Inl Panic
      else
        (let diff = count - blk_size m it in
         if sint diff < 0 then
           (if - diff \<ge> hdr_size then Inr (h\<lparr>hmem := realloc_shrink it count diff m\<rparr>, HEAP_DATA it)
            else Inr (h, HEAP_DATA it))
         else if nz (blk_next m it) \<and> \<not> is_used m (blk_next m it) then
           (let next = blk_next m it in
            if diff \<ge> blk_size m next \<and> diff - hdr_size \<le> blk_size m next then
              Inr (h\<lparr>hmem := realloc_absorb it count next m\<rparr>, HEAP_DATA it)
            else if diff < blk_size m next then
              Inr (h\<lparr>hmem := realloc_insert it count diff next m\<rparr>, HEAP_DATA it)
            else Inl Panic)
         else Inl Panic))"

section \<open>Statistics\<close>

record heap_stat =
  st_free :: u32
  st_used :: u32
  st_total :: u32
  st_blocks :: u32
  st_frags :: u32
  st_allocs :: u32
  st_frees :: u32
  st_alloc_bytes :: u32
  st_free_bytes :: u32

text \<open>\<open>HEAP_FLG_EXCLUDE\<close> marks the blocks that \<open>heap_remove_region\<close> takes out.\<close>

definition stat_block :: "mem \<Rightarrow> u32 \<Rightarrow> heap_stat \<Rightarrow> heap_stat" where
  "stat_block m it st =
     (let st = (if is_used m it then
                  if \<not> nz (blk_flags m it AND HEAP_FLG_EXCLUDE)
                  then st\<lparr>st_used := st_used st + blk_size m it\<rparr> else st
                else st\<lparr>st_free := st_free st + blk_size m it\<rparr>)
      in st\<lparr>st_blocks := st_blocks st + 1\<rparr>)"

partial_function (option) stat_region :: "mem \<Rightarrow> u32 \<Rightarrow> heap_stat \<Rightarrow> heap_stat option" where
  "stat_region m it st =
     (if it = 0 then Some st else stat_region m (blk_next m it) (stat_block m it st))"

declare stat_region.simps [code]

fun stat_loop :: "mem \<Rightarrow> u32 list \<Rightarrow> heap_stat \<Rightarrow> heap_stat option" where
  "stat_loop m [] st = Some st"
| "stat_loop m (r # rs) st =
     (if r = 0 then Some st
      else Option.bind (stat_region m r (st\<lparr>st_frags := st_frags st + 1\<rparr>)) (stat_loop m rs))"

definition stat_zero :: heap_stat where
  "stat_zero = \<lparr>st_free = 0, st_used = 0, st_total = 0, st_blocks = 0, st_frags = 0,
     st_allocs = 0, st_frees = 0, st_alloc_bytes = 0, st_free_bytes = 0\<rparr>"

definition heap_stat_of :: "heap \<Rightarrow> heap_stat option" where
  "heap_stat_of h = map_option (\<lambda>st. st\<lparr>
       st_total := st_used st + st_free st + st_blocks st * hdr_size,
       st_allocs := heap_allocs h, st_frees := heap_frees h,
       st_alloc_bytes := heap_alloc_bytes h, st_free_bytes := heap_free_bytes h\<rparr>)
     (stat_loop (hmem h) (s_heap_regions h) stat_zero)"

section \<open>Reading back what was written\<close>

lemma load_store_same [hdr_simps]: "load32 (store32 m a v) a = v"
proof -
  have s: "load32 (store32 m a v) a = ucast (ucast v :: u8) OR push_bit 8 (ucast (ucast (drop_bit 8 v) :: u8))
     OR push_bit 16 (ucast (ucast (drop_bit 16 v) :: u8)) OR push_bit 24 (ucast (ucast (drop_bit 24 v) :: u8))"
    by (simp add: load32_def store32_def)
  have "bit (load32 (store32 m a v) a) n = bit v n" if "n < 32" for n
    unfolding s by (cases "n < 8"; cases "n < 16"; cases "n < 24") (use that in \<open>auto simp: bit_simps\<close>)
  then show ?thesis by (intro bit_word_eqI) simp
qed

text \<open>Bytes outside a written header, and headers outside a written range.\<close>

definition same_off :: "nat \<Rightarrow> nat \<Rightarrow> mem \<Rightarrow> mem \<Rightarrow> bool" where
  "same_off lo hi m m' \<longleftrightarrow> (\<forall>x. unat x < lo \<or> hi \<le> unat x \<longrightarrow> m' x = m x)"

lemma same_off_trans:
  "same_off lo hi m m' \<Longrightarrow> same_off lo hi m' m'' \<Longrightarrow> same_off lo hi m m''"
  by (simp add: same_off_def)

lemma same_off_refl: "same_off lo hi m m"
  by (simp add: same_off_def)

lemma same_off_widen: "same_off lo hi m m' \<Longrightarrow> lo' \<le> lo \<Longrightarrow> hi \<le> hi' \<Longrightarrow> same_off lo' hi' m m'"
  by (auto simp: same_off_def)

lemma same_offD: "same_off lo hi m m' \<Longrightarrow> unat x < lo \<or> hi \<le> unat x \<Longrightarrow> m' x = m x"
  by (auto simp: same_off_def)

lemma unat_plus_small:
  assumes "unat (a :: u32) + k \<le> 2 ^ 32" "i < k"
  shows "unat (a + of_nat i) = unat a + i"
proof -
  have "i < 2 ^ 32" using assms by linarith
  then have "unat (of_nat i :: u32) = i" by (simp add: unat_of_nat take_bit_nat_eq_self)
  then show ?thesis using assms by (subst unat_add_nowrap) auto
qed

lemma same_off_store32:
  assumes "unat a + 4 \<le> 2 ^ 32" "lo \<le> unat a" "unat a + 4 \<le> hi"
  shows "same_off lo hi m (store32 m a v)"
proof -
  have "x \<noteq> a + of_nat i" if "unat x < lo \<or> hi \<le> unat x" "i < 4" for x i
    using unat_plus_small [OF assms(1) that(2)] that assms by auto
  from this [of _ 0] this [of _ 1] this [of _ 2] this [of _ 3] show ?thesis
    by (auto simp: same_off_def store32_def)
qed

lemma load32_off:
  assumes "same_off lo hi m m'" "unat a + 4 \<le> 2 ^ 32" "unat a + 4 \<le> lo \<or> hi \<le> unat a"
  shows "load32 m' a = load32 m a"
proof -
  have "m' (a + of_nat i) = m (a + of_nat i)" if "i < 4" for i
    using unat_plus_small [OF assms(2) that] assms(3) that
    by (intro same_offD [OF assms(1)]) auto
  from this [of 0] this [of 1] this [of 2] this [of 3] show ?thesis by (simp add: load32_def)
qed

text \<open>Reading one field of a header after writing a field of the same header.\<close>

lemmas fld_defs = blk_flags_def blk_size_def blk_prev_def blk_next_def
  set_flags_def set_size_def set_prev_def set_next_def

lemma fld_off_hdr:
  assumes "unat b + 16 \<le> 2 ^ 32" "unat x < unat b \<or> unat b + 16 \<le> unat x"
  shows "set_flags b v m x = m x" "set_size b v m x = m x" "set_prev b v m x = m x" "set_next b v m x = m x"
proof -
  have u: "unat (b + 4) = unat b + 4" "unat (b + 8) = unat b + 8" "unat (b + 12) = unat b + 12"
    using assms(1) by (subst unat_add_nowrap; simp)+
  have "same_off (unat b) (unat b + 16) m (set_flags b v m)" "same_off (unat b) (unat b + 16) m (set_size b v m)"
    "same_off (unat b) (unat b + 16) m (set_prev b v m)" "same_off (unat b) (unat b + 16) m (set_next b v m)"
    unfolding fld_defs using assms(1) u by (auto intro!: same_off_store32)
  then show "set_flags b v m x = m x" "set_size b v m x = m x" "set_prev b v m x = m x" "set_next b v m x = m x"
    using assms(2) by (auto dest: same_offD)
qed

lemma fld_same [hdr_simps]:
  "blk_flags (set_flags b v m) b = v" "blk_size (set_size b v m) b = v"
  "blk_prev (set_prev b v m) b = v" "blk_next (set_next b v m) b = v"
  by (simp_all add: fld_defs hdr_simps)

lemma fld_other [hdr_simps]:
  "blk_flags (set_size b v m) b = blk_flags m b" "blk_flags (set_prev b v m) b = blk_flags m b"
  "blk_flags (set_next b v m) b = blk_flags m b" "blk_size (set_flags b v m) b = blk_size m b"
  "blk_size (set_prev b v m) b = blk_size m b" "blk_size (set_next b v m) b = blk_size m b"
  "blk_prev (set_flags b v m) b = blk_prev m b" "blk_prev (set_size b v m) b = blk_prev m b"
  "blk_prev (set_next b v m) b = blk_prev m b" "blk_next (set_flags b v m) b = blk_next m b"
  "blk_next (set_size b v m) b = blk_next m b" "blk_next (set_prev b v m) b = blk_next m b"
  by (simp_all add: fld_defs load32_def store32_def)

text \<open>A header that does not overlap the written one keeps its fields.\<close>

definition hdr_apart :: "u32 \<Rightarrow> u32 \<Rightarrow> bool" where
  "hdr_apart a b \<longleftrightarrow> unat a + 16 \<le> 2 ^ 32 \<and> unat b + 16 \<le> 2 ^ 32 \<and>
     (unat a + 16 \<le> unat b \<or> unat b + 16 \<le> unat a)"

lemma unat_fld:
  assumes "unat (b :: u32) + 16 \<le> 2 ^ 32"
  shows "unat (b + 4) = unat b + 4" "unat (b + 8) = unat b + 8" "unat (b + 12) = unat b + 12"
  using unat_plus_small [OF assms, of 4] unat_plus_small [OF assms, of 8]
    unat_plus_small [OF assms, of 12] by simp_all

lemma same_off_fld:
  assumes "unat b + 16 \<le> 2 ^ 32" "lo \<le> unat b" "unat b + 16 \<le> hi"
  shows "same_off lo hi m (set_flags b v m)" "same_off lo hi m (set_size b v m)"
    "same_off lo hi m (set_prev b v m)" "same_off lo hi m (set_next b v m)"
  using assms unat_fld [OF assms(1)]
  by (simp_all add: fld_defs same_off_store32)

lemma fld_off:
  assumes "same_off lo hi m m'" "unat b + 16 \<le> 2 ^ 32" "unat b + 16 \<le> lo \<or> hi \<le> unat b"
  shows "blk_flags m' b = blk_flags m b" "blk_size m' b = blk_size m b"
    "blk_prev m' b = blk_prev m b" "blk_next m' b = blk_next m b"
  using assms unat_fld [OF assms(2)]
  by (auto simp: fld_defs intro!: load32_off [OF assms(1)])

lemma fld_apart:
  assumes "hdr_apart a b"
  shows "blk_flags (set_flags a v m) b = blk_flags m b" "blk_flags (set_size a v m) b = blk_flags m b"
    "blk_flags (set_prev a v m) b = blk_flags m b" "blk_flags (set_next a v m) b = blk_flags m b"
    "blk_size (set_flags a v m) b = blk_size m b" "blk_size (set_size a v m) b = blk_size m b"
    "blk_size (set_prev a v m) b = blk_size m b" "blk_size (set_next a v m) b = blk_size m b"
    "blk_prev (set_flags a v m) b = blk_prev m b" "blk_prev (set_size a v m) b = blk_prev m b"
    "blk_prev (set_prev a v m) b = blk_prev m b" "blk_prev (set_next a v m) b = blk_prev m b"
    "blk_next (set_flags a v m) b = blk_next m b" "blk_next (set_size a v m) b = blk_next m b"
    "blk_next (set_prev a v m) b = blk_next m b" "blk_next (set_next a v m) b = blk_next m b"
proof -
  have a: "unat a + 16 \<le> 2 ^ 32" and b: "unat b + 16 \<le> 2 ^ 32"
    and d: "unat b + 16 \<le> unat a \<or> unat a + 16 \<le> unat b"
    using assms by (auto simp: hdr_apart_def)
  note w = same_off_fld [OF a order_refl order_refl, of m v]
  show "blk_flags (set_flags a v m) b = blk_flags m b" "blk_flags (set_size a v m) b = blk_flags m b"
    "blk_flags (set_prev a v m) b = blk_flags m b" "blk_flags (set_next a v m) b = blk_flags m b"
    "blk_size (set_flags a v m) b = blk_size m b" "blk_size (set_size a v m) b = blk_size m b"
    "blk_size (set_prev a v m) b = blk_size m b" "blk_size (set_next a v m) b = blk_size m b"
    "blk_prev (set_flags a v m) b = blk_prev m b" "blk_prev (set_size a v m) b = blk_prev m b"
    "blk_prev (set_prev a v m) b = blk_prev m b" "blk_prev (set_next a v m) b = blk_prev m b"
    "blk_next (set_flags a v m) b = blk_next m b" "blk_next (set_size a v m) b = blk_next m b"
    "blk_next (set_prev a v m) b = blk_next m b" "blk_next (set_next a v m) b = blk_next m b"
    by (rule fld_off [OF w(1) b d] fld_off [OF w(2) b d] fld_off [OF w(3) b d] fld_off [OF w(4) b d])+
qed

lemma same_off_set:
  assumes "same_off lo hi m m'" "unat b + 16 \<le> 2 ^ 32" "lo \<le> unat b" "unat b + 16 \<le> hi"
  shows "same_off lo hi m (set_flags b v m')" "same_off lo hi m (set_size b v m')"
    "same_off lo hi m (set_prev b v m')" "same_off lo hi m (set_next b v m')"
  using same_off_fld [OF assms(2-4)] assms(1) by (blast intro: same_off_trans)+


section \<open>The list of blocks\<close>

text \<open>
  The abstract heap of a region: its blocks in address order. \<open>chain m a bs lim\<close> says that the
  list of headers that starts at \<open>a\<close> in memory is \<open>bs\<close>, that the blocks do not overlap, and
  that the last one ends at or before \<open>lim\<close>. Free space between two blocks is allowed: the
  code leaves some when a block is taken whole.
\<close>

record block =
  baddr :: u32
  bsize :: u32
  bused :: bool

definition blk_end :: "block \<Rightarrow> nat" where
  "blk_end b = unat (baddr b) + 16 + unat (bsize b)"

fun chain_lim :: "block list \<Rightarrow> nat \<Rightarrow> nat" where
  "chain_lim [] lim = lim"
| "chain_lim (b # bs) lim = unat (baddr b)"

definition blk_ok :: "mem \<Rightarrow> block \<Rightarrow> bool" where
  "blk_ok m b \<longleftrightarrow> baddr b \<noteq> 0 \<and> has_magic m (baddr b) \<and> is_used m (baddr b) = bused b
     \<and> blk_size m (baddr b) = bsize b"

fun chain :: "mem \<Rightarrow> u32 \<Rightarrow> block list \<Rightarrow> nat \<Rightarrow> bool" where
  "chain m a [] lim \<longleftrightarrow> a = 0"
| "chain m a (b # bs) lim \<longleftrightarrow> a = baddr b \<and> blk_ok m b \<and> blk_end b \<le> chain_lim bs lim
     \<and> chain m (blk_next m a) bs lim"

text \<open>First fit on the abstract heap.\<close>

fun fit :: "u32 \<Rightarrow> block list \<Rightarrow> (u32 \<times> block list) option" where
  "fit c [] = None"
| "fit c (b # bs) =
     (if bused b \<or> bsize b < c then map_option (\<lambda>(p, bs'). (p, b # bs')) (fit c bs)
      else if unat (bsize b) < unat c + 16 then
        Some (HEAP_DATA (baddr b), b\<lparr>bsize := c, bused := True\<rparr> # bs)
      else
        Some (HEAP_DATA (baddr b), b\<lparr>bsize := c, bused := True\<rparr> #
          \<lparr>baddr = HEAP_DATA (baddr b) + c, bsize = bsize b - c - 16, bused = False\<rparr> # bs))"

definition used_byte :: "block list \<Rightarrow> u32 \<Rightarrow> bool" where
  "used_byte bs x \<longleftrightarrow> (\<exists>b \<in> set bs. bused b \<and> unat (baddr b) + 16 \<le> unat x \<and> unat x < blk_end b)"

lemma used_byte_simps [simp]:
  "\<not> used_byte [] x"
  "used_byte (b # bs) x \<longleftrightarrow> bused b \<and> unat (baddr b) + 16 \<le> unat x \<and> unat x < blk_end b \<or> used_byte bs x"
  by (auto simp: used_byte_def)

lemma blk_ok_cong:
  assumes "same_off lo hi m m'" "unat (baddr b) + 16 \<le> 2 ^ 32"
    "unat (baddr b) + 16 \<le> lo \<or> hi \<le> unat (baddr b)"
  shows "blk_ok m' b = blk_ok m b"
  using fld_off [OF assms] by (simp add: blk_ok_def has_magic_def is_used_def)

lemma blk_end_ge: "unat (baddr b) + 16 \<le> blk_end b"
  by (simp add: blk_end_def)

lemma chain_lim_le: "chain m a bs lim \<Longrightarrow> chain_lim bs lim \<le> lim"
proof (induction bs arbitrary: a)
  case (Cons b bs)
  then have "chain_lim bs lim \<le> lim" "blk_end b \<le> chain_lim bs lim" by auto
  then show ?case using blk_end_ge [of b] by simp
qed simp

lemma chain_head_le: "chain m a (b # bs) lim \<Longrightarrow> blk_end b \<le> lim"
  using chain_lim_le [of m "blk_next m a" bs lim] by auto

lemma chain_above:
  assumes "chain m a bs lim" "b \<in> set bs"
  shows "chain_lim bs lim \<le> unat (baddr b) \<and> blk_end b \<le> lim"
  using assms
proof (induction bs arbitrary: a)
  case (Cons c bs)
  show ?case
  proof (cases "b = c")
    case True
    then show ?thesis using chain_head_le [OF Cons.prems(1)] by simp
  next
    case False
    then have "chain_lim bs lim \<le> unat (baddr b) \<and> blk_end b \<le> lim"
      using Cons by auto
    then show ?thesis using Cons.prems blk_end_ge [of c] by auto
  qed
qed simp

lemma chain_same_off:
  assumes "chain m a bs lim" "same_off lo hi m m'" "lim \<le> 2 ^ 32" "hi \<le> chain_lim bs lim \<or> lim \<le> lo"
  shows "chain m' a bs lim"
  using assms
proof (induction bs arbitrary: a)
  case (Cons b bs)
  have le: "blk_end b \<le> lim" by (rule chain_head_le [OF Cons.prems(1)])
  have b: "unat (baddr b) + 16 \<le> 2 ^ 32" using le Cons.prems(3) blk_end_ge [of b] by linarith
  have o: "unat (baddr b) + 16 \<le> lo \<or> hi \<le> unat (baddr b)"
    using Cons.prems(4) le blk_end_ge [of b] by auto
  have "hi \<le> chain_lim bs lim \<or> lim \<le> lo"
    using Cons.prems(1,4) blk_end_ge [of b] by auto
  then have "chain m' (blk_next m a) bs lim" using Cons by auto
  then show ?case
    using Cons.prems(1) blk_ok_cong [OF Cons.prems(2) b o] fld_off(4) [OF Cons.prems(2) b o] by auto
qed simp

lemma magic_facts:
  "(x OR HEAP_FLG_USED) AND HEAP_FLG_USED \<noteq> 0"
  "(x OR HEAP_FLG_USED) AND HEAP_MAGIC = x AND HEAP_MAGIC"
  "HEAP_MAGIC AND HEAP_FLG_USED = 0" "HEAP_MAGIC AND HEAP_MAGIC = HEAP_MAGIC" "HEAP_FLG_USED \<noteq> 0"
proof -
  have "(x OR HEAP_FLG_USED) AND HEAP_FLG_USED = HEAP_FLG_USED"
    by (rule word_ao_absorbs)
  then show "(x OR HEAP_FLG_USED) AND HEAP_FLG_USED \<noteq> 0" by (simp add: HEAP_FLG_USED_def)
  show u: "HEAP_MAGIC AND HEAP_FLG_USED = 0" by (simp add: HEAP_MAGIC_def HEAP_FLG_USED_def)
  show "HEAP_MAGIC AND HEAP_MAGIC = HEAP_MAGIC" by simp
  show "HEAP_FLG_USED \<noteq> 0" by (simp add: HEAP_FLG_USED_def)
  show "(x OR HEAP_FLG_USED) AND HEAP_MAGIC = x AND HEAP_MAGIC"
    using u by (simp only: word_ao_dist and.commute [of HEAP_FLG_USED] or.right_neutral)
qed

text \<open>The two ways \<open>heap_alloc_single\<close> takes a free block \<open>b\<close> at the head of a chain.\<close>

lemma alloc_exact_chain:
  assumes c: "chain m a (b # bs) lim" and lim: "lim \<le> 2 ^ 32" and k: "k \<le> bsize b"
  defines "m' \<equiv> alloc_exact a k m"
  shows "chain m' a (b\<lparr>bsize := k, bused := True\<rparr> # bs) lim"
    and "same_off (unat a) (unat a + 16) m m'"
proof -
  have le: "blk_end b \<le> lim" by (rule chain_head_le [OF c])
  have ab: "a = baddr b" and a: "unat a + 16 \<le> 2 ^ 32"
    using le lim blk_end_ge [of b] c by auto
  show off: "same_off (unat a) (unat a + 16) m m'"
    unfolding m'_def alloc_exact_def
    by (intro same_off_set same_off_refl a order_refl)
  have "chain m' (blk_next m a) bs lim"
    using c blk_end_ge [of b] by (intro chain_same_off [OF _ off lim]) auto
  moreover have "blk_end (b\<lparr>bsize := k, bused := True\<rparr>) \<le> blk_end b"
    using k by (simp add: blk_end_def word_le_nat_alt)
  moreover have "blk_next m' a = blk_next m a" by (simp add: m'_def alloc_exact_def hdr_simps)
  ultimately show "chain m' a (b\<lparr>bsize := k, bused := True\<rparr> # bs) lim"
    using c by (auto simp: blk_ok_def has_magic_def is_used_def m'_def alloc_exact_def hdr_simps magic_facts)
qed

lemma alloc_split_chain:
  fixes b :: block
  assumes c: "chain m a (b # bs) lim" and lim: "lim \<le> 2 ^ 32" and f: "\<not> bused b"
    and k: "unat k + 16 \<le> unat (bsize b)"
  defines "m' \<equiv> alloc_split a k m" and "n \<equiv> HEAP_DATA a + k"
  shows "chain m' a (b\<lparr>bsize := k, bused := True\<rparr> #
           \<lparr>baddr = n, bsize = bsize b - k - 16, bused = False\<rparr> # bs) lim"
    and "same_off (unat a) (blk_end b) m m'"
proof -
  have le: "blk_end b \<le> lim" by (rule chain_head_le [OF c])
  have ab: "a = baddr b" and a: "unat a + 16 \<le> 2 ^ 32"
    using le lim blk_end_ge [of b] c by auto
  have a16: "unat (a + 16) = unat a + 16"
    using le lim k ab by (subst unat_add_nowrap) (auto simp: blk_end_def)
  have n: "unat n = unat a + 16 + unat k"
    unfolding n_def HEAP_DATA_def using le lim k ab a16
    by (subst unat_add_nowrap) (auto simp: blk_end_def)
  have n16: "unat n + 16 \<le> 2 ^ 32" using n le lim k ab by (simp add: blk_end_def)
  have n0: "n \<noteq> 0" using n by (metis add_gr_0 unat_0 less_numeral_extra(3) zero_less_numeral)
  have sz: "unat (bsize b - k - 16) = unat (bsize b) - unat k - 16"
    using k by (simp add: unat_sub_le word_le_nat_alt)
  have ap: "hdr_apart a n" "hdr_apart n a" using a n16 n by (auto simp: hdr_apart_def)
  note flds = hdr_simps fld_apart [OF ap(1)] fld_apart [OF ap(2)]
  show off: "same_off (unat a) (blk_end b) m m'"
    unfolding m'_def alloc_split_def Let_def n_def [symmetric]
    by (intro same_off_set same_off_refl) (use a n16 n k ab in \<open>auto simp: blk_end_def\<close>)
  have "chain m' (blk_next m a) bs lim"
    using c by (intro chain_same_off [OF _ off lim]) auto
  moreover have "blk_next m' n = blk_next m a" "blk_next m' a = n"
    by (simp_all add: m'_def alloc_split_def Let_def n_def [symmetric] flds)
  moreover have "blk_ok m' (b\<lparr>bsize := k, bused := True\<rparr>)"
    using c by (simp add: ab [symmetric] blk_ok_def has_magic_def is_used_def m'_def
        alloc_split_def Let_def n_def [symmetric] flds magic_facts)
  moreover have "blk_ok m' \<lparr>baddr = n, bsize = bsize b - k - 16, bused = False\<rparr>"
    using c n0 by (simp add: ab [symmetric] blk_ok_def has_magic_def is_used_def m'_def
        alloc_split_def Let_def n_def [symmetric] flds magic_facts)
  ultimately show "chain m' a (b\<lparr>bsize := k, bused := True\<rparr> #
           \<lparr>baddr = n, bsize = bsize b - k - 16, bused = False\<rparr> # bs) lim"
    using c k n sz by (simp add: blk_end_def ab)
qed

lemma fit_None_iff: "fit c bs = None \<longleftrightarrow> (\<forall>b \<in> set bs. bused b \<or> bsize b < c)"
  by (induction c bs rule: fit.induct) auto

lemma fit_head:
  "fit c (b # bs) = Some (p, bs') \<Longrightarrow> \<exists>b' bs''. bs' = b' # bs'' \<and> baddr b' = baddr b"
  by (auto split: if_splits)

lemma chain_not_huge:
  assumes "chain m a (b # bs) lim" "lim \<le> 2 ^ 32" "c \<le> bsize b"
  shows "unat (c + 16) = unat c + 16"
proof -
  have "blk_end b \<le> 2 ^ 32" using chain_head_le [OF assms(1)] assms(2) by linarith
  moreover have "unat (baddr b) \<noteq> 0" using assms(1) by (simp add: blk_ok_def unat_eq_0)
  moreover have "unat c \<le> unat (bsize b)" using assms(3) by (simp add: word_le_nat_alt)
  ultimately have "unat c + 16 < 2 ^ 32" by (simp add: blk_end_def)
  then show ?thesis by (subst unat_add_nowrap) auto
qed

lemma alloc_refines:
  assumes "chain (hmem h) a bs lim" "lim \<le> 2 ^ 32"
  shows "case fit c bs of
      None \<Rightarrow> heap_alloc_single h a c = Some (h, 0)
    | Some (p, bs') \<Rightarrow> \<exists>m'. heap_alloc_single h a c = Some (count_alloc c (h\<lparr>hmem := m'\<rparr>), p)
        \<and> chain m' a bs' lim \<and> same_off (chain_lim bs lim) lim (hmem h) m'
        \<and> (\<forall>x. used_byte bs x \<longrightarrow> m' x = hmem h x)"
  using assms
proof (induction bs arbitrary: a)
  case Nil
  then show ?case by (simp add: heap_alloc_single.simps)
next
  case (Cons b bs)
  note c = Cons.prems(1) and lim = Cons.prems(2)
  let ?n = "blk_next (hmem h) a"
  have ab: "a = baddr b" "a \<noteq> 0" "is_used (hmem h) a = bused b" "blk_size (hmem h) a = bsize b"
    and cn: "chain (hmem h) ?n bs lim" and e: "blk_end b \<le> chain_lim bs lim"
    using c by (auto simp: blk_ok_def)
  have le: "blk_end b \<le> lim" by (rule chain_head_le [OF c])
  show ?case
  proof (cases "bused b \<or> bsize b < c")
    case True
    have st: "heap_alloc_single h a c = heap_alloc_single h ?n c"
      using True ab by (subst heap_alloc_single.simps) auto
    show ?thesis
    proof (cases "fit c bs")
      case None
      then show ?thesis using Cons.IH [OF cn lim] True st by simp
    next
      case (Some r)
      obtain p bs' where r: "r = (p, bs')" by (cases r)
      obtain m' where m: "heap_alloc_single h ?n c = Some (count_alloc c (h\<lparr>hmem := m'\<rparr>), p)"
        "chain m' ?n bs' lim" "same_off (chain_lim bs lim) lim (hmem h) m'"
        "\<forall>x. used_byte bs x \<longrightarrow> m' x = hmem h x"
        using Cons.IH [OF cn lim] Some r by auto
      have hd: "chain_lim bs' lim = chain_lim bs lim"
        using Some r by (cases bs) (auto dest!: fit_head split: if_splits)
      have b16: "unat (baddr b) + 16 \<le> 2 ^ 32" using le lim blk_end_ge [of b] by linarith
      have o: "unat (baddr b) + 16 \<le> chain_lim bs lim \<or> lim \<le> unat (baddr b)"
        using e blk_end_ge [of b] by linarith
      have "chain m' a (b # bs') lim"
        using c m(2) hd blk_ok_cong [OF m(3) b16 o] fld_off(4) [OF m(3) b16 o] by simp
      moreover have "m' x = hmem h x" if "used_byte (b # bs) x" for x
        using that m(4) e same_offD [OF m(3), of x] by auto
      moreover have "same_off (chain_lim (b # bs) lim) lim (hmem h) m'"
        using e blk_end_ge [of b] by (intro same_off_widen [OF m(3)]) auto
      ultimately show ?thesis using True st m(1) Some r by auto
    qed
  next
    case False
    then have k: "c \<le> bsize b" and f: "\<not> bused b" by auto
    have c16: "unat (c + 16) = unat c + 16" by (rule chain_not_huge [OF c lim k])
    have used: "\<not> (unat (baddr b) \<le> unat x \<and> unat x < blk_end b)" if "used_byte (b # bs) x" for x
    proof -
      from that f obtain d where d: "d \<in> set bs" "unat (baddr d) + 16 \<le> unat x"
        by (auto simp: used_byte_def)
      then show ?thesis using chain_above [OF cn d(1)] e by linarith
    qed
    show ?thesis
    proof (cases "unat (bsize b) < unat c + 16")
      case True
      let ?m = "alloc_exact a c (hmem h)"
      have st: "heap_alloc_single h a c = Some (count_alloc c (h\<lparr>hmem := ?m\<rparr>), HEAP_DATA a)"
        using False True ab c16 by (subst heap_alloc_single.simps) (auto simp: word_less_nat_alt word_le_nat_alt)
      note x = alloc_exact_chain [OF c lim k]
      have off: "same_off (unat a) (blk_end b) (hmem h) ?m"
        using ab blk_end_ge [of b] by (intro same_off_widen [OF x(2)]) auto
      have "same_off (unat a) lim (hmem h) ?m"
        using le by (intro same_off_widen [OF off]) auto
      moreover have "?m x = hmem h x" if "used_byte (b # bs) x" for x
        using used [OF that] ab by (intro same_offD [OF off]) auto
      ultimately show ?thesis using False True st x(1) ab by (auto intro!: exI [of _ ?m])
    next
      case False2: False
      let ?m = "alloc_split a c (hmem h)"
      have st: "heap_alloc_single h a c = Some (count_alloc c (h\<lparr>hmem := ?m\<rparr>), HEAP_DATA a)"
        using False False2 ab c16 by (subst heap_alloc_single.simps) (auto simp: word_less_nat_alt)
      have k16: "unat c + 16 \<le> unat (bsize b)" using False2 by simp
      note x = alloc_split_chain [OF c lim f k16]
      have "same_off (unat a) lim (hmem h) ?m"
        using le by (intro same_off_widen [OF x(2)]) auto
      moreover have "?m x = hmem h x" if "used_byte (b # bs) x" for x
        using used [OF that] ab by (intro same_offD [OF x(2)]) auto
      ultimately show ?thesis using False False2 st x(1) ab by (auto intro!: exI [of _ ?m])
    qed
  qed
qed

text \<open>What first fit promises.\<close>

lemma fit_result:
  assumes "fit c bs = Some (p, bs')"
  shows "\<exists>b \<in> set bs. \<not> bused b \<and> c \<le> bsize b \<and> p = HEAP_DATA (baddr b)"
  using assms by (induction bs arbitrary: bs') (auto split: if_splits simp: not_less)

lemma chain_disjoint:
  assumes "chain m a bs lim" "b \<in> set bs" "d \<in> set bs"
    "unat (baddr b) \<le> x" "x < blk_end b" "unat (baddr d) \<le> x" "x < blk_end d"
  shows "b = d"
  using assms
proof (induction bs arbitrary: a)
  case (Cons e bs)
  have cn: "chain m (blk_next m a) bs lim" and e: "blk_end e \<le> chain_lim bs lim"
    using Cons.prems(1) by auto
  have "blk_end e \<le> unat (baddr y)" if "y \<in> set bs" for y
    using chain_above [OF cn that] e by linarith
  from this [of b] this [of d] show ?case
    using Cons.IH [OF cn] Cons.prems(2-) by (auto simp: not_le [symmetric] dest: less_le_trans)
qed simp

lemma fit_used:
  assumes "chain m a bs lim" "lim < 2 ^ 32" "fit c bs = Some (p, bs')"
  shows "used_byte bs' x \<longleftrightarrow> used_byte bs x \<or> unat p \<le> unat x \<and> unat x < unat p + unat c"
    and "unat p \<le> unat x \<Longrightarrow> unat x < unat p + unat c \<Longrightarrow>
      \<exists>b \<in> set bs. \<not> bused b \<and> unat (baddr b) \<le> unat x \<and> unat x < blk_end b"
    and "p \<noteq> 0"
proof -
  have "(used_byte bs' x \<longleftrightarrow> used_byte bs x \<or> unat p \<le> unat x \<and> unat x < unat p + unat c)
    \<and> (unat p \<le> unat x \<and> unat x < unat p + unat c \<longrightarrow>
      (\<exists>b \<in> set bs. \<not> bused b \<and> unat (baddr b) \<le> unat x \<and> unat x < blk_end b)) \<and> p \<noteq> 0"
    using assms
  proof (induction bs arbitrary: a bs')
    case (Cons b bs)
    have cn: "chain m (blk_next m a) bs lim" using Cons.prems(1) by auto
    show ?case
    proof (cases "bused b \<or> bsize b < c")
      case True
      then show ?thesis using Cons.IH [OF cn] Cons.prems by auto
    next
      case False
      have le: "blk_end b < 2 ^ 32" using chain_head_le [OF Cons.prems(1)] Cons.prems(2) by linarith
      then have p: "unat (HEAP_DATA (baddr b)) = unat (baddr b) + 16"
        by (simp add: HEAP_DATA_def blk_end_def unat_add_nowrap)
      have pb: "p = HEAP_DATA (baddr b)" using False Cons.prems(3) by (auto split: if_splits)
      then have "p \<noteq> 0" using p by (metis add_gr_0 unat_0 less_numeral_extra(3) zero_less_numeral)
      moreover have "unat c \<le> unat (bsize b)" using False by (simp add: word_le_nat_alt word_less_nat_alt)
      ultimately show ?thesis using False Cons.prems(3) p pb
        by (auto simp: blk_end_def split: if_splits)
    qed
  qed simp
  then show "used_byte bs' x \<longleftrightarrow> used_byte bs x \<or> unat p \<le> unat x \<and> unat x < unat p + unat c"
    "unat p \<le> unat x \<Longrightarrow> unat x < unat p + unat c \<Longrightarrow>
      \<exists>b \<in> set bs. \<not> bused b \<and> unat (baddr b) \<le> unat x \<and> unat x < blk_end b"
    "p \<noteq> 0" by blast+
qed

lemma fit_fresh:
  assumes "chain m a bs lim" "lim < 2 ^ 32" "fit c bs = Some (p, bs')"
    "unat p \<le> unat x" "unat x < unat p + unat c"
  shows "\<not> used_byte bs x"
proof
  assume "used_byte bs x"
  then obtain d where d: "d \<in> set bs" "bused d" "unat (baddr d) \<le> unat x" "unat x < blk_end d"
    by (auto simp: used_byte_def)
  obtain b where b: "b \<in> set bs" "\<not> bused b" "unat (baddr b) \<le> unat x" "unat x < blk_end b"
    using fit_used(2) [OF assms] by blast
  show False using chain_disjoint [OF assms(1) d(1) b(1) d(3,4) b(3,4)] d(2) b(2) by simp
qed

text \<open>
  All regions of the heap: the used slots of \<open>s_heap_regions\<close>, each with its list of blocks and
  the end of the region; no two regions overlap.
\<close>

definition apart :: "nat \<times> nat \<Rightarrow> (nat \<times> nat) list \<Rightarrow> bool" where
  "apart sp sps \<longleftrightarrow> list_all (\<lambda>sp'. snd sp \<le> fst sp' \<or> snd sp' \<le> fst sp) sps"

type_synonym region = "block list \<times> nat \<times> nat"

fun regions :: "mem \<Rightarrow> u32 list \<Rightarrow> region list \<Rightarrow> bool" where
  "regions m [] xs \<longleftrightarrow> xs = []"
| "regions m (r # rs) [] \<longleftrightarrow> r = 0 \<and> list_all (\<lambda>x. x = 0) rs"
| "regions m (r # rs) ((bs, lo, lim) # xs) \<longleftrightarrow> r \<noteq> 0 \<and> chain m r bs lim \<and> lim < 2 ^ 32 \<and>
     lo \<le> chain_lim bs lim \<and> apart (lo, lim) (map snd xs) \<and> regions m rs xs"

definition used_in :: "region list \<Rightarrow> u32 \<Rightarrow> bool" where
  "used_in xs x \<longleftrightarrow> (\<exists>r \<in> set xs. used_byte (fst r) x)"

lemma used_in_simps [simp]:
  "\<not> used_in [] x" "used_in ((bs, sp) # xs) x \<longleftrightarrow> used_byte bs x \<or> used_in xs x"
  by (auto simp: used_in_def)

lemma regions_same_off:
  assumes "regions m rs xs" "same_off lo hi m m'" "apart (lo, hi) (map snd xs)"
  shows "regions m' rs xs"
  using assms
proof (induction m rs xs rule: regions.induct)
  case (3 m r rs bs l lim xs)
  have "chain m' r bs lim"
    using 3(2-4) by (intro chain_same_off [OF _ 3(3)]) (auto simp: apart_def)
  then show ?case using 3 by (simp add: apart_def)
qed auto

lemma used_byte_chain:
  assumes "chain m a bs lim" "used_byte bs x"
  shows "chain_lim bs lim \<le> unat x \<and> unat x < lim"
proof -
  obtain b where b: "b \<in> set bs" "unat (baddr b) + 16 \<le> unat x" "unat x < blk_end b"
    using assms(2) by (auto simp: used_byte_def)
  then show ?thesis using chain_above [OF assms(1) b(1)] by linarith
qed

lemma regions_used:
  assumes "regions m rs xs" "used_in xs x"
  shows "\<not> apart (unat x, Suc (unat x)) (map snd xs)"
  using assms
proof (induction m rs xs rule: regions.induct)
  case (3 m r rs bs lo lim xs)
  then show ?case using used_byte_chain [of m r bs lim x] by (auto simp: apart_def)
qed auto

lemma fit_chain_lim: "fit c bs = Some (p, bs') \<Longrightarrow> chain_lim bs' lim = chain_lim bs lim"
  by (cases bs) (auto dest!: fit_head split: if_splits)

lemma count_alloc_simps [simp]:
  "hmem (count_alloc c h) = hmem h" "s_heap_regions (count_alloc c h) = s_heap_regions h"
  by (simp_all add: count_alloc_def)

text \<open>What a successful allocation of \<open>c\<close> bytes at \<open>p\<close> does to the regions.\<close>

definition alloc_post :: "u32 \<Rightarrow> mem \<Rightarrow> u32 list \<Rightarrow> region list \<Rightarrow> mem \<Rightarrow> u32 \<Rightarrow> region list \<Rightarrow> bool" where
  "alloc_post c m rs xs m' p xs' \<longleftrightarrow> regions m' rs xs' \<and> map snd xs' = map snd xs \<and> p \<noteq> 0 \<and>
     (\<forall>x. used_in xs x \<longrightarrow> m' x = m x) \<and>
     (\<forall>x. unat p \<le> unat x \<and> unat x < unat p + unat c \<longrightarrow> \<not> used_in xs x) \<and>
     (\<forall>x. used_in xs' x \<longleftrightarrow> used_in xs x \<or> unat p \<le> unat x \<and> unat x < unat p + unat c)"

lemma fit_inside:
  assumes "chain m a bs lim" "lim < 2 ^ 32" "fit c bs = Some (p, bs')"
  shows "chain_lim bs lim + 16 \<le> unat p \<and> unat p + unat c \<le> lim"
proof -
  obtain b where b: "b \<in> set bs" "c \<le> bsize b" "p = HEAP_DATA (baddr b)"
    using fit_result [OF assms(3)] by blast
  have e: "chain_lim bs lim \<le> unat (baddr b)" "blk_end b \<le> lim"
    using chain_above [OF assms(1) b(1)] by auto
  then have "unat p = unat (baddr b) + 16"
    using assms(2) b(3) by (simp add: HEAP_DATA_def blk_end_def unat_add_nowrap)
  moreover have "unat c \<le> unat (bsize b)" using b(2) by (simp add: word_le_nat_alt)
  ultimately show ?thesis using e by (simp add: blk_end_def)
qed

lemma alloc_region:
  assumes c: "chain (hmem h) r bs lim" "lim < 2 ^ 32" and f: "fit c bs = Some (p, bs')"
  shows "\<exists>m'. heap_alloc_single h r c = Some (count_alloc c (h\<lparr>hmem := m'\<rparr>), p) \<and>
    chain m' r bs' lim \<and> same_off (chain_lim bs lim) lim (hmem h) m' \<and>
    (\<forall>x. used_byte bs x \<longrightarrow> m' x = hmem h x)"
  using alloc_refines [OF c(1), of c] c(2) f by simp

lemma alloc_loop_correct:
  assumes "regions (hmem h) rs xs"
  shows "heap_alloc_loop rs c h = Some (h, 0) \<and> (\<forall>x \<in> set xs. fit c (fst x) = None) \<or>
    (\<exists>m' p xs'. heap_alloc_loop rs c h = Some (count_alloc c (h\<lparr>hmem := m'\<rparr>), p) \<and>
       alloc_post c (hmem h) rs xs m' p xs' \<and>
       (\<exists>(lo, hi) \<in> set (map snd xs). same_off lo hi (hmem h) m' \<and> lo \<le> unat p \<and> unat p + unat c \<le> hi))"
  using assms
proof (induction "hmem h" rs xs rule: regions.induct)
  case (3 r rs bs lo lim xs)
  have c: "chain (hmem h) r bs lim" and lim: "lim < 2 ^ 32" and lo: "lo \<le> chain_lim bs lim"
    and ap: "apart (lo, lim) (map snd xs)" and rest: "regions (hmem h) rs xs" and r: "r \<noteq> 0"
    using "3.prems" by auto
  show ?case
  proof (cases "fit c bs")
    case None
    then have st: "heap_alloc_loop (r # rs) c h = heap_alloc_loop rs c h"
      using alloc_refines [OF c, of c] lim r by simp
    from "3.hyps" [OF rest] show ?thesis
    proof (elim disjE exE conjE bexE)
      assume "heap_alloc_loop rs c h = Some (h, 0)" "\<forall>x \<in> set xs. fit c (fst x) = None"
      then show ?thesis using st None by simp
    next
      fix m' p xs' sp
      assume m': "heap_alloc_loop rs c h = Some (count_alloc c (h\<lparr>hmem := m'\<rparr>), p)"
        and post: "alloc_post c (hmem h) rs xs m' p xs'" and sp: "sp \<in> set (map snd xs)"
        and off: "case sp of (lo, hi) \<Rightarrow> same_off lo hi (hmem h) m' \<and> lo \<le> unat p \<and> unat p + unat c \<le> hi"
      obtain a b where ab: "sp = (a, b)" by (cases sp)
      have d: "lim \<le> a \<or> b \<le> lo" using ap sp ab by (auto simp: apart_def list_all_iff)
      have "chain m' r bs lim"
        using off ab d lo lim by (intro chain_same_off [OF c, of a b]) auto
      moreover have "\<not> used_byte bs x" if "unat p \<le> unat x" "unat x < unat p + unat c" for x
        using used_byte_chain [OF c, of x] that off ab d lo by auto
      moreover have "m' x = hmem h x" if "used_byte bs x" for x
        using used_byte_chain [OF c that] off ab d lo by (intro same_offD [of a b]) auto
      ultimately have "alloc_post c (hmem h) (r # rs) ((bs, lo, lim) # xs) m' p ((bs, lo, lim) # xs')"
        using post lo lim ap r by (auto simp: alloc_post_def)
      then show ?thesis using st m' sp off ab by (intro disjI2) fastforce
    qed
  next
    case (Some q)
    obtain p bs' where q: "q = (p, bs')" by (cases q)
    note f = Some [unfolded q]
    obtain m' where m': "heap_alloc_single h r c = Some (count_alloc c (h\<lparr>hmem := m'\<rparr>), p)"
      "chain m' r bs' lim" "same_off (chain_lim bs lim) lim (hmem h) m'"
      "\<forall>x. used_byte bs x \<longrightarrow> m' x = hmem h x"
      using alloc_region [OF c lim f] by blast
    note u = fit_used [OF c lim f]
    have off: "same_off lo lim (hmem h) m'" using lo by (intro same_off_widen [OF m'(3)]) auto
    have rest': "regions m' rs xs" by (rule regions_same_off [OF rest off ap])
    have tail: "lim \<le> unat x \<or> unat x < lo" if "used_in xs x" for x
      using regions_used [OF rest that] ap by (auto simp: apart_def list_all_iff not_le)
    have inside: "lo \<le> unat p \<and> unat p + unat c \<le> lim"
      using fit_inside [OF c lim f] lo by simp
    have keep: "m' x = hmem h x" if "used_in xs x" for x
      using tail [OF that] by (intro same_offD [OF off]) blast
    have fresh: "\<not> used_in xs x" if "unat p \<le> unat x" "unat x < unat p + unat c" for x
      using tail [of x] that inside by auto
    have "alloc_post c (hmem h) (r # rs) ((bs, lo, lim) # xs) m' p ((bs', lo, lim) # xs)"
      using m' u(1,3) fit_fresh [OF c lim f] keep fresh rest' lo lim ap r
      by (auto simp: alloc_post_def fit_chain_lim [OF f])
    then show ?thesis using m'(1) u(3) r off inside by fastforce
  qed
qed (auto simp: heap_alloc_loop.simps)


definition heap_wf :: "heap \<Rightarrow> region list \<Rightarrow> bool" where
  "heap_wf h xs \<longleftrightarrow> regions (hmem h) (s_heap_regions h) xs"

lemma heap_alloc_cases:
  assumes "heap_wf h xs"
  shows "heap_alloc c h = Some (h, 0) \<and> (\<forall>r \<in> set xs. \<forall>b \<in> set (fst r). bused b \<or> bsize b < c) \<or>
    (\<exists>h' p xs'. heap_alloc c h = Some (h', p) \<and> p \<noteq> 0 \<and> heap_wf h' xs' \<and>
       map snd xs' = map snd xs \<and> heap_allocs h' = heap_allocs h + 1 \<and>
       (\<forall>x. used_in xs x \<longrightarrow> hmem h' x = hmem h x) \<and>
       (\<forall>x. unat p \<le> unat x \<and> unat x < unat p + unat c \<longrightarrow> \<not> used_in xs x) \<and>
       (\<forall>x. used_in xs' x \<longleftrightarrow> used_in xs x \<or> unat p \<le> unat x \<and> unat x < unat p + unat c))"
  using alloc_loop_correct [OF assms [unfolded heap_wf_def], of c]
proof (elim disjE exE conjE)
  fix m' p xs'
  assume m': "heap_alloc_loop (s_heap_regions h) c h = Some (count_alloc c (h\<lparr>hmem := m'\<rparr>), p)"
    and post: "alloc_post c (hmem h) (s_heap_regions h) xs m' p xs'"
  show ?thesis
    using m' post unfolding heap_alloc_def alloc_post_def
    by (intro disjI2 exI [of _ "count_alloc c (h\<lparr>hmem := m'\<rparr>)"] exI [of _ p] exI [of _ xs'])
      (simp add: heap_wf_def count_alloc_def)
qed (auto simp: heap_alloc_def fit_None_iff)

text \<open>
  C1: \<open>heap_alloc\<close> on a heap whose regions are well-formed block lists always returns. When it
  returns NULL nothing has changed and no free block of any region is large enough. Otherwise
  the regions are still well-formed, every byte of every allocated block is what it was, the
  bytes of the new block belong to no allocated block, and the allocated bytes are now exactly
  the old ones and the new block.
\<close>

theorem heap_alloc_correct:
  assumes "heap_wf h xs"
  shows "heap_alloc c h = Some (h, 0) \<and> (\<forall>r \<in> set xs. \<forall>b \<in> set (fst r). bused b \<or> bsize b < c) \<or>
    (\<exists>h' p xs'. heap_alloc c h = Some (h', p) \<and> p \<noteq> 0 \<and> heap_wf h' xs' \<and>
       map snd xs' = map snd xs \<and> heap_allocs h' = heap_allocs h + 1 \<and>
       (\<forall>x. used_in xs x \<longrightarrow> hmem h' x = hmem h x) \<and>
       (\<forall>x. unat p \<le> unat x \<and> unat x < unat p + unat c \<longrightarrow> \<not> used_in xs x) \<and>
       (\<forall>x. used_in xs' x \<longleftrightarrow> used_in xs x \<or> unat p \<le> unat x \<and> unat x < unat p + unat c))"
  by (rule heap_alloc_cases [OF assms])

section \<open>Freeing keeps a linked list\<close>

text \<open>
  Freeing follows the \<open>prev\<close> pointers, which \<open>chain\<close> does not mention. \<open>linked\<close> says that they
  name the block before.
\<close>

fun linked :: "mem \<Rightarrow> u32 \<Rightarrow> block list \<Rightarrow> bool" where
  "linked m p [] \<longleftrightarrow> True"
| "linked m p (b # bs) \<longleftrightarrow> blk_prev m (baddr b) = p \<and> linked m (baddr b) bs"

text \<open>A part of a list of blocks, up to the block at \<open>z\<close>.\<close>

fun seg :: "mem \<Rightarrow> u32 \<Rightarrow> block list \<Rightarrow> u32 \<Rightarrow> bool" where
  "seg m a [] z \<longleftrightarrow> a = z"
| "seg m a (b # bs) z \<longleftrightarrow> a = baddr b \<and> blk_ok m b \<and> blk_end b \<le> chain_lim bs (unat z)
     \<and> seg m (blk_next m a) bs z"

lemma chain_lim_append: "chain_lim (xs @ ys) lim = chain_lim xs (chain_lim ys lim)"
  by (cases xs) auto

lemma chain_append:
  "chain m a (xs @ y # ys) lim \<longleftrightarrow> seg m a xs (baddr y) \<and> chain m (baddr y) (y # ys) lim"
  by (induction xs arbitrary: a) (auto simp: chain_lim_append)

lemma linked_append:
  "linked m p (xs @ y # ys) \<longleftrightarrow>
     linked m p xs \<and> linked m (if xs = [] then p else baddr (last xs)) (y # ys)"
  by (induction xs arbitrary: p) auto

lemma seg_lim_le: "seg m a xs z \<Longrightarrow> chain_lim xs (unat z) \<le> unat z"
proof (induction xs arbitrary: a)
  case (Cons b xs)
  then have "chain_lim xs (unat z) \<le> unat z" "blk_end b \<le> chain_lim xs (unat z)" by auto
  then show ?case using blk_end_ge [of b] by simp
qed simp

lemma seg_below:
  assumes "seg m a xs z" "b \<in> set xs"
  shows "blk_end b \<le> unat z \<and> chain_lim xs (unat z) \<le> unat (baddr b)"
  using assms
proof (induction xs arbitrary: a)
  case (Cons c xs)
  then show ?case using seg_lim_le [of m "blk_next m a" xs z] blk_end_ge [of c] by fastforce
qed simp

lemma seg_same_off:
  assumes "seg m a xs z" "same_off lo hi m m'" "unat z \<le> lo"
  shows "seg m' a xs z"
  using assms
proof (induction xs arbitrary: a)
  case (Cons b bs)
  have e: "blk_end b \<le> unat z" using seg_below [OF Cons.prems(1), of b] by simp
  have z: "unat z < 2 ^ 32" using unat_lt [of z] by simp
  have b: "unat (baddr b) + 16 \<le> 2 ^ 32" using e z blk_end_ge [of b] by linarith
  have o: "unat (baddr b) + 16 \<le> lo \<or> hi \<le> unat (baddr b)"
    using e Cons.prems(3) blk_end_ge [of b] by linarith
  show ?case using Cons blk_ok_cong [OF Cons.prems(2) b o] fld_off(4) [OF Cons.prems(2) b o] by auto
qed simp

lemma linked_cong:
  "(\<And>b. b \<in> set bs \<Longrightarrow> blk_prev m' (baddr b) = blk_prev m (baddr b)) \<Longrightarrow> linked m' p bs = linked m p bs"
  by (induction bs arbitrary: p) auto

lemma linked_same_off:
  assumes "same_off lo hi m m'"
    "\<And>b. b \<in> set bs \<Longrightarrow> unat (baddr b) + 16 \<le> 2 ^ 32 \<and> (unat (baddr b) + 16 \<le> lo \<or> hi \<le> unat (baddr b))"
  shows "linked m' p bs = linked m p bs"
  using fld_off(3) [OF assms(1)] assms(2) by (intro linked_cong) blast

lemma store32_commute:
  assumes "unat a + 4 \<le> 2 ^ 32" "unat b + 4 \<le> 2 ^ 32" "unat a + 4 \<le> unat b \<or> unat b + 4 \<le> unat a"
  shows "store32 (store32 m a v) b w = store32 (store32 m b w) a v"
proof -
  have d: "a + of_nat i \<noteq> b + of_nat j" if "i < 4" "j < 4" for i j
    using unat_plus_small [OF assms(1) that(1)] unat_plus_small [OF assms(2) that(2)] that assms(3)
    by auto
  from d [of 0 0] d [of 0 1] d [of 0 2] d [of 0 3] d [of 1 0] d [of 1 1] d [of 1 2] d [of 1 3]
    d [of 2 0] d [of 2 1] d [of 2 2] d [of 2 3] d [of 3 0] d [of 3 1] d [of 3 2] d [of 3 3]
  show ?thesis unfolding store32_def by (simp add: fun_upd_twist)
qed

lemma set_prev_commute:
  assumes "hdr_apart a b"
  shows "set_flags b w (set_prev a v m) = set_prev a v (set_flags b w m)"
    "set_next b w (set_prev a v m) = set_prev a v (set_next b w m)"
  using assms unat_fld [of a] unat_fld [of b] unfolding hdr_apart_def fld_defs
  by (auto intro!: store32_commute)

lemma merge_prev_eq_next:
  assumes p: "blk_prev m it = p" "p \<noteq> 0" "\<not> is_used m p" "blk_next m p = it" "\<not> is_used m it" "it \<noteq> 0"
    and ap: "hdr_apart p it" "blk_next m it \<noteq> 0 \<Longrightarrow> hdr_apart (blk_next m it) p \<and> hdr_apart (blk_next m it) it"
  shows "free_merge_prev it m = free_merge_next p m"
proof -
  have ap': "hdr_apart it p" using ap(1) by (auto simp: hdr_apart_def)
  show ?thesis
    using p ap
    by (auto simp: free_merge_prev_def free_merge_next_def Let_def hdr_simps fld_apart [OF ap(1)]
        fld_apart [OF ap'] fld_apart set_prev_commute)
qed

definition merged :: "block \<Rightarrow> block \<Rightarrow> block" where
  "merged b n = b\<lparr>bsize := bsize b + bsize n + 16\<rparr>"

lemma merge_next_chain:
  fixes b n :: block
  assumes c: "chain m a (b # n # bs) lim" and lim: "lim \<le> 2 ^ 32"
    and l: "linked m p (b # n # bs)" and f: "\<not> bused b" "\<not> bused n"
  defines "m' \<equiv> free_merge_next a m"
  shows "chain m' a (merged b n # bs) lim" "linked m' p (merged b n # bs)"
    "same_off (unat a) lim m m'" "\<forall>x. used_byte bs x \<longrightarrow> m' x = m x"
proof -
  have ab: "a = baddr b" and an: "blk_next m a = baddr n" and ok: "blk_ok m b" "blk_ok m n"
    and e: "blk_end b \<le> unat (baddr n)" "blk_end n \<le> chain_lim bs lim"
    and cb: "chain m (blk_next m (baddr n)) bs lim"
    using c by auto
  have le: "chain_lim bs lim \<le> lim" by (rule chain_lim_le [OF cb])
  have n16: "unat (baddr n) + 16 \<le> 2 ^ 32" using e(2) le lim blk_end_ge [of n] by linarith
  have a16: "unat a + 16 \<le> unat (baddr n)" using e(1) ab blk_end_ge [of b] by simp
  have ap: "hdr_apart (baddr b) (baddr n)" "hdr_apart (baddr n) (baddr b)" using n16 a16 ab by (auto simp: hdr_apart_def)
  have nz: "baddr n \<noteq> 0" and used: "is_used m (baddr n) = False"
    using ok(2) f by (auto simp: blk_ok_def)
  have sz: "unat (bsize b + bsize n + 16) = unat (bsize b) + unat (bsize n) + 16" if "unat a \<noteq> 0"
    using e le lim ab that by (simp add: blk_end_def unat_add_nowrap)
  have a0: "unat a \<noteq> 0" using ok(1) ab by (simp add: blk_ok_def unat_eq_0)
  have end': "blk_end (merged b n) \<le> blk_end n"
    using sz [OF a0] e(1) by (simp add: merged_def blk_end_def)
  have sizes: "blk_size m (baddr b) = bsize b" "blk_size m (baddr n) = bsize n"
    using ok by (auto simp: blk_ok_def)
  note flds = hdr_simps fld_apart [OF ap(1)] fld_apart [OF ap(2)]
  have "chain m' a (merged b n # bs) lim \<and> linked m' p (merged b n # bs) \<and>
    same_off (unat a) lim m m' \<and> (\<forall>x. used_byte bs x \<longrightarrow> m' x = m x)"
  proof (cases bs)
    case Nil
    have m': "m' = set_next a 0 (set_flags (baddr n) (blk_flags m (baddr n) AND NOT HEAP_MAGIC)
        (set_size a (bsize b + bsize n + 16) m))"
      using Nil cb nz used an sizes by (simp add: m'_def free_merge_next_def Let_def ab flds)
    have "same_off (unat a) lim m m'"
      unfolding m' using n16 a16 e le blk_end_ge [of n] by (intro same_off_set same_off_refl) auto
    then show ?thesis
      using Nil ok f ab e le lim end' l
      by (simp add: m' flds blk_ok_def has_magic_def is_used_def merged_def)
  next
    case (Cons r rs)
    have r: "blk_next m (baddr n) = baddr r" "baddr r \<noteq> 0" "blk_end r \<le> chain_lim rs lim"
      "chain m (blk_next m (baddr r)) rs lim" "blk_ok m r"
      using cb Cons by (auto simp: blk_ok_def)
    have r16: "unat (baddr r) + 16 \<le> lim"
      using r(3) chain_lim_le [OF r(4)] blk_end_ge [of r] by linarith
    have nr: "unat (baddr n) + 16 \<le> unat (baddr r)" using e(2) Cons blk_end_ge [of n] by simp
    have apr: "hdr_apart (baddr r) (baddr b)" "hdr_apart (baddr b) (baddr r)"
        "hdr_apart (baddr r) (baddr n)" "hdr_apart (baddr n) (baddr r)"
      using r16 lim a16 nr n16 ab by (auto simp: hdr_apart_def)
    note flds = flds fld_apart [OF apr(1)] fld_apart [OF apr(2)] fld_apart [OF apr(3)] fld_apart [OF apr(4)]
    have m': "m' = set_next a (baddr r) (set_flags (baddr n) (blk_flags m (baddr n) AND NOT HEAP_MAGIC)
        (set_prev (baddr r) a (set_size a (bsize b + bsize n + 16) m)))"
      using r nz used an sizes by (simp add: m'_def free_merge_next_def Let_def ab flds)
    have off: "same_off (unat a) (unat (baddr r) + 16) m m'"
      unfolding m' using r16 lim a16 nr n16 by (intro same_off_set same_off_refl) auto
    have "chain m' (blk_next m (baddr r)) rs lim"
      using r(3) blk_end_ge [of r] by (intro chain_same_off [OF r(4) off lim]) auto
    moreover have "linked m' (baddr r) rs"
    proof -
      have "unat (baddr d) + 16 \<le> 2 ^ 32 \<and> unat (baddr r) + 16 \<le> unat (baddr d)" if "d \<in> set rs" for d
        using chain_above [OF r(4) that] r(3) blk_end_ge [of r] blk_end_ge [of d] lim by linarith
      then show ?thesis using l Cons by (subst linked_same_off [OF off]) auto
    qed
    moreover have "m' x = m x" if "used_byte bs x" for x
      using that Cons r(3) blk_end_ge [of r] used_byte_chain [OF r(4), of x]
      by (intro same_offD [OF off]) auto
    moreover have "same_off (unat a) lim m m'" using r16 by (intro same_off_widen [OF off]) auto
    ultimately show ?thesis
      using Cons ok f ab e le lim end' l r
      by (simp add: m' flds blk_ok_def has_magic_def is_used_def merged_def)
  qed
  then show "chain m' a (merged b n # bs) lim" "linked m' p (merged b n # bs)"
    "same_off (unat a) lim m m'" "\<forall>x. used_byte bs x \<longrightarrow> m' x = m x" by blast+
qed

text \<open>Freeing on the abstract heap: the block becomes free and is joined with free neighbours.\<close>

fun join_next :: "block list \<Rightarrow> block list" where
  "join_next (b # n # bs) = (if \<not> bused b \<and> \<not> bused n then merged b n # bs else b # n # bs)"
| "join_next bs = bs"

definition unuse :: "block \<Rightarrow> block" where
  "unuse b = b\<lparr>bused := False\<rparr>"

definition free_abs :: "block list \<Rightarrow> block \<Rightarrow> block list \<Rightarrow> block list" where
  "free_abs xs b ys =
     (if xs = [] then join_next (unuse b # ys)
      else butlast xs @ join_next (last xs # join_next (unuse b # ys)))"

lemma join_next_head: "\<exists>b' bs'. join_next (b # bs) = b' # bs' \<and> baddr b' = baddr b \<and> bused b' = bused b"
  by (cases bs) (auto simp: merged_def)

lemma used_byte_join:
  assumes "\<not> bused b" shows "used_byte (join_next (b # bs)) x \<longleftrightarrow> used_byte bs x"
  using assms by (cases bs) (auto simp: merged_def)

lemma merge_next_join:
  fixes b :: block
  assumes c: "chain m a (b # bs) lim" and lim: "lim \<le> 2 ^ 32" and l: "linked m p (b # bs)" and f: "\<not> bused b"
  defines "m' \<equiv> free_merge_next a m"
  shows "chain m' a (join_next (b # bs)) lim \<and> linked m' p (join_next (b # bs)) \<and>
    same_off (unat a) lim m m' \<and> (\<forall>x. used_byte bs x \<longrightarrow> m' x = m x)"
proof (cases "\<exists>n bs'. bs = n # bs' \<and> \<not> bused n")
  case True
  then obtain n bs' where n: "bs = n # bs'" "\<not> bused n" by blast
  have "join_next (b # bs) = merged b n # bs'" "used_byte bs x = used_byte bs' x" for x
    using n f by simp_all
  moreover note merge_next_chain [OF c [unfolded n(1)] lim l [unfolded n(1)] f n(2)]
  ultimately show ?thesis by (simp only: m'_def)
next
  case False
  then have "m' = m"
    using c by (cases bs) (auto simp: m'_def free_merge_next_def blk_ok_def)
  moreover have "join_next (b # bs) = b # bs" using False by (cases bs) auto
  ultimately show ?thesis using c l by (auto simp: same_off_refl)
qed


lemma xor_used:
  "(v XOR HEAP_FLG_USED) AND HEAP_MAGIC = v AND HEAP_MAGIC"
  "v AND HEAP_FLG_USED \<noteq> 0 \<Longrightarrow> (v XOR HEAP_FLG_USED) AND HEAP_FLG_USED = 0"
proof -
  have u: "HEAP_FLG_USED = 2 ^ 4" by (simp add: HEAP_FLG_USED_def)
  have "HEAP_FLG_USED AND HEAP_MAGIC = 0" using magic_facts(3) by (simp only: and.commute)
  then show "(v XOR HEAP_FLG_USED) AND HEAP_MAGIC = v AND HEAP_MAGIC"
    by (simp add: bit.conj_xor_distrib2)
  show "(v XOR HEAP_FLG_USED) AND HEAP_FLG_USED = 0" if "v AND HEAP_FLG_USED \<noteq> 0"
    using that unfolding u by (simp only: and_exp_eq_0_iff_not_bit bit_xor_iff bit_exp_iff) simp
qed

lemma unuse_chain:
  fixes b :: block
  assumes c: "chain m a (b # bs) lim" and lim: "lim \<le> 2 ^ 32" and l: "linked m p (b # bs)" and u: "bused b"
  defines "m' \<equiv> set_flags a (blk_flags m a XOR HEAP_FLG_USED) m"
  shows "chain m' a (unuse b # bs) lim" "linked m' p (unuse b # bs)"
    "same_off (unat a) (unat a + 16) m m'"
proof -
  have ab: "a = baddr b" and e: "blk_end b \<le> chain_lim bs lim"
    and cb: "chain m (blk_next m a) bs lim"
    using c by auto
  have a16: "unat a + 16 \<le> chain_lim bs lim" using e ab blk_end_ge [of b] by simp
  have le: "chain_lim bs lim \<le> lim" by (rule chain_lim_le [OF cb])
  have a32: "unat a + 16 \<le> 2 ^ 32" using a16 le lim by linarith
  show off: "same_off (unat a) (unat a + 16) m m'"
    unfolding m'_def using a32 by (intro same_off_set same_off_refl) auto
  have fl: "(v XOR HEAP_FLG_USED) AND HEAP_MAGIC = v AND HEAP_MAGIC"
    "v AND HEAP_FLG_USED \<noteq> 0 \<Longrightarrow> (v XOR HEAP_FLG_USED) AND HEAP_FLG_USED = 0" for v
    by (simp_all add: xor_used)
  have "chain m' (blk_next m a) bs lim"
    using a16 by (intro chain_same_off [OF cb off lim]) auto
  then show "chain m' a (unuse b # bs) lim"
    using c u by (auto simp: blk_ok_def has_magic_def is_used_def m'_def unuse_def hdr_simps fl blk_end_def)
  have "unat (baddr d) + 16 \<le> 2 ^ 32 \<and> unat a + 16 \<le> unat (baddr d)" if "d \<in> set bs" for d
    using chain_above [OF cb that] a16 blk_end_ge [of d] lim by linarith
  then have "linked m' (baddr b) bs"
    using l by (subst linked_same_off [OF off]) auto
  then show "linked m' p (unuse b # bs)"
    using l ab by (simp add: unuse_def m'_def hdr_simps)
qed


lemma used_byte_append [simp]: "used_byte (xs @ ys) x \<longleftrightarrow> used_byte xs x \<or> used_byte ys x"
  by (auto simp: used_byte_def)

text \<open>A change at or after the block at \<open>z\<close> leaves the part of the list before it.\<close>

lemma glue:
  assumes s: "seg m a xs (baddr b)" and l: "linked m q xs" and off: "same_off (unat (baddr b)) lim m m'"
    and c: "chain m' (baddr b) (b # zs) lim" and lz: "linked m' (if xs = [] then q else baddr (last xs)) (b # zs)"
  shows "chain m' a (xs @ b # zs) lim" "linked m' q (xs @ b # zs)" "\<And>x. used_byte xs x \<Longrightarrow> m' x = m x"
proof -
  have "seg m' a xs (baddr b)" by (rule seg_same_off [OF s off order_refl])
  then show "chain m' a (xs @ b # zs) lim" using c by (simp only: chain_append)
  have "unat (baddr d) + 16 \<le> unat (baddr b)" if "d \<in> set xs" for d
    using seg_below [OF s that] blk_end_ge [of d] by linarith
  moreover have "unat (baddr b) < 2 ^ 32" using unat_lt [of "baddr b"] by simp
  ultimately have "linked m' q xs"
    using l by (subst linked_same_off [OF off]) fastforce+
  then show "linked m' q (xs @ b # zs)" using lz by (simp only: linked_append)
  show "m' x = m x" if x: "used_byte xs x" for x
  proof -
    from x obtain d where d: "d \<in> set xs" "unat x < blk_end d" by (auto simp: used_byte_def)
    then have "unat x < unat (baddr b)" using seg_below [OF s d(1)] by linarith
    then show ?thesis by (intro same_offD [OF off]) simp
  qed
qed

lemma merge_prev_chain:
  assumes c: "chain m a (d # b # bs) lim" and lim: "lim \<le> 2 ^ 32"
    and f: "\<not> bused b" "\<not> bused d" and p: "blk_prev m (baddr b) = baddr d"
  shows "free_merge_prev (baddr b) m = free_merge_next (baddr d) m"
proof (rule merge_prev_eq_next [OF p])
  have d: "blk_end d \<le> unat (baddr b)" "blk_ok m d" "blk_ok m b" "blk_next m (baddr d) = baddr b"
    and cb: "chain m (baddr b) (b # bs) lim"
    using c by auto
  show "baddr d \<noteq> 0" "\<not> is_used m (baddr d)" "blk_next m (baddr d) = baddr b"
    "\<not> is_used m (baddr b)" "baddr b \<noteq> 0"
    using d f by (auto simp: blk_ok_def)
  have b: "unat (baddr b) + 16 \<le> lim" "unat (baddr d) + 16 \<le> unat (baddr b)"
    using chain_head_le [OF cb] blk_end_ge [of b] d(1) blk_end_ge [of d] by linarith+
  then show "hdr_apart (baddr d) (baddr b)" using lim by (simp add: hdr_apart_def)
  show "hdr_apart (blk_next m (baddr b)) (baddr d) \<and> hdr_apart (blk_next m (baddr b)) (baddr b)"
    if "blk_next m (baddr b) \<noteq> 0"
  proof (cases bs)
    case (Cons r rs)
    then have "chain m (baddr r) (r # rs) lim" "blk_end b \<le> unat (baddr r)" "blk_next m (baddr b) = baddr r"
      using cb by auto
    then show ?thesis
      using b lim chain_head_le [of m "baddr r" r rs lim] blk_end_ge [of r] blk_end_ge [of b]
      by (auto simp: hdr_apart_def)
  qed (use cb that in simp)
qed

text \<open>
  \<open>heap_free_single\<close> on the payload of a used block \<open>b\<close> of a chain \<open>xs @ b # ys\<close>.
\<close>

lemma free_chain:
  fixes b :: block
  assumes c: "chain m a (xs @ b # ys) lim" and lim: "lim \<le> 2 ^ 32"
    and l: "linked m 0 (xs @ b # ys)" and u: "bused b"
  defines "it \<equiv> baddr b"
  defines "m1 \<equiv> free_merge_next it (set_flags it (blk_flags m it XOR HEAP_FLG_USED) m)"
  defines "m' \<equiv> free_merge_prev it m1"
  shows "chain m' a (free_abs xs b ys) lim \<and> linked m' 0 (free_abs xs b ys) \<and>
    (\<forall>x. used_byte (free_abs xs b ys) x \<longrightarrow> m' x = m x) \<and> same_off (unat a) lim m m'"
proof -
  let ?m0 = "set_flags it (blk_flags m it XOR HEAP_FLG_USED) m"
  let ?p = "if xs = [] then 0 else baddr (last xs)"
  let ?zs = "join_next (unuse b # ys)"
  have cb: "chain m it (b # ys) lim" and sx: "seg m a xs it" and lb: "linked m ?p (b # ys)" and lx: "linked m 0 xs"
    using c l by (simp_all only: chain_append linked_append it_def)
  note un = unuse_chain [OF cb lim lb u]
  have nu: "\<not> bused (unuse b)" by (simp add: unuse_def)
  note j = merge_next_join [OF un(1) lim un(2) nu, folded m1_def]
  have itl: "unat it + 16 \<le> lim" using chain_head_le [OF cb] blk_end_ge [of b] by (simp add: it_def)
  have off0: "same_off (unat it) lim m ?m0" using itl by (intro same_off_widen [OF un(3)]) auto
  have off1: "same_off (unat it) lim m m1" using j off0 by (blast intro: same_off_trans)
  obtain b' zs where zs: "?zs = b' # zs" "baddr b' = it" "\<not> bused b'"
    using join_next_head [of "unuse b" ys] nu by (auto simp: unuse_def it_def)
  have cz: "chain m1 it (b' # zs) lim" and lz: "linked m1 ?p (b' # zs)" using j zs by simp_all
  note g = glue [OF sx [folded zs(2)] lx off1 [folded zs(2)] cz [folded zs(2)] lz]
  have offa: "same_off (unat a) lim m n" if "same_off (unat it) lim m n" for n
    using seg_lim_le [OF sx] sx by (intro same_off_widen [OF that]) (cases xs, auto)
  have u1: "used_byte ?zs x \<longleftrightarrow> used_byte ys x" for x by (rule used_byte_join [OF nu])
  have keep1: "m1 x = m x" if x: "used_byte ys x" for x
  proof -
    have "m1 x = ?m0 x" using j x by blast
    also have "unat it + 16 \<le> unat x"
      using x cb used_byte_chain [of m "blk_next m it" ys lim x] blk_end_ge [of b] by (auto simp: it_def)
    then have "?m0 x = m x" by (intro same_offD [OF un(3)]) simp
    finally show ?thesis .
  qed
  have pv: "blk_prev m1 it = ?p" using lz zs(2) by simp
  show ?thesis
  proof (cases "xs = [] \<or> bused (last xs)")
    case True
    have "is_used m1 ?p" if "xs \<noteq> []"
    proof -
      have x: "xs = butlast xs @ [last xs]" using that by simp
      have "seg m1 a xs it" by (rule seg_same_off [OF sx off1]) simp
      then have "blk_ok m1 (last xs)"
        using that by (induction xs arbitrary: a) (auto split: if_splits)
      then show ?thesis using that True by (simp add: blk_ok_def)
    qed
    then have "m' = m1" using pv by (auto simp: m'_def free_merge_prev_def)
    moreover have "free_abs xs b ys = xs @ b' # zs"
      using True zs(1) by (cases xs rule: rev_cases) (auto simp: free_abs_def)
    ultimately show ?thesis using g keep1 u1 zs(1) offa [OF off1] by auto
  next
    case False
    then obtain xs' d where xs: "xs = xs' @ [d]" and d: "\<not> bused d"
      by (cases xs rule: rev_cases) auto
    have cd: "chain m1 (baddr d) (d # b' # zs) lim" and sd: "seg m1 a xs' (baddr d)"
      and ld: "linked m1 (if xs' = [] then 0 else baddr (last xs')) (d # b' # zs)" and lx': "linked m1 0 xs'"
      using g(1,2) unfolding xs append_assoc append_Cons append_Nil
      by (simp_all only: chain_append linked_append)
    have "m' = free_merge_next (baddr d) m1"
      unfolding m'_def using merge_prev_chain [OF cd lim zs(3) d] pv zs(2) xs by simp
    moreover note k = merge_next_join [OF cd lim ld d]
    ultimately have k': "chain m' (baddr d) (join_next (d # b' # zs)) lim"
      "linked m' (if xs' = [] then 0 else baddr (last xs')) (join_next (d # b' # zs))"
      "same_off (unat (baddr d)) lim m1 m'" "\<forall>x. used_byte (b' # zs) x \<longrightarrow> m' x = m1 x"
      by simp_all
    obtain e es where e: "join_next (d # b' # zs) = e # es" "baddr e = baddr d"
      using join_next_head by blast
    note g' = glue [OF sd [folded e(2)] lx' k'(3) [folded e(2)] k'(1,2) [unfolded e(1), folded e(2)]]
    have "free_abs xs b ys = xs' @ e # es" using e zs(1) by (simp add: free_abs_def xs)
    moreover have "used_byte (e # es) x \<longleftrightarrow> used_byte (b' # zs) x" for x
      using used_byte_join [OF d, of "b' # zs" x] e by simp
    moreover have "same_off (unat a) lim m1 m'"
      using seg_lim_le [OF sd] sd by (intro same_off_widen [OF k'(3)]) (cases xs', auto)
    moreover have "m' x = m x" if "used_byte ys x" for x
      using k'(4) u1 [of x, unfolded zs(1)] keep1 [OF that] that by metis
    ultimately show ?thesis using g' g(3) u1 zs(1) offa [OF off1]
      by (auto simp: xs intro: same_off_trans)
  qed
qed

lemma regions_length: "regions m rs xs \<Longrightarrow> length xs \<le> length rs"
  by (induction m rs xs rule: regions.induct) auto

lemma regions_nth:
  assumes "regions m rs xs" "i < length xs" "xs ! i = (bs, lo, lim)"
  shows "rs ! i \<noteq> 0 \<and> chain m (rs ! i) bs lim \<and> lim < 2 ^ 32 \<and> lo \<le> chain_lim bs lim"
  using assms
proof (induction m rs xs arbitrary: i rule: regions.induct)
  case (3 m r rs bs lo lim xs)
  then show ?case by (cases i) auto
qed auto

lemma regions_nz: "regions m rs xs \<Longrightarrow> i < length xs \<Longrightarrow> rs ! i \<noteq> 0"
  by (cases "xs ! i") (use regions_nth in blast)

lemma regions_update:
  assumes "regions m rs xs" "i < length xs" "xs ! i = (bs, lo, lim)"
    and "chain m' (rs ! i) bs' lim" "chain_lim bs' lim = chain_lim bs lim" "same_off lo lim m m'"
  shows "regions m' rs (xs[i := (bs', lo, lim)])"
  using assms
proof (induction m rs xs arbitrary: i rule: regions.induct)
  case (3 m r rs bs1 lo1 lim1 xs)
  show ?case
  proof (cases i)
    case 0
    then show ?thesis using 3 regions_same_off [of m rs xs lo lim m'] by auto
  next
    case (Suc j)
    then have "map snd (xs[j := (bs', lo, lim)]) = map snd xs"
      using "3.prems" by (simp add: map_update list_update_same_conv)
    moreover have c: "chain m r bs1 lim1" "lim1 \<le> 2 ^ 32" "lo1 \<le> chain_lim bs1 lim1"
      and ap: "apart (lo1, lim1) (map snd xs)"
      using "3.prems"(1) by auto
    have "lim1 \<le> lo \<or> lim \<le> lo1"
      using "3.prems"(2,3) ap Suc by (auto simp: apart_def list_all_length)
    then have "chain m' r bs1 lim1"
      using c(3) by (intro chain_same_off [OF c(1) "3.prems"(6) c(2)]) auto
    moreover note c
    moreover have "regions m' rs (xs[j := (bs', lo, lim)])"
      by (rule "3.IH") (use "3.prems" Suc in auto)
    ultimately show ?thesis using "3.prems"(1) Suc by simp
  qed
qed auto

lemma used_in_conv: "used_in xs x \<longleftrightarrow> (\<exists>j < length xs. used_byte (fst (xs ! j)) x)"
  unfolding used_in_def by (metis in_set_conv_nth)

lemma regions_pair:
  assumes "regions m rs xs" "i < j" "j < length xs"
  shows "snd (snd (xs ! i)) \<le> fst (snd (xs ! j)) \<or> snd (snd (xs ! j)) \<le> fst (snd (xs ! i))"
  using assms
proof (induction m rs xs arbitrary: i j rule: regions.induct)
  case (3 m r rs bs lo lim xs)
  then obtain k where "j = Suc k" "k < length xs" by (cases j) auto
  then show ?case using 3 by (cases i) (auto simp: apart_def list_all_length)
qed auto

lemma regions_apart:
  assumes rg: "regions m rs xs" and ij: "i < length xs" "j < length xs" "i \<noteq> j"
    and u: "used_byte (fst (xs ! j)) x"
  shows "unat x < fst (snd (xs ! i)) \<or> snd (snd (xs ! i)) \<le> unat x"
proof -
  obtain bs lo lim where e: "xs ! j = (bs, lo, lim)" by (cases "xs ! j")
  have "chain m (rs ! j) bs lim" "lo \<le> chain_lim bs lim"
    using regions_nth [OF rg ij(2) e] by auto
  then have "lo \<le> unat x \<and> unat x < lim"
    using used_byte_chain [of m "rs ! j" bs lim x] u e by auto
  moreover have "lim \<le> fst (snd (xs ! i)) \<or> snd (snd (xs ! i)) \<le> lo"
    using regions_pair [OF rg, of i j] regions_pair [OF rg, of j i] ij e
    by (cases "i < j") auto
  ultimately show ?thesis by linarith
qed

text \<open>The result of \<open>heap_free_single\<close> does not depend on the region it is called for.\<close>

lemma heap_free_loop_hit:
  assumes "heap_free_single ptr h = (h', 0)" "i < length rs" "rs ! i < ptr" "\<forall>j \<le> i. rs ! j \<noteq> 0"
  shows "heap_free_loop rs ptr h = Inr h'"
  using assms
proof (induction rs arbitrary: i)
  case (Cons r rs)
  show ?case
  proof (cases i)
    case (Suc j)
    then have "r \<noteq> 0" "\<forall>k \<le> j. rs ! k \<noteq> 0" using Cons.prems(4) by fastforce+
    then show ?thesis using Cons Suc by auto
  qed (use Cons in auto)
qed simp

lemma heap_free_loop_miss:
  "heap_free_single ptr h = (h, - 1) \<Longrightarrow> heap_free_loop rs ptr h = Inl Panic"
  by (induction rs) auto

text \<open>
  Freeing an address whose header is not that of an allocated block (a block freed before,
  or merged into its neighbour) stops the kernel, and NULL is ignored.
\<close>

theorem heap_free_invalid:
  "heap_free ptr h = (if ptr = 0 then Inr h else Inl Panic)
   \<or> has_magic (hmem h) (ptr - hdr_size) \<and> is_used (hmem h) (ptr - hdr_size)"
proof (cases "has_magic (hmem h) (ptr - hdr_size) \<and> is_used (hmem h) (ptr - hdr_size)")
  case False
  then have "heap_free_single ptr h = (h, - 1)" by (simp only: heap_free_single_def Let_def if_False)
  then show ?thesis by (simp add: heap_free_def heap_free_loop_miss)
qed simp

lemma free_abs_head: "xs = [] \<Longrightarrow> chain_lim (free_abs xs b ys) lim = unat (baddr b)"
  using join_next_head [of "unuse b" ys] by (auto simp: free_abs_def unuse_def)

lemma free_abs_lim: "chain_lim (free_abs xs b ys) lim = chain_lim (xs @ [b]) lim"
proof (cases xs)
  case (Cons c cs)
  obtain d ds where "join_next (unuse b # ys) = d # ds" by (metis join_next_head)
  moreover obtain e es where "join_next (c # d # ds) = e # es" "baddr e = baddr c" by (metis join_next_head)
  ultimately show ?thesis using Cons by (cases cs) (auto simp: free_abs_def)
qed (simp add: free_abs_head)

text \<open>
  C2: on a heap of well-formed regions, freeing an allocated block of a region whose \<open>prev\<close>
  pointers are right succeeds, whatever the other regions hold: the block is free and joined
  with its free neighbours, the list is still well-formed and its \<open>prev\<close> pointers right, and
  every byte of every block still allocated is what it was.
\<close>

theorem heap_free_correct:
  fixes b :: block
  assumes wf: "heap_wf h xs" and i: "i < length xs" "xs ! i = (bs @ b # ds, lo, lim)"
    and l: "linked (hmem h) 0 (bs @ b # ds)" and u: "bused b"
  shows "\<exists>h'. heap_free (HEAP_DATA (baddr b)) h = Inr h' \<and>
    heap_wf h' (xs[i := (free_abs bs b ds, lo, lim)]) \<and> linked (hmem h') 0 (free_abs bs b ds) \<and>
    heap_frees h' = heap_frees h + 1 \<and> heap_free_bytes h' = heap_free_bytes h + bsize b \<and>
    (\<forall>x. used_in (xs[i := (free_abs bs b ds, lo, lim)]) x \<longrightarrow> hmem h' x = hmem h x)"
proof -
  let ?it = "baddr b" and ?rs = "s_heap_regions h"
  define m' where "m' = free_merge_prev ?it (free_merge_next ?it
    (set_flags ?it (blk_flags (hmem h) ?it XOR HEAP_FLG_USED) (hmem h)))"
  define h' where "h' = h\<lparr>heap_frees := heap_frees h + 1,
    heap_free_bytes := heap_free_bytes h + bsize b, hmem := m'\<rparr>"
  have r: "chain (hmem h) (?rs ! i) (bs @ b # ds) lim" "lim < 2 ^ 32" "lo \<le> chain_lim (bs @ b # ds) lim"
    using regions_nth [OF wf [unfolded heap_wf_def] i] by auto
  have f: "chain m' (?rs ! i) (free_abs bs b ds) lim" "linked m' 0 (free_abs bs b ds)"
    "\<forall>x. used_byte (free_abs bs b ds) x \<longrightarrow> m' x = hmem h x"
    "same_off (unat (?rs ! i)) lim (hmem h) m'"
    using free_chain [OF r(1) _ l u] r(2) by (simp_all add: m'_def)
  have ri: "unat (?rs ! i) = chain_lim (bs @ b # ds) lim" using r(1) by (cases bs) auto
  have off: "same_off lo lim (hmem h) m'" using r(3) ri by (intro same_off_widen [OF f(4)]) auto
  have blk: "blk_ok (hmem h) b" using r(1) by (simp add: chain_append)
  have b: "blk_ok (hmem h) b" "blk_end b \<le> lim" "?rs ! i \<le> ?it"
    using blk chain_above [OF r(1), of b] ri by (simp_all add: word_le_nat_alt)
  have p: "unat (HEAP_DATA ?it) = unat ?it + 16"
    using b(2) r(2) by (simp add: HEAP_DATA_def blk_end_def unat_add_nowrap)
  have single: "heap_free_single (HEAP_DATA ?it) h = (h', 0)"
    using b(1) u by (simp add: heap_free_single_def HEAP_DATA_def blk_ok_def Let_def h'_def m'_def)
  have "?rs ! i < HEAP_DATA ?it" using b(3) p by (simp add: word_less_nat_alt word_le_nat_alt)
  moreover have "\<forall>j \<le> i. ?rs ! j \<noteq> 0"
    using regions_nz [OF wf [unfolded heap_wf_def]] i(1) by auto
  ultimately have "heap_free (HEAP_DATA ?it) h = Inr h'"
    using heap_free_loop_hit [OF single, of i ?rs] i(1) p regions_length [OF wf [unfolded heap_wf_def]]
    by (auto simp: heap_free_def)
  moreover have "heap_wf h' (xs[i := (free_abs bs b ds, lo, lim)])"
    using regions_update [OF wf [unfolded heap_wf_def] i f(1) _ off]
    by (simp add: heap_wf_def h'_def free_abs_lim chain_lim_append)
  moreover have "m' x = hmem h x" if "used_in (xs[i := (free_abs bs b ds, lo, lim)]) x" for x
  proof -
    from that i(1) obtain j where "j < length xs" "j = i \<and> used_byte (free_abs bs b ds) x \<or> j \<noteq> i \<and> used_byte (fst (xs ! j)) x"
      by (auto simp: used_in_conv nth_list_update split: if_splits)
    then show ?thesis
      using f(3) regions_apart [OF wf [unfolded heap_wf_def] i(1), of j x] i(2) same_offD [OF off, of x] by auto
  qed
  ultimately show ?thesis using f(2) by (auto simp: h'_def)
qed

section \<open>What a split does to the \<open>prev\<close> pointers\<close>

text \<open>
  Cutting an allocation off a free block that is followed by another block leaves the \<open>prev\<close>
  pointer of that next block as it was: it names the allocated block, not the new free one. The
  list is no longer linked both ways, which is what freeing relies on.
\<close>

theorem heap_alloc_stale_prev:
  fixes b d :: block
  assumes c: "chain (hmem h) r (b # d # bs) lim" and lim: "lim \<le> 2 ^ 32"
    and l: "linked (hmem h) 0 (b # d # bs)" and f: "\<not> bused b" and k: "unat k + 16 \<le> unat (bsize b)"
  shows "\<exists>h' n. heap_alloc_single h r k = Some (h', HEAP_DATA r) \<and>
    chain (hmem h') r (b\<lparr>bsize := k, bused := True\<rparr> # n # d # bs) lim \<and> \<not> bused n \<and>
    blk_prev (hmem h') (baddr d) = r \<and> \<not> linked (hmem h') 0 (b\<lparr>bsize := k, bused := True\<rparr> # n # d # bs)"
proof -
  let ?m = "alloc_split r k (hmem h)" and ?n = "HEAP_DATA r + k"
  note s = alloc_split_chain [OF c lim f k]
  have rb: "r = baddr b" "is_used (hmem h) r = bused b" "blk_size (hmem h) r = bsize b" "r \<noteq> 0"
    using c by (auto simp: blk_ok_def)
  have kb: "k \<le> bsize b" using k by (simp add: word_le_nat_alt)
  have st: "heap_alloc_single h r k = Some (count_alloc k (h\<lparr>hmem := ?m\<rparr>), HEAP_DATA r)"
    using rb f k kb chain_not_huge [OF c lim kb]
    by (subst heap_alloc_single.simps) (auto simp: word_less_nat_alt word_le_nat_alt)
  have cd: "chain (hmem h) (baddr d) (d # bs) lim" and e: "blk_end b \<le> unat (baddr d)" using c by auto
  have d16: "unat (baddr d) + 16 \<le> 2 ^ 32"
    using chain_head_le [OF cd] lim blk_end_ge [of d] by linarith
  have "blk_prev ?m (baddr d) = r"
    using fld_off(3) [OF s(2) d16] e l rb by simp
  moreover have "?n \<noteq> r"
  proof
    assume "?n = r"
    moreover have "unat ?n = unat r + 16 + unat k"
      using s(1) chain_head_le [OF c] lim k rb
      by (simp add: HEAP_DATA_def blk_end_def unat_add_nowrap)
    ultimately show False by simp
  qed
  moreover define h' where "h' = count_alloc k (h\<lparr>hmem := ?m\<rparr>)"
  moreover have "hmem h' = ?m" by (simp add: h'_def)
  ultimately have "heap_alloc_single h r k = Some (h', HEAP_DATA r)" "blk_prev (hmem h') (baddr d) = r"
    "\<not> linked (hmem h') 0 (b\<lparr>bsize := k, bused := True\<rparr> # \<lparr>baddr = ?n, bsize = bsize b - k - 16, bused = False\<rparr> # d # bs)"
    using st rb(1) by simp_all
  moreover have "\<not> bused \<lparr>baddr = ?n, bsize = bsize b - k - 16, bused = False\<rparr>" by simp
  ultimately show ?thesis using s(1) \<open>hmem h' = ?m\<close> by metis
qed

text \<open>
  C34: the list \<open>x, y, n, w\<close> that such allocations leave: \<open>w\<close>'s \<open>prev\<close> still names the free
  block \<open>x\<close>, although \<open>y\<close>, which is allocated, lies between. Freeing \<open>w\<close> joins \<open>x\<close> with its
  successor \<open>y\<close>: the free block at \<open>x\<close> now covers the whole of \<open>y\<close>, which is still in use and
  whose header has lost its magic number.
\<close>

theorem heap_free_stale_prev:
  fixes x y n w :: block
  assumes c: "chain (hmem h) (baddr x) [x, y, n, w] lim" and lim: "lim < 2 ^ 32"
    and u: "\<not> bused x" "bused y" "bused w" and p: "blk_prev (hmem h) (baddr w) = baddr x"
    and s: "s_heap_regions h = baddr x # rs"
  shows "\<exists>h'. heap_free (HEAP_DATA (baddr w)) h = Inr h' \<and>
    \<not> is_used (hmem h') (baddr x) \<and> blk_size (hmem h') (baddr x) = bsize x + bsize y + 16 \<and>
    \<not> has_magic (hmem h') (baddr y) \<and> blk_next (hmem h') (baddr x) = baddr n"
proof -
  let ?m = "hmem h" and ?x = "baddr x" and ?y = "baddr y" and ?n = "baddr n" and ?w = "baddr w"
  have e: "unat ?x + 16 \<le> unat ?y" "unat ?y + 16 \<le> unat ?n" "unat ?n + 16 \<le> unat ?w" "unat ?w + 16 \<le> 2 ^ 32"
    using c lim blk_end_ge [of x] blk_end_ge [of y] blk_end_ge [of n] blk_end_ge [of w] by auto
  have ap: "hdr_apart ?w ?x" "hdr_apart ?w ?y" "hdr_apart ?w ?n" "hdr_apart ?x ?y" "hdr_apart ?y ?x"
    "hdr_apart ?n ?x" "hdr_apart ?n ?y"
    using e by (auto simp: hdr_apart_def)
  note flds = hdr_simps ap [THEN fld_apart(1)] ap [THEN fld_apart(2)] ap [THEN fld_apart(3)]
    ap [THEN fld_apart(4)] ap [THEN fld_apart(5)] ap [THEN fld_apart(6)] ap [THEN fld_apart(7)]
    ap [THEN fld_apart(8)] ap [THEN fld_apart(13)] ap [THEN fld_apart(14)] ap [THEN fld_apart(15)] ap [THEN fld_apart(16)]
  have ok: "?x \<noteq> 0" "?n \<noteq> 0" "blk_next ?m ?x = ?y" "blk_next ?m ?y = ?n" "blk_next ?m ?w = 0"
    "blk_size ?m ?x = bsize x" "blk_size ?m ?y = bsize y" "\<not> is_used ?m ?x" "is_used ?m ?w" "has_magic ?m ?w"
    using c u by (auto simp: blk_ok_def)
  have w: "unat (HEAP_DATA ?w) = unat ?w + 16"
    using c lim by (simp add: HEAP_DATA_def blk_end_def unat_add_nowrap)
  have fl: "(v AND NOT HEAP_MAGIC) AND HEAP_MAGIC \<noteq> HEAP_MAGIC" for v
    by (simp add: and.assoc HEAP_MAGIC_def)
  define m' where "m' = set_prev ?n ?x (set_next ?x ?n (set_flags ?y (blk_flags ?m ?y AND NOT HEAP_MAGIC)
    (set_size ?x (bsize x + bsize y + 16) (set_flags ?w (blk_flags ?m ?w XOR HEAP_FLG_USED) ?m))))"
  have "heap_free_single (HEAP_DATA ?w) h = (h\<lparr>heap_frees := heap_frees h + 1,
      heap_free_bytes := heap_free_bytes h + blk_size ?m ?w, hmem := m'\<rparr>, 0)"
    using ok p by (simp add: heap_free_single_def HEAP_DATA_def Let_def free_merge_next_def
        free_merge_prev_def is_used_def m'_def flds)
  moreover have "\<not> is_used m' ?x" "blk_size m' ?x = bsize x + bsize y + 16" "\<not> has_magic m' ?y" "blk_next m' ?x = ?n"
    using ok by (simp_all add: m'_def flds is_used_def has_magic_def fl)
  ultimately show ?thesis using ok w e s
    by (auto simp: heap_free_def word_less_nat_alt)
qed

section \<open>Building a heap\<close>

lemma add_slot_first:
  assumes "length (s_heap_regions h) = HEAP_MAX" "i < HEAP_MAX" "s_heap_regions h ! i = 0"
    "\<forall>j < i. s_heap_regions h ! j \<noteq> 0" "k \<le> i"
  shows "heap_add_slot a [k..<HEAP_MAX] h = Inr (h\<lparr>s_heap_regions := (s_heap_regions h)[i := a]\<rparr>)"
  using assms(5)
proof (induction "i - k" arbitrary: k)
  case 0
  then show ?case using assms by (simp add: upt_conv_Cons rd_def wr_def)
next
  case (Suc n)
  then have "k < i" "heap_add_slot a [Suc k..<HEAP_MAX] h = Inr (h\<lparr>s_heap_regions := (s_heap_regions h)[i := a]\<rparr>)"
    by auto
  then show ?case using assms by (simp add: upt_conv_Cons rd_def)
qed

lemma regions_append:
  assumes "regions m rs xs" "length xs < length rs" "a \<noteq> 0" "chain m a bs lim" "lim < 2 ^ 32"
    "lo \<le> chain_lim bs lim" "apart (lo, lim) (map snd xs)"
  shows "rs ! length xs = 0 \<and> regions m (rs[length xs := a]) (xs @ [(bs, lo, lim)])"
  using assms
proof (induction m rs xs rule: regions.induct)
  case (2 m r rs)
  then have "regions m rs []" by (cases rs) auto
  then show ?case using 2 by (simp add: apart_def)
next
  case (3 m r rs bs1 lo1 lim1 xs)
  then show ?case by (auto simp: apart_def)
qed auto

text \<open>
  C30: after \<open>heap_init\<close> the heap is well-formed and empty; \<open>heap_add_region\<close> on a well-formed
  heap with a free slot, for a range that no region overlaps, adds a region with one free block
  that starts at the aligned address and ends at \<open>b\<close>, and leaves the other regions alone.
\<close>

theorem heap_add_region_correct:
  assumes wf: "heap_wf h xs" and len: "length (s_heap_regions h) = HEAP_MAX" "length xs < HEAP_MAX"
    and a: "MM_ALIGN_UP a 8 \<noteq> 0" "unat (MM_ALIGN_UP a 8) + 16 \<le> unat b"
    and ap: "apart (unat (MM_ALIGN_UP a 8), unat b) (map snd xs)"
  shows "heap_wf (heap_init h) [] \<and> (\<exists>h'. heap_add_region a b h = Inr h' \<and>
    heap_wf h' (xs @ [([\<lparr>baddr = MM_ALIGN_UP a 8, bsize = b - MM_ALIGN_UP a 8 - 16, bused = False\<rparr>],
      unat (MM_ALIGN_UP a 8), unat b)]) \<and>
    linked (hmem h') 0 [\<lparr>baddr = MM_ALIGN_UP a 8, bsize = b - MM_ALIGN_UP a 8 - 16, bused = False\<rparr>] \<and>
    (\<forall>x. used_in xs x \<longrightarrow> hmem h' x = hmem h x))"
proof -
  let ?a = "MM_ALIGN_UP a 8" and ?m = "hmem h" and ?i = "length xs"
  let ?b = "\<lparr>baddr = ?a, bsize = b - ?a - 16, bused = False\<rparr>"
  define m' where "m' = set_next ?a 0 (set_prev ?a 0 (set_size ?a (b - ?a - 16) (set_flags ?a HEAP_MAGIC ?m)))"
  have b32: "unat b < 2 ^ 32" using unat_lt [of b] by simp
  have sz: "unat (b - ?a - 16) = unat b - unat ?a - 16"
  proof -
    have "unat (b - ?a) = unat b - unat ?a" using a(2) by (simp add: unat_sub_le word_le_nat_alt)
    then show ?thesis using a(2) by (simp add: unat_sub_le word_le_nat_alt)
  qed
  have off: "same_off (unat ?a) (unat b) ?m m'"
    unfolding m'_def using a(2) b32 by (intro same_off_set same_off_refl) auto
  have rg: "regions m' (s_heap_regions h) xs"
    by (rule regions_same_off [OF wf [unfolded heap_wf_def] off ap])
  have c: "chain m' ?a [?b] (unat b)"
    using a sz by (simp add: blk_ok_def has_magic_def is_used_def m'_def hdr_simps magic_facts blk_end_def)
  have r: "s_heap_regions h ! ?i = 0" "regions m' ((s_heap_regions h)[?i := ?a]) (xs @ [([?b], unat ?a, unat b)])"
    using regions_append [OF rg _ a(1) c b32 _ ap] len by simp_all
  have nz: "\<forall>j < ?i. s_heap_regions h ! j \<noteq> 0" using regions_nz [OF rg] by simp
  have "heap_add_region a b h = Inr (h\<lparr>hmem := m', s_heap_regions := (s_heap_regions h)[?i := ?a]\<rparr>)"
    using add_slot_first [of "h\<lparr>hmem := m'\<rparr>" ?i 0 ?a] len r(1) nz
    by (simp add: heap_add_region_def Let_def m'_def)
  moreover have "m' x = ?m x" if "used_in xs x" for x
    using regions_used [OF wf [unfolded heap_wf_def] that] ap
    by (intro same_offD [OF off]) (auto simp: apart_def list_all_iff)
  moreover have "linked m' 0 [?b]" by (simp add: m'_def hdr_simps)
  moreover have "heap_wf (heap_init h) []"
    by (simp add: heap_wf_def heap_init_def HEAP_MAX_def numeral_eq_Suc)
  ultimately show ?thesis using r(2) by (auto simp: heap_wf_def)
qed

section \<open>Taking a range out of a region\<close>

lemma remove_words:
  fixes base s z b :: u32
  assumes inside: "unat base + 32 \<le> unat s" "unat s + unat z + 16 \<le> unat base + unat b"
    and le: "unat base + 16 + unat b \<le> lim" and lim: "lim < 2 ^ 32"
  shows "unat (s - 16) = unat s - 16" "unat (s + z) = unat s + unat z"
    "unat (b - (s + z - base) - 16) = unat b - (unat s + unat z - unat base) - 16"
    "unat (s - 16 - base - 16) = unat s - 16 - unat base - 16"
proof -
  let ?a = "s - 16" and ?e = "s + z"
  let ?n = "b - (?e - base) - 16"
  have ua: "unat ?a = unat s - 16" using inside(1) by (simp add: unat_sub_le word_le_nat_alt)
  have ue: "unat ?e = unat s + unat z" using inside le lim by (simp add: unat_add_nowrap)
  have ub: "unat (?e - base) = unat ?e - unat base" using ue inside by (simp add: unat_sub_le word_le_nat_alt)
  have un: "unat ?n = unat b - (unat s + unat z - unat base) - 16"
  proof -
    have "unat (b - (?e - base)) = unat b - unat (?e - base)"
      using ub ue inside by (intro unat_sub_le) (simp add: word_le_nat_alt)
    moreover have "(16 :: u32) \<le> b - (?e - base)"
      using calculation ub ue inside by (simp add: word_le_nat_alt)
    ultimately show ?thesis using ub ue by (simp add: unat_sub_le)
  qed
  have uf: "unat (?a - base - 16) = unat s - 16 - unat base - 16"
  proof -
    have d: "unat (?a - base) = unat ?a - unat base" using ua inside by (intro unat_sub_le) (simp add: word_le_nat_alt)
    then have "(16 :: u32) \<le> ?a - base" using ua inside by (simp add: word_le_nat_alt)
    then have "unat (?a - base - 16) = unat (?a - base) - unat (16 :: u32)" by (rule unat_sub_le)
    then show ?thesis using d ua by simp
  qed
  show "unat (s - 16) = unat s - 16" "unat (s + z) = unat s + unat z"
    "unat (b - (s + z - base) - 16) = unat b - (unat s + unat z - unat base) - 16"
    "unat (s - 16 - base - 16) = unat s - 16 - unat base - 16"
    using ua ue un uf by blast+
qed

text \<open>The lemma behind the next theorem, with the bytes of the range.\<close>

lemma heap_remove_mid:
  fixes base start sz b :: u32
  defines "s \<equiv> start AND (- 8)" and "z \<equiv> MM_ALIGN_UP sz 16"
  assumes c: "chain (hmem h) base [\<lparr>baddr = base, bsize = b, bused = False\<rparr>] lim"
    and l: "linked (hmem h) 0 [\<lparr>baddr = base, bsize = b, bused = False\<rparr>]"
    and lim: "lim < 2 ^ 32"
    and rs: "s_heap_regions h = base # replicate 15 0"
    and inside: "unat base + 32 \<le> unat s" "unat s + unat z + 16 \<le> unat base + unat b" "0 < unat z"
  shows "\<exists>h' n. heap_remove_region start sz h = Inr h' \<and>
    heap_wf h' [([\<lparr>baddr = base, bsize = s - 16 - base - 16, bused = False\<rparr>,
      \<lparr>baddr = s - 16, bsize = z, bused = True\<rparr>, \<lparr>baddr = s + z, bsize = n, bused = False\<rparr>], unat base, lim)] \<and>
    linked (hmem h') 0 [\<lparr>baddr = base, bsize = s - 16 - base - 16, bused = False\<rparr>,
      \<lparr>baddr = s - 16, bsize = z, bused = True\<rparr>, \<lparr>baddr = s + z, bsize = n, bused = False\<rparr>] \<and>
    (\<forall>x. unat s \<le> unat x \<and> unat x < unat s + unat z \<longrightarrow> hmem h' x = hmem h x)"
proof -
  let ?m = "hmem h" and ?a = "s - 16" and ?e = "s + z"
  let ?n = "b - (?e - base) - 16"
  have hd: "base \<noteq> 0" "blk_size ?m base = b" "\<not> is_used ?m base" "has_magic ?m base" "blk_next ?m base = 0"
    "blk_prev ?m base = 0" and le: "unat base + 16 + unat b \<le> lim"
    using c l by (auto simp: blk_ok_def blk_end_def)
  note w = remove_words [OF inside(1,2) le lim]
  note ua = w(1) and ue = w(2) and un = w(3) and uf = w(4)
  have ap: "hdr_apart base ?a" "hdr_apart ?a base" "hdr_apart base ?e" "hdr_apart ?e base" "hdr_apart ?a ?e" "hdr_apart ?e ?a"
    using ua ue inside le lim by (auto simp: hdr_apart_def)
  note flds = hdr_simps ap [THEN fld_apart(1)] ap [THEN fld_apart(2)] ap [THEN fld_apart(3)]
    ap [THEN fld_apart(4)] ap [THEN fld_apart(5)] ap [THEN fld_apart(6)] ap [THEN fld_apart(7)]
    ap [THEN fld_apart(8)] ap [THEN fld_apart(9)] ap [THEN fld_apart(10)] ap [THEN fld_apart(11)]
    ap [THEN fld_apart(12)] ap [THEN fld_apart(13)] ap [THEN fld_apart(14)] ap [THEN fld_apart(15)] ap [THEN fld_apart(16)]
  define m' where "m' = set_next base ?a (set_size base (?a - base - 16) (set_prev ?e ?a (set_next ?e 0
    (set_flags ?e HEAP_MAGIC (set_size ?e ?n (set_next ?a ?e (set_size ?a z (set_flags ?a
      (HEAP_FLG_USED OR HEAP_FLG_EXCLUDE OR HEAP_MAGIC) (set_prev ?a base ?m)))))))))"
  have "?e \<noteq> 0" "?a \<noteq> 0"
    using ue ua inside by (auto simp: unat_eq_0 [symmetric] simp del: unat_eq_0)
  moreover have "is_used m' ?a" "has_magic m' ?a" "\<not> is_used m' ?e" "has_magic m' ?e"
    by (simp_all add: is_used_def has_magic_def m'_def flds magic_facts)
      (simp_all add: HEAP_FLG_USED_def HEAP_FLG_EXCLUDE_def HEAP_MAGIC_def)
  ultimately have "chain m' base [\<lparr>baddr = base, bsize = ?a - base - 16, bused = False\<rparr>,
      \<lparr>baddr = ?a, bsize = z, bused = True\<rparr>, \<lparr>baddr = ?e, bsize = ?n, bused = False\<rparr>] lim"
    using hd ua ue un uf inside le
    by (simp add: blk_ok_def blk_end_def is_used_def has_magic_def) (simp add: m'_def flds)
  moreover have "linked m' 0 [\<lparr>baddr = base, bsize = ?a - base - 16, bused = False\<rparr>,
      \<lparr>baddr = ?a, bsize = z, bused = True\<rparr>, \<lparr>baddr = ?e, bsize = ?n, bused = False\<rparr>]"
    using hd by (simp add: m'_def flds)
  moreover have "heap_remove_region start sz h = Inr (h\<lparr>hmem := m'\<rparr>)"
  proof -
    have "\<not> base > s" using inside by (simp add: word_less_nat_alt word_le_nat_alt)
    moreover have sb: "unat (s - base) = unat s - unat base" using inside by (simp add: unat_sub_le word_le_nat_alt)
    moreover have "unat (16 + b) = 16 + unat b" using le lim by (subst unat_add_nowrap) auto
    ultimately have ri: "fst (region_get_intersect base (hdr_size + b) s z)"
      using inside by (simp add: region_get_intersect_def word_less_nat_alt)
    have nb: "\<not> s - base < hdr_size" using sb inside by (simp add: word_less_nat_alt)
    have "heap_remove_one 0 s z h = Inr (h\<lparr>hmem := m'\<rparr>, ?a, True)"
      using ri nb hd by (simp add: heap_remove_one_def rs res_simps Let_def m'_def flds)
    then show ?thesis
      using hd(1) by (simp add: heap_remove_region_def HEAP_MAX_def upt_conv_Cons rs res_simps s_def z_def)
  qed
  moreover have "\<forall>x. unat s \<le> unat x \<and> unat x < unat s + unat z \<longrightarrow> m' x = ?m x"
    using ua ue inside le lim by (auto simp: m'_def fld_off_hdr)
  moreover have "regions m' (replicate 15 0) []" by (simp add: numeral_eq_Suc)
  ultimately show ?thesis
    using hd(1) lim rs by (intro exI [of _ "h\<lparr>hmem := m'\<rparr>"] exI [of _ ?n])
      (simp add: heap_wf_def apart_def del: chain.simps linked.simps)
qed


text \<open>
  When the range starts at the base of the region, only the pointer of the region is moved,
  past the range and 16 bytes more; memory is not written, so whatever those bytes hold is taken
  as the header of the region's first block.
\<close>

theorem heap_remove_region_base:
  assumes "s_heap_regions h = base # replicate 15 0" "base \<noteq> 0" "base AND (- 8) = base"
    "blk_next (hmem h) base = 0" "0 < MM_ALIGN_UP sz 16" "0 < hdr_size + blk_size (hmem h) base"
  shows "heap_remove_region base sz h =
    Inr (h\<lparr>s_heap_regions := (base + MM_ALIGN_UP sz 16 + hdr_size) # replicate 15 0\<rparr>)"
  using assms
  by (simp add: heap_remove_region_def HEAP_MAX_def upt_conv_Cons heap_remove_one_def res_simps
      region_get_intersect_def)

text \<open>
  Growing a block by 4 bytes into the free block that follows it makes the list of blocks
  cyclic. The new header is written 4 bytes above the old one, its \<open>prev\<close> field lies on the old
  \<open>next\<close> field, and \<open>next\<close> is read after \<open>prev\<close> has been written: the new block's \<open>next\<close> is the
  block itself that grew, and no walk over the region ends any more.
\<close>

theorem heap_realloc_cycle:
  fixes b n :: block
  assumes c: "chain (hmem h) (baddr b) [b, n] lim" and lim: "lim < 2 ^ 32" and adj: "blk_end b = unat (baddr n)"
    and u: "\<not> bused n" and n: "4 < bsize n"
  shows "\<exists>h'. heap_realloc (HEAP_DATA (baddr b)) (bsize b + 4) h = Inr (h', HEAP_DATA (baddr b)) \<and>
    blk_next (hmem h') (baddr b) = baddr n + 4 \<and> blk_next (hmem h') (baddr n + 4) = baddr b"
proof -
  let ?m = "hmem h" and ?it = "baddr b" and ?n = "baddr n"
  have ok: "?it \<noteq> 0" "?n \<noteq> 0" "has_magic ?m ?it" "blk_size ?m ?it = bsize b" "blk_next ?m ?it = ?n"
    "\<not> is_used ?m ?n" "blk_size ?m ?n = bsize n"
    and e: "blk_end n \<le> lim"
    using c u by (auto simp: blk_ok_def)
  have newb: "HEAP_DATA ?it + (bsize b + 4) = ?n + 4"
  proof -
    have "unat (HEAP_DATA ?it + bsize b) = unat ?n"
      using adj e lim by (simp add: HEAP_DATA_def blk_end_def unat_add_nowrap)
    then have "HEAP_DATA ?it + bsize b = ?n" by (simp only: word_unat_eq_iff)
    then show ?thesis by (simp add: algebra_simps)
  qed
  have n4: "unat (?n + 4) = unat ?n + 4" using e lim by (simp add: blk_end_def unat_add_nowrap)
  have ap: "hdr_apart (?n + 4) ?it" "hdr_apart ?it (?n + 4)" "hdr_apart ?it ?n"
    using n4 adj e lim n by (auto simp: hdr_apart_def blk_end_def word_less_nat_alt)
  have over: "blk_next (set_prev (?n + 4) v m) ?n = v" for v m
    using load_store_same [of m "?n + 12" v] by (simp add: blk_next_def set_prev_def add.commute)
  have keep: "blk_next (set_flags ?n v m) (?n + 4) = blk_next m (?n + 4)" for v m
    by (simp add: blk_next_def set_flags_def load32_def store32_def)
  note flds = hdr_simps ap [THEN fld_apart(13)] ap [THEN fld_apart(14)] ap [THEN fld_apart(15)] ap [THEN fld_apart(16)]
  have apf: "blk_next (set_flags ?n v m) ?it = blk_next m ?it" for v m
    using adj e lim blk_end_ge [of b] by (intro fld_apart) (simp add: hdr_apart_def blk_end_def)
  have "blk_next (realloc_insert ?it (bsize b + 4) 4 ?n ?m) ?it = ?n + 4 \<and>
      blk_next (realloc_insert ?it (bsize b + 4) 4 ?n ?m) (?n + 4) = ?it"
    using ok by (simp add: realloc_insert_def newb Let_def over flds keep apf)
  moreover have "bsize b + 4 - bsize b = 4" by simp
  ultimately show ?thesis
    using ok n by (simp add: heap_realloc_def HEAP_DATA_def Let_def) (auto simp: not_le [symmetric])
qed

definition free_total :: "block list \<Rightarrow> u32" where
  "free_total bs = sum_list (map bsize (filter (\<lambda>b. \<not> bused b) bs))"

lemma stat_region_chain:
  "chain m a bs lim \<Longrightarrow> \<exists>st'. stat_region m a st = Some st' \<and> st_frags st' = st_frags st \<and>
    st_blocks st' = st_blocks st + of_nat (length bs) \<and> st_free st' = st_free st + free_total bs"
proof (induction bs arbitrary: a st)
  case Nil
  then show ?case by (subst stat_region.simps) (simp add: free_total_def)
next
  case (Cons b bs)
  have "a \<noteq> 0" using Cons.prems by (auto simp: blk_ok_def)
  then have st: "stat_region m a st = stat_region m (blk_next m a) (stat_block m a st)"
    by (subst stat_region.simps) simp
  obtain st' where "stat_region m (blk_next m a) (stat_block m a st) = Some st'"
    "st_frags st' = st_frags (stat_block m a st)"
    "st_blocks st' = st_blocks (stat_block m a st) + of_nat (length bs)"
    "st_free st' = st_free (stat_block m a st) + free_total bs"
    using Cons by fastforce
  then show ?case using st Cons.prems by (auto simp: stat_block_def Let_def blk_ok_def free_total_def)
qed

lemma stat_loop_regions:
  assumes "regions m rs xs"
  shows "\<exists>st'. stat_loop m rs st = Some st' \<and> st_frags st' = st_frags st + of_nat (length xs) \<and>
    st_blocks st' = st_blocks st + of_nat (sum_list (map (length \<circ> fst) xs)) \<and>
    st_free st' = st_free st + sum_list (map (free_total \<circ> fst) xs)"
  using assms
proof (induction m rs xs arbitrary: st rule: regions.induct)
  case (3 m r rs bs lo lim xs)
  let ?st = "st\<lparr>st_frags := st_frags st + 1\<rparr>"
  have "chain m r bs lim" using 3 by simp
  from stat_region_chain [OF this, of ?st] obtain st1 where
    a: "stat_region m r ?st = Some st1" "st_frags st1 = st_frags st + 1"
      "st_blocks st1 = st_blocks st + of_nat (length bs)" "st_free st1 = st_free st + free_total bs"
    by auto
  from "3.IH" [of st1] "3.prems" a show ?case by (auto simp: algebra_simps)
qed auto

text \<open>
  On well-formed regions \<open>heap_stat\<close> returns; it counts each region once and each block
  once, its \<open>free\<close> is the sum of the sizes of the free blocks, and its \<open>total\<close> is \<open>used\<close> and
  \<open>free\<close> and one header per block.
\<close>

theorem heap_stat_correct:
  assumes "heap_wf h xs"
  shows "\<exists>st. heap_stat_of h = Some st \<and> st_frags st = of_nat (length xs) \<and>
    st_blocks st = of_nat (sum_list (map (length \<circ> fst) xs)) \<and>
    st_free st = sum_list (map (free_total \<circ> fst) xs) \<and>
    st_total st = st_used st + st_free st + st_blocks st * 16 \<and>
    st_allocs st = heap_allocs h \<and> st_frees st = heap_frees h"
  using stat_loop_regions [OF assms [unfolded heap_wf_def], of stat_zero]
  by (auto simp: heap_stat_of_def stat_zero_def)

section \<open>The allocator as an interface\<close>

text \<open>
  What the clients of the heap rely on: an allocation returns, a failed one changes nothing, a
  successful one returns bytes that are not in use and keeps the bytes in use.
\<close>

locale allocator =
  fixes wf :: "'h \<Rightarrow> 'a \<Rightarrow> bool" and used :: "'a \<Rightarrow> u32 \<Rightarrow> bool"
    and bytes_of :: "'h \<Rightarrow> u32 \<Rightarrow> u8" and alloc :: "u32 \<Rightarrow> 'h \<Rightarrow> ('h \<times> u32) option"
  assumes alloc_total: "wf h a \<Longrightarrow> alloc c h \<noteq> None"
    and alloc_fail: "wf h a \<Longrightarrow> alloc c h = Some (h', 0) \<Longrightarrow> h' = h"
    and alloc_ok: "wf h a \<Longrightarrow> alloc c h = Some (h', p) \<Longrightarrow> p \<noteq> 0 \<Longrightarrow>
      \<exists>a'. wf h' a' \<and> (\<forall>x. used a x \<longrightarrow> bytes_of h' x = bytes_of h x) \<and>
        (\<forall>x. unat p \<le> unat x \<and> unat x < unat p + unat c \<longrightarrow> \<not> used a x) \<and>
        (\<forall>x. used a' x \<longleftrightarrow> used a x \<or> unat p \<le> unat x \<and> unat x < unat p + unat c)"

text \<open>A run of allocations: the requested sizes and the pointers returned.\<close>

fun allocs :: "(u32 \<Rightarrow> 'h \<Rightarrow> ('h \<times> u32) option) \<Rightarrow> u32 list \<Rightarrow> 'h \<Rightarrow> ('h \<times> (u32 \<times> u32) list) option" where
  "allocs alloc [] h = Some (h, [])"
| "allocs alloc (c # cs) h =
     Option.bind (alloc c h) (\<lambda>(h', p).
       Option.bind (allocs alloc cs h') (\<lambda>(h'', ps). Some (h'', (p, c) # ps)))"

definition in_block :: "u32 \<times> u32 \<Rightarrow> u32 \<Rightarrow> bool" where
  "in_block q x \<longleftrightarrow> fst q \<noteq> 0 \<and> unat (fst q) \<le> unat x \<and> unat x < unat (fst q) + unat (snd q)"

context allocator
begin

lemma alloc_step:
  assumes "wf h a"
  shows "\<exists>h' p a'. alloc c h = Some (h', p) \<and> wf h' a' \<and> (\<forall>x. used a x \<longrightarrow> bytes_of h' x = bytes_of h x) \<and>
    (\<forall>x. in_block (p, c) x \<longrightarrow> \<not> used a x) \<and> (\<forall>x. used a' x \<longleftrightarrow> used a x \<or> in_block (p, c) x)"
proof -
  obtain h' p where s: "alloc c h = Some (h', p)" using alloc_total [OF assms, of c] by auto
  show ?thesis
  proof (cases "p = 0")
    case True
    then show ?thesis using s alloc_fail [OF assms, of c h'] assms by (auto simp: in_block_def)
  next
    case False
    then show ?thesis using s alloc_ok [OF assms s False] by (auto simp: in_block_def)
  qed
qed

lemma allocs_disjoint:
  assumes "wf h a"
  shows "\<exists>h' ps a'. allocs alloc cs h = Some (h', ps) \<and> map snd ps = cs \<and> wf h' a' \<and>
    (\<forall>x. used a x \<longrightarrow> used a' x \<and> bytes_of h' x = bytes_of h x) \<and>
    (\<forall>i < length ps. \<forall>x. in_block (ps ! i) x \<longrightarrow> used a' x \<and> \<not> used a x) \<and>
    (\<forall>i j x. i < j \<and> j < length ps \<and> in_block (ps ! i) x \<longrightarrow> \<not> in_block (ps ! j) x)"
  using assms
proof (induction cs arbitrary: h a)
  case (Cons c cs)
  obtain h1 p a1 where s: "alloc c h = Some (h1, p)" "wf h1 a1"
    "\<forall>x. used a x \<longrightarrow> bytes_of h1 x = bytes_of h x" "\<forall>x. in_block (p, c) x \<longrightarrow> \<not> used a x"
    "\<forall>x. used a1 x \<longleftrightarrow> used a x \<or> in_block (p, c) x"
    using alloc_step [OF Cons.prems, of c] by blast
  obtain h' ps a' where r: "allocs alloc cs h1 = Some (h', ps)" "map snd ps = cs" "wf h' a'"
    "\<forall>x. used a1 x \<longrightarrow> used a' x \<and> bytes_of h' x = bytes_of h1 x"
    "\<forall>i < length ps. \<forall>x. in_block (ps ! i) x \<longrightarrow> used a' x \<and> \<not> used a1 x"
    "\<forall>i j x. i < j \<and> j < length ps \<and> in_block (ps ! i) x \<longrightarrow> \<not> in_block (ps ! j) x"
    using Cons.IH [OF s(2)] by blast
  have "used a' x \<and> \<not> used a x" if "i < length ((p, c) # ps)" "in_block (((p, c) # ps) ! i) x" for i x
    using that s(4,5) r(4,5) by (cases i) auto
  moreover have "\<not> in_block (((p, c) # ps) ! j) x"
    if "i < j" "j < length ((p, c) # ps)" "in_block (((p, c) # ps) ! i) x" for i j x
    using that s(5) r(5,6) by (cases i; cases j) auto
  ultimately show ?case using s r by auto
qed auto

end

interpretation kheap: allocator heap_wf used_in hmem heap_alloc
proof
  show "heap_alloc c h \<noteq> None" if "heap_wf h a" for h a c
    using heap_alloc_cases [OF that, of c] by auto
  show "h' = h" if "heap_wf h a" "heap_alloc c h = Some (h', 0)" for h a c h'
    using heap_alloc_cases [OF that(1), of c] that(2) by auto
  show "\<exists>a'. heap_wf h' a' \<and> (\<forall>x. used_in a x \<longrightarrow> hmem h' x = hmem h x) \<and>
      (\<forall>x. unat p \<le> unat x \<and> unat x < unat p + unat c \<longrightarrow> \<not> used_in a x) \<and>
      (\<forall>x. used_in a' x \<longleftrightarrow> used_in a x \<or> unat p \<le> unat x \<and> unat x < unat p + unat c)"
    if "heap_wf h a" "heap_alloc c h = Some (h', p)" "p \<noteq> 0" for h a c h' p
    using heap_alloc_cases [OF that(1), of c] that(2,3) by auto
qed

text \<open>
  C29: any run of allocations on a well-formed heap returns; the blocks it hands out are pairwise
  disjoint, disjoint from all that was allocated before, and nothing allocated before changes.
\<close>

theorem heap_allocs_disjoint:
  assumes "heap_wf h xs"
  shows "\<exists>h' ps xs'. allocs heap_alloc cs h = Some (h', ps) \<and> map snd ps = cs \<and> heap_wf h' xs' \<and>
    (\<forall>x. used_in xs x \<longrightarrow> used_in xs' x \<and> hmem h' x = hmem h x) \<and>
    (\<forall>i < length ps. \<forall>x. in_block (ps ! i) x \<longrightarrow> used_in xs' x \<and> \<not> used_in xs x) \<and>
    (\<forall>i j x. i < j \<and> j < length ps \<and> in_block (ps ! i) x \<longrightarrow> \<not> in_block (ps ! j) x)"
  by (rule kheap.allocs_disjoint [OF assms])

section \<open>Concrete heaps\<close>

text \<open>Headers written one after the other into zeroed memory: address, flags, size, prev, next.\<close>

fun mem_of :: "(u32 \<times> u32 \<times> u32 \<times> u32 \<times> u32) list \<Rightarrow> mem" where
  "mem_of [] = (\<lambda>_. 0)"
| "mem_of ((a, f, s, p, n) # hs) = set_next a n (set_prev a p (set_size a s (set_flags a f (mem_of hs))))"

definition heap_of :: "mem \<Rightarrow> u32 list \<Rightarrow> heap" where
  "heap_of m rs = \<lparr>hmem = m, s_heap_regions = rs, heap_allocs = 0,
     heap_frees = 0, heap_alloc_bytes = 0, heap_free_bytes = 0\<rparr>"

definition one_region :: "u32 \<Rightarrow> u32 list" where
  "one_region r = r # replicate 15 0"

lemma regions_zero: "regions m (replicate n 0) []"
  by (cases n) (auto simp: list_all_iff)

lemma regions_one: "regions m (one_region r) [(bs, lo, lim)] \<longleftrightarrow>
    r \<noteq> 0 \<and> chain m r bs lim \<and> lim < 2 ^ 32 \<and> lo \<le> chain_lim bs lim"
  by (simp add: one_region_def apart_def regions_zero)

lemma heap_wf_one:
  "chain m r bs lim \<Longrightarrow> r \<noteq> 0 \<Longrightarrow> lim < 2 ^ 32 \<Longrightarrow> lo \<le> chain_lim bs lim \<Longrightarrow>
   heap_wf (heap_of m (one_region r)) [(bs, lo, lim)]"
  by (simp add: heap_wf_def heap_of_def regions_one)

definition ex_stale_mem :: mem where
  "ex_stale_mem = mem_of [(4096, 0xDEADF00D, 20, 0, 4132), (4132, 0xDEADF01D, 40, 4096, 4188),
     (4188, 0xDEADF00D, 8, 4132, 4212), (4212, 0xDEADF01D, 100, 4096, 0)]"

definition ex_mem :: mem where
  "ex_mem = mem_of [(4096, 0xDEADF00D, 100, 0, 4212), (4212, 0xDEADF01D, 40, 4096, 0)]"

definition blk :: "u32 \<Rightarrow> u32 \<Rightarrow> bool \<Rightarrow> block" where
  "blk a s u = \<lparr>baddr = a, bsize = s, bused = u\<rparr>"

lemma ex_chain: "chain ex_mem 4096 [blk 4096 100 False, blk 4212 40 True] 8192"
  "linked ex_mem 0 [blk 4096 100 False, blk 4212 40 True]"
  by code_simp+

lemma ex_wf: "heap_wf (heap_of ex_mem (one_region 4096)) [([blk 4096 100 False, blk 4212 40 True], 4096, 8192)]"
  by (rule heap_wf_one [OF ex_chain(1)]) (simp_all add: blk_def)

theorem heap_alloc_correct_witness:
  "\<exists>h' p xs'. heap_alloc 60 (heap_of ex_mem (one_region 4096)) = Some (h', p) \<and> p \<noteq> 0 \<and> heap_wf h' xs' \<and>
     heap_allocs h' = 1"
  using heap_alloc_correct [OF ex_wf, of 60] by (auto simp: blk_def heap_of_def)

theorem heap_free_correct_witness:
  "\<exists>h'. heap_free 4228 (heap_of ex_mem (one_region 4096)) = Inr h' \<and>
     heap_wf h' [([blk 4096 156 False], 4096, 8192)] \<and> heap_frees h' = 1"
  using heap_free_correct [OF ex_wf, of 0 "[blk 4096 100 False]" "blk 4212 40 True" "[]" 4096 8192] ex_chain(2)
  by (auto simp: blk_def heap_of_def HEAP_DATA_def free_abs_def merged_def unuse_def)

theorem heap_allocs_disjoint_witness:
  "\<exists>h' p q xs'. allocs heap_alloc [20, 30] (heap_of ex_mem (one_region 4096)) = Some (h', [(p, 20), (q, 30)]) \<and>
     heap_wf h' xs' \<and> (\<forall>x. in_block (p, 20) x \<longrightarrow> \<not> in_block (q, 30) x)"
proof -
  obtain h' ps xs' where r: "allocs heap_alloc [20, 30] (heap_of ex_mem (one_region 4096)) = Some (h', ps)"
    "map snd ps = [20, 30]" "heap_wf h' xs'"
    "\<forall>i j x. i < j \<and> j < length ps \<and> in_block (ps ! i) x \<longrightarrow> \<not> in_block (ps ! j) x"
    using heap_allocs_disjoint [OF ex_wf, of "[20, 30]"] by (elim exE conjE) (rule that)
  then obtain p q where "ps = [(p, 20), (q, 30)]" by auto
  then have "allocs heap_alloc [20, 30] (heap_of ex_mem (one_region 4096)) = Some (h', [(p, 20), (q, 30)])"
    "\<forall>x. in_block (p, 20) x \<longrightarrow> \<not> in_block (q, 30) x"
    using r(1) r(4) [rule_format, of 0 1] by auto
  then show ?thesis using r(3) by blast
qed

theorem heap_add_region_correct_witness:
  "\<exists>h' b. heap_add_region 12289 16384 (heap_of ex_mem (one_region 4096)) = Inr h' \<and>
     heap_wf h' [([blk 4096 100 False, blk 4212 40 True], 4096, 8192), ([blk 12296 b False], 12296, 16384)]"
proof -
  have a: "MM_ALIGN_UP 12289 8 = 12296" by code_simp
  show ?thesis
    using heap_add_region_correct [OF ex_wf, of 12289 16384]
    by (auto simp: a apart_def heap_of_def one_region_def HEAP_MAX_def blk_def)
qed

theorem heap_alloc_stale_prev_witness:
  "\<exists>h' bs. heap_alloc_single (heap_of ex_mem (one_region 4096)) 4096 20 = Some (h', 4112) \<and>
     chain (hmem h') 4096 bs 8192 \<and> \<not> linked (hmem h') 0 bs"
  using heap_alloc_stale_prev [of "heap_of ex_mem (one_region 4096)" 4096 "blk 4096 100 False" "blk 4212 40 True" "[]" 8192 20]
    ex_chain by (fastforce simp: heap_of_def blk_def HEAP_DATA_def simp del: chain.simps linked.simps)

lemma ex_stale_chain: "chain ex_stale_mem 4096
    [blk 4096 20 False, blk 4132 40 True, blk 4188 8 False, blk 4212 100 True] 8192"
  "blk_prev ex_stale_mem 4212 = 4096"
  by code_simp+

theorem heap_free_stale_prev_witness:
  "\<exists>h'. heap_free 4228 (heap_of ex_stale_mem (one_region 4096)) = Inr h' \<and>
     blk_size (hmem h') 4096 = 76 \<and> \<not> is_used (hmem h') 4096 \<and> \<not> has_magic (hmem h') 4132"
  using heap_free_stale_prev [of "heap_of ex_stale_mem (one_region 4096)" "blk 4096 20 False" "blk 4132 40 True"
      "blk 4188 8 False" "blk 4212 100 True" 8192 "replicate 15 0"] ex_stale_chain
  by (auto simp: heap_of_def blk_def HEAP_DATA_def one_region_def)

definition ex_free_mem :: mem where
  "ex_free_mem = mem_of [(4096, 0xDEADF00D, 4080, 0, 0)]"

lemma ex_free: "chain ex_free_mem 4096 [\<lparr>baddr = 4096, bsize = 4080, bused = False\<rparr>] 8192"
  "linked ex_free_mem 0 [\<lparr>baddr = 4096, bsize = 4080, bused = False\<rparr>]"
  by code_simp+


end
