(* ===== verification/Phys.thy ===== *)
theory Phys
  imports CString Heap
begin

text \<open>
  The physical page allocator, \<open>src/src/arch/x86/mm/phys.c\<close>: a bitmap with one bit per 4 KiB
  page (a set bit is a page that is not free), searched from the page after the last one handed
  out. The list of memory ranges that the boot loader passes is a list of entries; the prints
  are left out.
\<close>

section \<open>Constants and state\<close>

definition MM_NADDR :: u32 where "MM_NADDR = 0xFFFFFFFF"
definition MM_FLG_WR :: u32 where "MM_FLG_WR = 2"
definition MM_FLG_US :: u32 where "MM_FLG_US = 4"
definition MM_FLG_PS :: u32 where "MM_FLG_PS = 128"
definition MM_FLG_MERGE :: u32 where "MM_FLG_MERGE = 0x20000000"
definition MM_FLG_NOPHYS :: u32 where "MM_FLG_NOPHYS = 0x40000000"

definition X86_MM_PHYS_MAX :: nat where "X86_MM_PHYS_MAX = 262144"

text \<open>The number of 32-bit words of the bitmap.\<close>

definition phys_words :: nat where "phys_words = X86_MM_PHYS_MAX div 8"

record phys =
  page_bitmap :: "u32 list"
  alloc_last :: u32
  page_count :: u32

section \<open>Allocation of a 4 KiB page\<close>

definition page_word :: "u32 \<Rightarrow> nat" where
  "page_word page = unat (drop_bit 17 page)"

definition page_bit :: "u32 \<Rightarrow> u32" where
  "page_bit page = push_bit (unat (drop_bit 12 page AND 0x1F)) 1"

text \<open>The inner loop: the first of the 32 bits that is clear.\<close>

definition free_bit :: "u32 \<Rightarrow> nat option" where
  "free_bit w = find (\<lambda>j. w AND push_bit j 1 = 0) [0..<32]"

fun phys_scan :: "nat list \<Rightarrow> phys \<Rightarrow> (phys \<times> u32) option res" where
  "phys_scan [] p = Inr None"
| "phys_scan (i # is) p =
     bindR (rd (page_bitmap p) i) (\<lambda>w.
       if w = 0xFFFFFFFF then phys_scan is p
       else case free_bit w of
         None \<Rightarrow> phys_scan is p
       | Some j \<Rightarrow>
           (let page = push_bit 17 (of_nat i) OR push_bit 12 (of_nat j) in
            bindR (wr (page_bitmap p) i (w OR push_bit j 1)) (\<lambda>bm.
            Inr (Some (p\<lparr>page_bitmap := bm, alloc_last := page + 0x1000\<rparr>, page)))))"

definition x86_mm_alloc_physical_page :: "phys \<Rightarrow> (phys \<times> u32) res" where
  "x86_mm_alloc_physical_page p =
     bindR (phys_scan [page_word (alloc_last p)..<phys_words] p) (\<lambda>r.
       case r of Some x \<Rightarrow> Inr x
       | None \<Rightarrow> bindR (phys_scan [0..<page_word (alloc_last p)] p) (\<lambda>r.
           case r of Some x \<Rightarrow> Inr x | None \<Rightarrow> Inr (p, MM_NADDR)))"

section \<open>Allocation of a 4 MiB page\<close>

text \<open>Whether one of the 32 words from \<open>i\<close> on is not zero.\<close>

fun huge_busy :: "u32 list \<Rightarrow> nat list \<Rightarrow> bool res" where
  "huge_busy bm [] = Inr False"
| "huge_busy bm (k # ks) = bindR (rd bm k) (\<lambda>w. if nz w then Inr True else huge_busy bm ks)"

fun huge_scan :: "nat list \<Rightarrow> phys \<Rightarrow> (phys \<times> u32) res" where
  "huge_scan [] p = Inr (p, MM_NADDR)"
| "huge_scan (i # is) p =
     bindR (huge_busy (page_bitmap p) [i..<i + 32]) (\<lambda>f.
       if \<not> f then
         (let page = push_bit 17 (of_nat i) in Inr (p\<lparr>alloc_last := page + 0x400000\<rparr>, page))
       else huge_scan is p)"

definition x86_mm_alloc_physical_page_huge :: "phys \<Rightarrow> (phys \<times> u32) res" where
  "x86_mm_alloc_physical_page_huge p = huge_scan (map (\<lambda>k. 32 * k) [0..<phys_words div 32]) p"

definition mm_alloc_physical_page :: "u32 \<Rightarrow> phys \<Rightarrow> (phys \<times> u32) res" where
  "mm_alloc_physical_page flags p =
     (if nz (flags AND MM_FLG_PS) then x86_mm_alloc_physical_page_huge p
      else x86_mm_alloc_physical_page p)"

section \<open>Freeing\<close>

definition mm_free_physical_page :: "u32 \<Rightarrow> u32 \<Rightarrow> phys \<Rightarrow> phys res" where
  "mm_free_physical_page page flags p =
     bindR (rd (page_bitmap p) (page_word page)) (\<lambda>w.
       if nz (flags AND MM_FLG_PS) then
         assertR (w = 0xFFFFFFFF)
           (bindR (wr (page_bitmap p) (page_word page) 0) (\<lambda>bm.
            Inr (p\<lparr>page_bitmap := bm, page_count := page_count p + 32\<rparr>)))
       else
         assertR (nz (w AND page_bit page))
           (bindR (wr (page_bitmap p) (page_word page) (w AND NOT (page_bit page))) (\<lambda>bm.
            Inr (p\<lparr>page_bitmap := bm, page_count := page_count p + 1\<rparr>))))"

section \<open>Initialisation from the memory map\<close>

definition x86_mm_add_physical_page :: "u32 \<Rightarrow> phys \<Rightarrow> phys res" where
  "x86_mm_add_physical_page page p =
     bindR (rd (page_bitmap p) (page_word page)) (\<lambda>w.
     bindR (wr (page_bitmap p) (page_word page) (w AND NOT (page_bit page))) (\<lambda>bm.
     Inr (p\<lparr>page_bitmap := bm, page_count := page_count p + 1\<rparr>)))"

definition x86_mm_can_claim :: "u32 \<Rightarrow> bool" where
  "x86_mm_can_claim page \<longleftrightarrow> unat (drop_bit 12 page) < X86_MM_PHYS_MAX \<and> page > 4 * 0x400000"

record mmap_entry =
  e_addr :: u64
  e_len :: u64
  e_type :: u32

definition MULTIBOOT_MEMORY_AVAILABLE :: u32 where "MULTIBOOT_MEMORY_AVAILABLE = 1"

text \<open>The length of an entry after the clipping at 4 GiB; \<open>None\<close> is an entry that is skipped.\<close>

definition entry_len :: "mmap_entry \<Rightarrow> u64 option" where
  "entry_len e =
     (if e_addr e + e_len e > 0xFFFFFFFF then
        (if 0xFFFFFFFF > e_addr e then None else Some (0xFFFFFFFF - e_addr e))
      else Some (e_len e))"

definition entry_page :: "mmap_entry \<Rightarrow> nat \<Rightarrow> u32" where
  "entry_page e i = push_bit 12 (of_nat i) + ucast (e_addr e AND - 0x1000)"

definition entry_npages :: "u64 \<Rightarrow> nat" where
  "entry_npages len = unat (ucast len div 0x1000 :: u32)"

definition claim_page :: "mmap_entry \<Rightarrow> nat \<Rightarrow> phys \<times> u32 \<Rightarrow> (phys \<times> u32) res" where
  "claim_page e i s =
     (if x86_mm_can_claim (entry_page e i) then
        bindR (x86_mm_add_physical_page (entry_page e i) (fst s)) (\<lambda>p. Inr (p, snd s + 1))
      else Inr s)"

definition phys_entry :: "mmap_entry \<Rightarrow> phys \<times> u32 \<Rightarrow> (phys \<times> u32) res" where
  "phys_entry e s =
     assertR (e_type e < 5)
       (case entry_len e of
          None \<Rightarrow> Inr s
        | Some len \<Rightarrow>
            if e_type e = MULTIBOOT_MEMORY_AVAILABLE
            then foldR (claim_page e) [0..<entry_npages len] s
            else Inr s)"

text \<open>The second component of the result counts the usable pages.\<close>

definition x86_mm_phys_init :: "mmap_entry list \<Rightarrow> phys \<Rightarrow> (phys \<times> u32) res" where
  "x86_mm_phys_init es p =
     bindR (memsetl (page_bitmap p) 0xFFFFFFFF (of_nat phys_words)) (\<lambda>bm.
     foldR phys_entry es (p\<lparr>page_bitmap := bm\<rparr>, 0))"

section \<open>The set of free pages\<close>

definition phys_ok :: "phys \<Rightarrow> bool" where
  "phys_ok p \<longleftrightarrow> length (page_bitmap p) = phys_words"

text \<open>The numbers of the free pages.\<close>

definition free_pages :: "phys \<Rightarrow> nat set" where
  "free_pages p = {n. n div 32 < length (page_bitmap p) \<and> \<not> bit (page_bitmap p ! (n div 32)) (n mod 32)}"

definition page_no :: "u32 \<Rightarrow> nat" where
  "page_no page = unat page div 4096"

lemma phys_words_eq: "phys_words = 32768"
  by (simp add: phys_words_def X86_MM_PHYS_MAX_def)

lemma and_bit_zero: "(w :: u32) AND 2 ^ j = 0 \<longleftrightarrow> \<not> bit w j"
  by (rule and_exp_eq_0_iff_not_bit)

lemma free_bit_Some: "free_bit w = Some j \<Longrightarrow> j < 32 \<and> \<not> bit w j"
  by (auto simp: free_bit_def find_Some_iff and_bit_zero)

lemma free_bit_None: "free_bit w = None \<longleftrightarrow> w = - 1"
proof -
  have "free_bit w = None \<longleftrightarrow> (\<forall>j < 32. bit w j)"
    by (auto simp: free_bit_def find_None_iff and_bit_zero)
  also have "\<dots> \<longleftrightarrow> w = - 1" by (auto intro: bit_word_eqI)
  finally show ?thesis by simp
qed

lemma ones_u32: "(0xFFFFFFFF :: u32) = - 1"
  by simp

lemma disjoint_fields: "push_bit 17 a AND push_bit 12 (take_bit 5 b) = (0 :: u32)"
  by (rule bit_word_eqI) (auto simp: bit_simps)

lemma page_addr:
  assumes "i < 32768" "j < 32"
  shows "unat (push_bit 17 (of_nat i) OR push_bit 12 (of_nat j) :: u32) = (32 * i + j) * 4096"
proof -
  have i: "unat (push_bit 17 (of_nat i) :: u32) = i * 2 ^ 17"
    using assms by (simp add: push_bit_eq_mult unat_word_ariths unat_of_nat)
  have j: "unat (push_bit 12 (of_nat j) :: u32) = j * 2 ^ 12"
    using assms by (simp add: push_bit_eq_mult unat_word_ariths unat_of_nat)
  have "take_bit 5 (of_nat j :: u32) = of_nat j"
    using assms(2) by (simp only: word_unat_eq_iff) (simp add: unat_take unat_of_nat_small del: take_bit_eq_mod)
  then have "push_bit 17 (of_nat i) AND push_bit 12 (of_nat j) = (0 :: u32)"
    using disjoint_fields [of "of_nat i" "of_nat j"] by simp
  then have "push_bit 17 (of_nat i) OR push_bit 12 (of_nat j) = (push_bit 17 (of_nat i) + push_bit 12 (of_nat j) :: u32)"
    by (rule disjunctive_add_eq_or [symmetric])
  then show ?thesis using i j assms by (simp add: unat_add_nowrap)
qed

lemma page_word_no: "page_word page = page_no page div 32"
  by (simp add: page_word_def page_no_def unat_drop div_mult2_eq [symmetric] del: drop_bit_eq_div)

lemma page_bit_no: "page_bit page = 2 ^ (page_no page mod 32)"
proof -
  have "drop_bit 12 page AND 0x1F = take_bit 5 (drop_bit 12 page)" by (simp add: take_bit_eq_mask mask_numeral)
  then have "unat (drop_bit 12 page AND 0x1F) = page_no page mod 32"
    by (simp only: unat_take unat_drop page_no_def) (simp add: unat_take unat_drop)
  then show ?thesis by (simp add: page_bit_def)
qed

lemma bit_set: "j < 32 \<Longrightarrow> bit (w OR 2 ^ j :: u32) k \<longleftrightarrow> bit w k \<or> k = j"
  by (auto simp: bit_simps)

lemma bit_clear: "j < 32 \<Longrightarrow> k < 32 \<Longrightarrow> bit (w AND NOT (2 ^ j) :: u32) k \<longleftrightarrow> bit w k \<and> k \<noteq> j"
  by (auto simp: bit_simps)

lemma free_pages_set:
  assumes "i < length (page_bitmap p)" "j < 32"
  shows "free_pages (p\<lparr>page_bitmap := (page_bitmap p)[i := page_bitmap p ! i OR 2 ^ j], alloc_last := l\<rparr>) =
    free_pages p - {32 * i + j}"
  using assms by (auto simp: free_pages_def nth_list_update bit_set)

lemma free_pages_clear:
  assumes "i < length (page_bitmap p)" "j < 32"
  shows "free_pages (p\<lparr>page_bitmap := (page_bitmap p)[i := page_bitmap p ! i AND NOT (2 ^ j)], page_count := c\<rparr>) =
    insert (32 * i + j) (free_pages p)"
  using assms by (auto simp: free_pages_def nth_list_update bit_clear)

lemma phys_scan_correct:
  assumes "phys_ok p" "\<forall>i \<in> set is. i < phys_words"
  shows "(\<exists>p' n. phys_scan is p = Inr (Some (p', of_nat (4096 * n))) \<and> n div 32 \<in> set is \<and> n \<in> free_pages p \<and>
      free_pages p' = free_pages p - {n} \<and> phys_ok p' \<and> page_count p' = page_count p) \<or>
    phys_scan is p = Inr None \<and> (\<forall>n \<in> free_pages p. n div 32 \<notin> set is)"
  using assms(2)
proof (induction "is")
  case (Cons i "is")
  have i: "i < length (page_bitmap p)" "i < 32768"
    using Cons.prems assms(1) by (auto simp: phys_ok_def phys_words_eq)
  let ?w = "page_bitmap p ! i"
  show ?case
  proof (cases "free_bit ?w")
    case None
    then have w: "?w = - 1" by (simp only: free_bit_None)
    then have "phys_scan (i # is) p = phys_scan is p" using i by (simp add: res_simps w)
    moreover have "n div 32 \<noteq> i" if "n \<in> free_pages p" for n
    proof
      assume "n div 32 = i"
      then show False using that by (auto simp: free_pages_def w)
    qed
    ultimately show ?thesis using Cons by auto
  next
    case (Some j)
    have j: "j < 32" "\<not> bit ?w j" using free_bit_Some [OF Some] by auto
    then have w: "?w \<noteq> 0xFFFFFFFF" using Some free_bit_None [of ?w] by auto
    define page :: u32 where "page = push_bit 17 (of_nat i) OR push_bit 12 (of_nat j)"
    let ?n = "32 * i + j"
    have "page = of_nat (4096 * ?n)"
      using page_addr [OF i(2) j(1)] i(2) j(1) unat_of_nat_small [of "4096 * ?n", where 'a = 32]
      by (simp only: page_def word_unat_eq_iff) simp
    define p' where "p' = p\<lparr>page_bitmap := (page_bitmap p)[i := ?w OR push_bit j 1], alloc_last := page + 0x1000\<rparr>"
    have "phys_scan (i # is) p = Inr (Some (p', page))"
      using i w Some by (simp add: res_simps p'_def page_def Let_def)
    moreover have "?n div 32 = i" "?n mod 32 = j" using j by auto
    moreover have "free_pages p' = free_pages p - {?n}"
      using i j free_pages_set [of i p j] by (simp add: p'_def)
    moreover have "?n \<in> free_pages p" using i j by (simp add: free_pages_def)
    moreover have "phys_ok p'" "page_count p' = page_count p" using assms(1) by (simp_all add: p'_def phys_ok_def)
    ultimately show ?thesis using \<open>page = of_nat (4096 * ?n)\<close> by (intro disjI1 exI [of _ p'] exI [of _ ?n]) simp
  qed
qed simp


lemma page_no_of_nat: "n < 1048576 \<Longrightarrow> page_no (of_nat (4096 * n)) = n"
  using unat_of_nat_small [of "4096 * n", where 'a = 32] by (simp add: page_no_def)

lemma free_pages_bound: "phys_ok p \<Longrightarrow> n \<in> free_pages p \<Longrightarrow> n < 1048576"
  by (auto simp: free_pages_def phys_ok_def phys_words_eq)

lemma alloc_page_spec:
  assumes "phys_ok p"
  shows "free_pages p = {} \<and> x86_mm_alloc_physical_page p = Inr (p, MM_NADDR) \<or>
    (\<exists>p' n. x86_mm_alloc_physical_page p = Inr (p', of_nat (4096 * n)) \<and> n \<in> free_pages p \<and>
      free_pages p' = free_pages p - {n} \<and> phys_ok p' \<and> page_count p' = page_count p)"
proof -
  let ?k = "page_word (alloc_last p)"
  have k: "?k \<le> phys_words" using unat_lt [of "alloc_last p"]
    by (simp add: page_word_no page_no_def phys_words_eq)
  have lt: "n div 32 < phys_words" if "n \<in> free_pages p" for n
    using that assms by (simp add: free_pages_def phys_ok_def)
  note a = phys_scan_correct [OF assms, of "[?k..<phys_words]"]
    and b = phys_scan_correct [OF assms, of "[0..<?k]"]
  show ?thesis
    using a b k lt by (auto simp: x86_mm_alloc_physical_page_def) (meson not_less)+
qed

lemma free_page_spec:
  assumes "phys_ok p"
  shows "if page_no page \<in> free_pages p then mm_free_physical_page page 0 p = Inl AssertFail
    else \<exists>p'. mm_free_physical_page page 0 p = Inr p' \<and>
      free_pages p' = insert (page_no page) (free_pages p) \<and> phys_ok p' \<and> page_count p' = page_count p + 1"
proof -
  let ?n = "page_no page"
  have n: "?n div 32 < length (page_bitmap p)" using assms unat_lt [of page]
    by (simp add: phys_ok_def page_no_def phys_words_eq)
  let ?w = "page_bitmap p ! (?n div 32)"
  have e: "32 * (?n div 32) + ?n mod 32 = ?n" by simp
  have "?w AND page_bit page = 0 \<longleftrightarrow> ?n \<in> free_pages p"
    using n by (simp add: free_pages_def page_bit_no and_bit_zero)
  then show ?thesis
    using n assms free_pages_clear [of "?n div 32" p "?n mod 32" "page_count p + 1"]
    by (auto simp: mm_free_physical_page_def page_word_no page_bit_no res_simps phys_ok_def)
qed


section \<open>A source of pages as an interface\<close>

text \<open>
  What the paging code relies on: a page that is handed out was free and is not any more, a page
  that is given back is free again. The pages are numbered from address 0.
\<close>

locale page_source =
  fixes ok :: "'s \<Rightarrow> bool" and free :: "'s \<Rightarrow> nat set"
    and alloc :: "'s \<Rightarrow> ('s \<times> u32) res" and release :: "u32 \<Rightarrow> 's \<Rightarrow> 's res"
  assumes alloc_some: "ok s \<Longrightarrow> free s \<noteq> {} \<Longrightarrow>
      \<exists>s' n. alloc s = Inr (s', of_nat (4096 * n)) \<and> n \<in> free s \<and> free s' = free s - {n} \<and> ok s'"
    and release_ok: "ok s \<Longrightarrow> page_no page \<notin> free s \<Longrightarrow>
      \<exists>s'. release page s = Inr s' \<and> free s' = insert (page_no page) (free s) \<and> ok s'"
    and free_bound: "ok s \<Longrightarrow> n \<in> free s \<Longrightarrow> n < 1048576"

text \<open>\<open>k\<close> allocations in a row, and giving a list of pages back.\<close>

fun take_pages :: "('s \<Rightarrow> ('s \<times> u32) res) \<Rightarrow> nat \<Rightarrow> 's \<Rightarrow> ('s \<times> u32 list) res" where
  "take_pages alloc 0 s = Inr (s, [])"
| "take_pages alloc (Suc k) s =
     bindR (alloc s) (\<lambda>(s, page).
     bindR (take_pages alloc k s) (\<lambda>(s, pages). Inr (s, page # pages)))"

fun give_pages :: "(u32 \<Rightarrow> 's \<Rightarrow> 's res) \<Rightarrow> u32 list \<Rightarrow> 's \<Rightarrow> 's res" where
  "give_pages release [] s = Inr s"
| "give_pages release (page # pages) s = bindR (release page s) (give_pages release pages)"

context page_source
begin

lemma take_pages_distinct:
  assumes "ok s" "finite (free s)" "k \<le> card (free s)"
  shows "\<exists>s' pages. take_pages alloc k s = Inr (s', pages) \<and> length pages = k \<and>
    distinct (map page_no pages) \<and> page_no ` set pages \<subseteq> free s \<and>
    free s' = free s - page_no ` set pages \<and> ok s' \<and> (\<forall>p \<in> set pages. unat p mod 4096 = 0)"
  using assms
proof (induction k arbitrary: s)
  case (Suc k)
  have "free s \<noteq> {}" using Suc.prems by auto
  then obtain s1 n where a: "alloc s = Inr (s1, of_nat (4096 * n))" "n \<in> free s" "free s1 = free s - {n}" "ok s1"
    using alloc_some [OF Suc.prems(1)] by blast
  have n: "n < 1048576" by (rule free_bound [OF Suc.prems(1) a(2)])
  have "k \<le> card (free s1)" using Suc.prems a by simp
  then obtain s' pages where r: "take_pages alloc k s1 = Inr (s', pages)" "length pages = k"
    "distinct (map page_no pages)" "page_no ` set pages \<subseteq> free s1"
    "free s' = free s1 - page_no ` set pages" "ok s'" "\<forall>p \<in> set pages. unat p mod 4096 = 0"
    using Suc.IH [OF a(4)] a(3) Suc.prems(2) by auto
  have al: "unat (of_nat (4096 * n) :: u32) mod 4096 = 0"
    using n by (subst unat_of_nat_small) auto
  have pn: "page_no (of_nat (4096 * n)) = n" by (rule page_no_of_nat [OF n])
  have "n \<notin> page_no ` set pages" using r(4) a(3) by blast
  then show ?case using a r al pn
    by (intro exI [of _ s'] exI [of _ "of_nat (4096 * n) # pages"]) (auto simp del: of_nat_mult)
qed simp

lemma give_pages_back:
  assumes "ok s" "distinct (map page_no pages)" "\<forall>p \<in> set pages. page_no p \<notin> free s"
  shows "\<exists>s'. give_pages release pages s = Inr s' \<and> free s' = free s \<union> page_no ` set pages \<and> ok s'"
  using assms
proof (induction pages arbitrary: s)
  case (Cons p pages)
  obtain s1 where r: "release p s = Inr s1" "free s1 = insert (page_no p) (free s)" "ok s1"
    using release_ok [OF Cons.prems(1), of p] Cons.prems(3) by auto
  have "\<exists>s'. give_pages release pages s1 = Inr s' \<and> free s' = free s1 \<union> page_no ` set pages \<and> ok s'"
    using Cons.prems r by (intro Cons.IH) (auto simp: image_iff)
  then show ?case using r by auto
qed simp

lemma take_then_give:
  assumes "ok s" "finite (free s)" "k \<le> card (free s)"
  shows "\<exists>s1 pages. take_pages alloc k s = Inr (s1, pages) \<and> distinct pages \<and> length pages = k \<and>
    (\<forall>qs. distinct qs \<and> set qs = set pages \<longrightarrow>
      (\<exists>s2. give_pages release qs s1 = Inr s2 \<and> free s2 = free s \<and> ok s2))"
proof -
  obtain s1 pages where t: "take_pages alloc k s = Inr (s1, pages)" "length pages = k"
    "distinct (map page_no pages)" "page_no ` set pages \<subseteq> free s"
    "free s1 = free s - page_no ` set pages" "ok s1"
    using take_pages_distinct [OF assms] by blast
  have "\<exists>s2. give_pages release qs s1 = Inr s2 \<and> free s2 = free s \<and> ok s2"
    if "distinct qs \<and> set qs = set pages" for qs
  proof -
    have "distinct (map page_no qs)" using t(3) that by (simp add: distinct_map)
    moreover have "\<forall>p \<in> set qs. page_no p \<notin> free s1" using t(5) that by auto
    ultimately obtain s2 where "give_pages release qs s1 = Inr s2"
      "free s2 = free s1 \<union> page_no ` set qs" "ok s2"
      using give_pages_back [OF t(6)] by blast
    then show ?thesis using t(4,5) that by auto
  qed
  then show ?thesis using t by (auto simp: distinct_map)
qed

end

interpretation kphys: page_source phys_ok free_pages x86_mm_alloc_physical_page
  "\<lambda>page. mm_free_physical_page page 0"
proof
  show "\<exists>s' n. x86_mm_alloc_physical_page s = Inr (s', of_nat (4096 * n)) \<and> n \<in> free_pages s \<and>
      free_pages s' = free_pages s - {n} \<and> phys_ok s'"
    if "phys_ok s" "free_pages s \<noteq> {}" for s
    using alloc_page_spec [OF that(1)] that(2) by blast
  show "\<exists>s'. mm_free_physical_page page 0 s = Inr s' \<and>
      free_pages s' = insert (page_no page) (free_pages s) \<and> phys_ok s'"
    if "phys_ok s" "page_no page \<notin> free_pages s" for s page
    using free_page_spec [OF that(1), of page] that(2) by auto
qed (rule free_pages_bound)

lemma finite_free_pages: "phys_ok p \<Longrightarrow> finite (free_pages p)"
  by (rule finite_subset [of _ "{..<1048576}"]) (auto dest: free_pages_bound)

text \<open>
  C23: allocation of a 4 KiB page returns a page that was free and takes exactly that page; when
  nothing is free it returns \<open>MM_NADDR\<close> and changes nothing. Giving back a page that is free
  already stops the kernel; otherwise it frees exactly that page.
\<close>

theorem phys_page_correct:
  assumes "phys_ok p"
  shows "(free_pages p = {} \<and> mm_alloc_physical_page 0 p = Inr (p, MM_NADDR) \<or>
     (\<exists>p' n. mm_alloc_physical_page 0 p = Inr (p', of_nat (4096 * n)) \<and> n \<in> free_pages p \<and>
       free_pages p' = free_pages p - {n} \<and> phys_ok p')) \<and>
    (if page_no page \<in> free_pages p then mm_free_physical_page page 0 p = Inl AssertFail
     else \<exists>p'. mm_free_physical_page page 0 p = Inr p' \<and>
       free_pages p' = insert (page_no page) (free_pages p) \<and> phys_ok p' \<and> page_count p' = page_count p + 1)"
  using alloc_page_spec [OF assms] free_page_spec [OF assms, of page]
  by (auto simp: mm_alloc_physical_page_def)

text \<open>
  C25: as long as enough pages are free, any number of allocations in a row gives distinct pages,
  and giving them back in any order restores the free pages.
\<close>

theorem phys_take_then_give:
  assumes "phys_ok p" "k \<le> card (free_pages p)"
  shows "\<exists>p1 pages. take_pages x86_mm_alloc_physical_page k p = Inr (p1, pages) \<and> distinct pages \<and>
    length pages = k \<and> (\<forall>qs. distinct qs \<and> set qs = set pages \<longrightarrow>
      (\<exists>p2. give_pages (\<lambda>page. mm_free_physical_page page 0) qs p1 = Inr p2 \<and>
         free_pages p2 = free_pages p \<and> phys_ok p2))"
  by (rule kphys.take_then_give [OF assms(1) finite_free_pages [OF assms(1)] assms(2)])


section \<open>The 4 MiB pages\<close>

lemma huge_busy_False: "huge_busy bm ks = Inr False \<Longrightarrow> \<forall>k \<in> set ks. k < length bm \<and> bm ! k = 0"
  by (induction ks) (auto simp: rd_def split: if_splits)

lemma huge_scan_result:
  assumes "huge_scan is p = Inr (p', page)" "page \<noteq> MM_NADDR"
  shows "\<exists>i l. i \<in> set is \<and> page = push_bit 17 (of_nat i) \<and> p' = p\<lparr>alloc_last := l\<rparr> \<and>
    (\<forall>k < 32. i + k < length (page_bitmap p) \<and> page_bitmap p ! (i + k) = 0)"
  using assms
proof (induction "is" p rule: huge_scan.induct)
  case (2 i "is" p)
  then obtain f where f: "huge_busy (page_bitmap p) [i..<i + 32] = Inr f" by (auto simp: bindR_eq_Inr)
  show ?case
  proof (cases f)
    case True
    then have "huge_scan is p = Inr (p', page)" using "2.prems"(1) f by simp
    then show ?thesis using "2.IH" [OF f] True "2.prems"(2) by auto
  next
    case False
    then have "\<forall>k \<in> set [i..<i + 32]. k < length (page_bitmap p) \<and> page_bitmap p ! k = 0"
      using f by (intro huge_busy_False) simp
    then show ?thesis using 2 f False by (auto simp: Let_def)
  qed
qed auto

lemma huge_scan_again:
  assumes "huge_scan is p = Inr (p', page)" "page_bitmap q = page_bitmap p"
  shows "\<exists>q'. huge_scan is q = Inr (q', page)"
  using assms
proof (induction "is" p rule: huge_scan.induct)
  case (2 i "is" p)
  then obtain f where f: "huge_busy (page_bitmap p) [i..<i + 32] = Inr f" by (auto simp: bindR_eq_Inr)
  then show ?case using 2 by (cases f) (auto simp: Let_def)
qed auto

text \<open>
  A 4 MiB allocation takes nothing. The 1024 pages of the block it returns are free before
  and stay free, the bitmap is what it was, and the next 4 MiB allocation returns the same
  block.
\<close>

theorem phys_huge_not_taken:
  assumes "mm_alloc_physical_page MM_FLG_PS p = Inr (p', page)" "page \<noteq> MM_NADDR"
  shows "free_pages p' = free_pages p \<and>
    (\<forall>k < 1024. page_no page + k \<in> free_pages p') \<and>
    (\<exists>p''. mm_alloc_physical_page MM_FLG_PS p' = Inr (p'', page))"
proof -
  let ?is = "map (\<lambda>k. 32 * k) [0..<phys_words div 32]"
  have fl: "MM_FLG_PS AND MM_FLG_PS \<noteq> 0" by (simp add: MM_FLG_PS_def)
  have s: "huge_scan ?is p = Inr (p', page)"
    using assms(1) fl by (simp add: mm_alloc_physical_page_def x86_mm_alloc_physical_page_huge_def)
  obtain i l where i: "i \<in> set ?is" "page = push_bit 17 (of_nat i)" "p' = p\<lparr>alloc_last := l\<rparr>"
    "\<forall>k < 32. i + k < length (page_bitmap p) \<and> page_bitmap p ! (i + k) = 0"
    using huge_scan_result [OF s assms(2)] by blast
  have pn: "page_no page = 32 * i"
    using i(1,2) page_addr [of i 0] by (auto simp: page_no_def phys_words_eq)
  have "page_no page + k \<in> free_pages p" if "k < 1024" for k
  proof -
    have "(32 * i + k) div 32 = i + k div 32" "k div 32 < 32" using that by auto
    then show ?thesis using i(4) pn by (simp add: free_pages_def)
  qed
  moreover have "free_pages p' = free_pages p" using i(3) by (simp add: free_pages_def)
  moreover obtain p'' where "huge_scan ?is p' = Inr (p'', page)"
    using huge_scan_again [OF s, of p'] i(3) by auto
  ultimately show ?thesis
    using fl by (simp add: mm_alloc_physical_page_def x86_mm_alloc_physical_page_huge_def)
qed

section \<open>Initialisation\<close>

lemma add_page_spec:
  assumes "phys_ok p"
  shows "\<exists>p'. x86_mm_add_physical_page page p = Inr p' \<and>
    free_pages p' = insert (page_no page) (free_pages p) \<and> phys_ok p'"
proof -
  let ?n = "page_no page"
  have n: "?n div 32 < length (page_bitmap p)" using assms unat_lt [of page]
    by (simp add: phys_ok_def page_no_def phys_words_eq)
  have e: "32 * (?n div 32) + ?n mod 32 = ?n" by simp
  then show ?thesis
    using n assms free_pages_clear [of "?n div 32" p "?n mod 32" "page_count p + 1"]
    by (auto simp: x86_mm_add_physical_page_def page_word_no page_bit_no res_simps phys_ok_def)
qed

definition claimed :: "mmap_entry \<Rightarrow> nat set" where
  "claimed e = {page_no (entry_page e i) | i len. e_type e = MULTIBOOT_MEMORY_AVAILABLE \<and>
     entry_len e = Some len \<and> i < entry_npages len \<and> x86_mm_can_claim (entry_page e i)}"

lemma claim_pages_spec:
  assumes "phys_ok (fst s)"
  shows "\<exists>s'. foldR (claim_page e) is s = Inr s' \<and> phys_ok (fst s') \<and> free_pages (fst s') =
    free_pages (fst s) \<union> {page_no (entry_page e i) | i. i \<in> set is \<and> x86_mm_can_claim (entry_page e i)}"
  using assms
proof (induction "is" arbitrary: s)
  case (Cons i "is")
  show ?case
  proof (cases "x86_mm_can_claim (entry_page e i)")
    case True
    obtain p' where p': "x86_mm_add_physical_page (entry_page e i) (fst s) = Inr p'"
      "free_pages p' = insert (page_no (entry_page e i)) (free_pages (fst s))" "phys_ok p'"
      using add_page_spec [OF Cons.prems] by blast
    show ?thesis using Cons.IH [of "(p', snd s + 1)"] p' True by (auto simp: claim_page_def)
  next
    case False
    then show ?thesis using Cons.IH [OF Cons.prems] by (auto simp: claim_page_def)
  qed
qed simp

lemma phys_entry_spec:
  assumes "phys_ok (fst s)" "e_type e < 5"
  shows "\<exists>s'. phys_entry e s = Inr s' \<and> phys_ok (fst s') \<and> free_pages (fst s') = free_pages (fst s) \<union> claimed e"
proof (cases "entry_len e")
  case None
  then show ?thesis using assms by (simp add: phys_entry_def claimed_def)
next
  case (Some len)
  show ?thesis
  proof (cases "e_type e = MULTIBOOT_MEMORY_AVAILABLE")
    case True
    then show ?thesis
      using assms Some claim_pages_spec [OF assms(1), of e "[0..<entry_npages len]"]
      by (auto simp: phys_entry_def claimed_def)
  next
    case False
    then show ?thesis using assms Some by (auto simp: phys_entry_def claimed_def intro!: exI [of _ s])
  qed
qed

lemma phys_entries_spec:
  assumes "phys_ok (fst s)" "\<forall>e \<in> set es. e_type e < 5"
  shows "\<exists>s'. foldR phys_entry es s = Inr s' \<and> phys_ok (fst s') \<and>
    free_pages (fst s') = free_pages (fst s) \<union> (\<Union>e \<in> set es. claimed e)"
  using assms
proof (induction es arbitrary: s)
  case (Cons e es)
  obtain s1 where s1: "phys_entry e s = Inr s1" "phys_ok (fst s1)" "free_pages (fst s1) = free_pages (fst s) \<union> claimed e"
    using phys_entry_spec [of s e] Cons.prems by auto
  then show ?case using Cons.IH [OF s1(2)] Cons.prems(2) by auto
qed simp


text \<open>
  The clipping skips an entry that starts below 4 GiB and ends above it, and takes the low 32
  bits of the addresses of one that starts above.
\<close>

lemma entry_crossing_skipped:
  "e_addr e < 0xFFFFFFFF \<Longrightarrow> e_addr e + e_len e > 0xFFFFFFFF \<Longrightarrow> claimed e = {}"
  by (simp add: claimed_def entry_len_def)

lemma claimedI:
  assumes "e_type e = MULTIBOOT_MEMORY_AVAILABLE" "entry_len e = Some len" "i < entry_npages len"
    "entry_page e i = page" "x86_mm_can_claim page" "page_no page = n"
  shows "n \<in> claimed e"
  using assms unfolding claimed_def by blast

lemma entry_high_claims_low:
  assumes "e = \<lparr>e_addr = 0x100000000, e_len = 0x40000000, e_type = 1\<rparr>"
  shows "0x2000 \<in> claimed e"
proof (rule claimedI)
  show "entry_page e 0x2000 = 0x2000000" "e_type e = MULTIBOOT_MEMORY_AVAILABLE"
    by (simp_all add: assms entry_page_def MULTIBOOT_MEMORY_AVAILABLE_def)
  show "entry_len e = Some (- 1)" by (simp add: assms entry_len_def)
  have "ucast (- 1 :: u64) = (- 1 :: u32)" by (rule bit_word_eqI) (simp add: bit_simps)
  also have "- 1 = (0xFFFFFFFF :: u32)" by simp
  finally show "0x2000 < entry_npages (- 1)" by (simp add: entry_npages_def)
  show "page_no 0x2000000 = 0x2000" "x86_mm_can_claim 0x2000000"
    by (simp_all add: page_no_def x86_mm_can_claim_def X86_MM_PHYS_MAX_def)
qed

section \<open>Concrete states\<close>

definition all_free :: phys where
  "all_free = \<lparr>page_bitmap = replicate phys_words 0, alloc_last = 0, page_count = 0\<rparr>"

lemma all_free_ok: "phys_ok all_free" "n \<in> free_pages all_free \<longleftrightarrow> n < 1048576"
  by (auto simp: phys_ok_def all_free_def free_pages_def phys_words_eq)

theorem phys_page_correct_witness:
  "\<exists>p' n. mm_alloc_physical_page 0 all_free = Inr (p', of_nat (4096 * n)) \<and>
     free_pages p' = free_pages all_free - {n} \<and> phys_ok p'"
  using phys_page_correct [OF all_free_ok(1), of 0] all_free_ok(2) [of 0] by auto

theorem phys_take_then_give_witness:
  "\<exists>p1 pages p2. take_pages x86_mm_alloc_physical_page 2 all_free = Inr (p1, pages) \<and> distinct pages \<and>
     length pages = 2 \<and> give_pages (\<lambda>page. mm_free_physical_page page 0) pages p1 = Inr p2 \<and>
     free_pages p2 = free_pages all_free"
proof -
  have "{0, 1} \<subseteq> free_pages all_free" by (simp add: all_free_ok(2))
  then have "card {0 :: nat, 1} \<le> card (free_pages all_free)"
    by (rule card_mono [OF finite_free_pages [OF all_free_ok(1)]])
  then show ?thesis using phys_take_then_give [OF all_free_ok(1), of 2] by auto
qed

lemma huge_busy_zero: "\<forall>k \<in> set ks. k < length bm \<and> bm ! k = 0 \<Longrightarrow> huge_busy bm ks = Inr False"
  by (induction ks) (auto simp: rd_def)

theorem phys_huge_not_taken_witness:
  "\<exists>p1 p2. mm_alloc_physical_page MM_FLG_PS all_free = Inr (p1, 0) \<and>
     mm_alloc_physical_page MM_FLG_PS p1 = Inr (p2, 0) \<and> 5 \<in> free_pages p1"
proof -
  have "0 < phys_words div 32" by (simp add: phys_words_eq)
  then have "[0..<phys_words div 32] = 0 # [1..<phys_words div 32]" by (simp only: upt_conv_Cons One_nat_def)
  moreover have "huge_busy (page_bitmap all_free) [0..<32] = Inr False"
    by (rule huge_busy_zero) (simp add: all_free_def phys_words_eq)
  ultimately have "mm_alloc_physical_page MM_FLG_PS all_free = Inr (all_free\<lparr>alloc_last := 0x400000\<rparr>, 0)"
    by (simp add: mm_alloc_physical_page_def x86_mm_alloc_physical_page_huge_def MM_FLG_PS_def Let_def)
  with phys_huge_not_taken [OF this] show ?thesis
    by (auto simp: MM_NADDR_def all_free_def free_pages_def phys_words_eq)
qed


end
