(* ===== verification/Paging.thy ===== *)
theory Paging
  imports Phys
begin

text \<open>
  Address spaces: the pool of pages for paging structures and the operations on spaces
  (\<open>src/src/arch/x86/mm/space.c\<close>), mapping and translation (\<open>map.c\<close>), and the copies between
  kernel and user memory (\<open>user.c\<close>).

  Page directories, page tables and table-information blocks are arrays of 1024 words; \<open>tab v\<close>
  is the one at the page-aligned kernel virtual address \<open>v\<close>. A directory is named by that
  address, as \<open>mm_space_t\<close> is; entry 1023 holds the address of its table-information block.
  Physical memory is \<open>ram\<close>, and the bytes of user pages are read and written through the
  mapping that the copy loops enter into the kernel directory. Trace output and
  \<open>mm_dump_map\<close> only print; loading \<open>cr3\<close> is outside the model.
\<close>

section \<open>State\<close>

definition KERNEL_VIRT_BASE :: u32 where "KERNEL_VIRT_BASE = 0xC0000000"
definition X86_MM_FLG_PR :: u32 where "X86_MM_FLG_PR = 1"
definition X86_MM_PAGE_POOL :: nat where "X86_MM_PAGE_POOL = 16"

record pool_ent =
  pbitmap :: "u32 list"
  index_last :: u32
  pvaddr :: u32
  ppaddr :: u32

record mm =
  mphys :: phys
  pool :: "pool_ent list"
  tab :: "u32 \<Rightarrow> nat \<Rightarrow> u32"
  ram :: "u32 \<Rightarrow> u8"
  mm_kernel :: u32

text \<open>Entries of tables: an index past the end is a fault.\<close>

definition rdE :: "u32 \<Rightarrow> nat \<Rightarrow> mm \<Rightarrow> u32 res" where
  "rdE t i s = (if i < 1024 then Inr (tab s t i) else Inl OutOfBounds)"

definition wrE :: "u32 \<Rightarrow> nat \<Rightarrow> u32 \<Rightarrow> mm \<Rightarrow> mm res" where
  "wrE t i v s =
     (if i < 1024 then Inr (s\<lparr>tab := (tab s)(t := (tab s t)(i := v))\<rparr>) else Inl OutOfBounds)"

definition table_info :: "u32 \<Rightarrow> mm \<Rightarrow> u32" where
  "table_info pd s = tab s pd 1023"

definition pdi_of :: "u32 \<Rightarrow> nat" where "pdi_of v = unat (drop_bit 22 v)"
definition pti_of :: "u32 \<Rightarrow> nat" where "pti_of v = unat (drop_bit 12 v AND 0x3FF)"

definition page_base :: "u32 \<Rightarrow> u32" where "page_base v = v AND - 0x1000"

section \<open>Mapping 4 MiB pages\<close>

definition map_ps_one :: "u32 \<Rightarrow> u32 \<Rightarrow> u32 list \<Rightarrow> u32 \<Rightarrow> nat \<Rightarrow> mm \<Rightarrow> mm res" where
  "map_ps_one pd start pages dst_flags i s =
     bindR (rdE pd (pdi_of start + i) s) (\<lambda>e.
     assertR (\<not> nz (e AND X86_MM_FLG_PR))
       (bindR (rd pages i) (\<lambda>page. wrE pd (pdi_of start + i) (page OR dst_flags) s)))"

definition map_ps :: "u32 \<Rightarrow> u32 \<Rightarrow> u32 list \<Rightarrow> u32 \<Rightarrow> u32 \<Rightarrow> mm \<Rightarrow> mm res" where
  "map_ps pd start pages count flags s =
     foldR (map_ps_one pd start pages
       ((flags AND (MM_FLG_WR OR MM_FLG_US)) OR MM_FLG_PS OR X86_MM_FLG_PR)) [0..<unat count] s"

section \<open>The pool of paging structures\<close>

text \<open>
  The loops over the words of one pool's bitmap. The code lets the index run to 1024, but the
  bitmap has 32 words.
\<close>

fun pool_scan :: "nat list \<Rightarrow> pool_ent \<Rightarrow> (pool_ent \<times> u32 \<times> u32) option res" where
  "pool_scan [] e = Inr None"
| "pool_scan (j # js) e =
     bindR (rd (pbitmap e) j) (\<lambda>w.
       if w = 0xFFFFFFFF then pool_scan js e
       else case free_bit w of
         None \<Rightarrow> pool_scan js e
       | Some k \<Rightarrow>
           bindR (wr (pbitmap e) j (w OR push_bit k 1)) (\<lambda>bm.
           (let off = push_bit 17 (of_nat j) + push_bit 12 (of_nat k) in
            Inr (Some (e\<lparr>pbitmap := bm, index_last := of_nat j\<rparr>, pvaddr e + off, ppaddr e + off)))))"

definition pool_entry_alloc :: "pool_ent \<Rightarrow> (pool_ent \<times> u32 \<times> u32) option res" where
  "pool_entry_alloc e =
     bindR (pool_scan [unat (index_last e)..<1024] e) (\<lambda>r.
       case r of Some x \<Rightarrow> Inr (Some x) | None \<Rightarrow> pool_scan [0..<unat (index_last e)] e)"

definition pool_entry_init :: "nat \<Rightarrow> mm \<Rightarrow> mm res" where
  "pool_entry_init i s =
     bindR (mm_alloc_physical_page MM_FLG_PS (mphys s)) (\<lambda>(p, paddr).
     (let vaddr = KERNEL_VIRT_BASE + push_bit 22 4 + push_bit 22 (of_nat i) in
      bindR (rd (pool s) i) (\<lambda>e.
      bindR (wr (pool s) i (e\<lparr>ppaddr := paddr, pvaddr := vaddr, index_last := 0\<rparr>)) (\<lambda>pl.
      bindR (map_ps (mm_kernel s) vaddr [paddr] 1 (MM_FLG_PS OR MM_FLG_WR) (s\<lparr>mphys := p, pool := pl\<rparr>)) (\<lambda>s.
      bindR (rd (pool s) i) (\<lambda>e.
      bindR (memsetl (pbitmap e) 0 32) (\<lambda>bm.
      bindR (wr (pool s) i (e\<lparr>pbitmap := bm\<rparr>)) (\<lambda>pl. Inr (s\<lparr>pool := pl\<rparr>)))))))))"

fun pool_alloc_loop :: "nat list \<Rightarrow> mm \<Rightarrow> (mm \<times> u32 \<times> u32) res" where
  "pool_alloc_loop [] s = Inr (s, MM_NADDR, 0)"
| "pool_alloc_loop (i # is) s =
     bindR (rd (pool s) i) (\<lambda>e.
     bindR (if pvaddr e = 0 then pool_entry_init i s else Inr s) (\<lambda>s.
     bindR (rd (pool s) i) (\<lambda>e.
     bindR (pool_entry_alloc e) (\<lambda>r.
       case r of None \<Rightarrow> pool_alloc_loop is s
       | Some (e, vaddr, phys) \<Rightarrow> bindR (wr (pool s) i e) (\<lambda>pl. Inr (s\<lparr>pool := pl\<rparr>, vaddr, phys))))))"

text \<open>The address of the page and its physical address; \<open>*phys\<close> is not written on failure.\<close>

definition x86_page_pool_allocate :: "mm \<Rightarrow> (mm \<times> u32 \<times> u32) res" where
  "x86_page_pool_allocate s = pool_alloc_loop [0..<X86_MM_PAGE_POOL] s"

fun pool_free_loop :: "nat list \<Rightarrow> u32 \<Rightarrow> mm \<Rightarrow> mm res" where
  "pool_free_loop [] vaddr s = Inl Panic"
| "pool_free_loop (i # is) vaddr s =
     bindR (rd (pool s) i) (\<lambda>e.
       if nz (pvaddr e) \<and> pvaddr e \<le> vaddr \<and> vaddr - pvaddr e < 0x400000 then
         (let index = unat (drop_bit 17 (vaddr - pvaddr e));
              b = push_bit (unat (drop_bit 12 (vaddr - pvaddr e) AND 0x1F)) 1
          in bindR (rd (pbitmap e) index) (\<lambda>w.
             assertR (nz (w AND b))
               (bindR (wr (pbitmap e) index (w AND NOT b)) (\<lambda>bm.
                bindR (wr (pool s) i (e\<lparr>pbitmap := bm\<rparr>)) (\<lambda>pl. Inr (s\<lparr>pool := pl\<rparr>))))))
       else pool_free_loop is vaddr s)"

definition x86_page_pool_free :: "u32 \<Rightarrow> mm \<Rightarrow> mm res" where
  "x86_page_pool_free vaddr s = pool_free_loop [0..<X86_MM_PAGE_POOL] vaddr s"

definition pool_zero :: pool_ent where
  "pool_zero = \<lparr>pbitmap = replicate 32 0, index_last = 0, pvaddr = 0, ppaddr = 0\<rparr>"

definition x86_mm_pool_init :: "mm \<Rightarrow> mm" where
  "x86_mm_pool_init s = s\<lparr>pool := replicate X86_MM_PAGE_POOL pool_zero\<rparr>"

section \<open>Mapping 4 KiB pages\<close>

text \<open>
  The table of a directory entry that is present, and a new table for one that is not. \<open>info\<close>
  is the table-information block, which the code reads from entry 1023 once, before its loops.
\<close>

definition old_table :: "u32 \<Rightarrow> nat \<Rightarrow> mm \<Rightarrow> u32 res" where
  "old_table info pdi s =
     bindR (rdE info pdi s) (\<lambda>ti.
     assertR (nz ti) (assertR (ti AND 0xFFF \<noteq> 0xFFF) (Inr (page_base ti))))"

definition new_table :: "u32 \<Rightarrow> u32 \<Rightarrow> nat \<Rightarrow> mm \<Rightarrow> (mm \<times> u32) res" where
  "new_table pd info pdi s =
     bindR (x86_page_pool_allocate s) (\<lambda>(s, pt, phys).
     assertR (pt \<noteq> MM_NADDR)
       (bindR (wrE info pdi (pt OR 1) s) (\<lambda>s.
        bindR (wrE pd pdi (phys OR (X86_MM_FLG_PR OR MM_FLG_WR OR MM_FLG_US)) s) (\<lambda>s.
        Inr (s, pt)))))"

definition count_entry :: "u32 \<Rightarrow> nat \<Rightarrow> mm \<Rightarrow> mm res" where
  "count_entry info pdi s =
     bindR (rdE info pdi s) (\<lambda>ti. wrE info pdi (ti + 1) s)"

text \<open>The loop body of \<open>mm_map_range\<close>: the physical page is taken before the entry is examined.\<close>

definition map_alloc_one :: "u32 \<Rightarrow> u32 \<Rightarrow> u32 \<Rightarrow> u32 \<Rightarrow> nat \<Rightarrow> mm \<Rightarrow> mm res" where
  "map_alloc_one pd info start flags i s =
     (let vpage = start + of_nat i * 0x1000; pdi = pdi_of vpage; pti = pti_of vpage;
          dst_flags = (flags AND (MM_FLG_WR OR MM_FLG_US)) OR X86_MM_FLG_PR
      in bindR (rdE pd pdi s) (\<lambda>pde.
         assertR (\<not> nz (pde AND MM_FLG_PS))
           (bindR (mm_alloc_physical_page 0 (mphys s)) (\<lambda>(p, page_phys).
            let s = s\<lparr>mphys := p\<rparr> in
            if nz (pde AND X86_MM_FLG_PR) then
              bindR (old_table info pdi s) (\<lambda>pt.
              bindR (rdE pt pti s) (\<lambda>pte.
                if \<not> nz (pte AND X86_MM_FLG_PR) then
                  bindR (count_entry info pdi s) (wrE pt pti (page_phys OR dst_flags))
                else assertR (nz (flags AND MM_FLG_MERGE)) (Inr s)))
            else
              bindR (new_table pd info pdi s) (\<lambda>(s, pt). wrE pt pti (page_phys OR dst_flags) s)))))"

definition mm_map_range :: "u32 \<Rightarrow> u32 \<Rightarrow> u32 \<Rightarrow> u32 \<Rightarrow> mm \<Rightarrow> mm res" where
  "mm_map_range pd start count flags s =
     (if nz (flags AND MM_FLG_PS) then Inl Panic
      else assertR (start AND 0xFFF = 0)
        (foldR (map_alloc_one pd (table_info pd s) start flags) [0..<unat count] s))"

definition map_page_one :: "u32 \<Rightarrow> u32 \<Rightarrow> u32 \<Rightarrow> u32 list \<Rightarrow> u32 \<Rightarrow> nat \<Rightarrow> mm \<Rightarrow> mm res" where
  "map_page_one pd info start pages dst_flags i s =
     (let vpage = start + of_nat i * 0x1000; pdi = pdi_of vpage; pti = pti_of vpage
      in bindR (rdE pd pdi s) (\<lambda>pde.
         assertR (\<not> nz (pde AND MM_FLG_PS))
           (bindR (rd pages i) (\<lambda>page.
            if nz (pde AND X86_MM_FLG_PR) then
              bindR (old_table info pdi s) (\<lambda>pt.
              bindR (count_entry info pdi s) (wrE pt pti (page OR dst_flags)))
            else
              bindR (new_table pd info pdi s) (\<lambda>(s, pt). wrE pt pti (page OR dst_flags) s)))))"

definition mm_map_range_pages :: "u32 \<Rightarrow> u32 \<Rightarrow> u32 list \<Rightarrow> u32 \<Rightarrow> u32 \<Rightarrow> mm \<Rightarrow> mm res" where
  "mm_map_range_pages pd start pages count flags s =
     assertR (start AND 0xFFF = 0)
       (if nz (flags AND MM_FLG_PS) then map_ps pd start pages count flags s
        else foldR (map_page_one pd (table_info pd s) start pages
               ((flags AND (MM_FLG_WR OR MM_FLG_US)) OR X86_MM_FLG_PR)) [0..<unat count] s)"

definition mm_map_range_linear :: "u32 \<Rightarrow> u32 \<Rightarrow> u32 \<Rightarrow> u32 \<Rightarrow> u32 \<Rightarrow> mm \<Rightarrow> mm res" where
  "mm_map_range_linear pd start pstart count flags s =
     assertR (start AND 0xFFF = 0) (assertR (pstart AND 0xFFF = 0)
       (let sz = (if nz (flags AND MM_FLG_PS) then 0x400000 else 0x1000); start = start AND - sz
        in foldR (\<lambda>i. mm_map_range_pages pd (start + of_nat i * sz) [pstart + of_nat i * sz] 1 flags)
             [0..<unat count] s))"

section \<open>Unmapping\<close>

definition umap_ps_one :: "u32 \<Rightarrow> u32 \<Rightarrow> u32 \<Rightarrow> nat \<Rightarrow> mm \<Rightarrow> mm res" where
  "umap_ps_one pd start flags i s =
     (let pdi = pdi_of start + i in
      bindR (rdE pd pdi s) (\<lambda>pde.
      assertR (nz (pde AND (X86_MM_FLG_PR OR MM_FLG_PS)))
        (bindR (if \<not> nz (flags AND MM_FLG_NOPHYS) then
                  bindR (mm_free_physical_page (pde AND - 0x400000) MM_FLG_PS (mphys s))
                    (\<lambda>p. Inr (s\<lparr>mphys := p\<rparr>))
                else Inr s) (\<lambda>s.
         wrE pd pdi 0 s))))"

definition umap_one :: "u32 \<Rightarrow> u32 \<Rightarrow> u32 \<Rightarrow> u32 \<Rightarrow> nat \<Rightarrow> mm \<Rightarrow> mm res" where
  "umap_one pd info start flags i s =
     (let vpage = start + of_nat i * 0x1000; pdi = pdi_of vpage; pti = pti_of vpage
      in bindR (rdE pd pdi s) (\<lambda>pde.
         assertR (nz (pde AND X86_MM_FLG_PR))
           (bindR (rdE info pdi s) (\<lambda>ti.
            assertR (nz ti)
              (let pt = page_base ti in
               bindR (if \<not> nz (flags AND MM_FLG_NOPHYS) then
                        bindR (rdE pt pti s) (\<lambda>pte.
                        bindR (mm_free_physical_page (page_base pte) 0 (mphys s))
                          (\<lambda>p. Inr (s\<lparr>mphys := p\<rparr>)))
                      else Inr s) (\<lambda>s.
               assertR (ti AND 0xFFF \<noteq> 0)
                 (bindR (wrE pt pti 0 s) (\<lambda>s.
                  bindR (rdE info pdi s) (\<lambda>ti.
                  bindR (wrE info pdi (ti - 1) s) (\<lambda>s.
                    if (ti - 1) AND 0xFFF = 0 then
                      bindR (wrE pd pdi 0 s) (\<lambda>s.
                      bindR (wrE info pdi 0 s) (\<lambda>s.
                      x86_page_pool_free pt s))
                    else Inr s))))))))))"

text \<open>The value of the function: it is -1 whatever happened.\<close>

definition mm_umap_range :: "u32 \<Rightarrow> u32 \<Rightarrow> u32 \<Rightarrow> u32 \<Rightarrow> mm \<Rightarrow> (mm \<times> int) res" where
  "mm_umap_range pd start count flags s =
     assertR (start AND 0xFFF = 0)
       (bindR (foldR (if nz (flags AND MM_FLG_PS) then umap_ps_one pd start flags
                      else umap_one pd (table_info pd s) start flags) [0..<unat count] s) (\<lambda>s.
        Inr (s, - 1)))"

section \<open>Translation\<close>

text \<open>The physical address and, where the code writes it, \<open>*rflags\<close>.\<close>

definition mm_translate :: "u32 \<Rightarrow> u32 \<Rightarrow> mm \<Rightarrow> (u32 \<times> u32 option) res" where
  "mm_translate pd addr s =
     bindR (rdE pd (pdi_of addr) s) (\<lambda>pde.
       if \<not> nz (pde AND X86_MM_FLG_PR) then Inr (MM_NADDR, None)
       else if nz (pde AND MM_FLG_PS) then
         Inr ((pde AND - 0x400000) OR (addr AND 0x3FFFFF),
              Some ((pde AND (MM_FLG_US OR MM_FLG_WR)) OR MM_FLG_PS))
       else
         bindR (rdE (table_info pd s) (pdi_of addr) s) (\<lambda>ti.
         assertR (nz ti)
           (bindR (rdE (page_base ti) (pti_of addr) s) (\<lambda>pte.
              if \<not> nz (pte AND X86_MM_FLG_PR) then Inr (MM_NADDR, None)
              else Inr (page_base pte OR (addr AND 0xFFF), Some (pte AND (MM_FLG_US OR MM_FLG_WR)))))))"

section \<open>Kernel accesses to user memory\<close>

text \<open>A byte read or written at a virtual address, through the kernel directory.\<close>

definition kaddr :: "u32 \<Rightarrow> mm \<Rightarrow> u32 res" where
  "kaddr va s = bindR (mm_translate (mm_kernel s) va s) (\<lambda>(pa, rflags).
     if rflags = None then Inl OutOfBounds else Inr pa)"

definition kread :: "u32 \<Rightarrow> mm \<Rightarrow> u8 res" where
  "kread va s = bindR (kaddr va s) (\<lambda>pa. Inr (ram s pa))"

definition kwrite :: "u32 \<Rightarrow> u8 \<Rightarrow> mm \<Rightarrow> mm res" where
  "kwrite va b s = bindR (kaddr va s) (\<lambda>pa. Inr (s\<lparr>ram := (ram s)(pa := b)\<rparr>))"

fun kreads :: "u32 \<Rightarrow> nat \<Rightarrow> mm \<Rightarrow> bytes res" where
  "kreads va 0 s = Inr []"
| "kreads va (Suc n) s = bindR (kread va s) (\<lambda>b. bindR (kreads (va + 1) n s) (\<lambda>bs. Inr (b # bs)))"

fun kwrites :: "u32 \<Rightarrow> bytes \<Rightarrow> mm \<Rightarrow> mm res" where
  "kwrites va [] s = Inr s"
| "kwrites va (b # bs) s = bindR (kwrite va b s) (kwrites (va + 1) bs)"

text \<open>The part of one page that a copy of \<open>count\<close> bytes from \<open>p\<close> covers, and the mapping of it.\<close>

definition user_start :: "u32 \<Rightarrow> u32 \<Rightarrow> u32" where
  "user_start p user_page = (if p > user_page then p - user_page else 0)"

definition user_stop :: "u32 \<Rightarrow> u32 \<Rightarrow> u32 \<Rightarrow> u32" where
  "user_stop p count user_page = (let e = p + count - user_page in if e > 0x1000 then 0x1000 else e)"

definition map_user_page :: "u32 \<Rightarrow> u32 \<Rightarrow> mm \<Rightarrow> mm res" where
  "map_user_page pd user_page s =
     bindR (mm_translate pd user_page s) (\<lambda>(phys, rflags).
     assertR (phys \<noteq> MM_NADDR)
       (case rflags of None \<Rightarrow> Inl OutOfBounds
        | Some fl \<Rightarrow> assertR (\<not> nz (fl AND MM_FLG_PS))
            (mm_map_range_pages (mm_kernel s) user_page [phys] 1 MM_FLG_WR s)))"

definition unmap_user_page :: "u32 \<Rightarrow> mm \<Rightarrow> mm res" where
  "unmap_user_page user_page s =
     bindR (mm_umap_range (mm_kernel s) user_page 1 MM_FLG_NOPHYS s) (\<lambda>(s, _). Inr s)"

definition user_npages :: "u32 \<Rightarrow> u32 \<Rightarrow> nat" where
  "user_npages p count = unat ((MM_ALIGN_UP (p + count) 0x1000 - page_base p) div 0x1000)"

definition u2k_one :: "u32 \<Rightarrow> u32 \<Rightarrow> u32 \<Rightarrow> nat \<Rightarrow> mm \<times> bytes \<Rightarrow> (mm \<times> bytes) res" where
  "u2k_one pd src count i st =
     (let user_page = page_base src + of_nat i * 0x1000;
          a = user_start src user_page; e = user_stop src count user_page
      in bindR (map_user_page pd user_page (fst st)) (\<lambda>s.
         bindR (kreads (user_page + a) (unat (e - a)) s) (\<lambda>bs.
         bindR (unmap_user_page user_page s) (\<lambda>s. Inr (s, snd st @ bs)))))"

text \<open>The bytes written to \<open>dst\<close>, from its start on.\<close>

definition mm_memcpy_user_to_kernel :: "u32 \<Rightarrow> u32 \<Rightarrow> u32 \<Rightarrow> mm \<Rightarrow> (mm \<times> bytes) res" where
  "mm_memcpy_user_to_kernel pd src count s =
     foldR (u2k_one pd src count) [0..<user_npages src count] (s, [])"

definition k2u_one :: "u32 \<Rightarrow> u32 \<Rightarrow> bytes \<Rightarrow> u32 \<Rightarrow> nat \<Rightarrow> mm \<times> nat \<Rightarrow> (mm \<times> nat) res" where
  "k2u_one pd dst src count i st =
     (let user_page = page_base dst + of_nat i * 0x1000;
          a = user_start dst user_page; e = user_stop dst count user_page;
          n = unat (e - a)
      in bindR (map_user_page pd user_page (fst st)) (\<lambda>s.
         if length src < snd st + n then Inl OutOfBounds
         else bindR (kwrites (user_page + a) (take n (drop (snd st) src)) s) (\<lambda>s.
              bindR (unmap_user_page user_page s) (\<lambda>s. Inr (s, snd st + n)))))"

definition mm_memcpy_kernel_to_user :: "u32 \<Rightarrow> u32 \<Rightarrow> bytes \<Rightarrow> u32 \<Rightarrow> mm \<Rightarrow> mm res" where
  "mm_memcpy_kernel_to_user pd dst src count s =
     bindR (foldR (k2u_one pd dst src count) [0..<user_npages dst count] (s, 0)) (\<lambda>(s, _). Inr s)"

text \<open>
  The string copy: the inner loop over the bytes of one page ends the copy at a NUL or after
  \<open>count - 1\<close> bytes; then the result is \<open>Some\<close>.
\<close>

fun strn_page :: "u32 \<Rightarrow> nat list \<Rightarrow> u32 \<Rightarrow> bytes \<Rightarrow> mm \<Rightarrow> (bytes \<times> bool) res" where
  "strn_page user_page [] count out s = Inr (out, False)"
| "strn_page user_page (off # offs) count out s =
     bindR (kread (user_page + of_nat off) s) (\<lambda>c.
       if c = 0 \<or> of_nat (length out) = count - 1 then Inr (out @ [0], True)
       else strn_page user_page offs count (out @ [c]) s)"

fun strn_loop :: "u32 \<Rightarrow> u32 \<Rightarrow> u32 \<Rightarrow> nat list \<Rightarrow> bytes \<Rightarrow> mm \<Rightarrow> (mm \<times> bytes \<times> u32) res" where
  "strn_loop pd src count [] out s = Inr (s, out @ [0], of_nat (length out))"
| "strn_loop pd src count (i # is) out s =
     (let user_page = page_base src + of_nat i * 0x1000;
          a = user_start src user_page; e = user_stop src count user_page
      in bindR (map_user_page pd user_page s) (\<lambda>s.
         bindR (strn_page user_page [unat a..<unat e] count out s) (\<lambda>(out, fin).
         bindR (unmap_user_page user_page s) (\<lambda>s.
           if fin then Inr (s, out, of_nat (length out))
           else strn_loop pd src count is out s))))"

definition mm_strncpy_user_to_kernel :: "u32 \<Rightarrow> u32 \<Rightarrow> u32 \<Rightarrow> mm \<Rightarrow> (mm \<times> bytes \<times> u32) res" where
  "mm_strncpy_user_to_kernel pd src count s =
     strn_loop pd src count [0..<unat (MM_ALIGN_UP count 0x1000 div 0x1000 + 1)] [] s"

section \<open>Spaces\<close>

definition MM_FLG_CLONE_KERNEL :: u32 where "MM_FLG_CLONE_KERNEL = 1"
definition MM_FLG_CLONE_USER :: u32 where "MM_FLG_CLONE_USER = 2"

definition clear_table :: "u32 \<Rightarrow> mm \<Rightarrow> mm res" where
  "clear_table t s =
     (if t = MM_NADDR then Inl OutOfBounds else Inr (s\<lparr>tab := (tab s)(t := (\<lambda>_. 0))\<rparr>))"

text \<open>The directory (NULL on failure) and its physical address.\<close>

definition mm_create_space :: "mm \<Rightarrow> (mm \<times> u32 \<times> u32) res" where
  "mm_create_space s =
     bindR (x86_page_pool_allocate s) (\<lambda>(s, space, phys).
       if space = MM_NADDR then Inr (s, 0, phys)
       else
         bindR (clear_table space s) (\<lambda>s.
         bindR (x86_page_pool_allocate s) (\<lambda>(s, info, _).
         bindR (clear_table info s) (\<lambda>s.
         bindR (wrE space 0 phys s) (\<lambda>s.
         bindR (wrE space 1023 info s) (\<lambda>s. Inr (s, space, phys)))))))"

definition mm_destroy_space :: "u32 \<Rightarrow> mm \<Rightarrow> mm res" where
  "mm_destroy_space pd s =
     bindR (x86_page_pool_free (table_info pd s) s) (x86_page_pool_free pd)"

definition clone_one :: "u32 \<Rightarrow> u32 \<Rightarrow> u32 \<Rightarrow> u32 \<Rightarrow> nat \<Rightarrow> mm \<Rightarrow> mm res" where
  "clone_one dst src dst_info src_info pdi s =
     bindR (rdE src pdi s) (\<lambda>e.
       if \<not> nz (e AND X86_MM_FLG_PR) then Inr s
       else if nz (e AND MM_FLG_PS) then wrE dst pdi e s
       else
         bindR (rdE src_info pdi s) (\<lambda>ti.
         assertR (nz ti)
           (bindR (x86_page_pool_allocate s) (\<lambda>(s, pt, phys).
            assertR (pt \<noteq> MM_NADDR)
              (bindR (wrE dst_info pdi (pt OR (ti AND 0xFFF)) s) (\<lambda>s.
               bindR (wrE dst pdi (phys OR (X86_MM_FLG_PR OR MM_FLG_WR OR MM_FLG_US)) s) (\<lambda>s.
               Inr (s\<lparr>tab := (tab s)(pt := tab s (page_base ti))\<rparr>))))))))"

definition mm_space_clone :: "u32 \<Rightarrow> u32 \<Rightarrow> u32 \<Rightarrow> mm \<Rightarrow> mm res" where
  "mm_space_clone dst src flags s =
     (let s = s\<lparr>tab := (tab s)(dst := (\<lambda>i. if 1 \<le> i \<and> i < 1023 then 0 else tab s dst i))\<rparr>
      in let src_info = table_info src s; dst_info = table_info dst s in
         bindR (clear_table dst_info s) (\<lambda>s.
         if nz (flags AND MM_FLG_CLONE_KERNEL)
         then foldR (clone_one dst src dst_info src_info) [unat (drop_bit 22 KERNEL_VIRT_BASE)..<1024] s
         else Inr s))"

definition fork_page :: "u32 \<Rightarrow> u32 \<Rightarrow> u32 \<Rightarrow> nat \<Rightarrow> nat \<Rightarrow> mm \<Rightarrow> mm res" where
  "fork_page dst src pt pdi pti s =
     bindR (rdE pt pti s) (\<lambda>pte.
       if nz (pte AND X86_MM_FLG_PR) then
         (let vpage = push_bit 22 (of_nat pdi) OR push_bit 12 (of_nat pti) in
          bindR (mm_map_range dst vpage 1 ((pte AND MM_FLG_WR) OR MM_FLG_US) s) (\<lambda>s.
          bindR (mm_memcpy_user_to_kernel src vpage 0x1000 s) (\<lambda>(s, tmp_buf).
          mm_memcpy_kernel_to_user dst vpage tmp_buf 0x1000 s)))
       else Inr s)"

definition fork_table :: "u32 \<Rightarrow> u32 \<Rightarrow> u32 \<Rightarrow> nat \<Rightarrow> mm \<Rightarrow> mm res" where
  "fork_table dst src src_info pdi s =
     bindR (rdE src pdi s) (\<lambda>e.
       if \<not> nz (e AND X86_MM_FLG_PR) then Inr s
       else assertR (\<not> nz (e AND MM_FLG_PS))
         (bindR (rdE src_info pdi s) (\<lambda>ti.
          assertR (nz ti)
            (foldR (fork_page dst src (page_base ti) pdi) [0..<1024] s))))"

definition mm_space_fork :: "u32 \<Rightarrow> u32 \<Rightarrow> u32 \<Rightarrow> mm \<Rightarrow> mm res" where
  "mm_space_fork dst src flags s =
     bindR (if nz (flags AND MM_FLG_CLONE_KERNEL) then mm_space_clone dst src MM_FLG_CLONE_KERNEL s
            else Inr s) (\<lambda>s.
     if nz (flags AND MM_FLG_CLONE_USER)
     then foldR (fork_table dst src (table_info src s)) [1..<unat (drop_bit 22 KERNEL_VIRT_BASE)] s
     else Inr s)"

text \<open>\<open>mm_init\<close>: the boot directory is the kernel's; it gets a table-information block.\<close>

definition mm_init :: "mmap_entry list \<Rightarrow> u32 \<Rightarrow> mm \<Rightarrow> mm res" where
  "mm_init es boot_page_directory s =
     bindR (x86_mm_phys_init es (mphys s)) (\<lambda>(p, _).
     (let s = x86_mm_pool_init (s\<lparr>mphys := p, mm_kernel := boot_page_directory\<rparr>) in
      bindR (x86_page_pool_allocate s) (\<lambda>(s, info, _).
      assertR (info \<noteq> MM_NADDR)
        (bindR (clear_table info s) (\<lambda>s.
         bindR (wrE (mm_kernel s) 1023 info s)
           (wrE (mm_kernel s) 0 (mm_kernel s - KERNEL_VIRT_BASE)))))))"

section \<open>Words of entries\<close>

lemma flg_bits:
  "MM_FLG_WR = 2 ^ 1" "MM_FLG_US = 2 ^ 2" "MM_FLG_PS = 2 ^ 7" "X86_MM_FLG_PR = 2 ^ 0"
  by (simp_all add: MM_FLG_WR_def MM_FLG_US_def MM_FLG_PS_def X86_MM_FLG_PR_def)

lemma low_mask: "(0xFFF :: u32) = mask 12" "(- 0x1000 :: u32) = NOT (mask 12)" "(0x3FF :: u32) = mask 10"
  by (simp_all add: mask_numeral)

lemma flg_simps:
  "x AND X86_MM_FLG_PR = 0 \<longleftrightarrow> \<not> bit x 0" "x AND MM_FLG_PS = 0 \<longleftrightarrow> \<not> bit x 7"
  "x AND MM_FLG_WR = 0 \<longleftrightarrow> \<not> bit x 1" "x AND MM_FLG_US = 0 \<longleftrightarrow> \<not> bit x 2"
  unfolding flg_bits by (rule and_exp_eq_0_iff_not_bit)+

lemma bit_flg:
  "bit MM_FLG_WR n \<longleftrightarrow> n = 1" "bit MM_FLG_US n \<longleftrightarrow> n = 2" "bit MM_FLG_PS n \<longleftrightarrow> n = 7" "bit X86_MM_FLG_PR n \<longleftrightarrow> n = 0"
  unfolding flg_bits bit_exp_iff possible_bit_word by auto

lemma aligned_bit: "(pa :: u32) AND 0xFFF = 0 \<Longrightarrow> n < 12 \<Longrightarrow> \<not> bit pa n"
proof -
  assume "pa AND 0xFFF = 0" "n < 12"
  then have "\<not> bit (pa AND mask 12) n" unfolding low_mask by simp
  then show ?thesis using \<open>n < 12\<close> by (simp add: bit_simps)
qed

lemma pte_simps:
  fixes pa fl :: u32
  assumes "pa AND 0xFFF = 0"
  defines "pte \<equiv> pa OR ((fl AND (MM_FLG_WR OR MM_FLG_US)) OR X86_MM_FLG_PR)"
  shows "bit pte 0" "\<not> bit pte 7" "page_base pte = pa" "pte AND (MM_FLG_US OR MM_FLG_WR) = fl AND (MM_FLG_US OR MM_FLG_WR)"
proof -
  note al = aligned_bit [OF assms(1)]
  have al': "12 \<le> n" if "bit pa n" for n using al [of n] that by (meson not_less)
  show "bit pte 0" by (simp add: pte_def bit_or_iff bit_flg)
  show "\<not> bit pte 7" using al [of 7] by (simp add: pte_def bit_or_iff bit_and_iff bit_flg)
  show "page_base pte = pa"
    unfolding page_base_def low_mask pte_def
    by (rule bit_word_eqI) (use al' in \<open>auto simp: bit_or_iff bit_and_iff bit_flg bit_not_iff bit_mask_iff not_less\<close>)
  show "pte AND (MM_FLG_US OR MM_FLG_WR) = fl AND (MM_FLG_US OR MM_FLG_WR)"
    unfolding pte_def
    by (rule bit_word_eqI) (use al in \<open>auto simp: bit_or_iff bit_and_iff bit_flg\<close>)
qed

lemma unat_page_base: "unat (page_base v) = unat v div 4096 * 4096"
proof -
  have "page_base v = push_bit 12 (drop_bit 12 v)"
    unfolding page_base_def low_mask by (rule bit_word_eqI) (auto simp: bit_simps)
  moreover have "unat (drop_bit 12 v) = unat v div 4096" by (simp add: unat_drop)
  moreover have "unat v div 4096 * 4096 < 2 ^ 32" using unat_lt [of v] by simp
  ultimately show ?thesis by (simp add: push_bit_eq_mult unat_word_ariths)
qed

lemma unat_and_fff: "unat (v AND 0xFFF :: u32) = unat v mod 4096"
  unfolding low_mask by (simp add: take_bit_eq_mask [symmetric] unat_take del: take_bit_eq_mod)

lemma page_base_Suc:
  assumes "(ti :: u32) AND 0xFFF \<noteq> 0xFFF"
  shows "page_base (ti + 1) = page_base ti" "ti + 1 \<noteq> 0"
proof -
  have m: "unat ti mod 4096 \<noteq> 4095"
    using assms unat_and_fff [of ti] by (auto simp: word_unat_eq_iff)
  then have "unat ti + 1 < 2 ^ 32" using unat_lt [of ti] by (cases "unat ti = 4294967295") auto
  then have u: "unat (ti + 1) = unat ti + 1" by (simp add: unat_add_nowrap)
  show "ti + 1 \<noteq> 0" using u by (auto simp: word_unat_eq_iff)
  have "(unat ti + 1) div 4096 = unat ti div 4096" using m by (simp add: div_Suc mod_Suc)
  then show "page_base (ti + 1) = page_base ti" by (simp add: word_unat_eq_iff unat_page_base u)
qed

lemma page_base_pt:
  assumes "pt AND 0xFFF = 0"
  shows "page_base (pt OR 1) = pt"
proof -
  have "12 \<le> n" if "bit pt n" for n using aligned_bit [OF assms, of n] that by (meson not_less)
  then show ?thesis
    unfolding page_base_def low_mask
    by (intro bit_word_eqI) (auto simp: bit_or_iff bit_and_iff bit_not_iff bit_mask_iff not_less bit_1_iff)
qed

lemma pdi_lt: "pdi_of v < 1024"
  using unat_lt [of v] by (simp add: pdi_of_def unat_drop)

lemma pti_lt: "pti_of v < 1024"
  unfolding pti_of_def low_mask
  by (simp add: unat_take unat_drop take_bit_eq_mask [symmetric])

section \<open>Well-formed spaces and translation after mapping\<close>

text \<open>
  A directory entry that names a table, and the address of that table. A space is well-formed
  when its directory, its table-information block and its tables are different pages.
\<close>

definition has_table :: "mm \<Rightarrow> u32 \<Rightarrow> nat \<Rightarrow> bool" where
  "has_table s pd i \<longleftrightarrow> bit (tab s pd i) 0 \<and> \<not> bit (tab s pd i) 7"

definition table_of :: "mm \<Rightarrow> u32 \<Rightarrow> nat \<Rightarrow> u32" where
  "table_of s pd i = page_base (tab s (table_info pd s) i)"

definition space_wf :: "mm \<Rightarrow> u32 \<Rightarrow> bool" where
  "space_wf s pd \<longleftrightarrow> pd \<noteq> table_info pd s \<and> \<not> bit (tab s pd 1023) 0 \<and>
     (\<forall>i < 1024. has_table s pd i \<longrightarrow> tab s (table_info pd s) i \<noteq> 0 \<and>
        table_of s pd i \<noteq> pd \<and> table_of s pd i \<noteq> table_info pd s) \<and>
     (\<forall>i < 1024. \<forall>j < 1024. has_table s pd i \<and> has_table s pd j \<and> i \<noteq> j \<longrightarrow> table_of s pd i \<noteq> table_of s pd j)"

lemma mm_translate_table:
  assumes "has_table s pd (pdi_of v)" "tab s (table_info pd s) (pdi_of v) \<noteq> 0"
  shows "mm_translate pd v s =
    (let pte = tab s (table_of s pd (pdi_of v)) (pti_of v) in
     if bit pte 0 then Inr (page_base pte OR (v AND 0xFFF), Some (pte AND (MM_FLG_US OR MM_FLG_WR)))
     else Inr (MM_NADDR, None))"
  using assms pdi_lt [of v] pti_lt [of v]
  by (simp add: mm_translate_def rdE_def flg_simps has_table_def table_of_def Let_def)

lemma mm_translate_no_table:
  "\<not> has_table s pd (pdi_of v) \<Longrightarrow> mm_translate pd v s =
    (if bit (tab s pd (pdi_of v)) 0 then Inr ((tab s pd (pdi_of v) AND - 0x400000) OR (v AND 0x3FFFFF),
       Some ((tab s pd (pdi_of v) AND (MM_FLG_US OR MM_FLG_WR)) OR MM_FLG_PS))
     else Inr (MM_NADDR, None))"
  using pdi_lt [of v] by (auto simp: mm_translate_def rdE_def flg_simps has_table_def)

text \<open>Same page: same directory and table index.\<close>

definition same_page :: "u32 \<Rightarrow> u32 \<Rightarrow> bool" where
  "same_page v w \<longleftrightarrow> pdi_of v = pdi_of w \<and> pti_of v = pti_of w"

text \<open>One round of the mapping loop, where the directory entry has a table with room.\<close>

definition map_old :: "u32 \<Rightarrow> u32 \<Rightarrow> u32 \<Rightarrow> mm \<Rightarrow> mm" where
  "map_old pd v pte s =
     (let i = pdi_of v; info = table_info pd s; pt = table_of s pd i;
          t = (tab s)(info := (tab s info)(i := tab s info i + 1))
      in s\<lparr>tab := t(pt := (t pt)(pti_of v := pte))\<rparr>)"

lemma map_page_one_old:
  assumes "space_wf s pd" "has_table s pd (pdi_of v)" "tab s (table_info pd s) (pdi_of v) AND 0xFFF \<noteq> 0xFFF"
  shows "map_page_one pd (table_info pd s) v [pa] fl 0 s = Inr (map_old pd v (pa OR fl) s)"
  using assms pdi_lt [of v] pti_lt [of v]
  by (simp add: map_page_one_def rdE_def wrE_def flg_simps has_table_def space_wf_def old_table_def
      count_entry_def table_of_def map_old_def Let_def res_simps table_info_def)

lemma map_old_space:
  fixes pte :: u32
  assumes wf: "space_wf s pd" and t: "has_table s pd (pdi_of v)"
    and room: "tab s (table_info pd s) (pdi_of v) AND 0xFFF \<noteq> 0xFFF"
  defines "s' \<equiv> map_old pd v pte s"
  shows "table_info pd s' = table_info pd s" "tab s' pd = tab s pd"
    "i < 1024 \<Longrightarrow> table_of s' pd i = table_of s pd i" "i < 1024 \<Longrightarrow> has_table s' pd i = has_table s pd i"
    "i < 1024 \<Longrightarrow> has_table s pd i \<Longrightarrow> tab s' (table_info pd s') i \<noteq> 0" "space_wf s' pd"
proof -
  let ?i = "pdi_of v" and ?info = "table_info pd s"
  have d: "pd \<noteq> ?info" "table_of s pd ?i \<noteq> pd" "table_of s pd ?i \<noteq> ?info"
    using wf t pdi_lt [of v] by (auto simp: space_wf_def)
  show pd: "tab s' pd = tab s pd" using d by (simp add: s'_def map_old_def Let_def)
  then show info: "table_info pd s' = ?info" by (simp add: table_info_def)
  have inf: "tab s' ?info = (tab s ?info)(?i := tab s ?info ?i + 1)"
    using d by (simp add: s'_def map_old_def Let_def)
  show tof: "table_of s' pd i = table_of s pd i" if "i < 1024" for i
    using page_base_Suc(1) [OF room] by (simp add: table_of_def info inf)
  show hast: "has_table s' pd i = has_table s pd i" if "i < 1024" for i
    by (simp add: has_table_def pd)
  show ne: "tab s' (table_info pd s') i \<noteq> 0" if "i < 1024" "has_table s pd i" for i
    using wf that page_base_Suc(2) [OF room] by (auto simp: info inf space_wf_def)
  show "space_wf s' pd"
    using wf ne tof hast by (auto simp: space_wf_def info pd)
qed

lemma map_old_translate:
  fixes fl :: u32
  assumes wf: "space_wf s pd" and t: "has_table s pd (pdi_of v)"
    and room: "tab s (table_info pd s) (pdi_of v) AND 0xFFF \<noteq> 0xFFF"
    and pa: "pa AND 0xFFF = 0"
  defines "s' \<equiv> map_old pd v (pa OR ((fl AND (MM_FLG_WR OR MM_FLG_US)) OR X86_MM_FLG_PR)) s"
  shows "mm_translate pd w s' =
    (if same_page v w then Inr (pa OR (w AND 0xFFF), Some (fl AND (MM_FLG_US OR MM_FLG_WR)))
     else mm_translate pd w s)"
proof -
  note sp = map_old_space [OF wf t room, where pte = "pa OR ((fl AND (MM_FLG_WR OR MM_FLG_US)) OR X86_MM_FLG_PR)", folded s'_def]
  note pte = pte_simps [OF pa, of fl]
  have d: "table_of s pd (pdi_of v) \<noteq> table_info pd s"
    using wf t pdi_lt [of v] by (auto simp: space_wf_def)
  show ?thesis
  proof (cases "has_table s pd (pdi_of w)")
    case False
    then have "\<not> same_page v w" using t by (auto simp: same_page_def)
    then show ?thesis using False sp(2,4) pdi_lt [of w] by (simp add: mm_translate_no_table)
  next
    case True
    have "table_of s pd (pdi_of w) = table_of s pd (pdi_of v) \<longleftrightarrow> pdi_of w = pdi_of v"
      using wf True t pdi_lt [of v] pdi_lt [of w] by (auto simp: space_wf_def)
    moreover have "table_of s pd (pdi_of w) \<noteq> table_info pd s" "tab s (table_info pd s) (pdi_of w) \<noteq> 0"
      using wf True pdi_lt [of w] by (auto simp: space_wf_def)
    ultimately have e: "tab s' (table_of s pd (pdi_of w)) (pti_of w) =
        (if same_page v w then pa OR ((fl AND (MM_FLG_WR OR MM_FLG_US)) OR X86_MM_FLG_PR)
         else tab s (table_of s pd (pdi_of w)) (pti_of w))"
      by (auto simp: s'_def map_old_def Let_def same_page_def)
    show ?thesis
      using True sp(3-5) pdi_lt [of w] e pte \<open>tab s (table_info pd s) (pdi_of w) \<noteq> 0\<close>
      by (simp add: mm_translate_table Let_def)
  qed
qed


lemma umap_one_old:
  assumes wf: "space_wf s pd" and t: "has_table s pd (pdi_of v)"
    and cnt: "tab s (table_info pd s) (pdi_of v) AND 0xFFF \<noteq> 0"
      "(tab s (table_info pd s) (pdi_of v) - 1) AND 0xFFF \<noteq> 0"
  shows "umap_one pd (table_info pd s) v MM_FLG_NOPHYS 0 s = Inr
    (let i = pdi_of v; info = table_info pd s; pt = table_of s pd i; t = (tab s)(pt := (tab s pt)(pti_of v := 0))
     in s\<lparr>tab := t(info := (t info)(i := t info i - 1))\<rparr>)"
  using assms pdi_lt [of v] pti_lt [of v]
  by (auto simp: umap_one_def rdE_def wrE_def flg_simps has_table_def space_wf_def table_of_def
      Let_def res_simps table_info_def MM_FLG_NOPHYS_def)

lemma and_fff_Suc:
  assumes "(ti :: u32) AND 0xFFF \<noteq> 0xFFF"
  shows "(ti + 1) AND 0xFFF \<noteq> 0"
proof -
  have m: "unat ti mod 4096 \<noteq> 4095"
    using assms unat_and_fff [of ti] by (auto simp: word_unat_eq_iff)
  then have "unat ti + 1 < 2 ^ 32" using unat_lt [of ti] by (cases "unat ti = 4294967295") auto
  then have "unat (ti + 1) = unat ti + 1" by (simp add: unat_add_nowrap)
  then have "unat ((ti + 1) AND 0xFFF) \<noteq> 0" using m by (simp add: unat_and_fff mod_Suc)
  then show ?thesis by (metis unat_0)
qed

lemma fun_upd_same_back: "f(x := (f x)(i := f x i)) = f"
  by simp

text \<open>Unmapping right after mapping: all that is left of the mapping is a cleared table entry.\<close>

lemma umap_map_old:
  assumes wf: "space_wf s pd" and t: "has_table s pd (pdi_of v)" and al: "v AND 0xFFF = 0"
    and room: "tab s (table_info pd s) (pdi_of v) AND 0xFFF \<noteq> 0xFFF"
      "tab s (table_info pd s) (pdi_of v) AND 0xFFF \<noteq> 0"
  shows "mm_umap_range pd v 1 MM_FLG_NOPHYS (map_old pd v pte s) =
    (let pt = table_of s pd (pdi_of v) in Inr (s\<lparr>tab := (tab s)(pt := (tab s pt)(pti_of v := 0))\<rparr>, - 1))"
proof -
  let ?i = "pdi_of v" and ?info = "table_info pd s" and ?pt = "table_of s pd (pdi_of v)"
  define s1 where "s1 = map_old pd v pte s"
  note sp = map_old_space [OF wf t room(1), where pte = pte, folded s1_def]
  have i: "?i < 1024" by (rule pdi_lt)
  have d: "pd \<noteq> ?info" "?pt \<noteq> pd" "?pt \<noteq> ?info" using wf t i by (auto simp: space_wf_def)
  have ti: "tab s1 ?info ?i = tab s ?info ?i + 1" using d by (simp add: s1_def map_old_def Let_def)
  have u: "(tab s ?info ?i + 1) AND 0xFFF \<noteq> 0" by (rule and_fff_Suc [OF room(1)])
  let ?s2 = "s\<lparr>tab := (tab s)(?pt := (tab s ?pt)(pti_of v := 0))\<rparr>"
  have "umap_one pd (table_info pd s1) v MM_FLG_NOPHYS 0 s1 = Inr (let t = (tab s1)(?pt := (tab s1 ?pt)(pti_of v := 0))
      in s1\<lparr>tab := t(?info := (t ?info)(?i := t ?info ?i - 1))\<rparr>)"
    using umap_one_old [OF sp(6), of v] sp(3) [OF i] sp(4) [OF i] t ti u room(2) by (simp add: Let_def sp(1))
  also have "\<dots> = Inr ?s2"
    using d by (auto simp: s1_def map_old_def Let_def fun_eq_iff intro!: mm.equality)
  finally show ?thesis
    using al by (simp add: mm_umap_range_def MM_FLG_NOPHYS_def MM_FLG_PS_def s1_def Let_def)
qed


section \<open>The pool\<close>

definition pool_free :: "pool_ent \<Rightarrow> nat set" where
  "pool_free e = {n. n div 32 < 32 \<and> \<not> bit (pbitmap e ! (n div 32)) (n mod 32)}"

lemma upt_split: "a \<le> j \<Longrightarrow> j < b \<Longrightarrow> [a..<b] = [a..<j] @ j # [Suc j..<b]"
  using upt_add_eq_append [of a j "b - j"] by (simp add: upt_conv_Cons)

lemma pool_scan_some:
  assumes "length (pbitmap e) = 32" "j < 32" "\<forall>i \<in> set is. pbitmap e ! i = - 1 \<and> i < 32" "pbitmap e ! j \<noteq> - 1"
  shows "\<exists>k < 32. \<not> bit (pbitmap e ! j) k \<and> pool_scan (is @ j # js) e =
    Inr (Some (e\<lparr>pbitmap := (pbitmap e)[j := pbitmap e ! j OR 2 ^ k], index_last := of_nat j\<rparr>,
      pvaddr e + of_nat (4096 * (32 * j + k)), ppaddr e + of_nat (4096 * (32 * j + k))))"
  using assms(3)
proof (induction "is")
  case Nil
  obtain k where k: "free_bit (pbitmap e ! j) = Some k"
    using assms(4) free_bit_None [of "pbitmap e ! j"] by (cases "free_bit (pbitmap e ! j)") auto
  have "push_bit 17 (of_nat j) + push_bit 12 (of_nat k) = (of_nat (4096 * (32 * j + k)) :: u32)"
    by (simp add: push_bit_eq_mult algebra_simps)
  then show ?case
    using k free_bit_Some [OF k] assms by (auto simp: res_simps Let_def add.assoc)
qed (auto simp: res_simps assms)

lemma pool_scan_full:
  assumes "length (pbitmap e) = 32" "\<forall>i \<in> set is. pbitmap e ! i = - 1 \<and> i < 32"
  shows "pool_scan (is @ 32 # js) e = Inl OutOfBounds"
  using assms(2) by (induction "is") (auto simp: res_simps assms rd_def)

lemma first_not_full:
  assumes "\<exists>j. a \<le> j \<and> j < 32 \<and> bm ! j \<noteq> (- 1 :: u32)" "a \<le> (32 :: nat)"
  shows "\<exists>j. a \<le> j \<and> j < 32 \<and> bm ! j \<noteq> - 1 \<and> (\<forall>i. a \<le> i \<and> i < j \<longrightarrow> bm ! i = - 1)"
  using assms(1) exists_least_iff [of "\<lambda>j. a \<le> j \<and> j < 32 \<and> bm ! j \<noteq> - 1"] by (meson less_trans)

text \<open>
  Allocation from an initialised pool. If some page is free in the words from the last used
  one on, it returns a page that was free, its address and physical address correspond, and
  exactly that page is taken. Otherwise, even if earlier pages are free, the loop, whose bound
  is 1024 and not 32, reads past the end of the bitmap.
\<close>

theorem pool_entry_alloc_correct:
  assumes len: "length (pbitmap e) = 32" and l: "unat (index_last e) < 32"
  shows "if \<exists>n \<in> pool_free e. unat (index_last e) \<le> n div 32 then
      \<exists>e' n. pool_entry_alloc e = Inr (Some (e', pvaddr e + of_nat (4096 * n), ppaddr e + of_nat (4096 * n))) \<and>
        n \<in> pool_free e \<and> pool_free e' = pool_free e - {n} \<and> length (pbitmap e') = 32 \<and>
        unat (index_last e') < 32 \<and> pvaddr e' = pvaddr e \<and> ppaddr e' = ppaddr e
    else pool_entry_alloc e = Inl OutOfBounds"
proof (cases "\<exists>n \<in> pool_free e. unat (index_last e) \<le> n div 32")
  case True
  then obtain n where n: "n \<in> pool_free e" "unat (index_last e) \<le> n div 32" by blast
  have "pbitmap e ! (n div 32) \<noteq> - 1"
  proof
    assume "pbitmap e ! (n div 32) = - 1"
    then have "bit (pbitmap e ! (n div 32)) (n mod 32)" by simp
    then show False using n(1) by (simp add: pool_free_def)
  qed
  then have "\<exists>j. unat (index_last e) \<le> j \<and> j < 32 \<and> pbitmap e ! j \<noteq> - 1"
    using n by (auto simp: pool_free_def)
  from first_not_full [OF this] l obtain j where j: "unat (index_last e) \<le> j" "j < 32" "pbitmap e ! j \<noteq> - 1"
    "\<forall>i. unat (index_last e) \<le> i \<and> i < j \<longrightarrow> pbitmap e ! i = - 1" by auto
  have up: "[unat (index_last e)..<1024] = [unat (index_last e)..<j] @ j # [Suc j..<1024]"
    by (rule upt_split [OF j(1)]) (use j(2) in simp)
  have pre: "\<forall>i \<in> set [unat (index_last e)..<j]. pbitmap e ! i = - 1 \<and> i < 32" using j by auto
  obtain k where k: "k < 32" "\<not> bit (pbitmap e ! j) k" "pool_scan [unat (index_last e)..<1024] e =
      Inr (Some (e\<lparr>pbitmap := (pbitmap e)[j := pbitmap e ! j OR 2 ^ k], index_last := of_nat j\<rparr>,
        pvaddr e + of_nat (4096 * (32 * j + k)), ppaddr e + of_nat (4096 * (32 * j + k))))"
    using pool_scan_some [OF len j(2) pre j(3), of "[Suc j..<1024]"] unfolding up [symmetric]
    by (elim exE conjE) (rule that)
  let ?e = "e\<lparr>pbitmap := (pbitmap e)[j := pbitmap e ! j OR 2 ^ k], index_last := of_nat j\<rparr>"
  have "pool_free ?e = pool_free e - {32 * j + k}" "32 * j + k \<in> pool_free e"
    using k(1,2) j(2) len by (auto simp: pool_free_def nth_list_update bit_set)
  moreover have "unat (of_nat j :: u32) < 32" using j(2) by (simp add: unat_of_nat_small)
  moreover have "pool_entry_alloc e = Inr (Some (?e,
      pvaddr e + of_nat (4096 * (32 * j + k)), ppaddr e + of_nat (4096 * (32 * j + k))))"
    unfolding pool_entry_alloc_def k(3) by simp
  ultimately have "\<exists>e' n. pool_entry_alloc e = Inr (Some (e', pvaddr e + of_nat (4096 * n), ppaddr e + of_nat (4096 * n))) \<and>
      n \<in> pool_free e \<and> pool_free e' = pool_free e - {n} \<and> length (pbitmap e') = 32 \<and>
      unat (index_last e') < 32 \<and> pvaddr e' = pvaddr e \<and> ppaddr e' = ppaddr e"
    using len by (intro exI [of _ ?e] exI [of _ "32 * j + k"] conjI) simp_all
  then show ?thesis using True by (simp only: if_True)
next
  case False
  have "pbitmap e ! i = - 1" if "unat (index_last e) \<le> i" "i < 32" for i
  proof (rule ccontr)
    assume "pbitmap e ! i \<noteq> - 1"
    then obtain k where "k < 32" "\<not> bit (pbitmap e ! i) k"
      using free_bit_None [of "pbitmap e ! i"] free_bit_Some by (cases "free_bit (pbitmap e ! i)") auto
    then have "32 * i + k \<in> pool_free e" "(32 * i + k) div 32 = i" using that by (simp_all add: pool_free_def)
    then show False using False that by auto
  qed
  then have pre: "\<forall>i \<in> set [unat (index_last e)..<32]. pbitmap e ! i = - 1 \<and> i < 32" by auto
  have up: "[unat (index_last e)..<1024] = [unat (index_last e)..<32] @ 32 # [Suc 32..<1024]"
    by (rule upt_split) (use l in simp_all)
  have "pool_scan [unat (index_last e)..<1024] e = Inl OutOfBounds"
    unfolding up by (rule pool_scan_full [OF len pre])
  then show ?thesis using False by (auto simp: pool_entry_alloc_def)
qed

section \<open>A new table\<close>

text \<open>
  When the directory entry is empty a page of the pool becomes the table, and it is not
  cleared: what the page held before decides the translation of the other 1023 pages of that
  4 MiB range.
\<close>

theorem map_new_table_stale:
  assumes wf: "space_wf s pd" and e: "\<not> bit (tab s pd (pdi_of v)) 0" "\<not> bit (tab s pd (pdi_of v)) 7" and v: "v AND 0xFFF = 0"
    and pa: "pa AND 0xFFF = 0" and pdi: "pdi_of v < 1023"
    and al: "x86_page_pool_allocate s = Inr (s1, pt, phys)" "tab s1 = tab s"
    and pt: "pt AND 0xFFF = 0" "phys AND 0xFFF = 0" "pt \<noteq> pd" "pt \<noteq> table_info pd s"
    and w: "pdi_of w = pdi_of v" "pti_of w \<noteq> pti_of v"
  shows "\<exists>s'. mm_map_range_pages pd v [pa] 1 MM_FLG_WR s = Inr s' \<and>
    mm_translate pd v s' = Inr (pa OR (v AND 0xFFF), Some MM_FLG_WR) \<and>
    mm_translate pd w s' = (let pte = tab s pt (pti_of w) in
      if bit pte 0 then Inr (page_base pte OR (w AND 0xFFF), Some (pte AND (MM_FLG_US OR MM_FLG_WR)))
      else Inr (MM_NADDR, None))"
proof -
  let ?i = "pdi_of v" and ?info = "table_info pd s"
  let ?pde = "phys OR (X86_MM_FLG_PR OR MM_FLG_WR OR MM_FLG_US)"
  define pte where "pte = pa OR ((MM_FLG_WR AND (MM_FLG_WR OR MM_FLG_US)) OR X86_MM_FLG_PR)"
  let ?t1 = "(tab s)(?info := (tab s ?info)(?i := pt OR 1))"
  let ?t2 = "?t1(pd := (?t1 pd)(?i := ?pde))"
  define s' where "s' = s1\<lparr>tab := ?t2(pt := (?t2 pt)(pti_of v := pte))\<rparr>"
  have d: "pd \<noteq> ?info" using wf by (simp add: space_wf_def)
  have fl: "MM_FLG_WR AND MM_FLG_PS = 0" "MM_FLG_WR AND (MM_FLG_US OR MM_FLG_WR) = MM_FLG_WR"
    by (simp_all add: MM_FLG_WR_def MM_FLG_PS_def MM_FLG_US_def)
  have "pt \<noteq> MM_NADDR" using pt(1) by (auto simp: MM_NADDR_def)
  then have m: "map_page_one pd (table_info pd s) v [pa] ((MM_FLG_WR AND (MM_FLG_WR OR MM_FLG_US)) OR X86_MM_FLG_PR) 0 s = Inr s'"
    using e al d pdi_lt [of v] pti_lt [of v] pt(3,4) pdi
    by (simp add: map_page_one_def rdE_def wrE_def flg_simps new_table_def Let_def res_simps table_info_def pte_def s'_def)
  have info': "table_info pd s' = ?info" using pt(3,4) d pdi by (simp add: table_info_def s'_def)
  have r: "tab s' pd ?i = ?pde" "tab s' ?info ?i = pt OR 1" using pt(3,4) d by (simp_all add: s'_def)
  have rt: "tab s' pt x = (if x = pti_of v then pte else tab s pt x)" for x
    using pt(3,4) by (simp add: s'_def)
  have "page_base (pt OR 1) = pt" by (rule page_base_pt [OF pt(1)])
  then have tof: "table_of s' pd ?i = pt" unfolding table_of_def info' r(2) .
  have "bit ?pde 0" "\<not> bit ?pde 7" using aligned_bit [OF pt(2), of 7] by (simp_all add: bit_or_iff bit_flg)
  then have ht: "has_table s' pd ?i" unfolding has_table_def r(1) by blast
  have nz: "tab s' ?info ?i \<noteq> 0" unfolding r(2)
  proof
    assume "pt OR 1 = 0"
    then have "bit (pt OR 1) 0 = bit (0 :: u32) 0" by simp
    then show False by (simp add: bit_or_iff)
  qed
  have "mm_map_range_pages pd v [pa] 1 MM_FLG_WR s = Inr s'"
    using v m fl(1) by (simp add: mm_map_range_pages_def)
  moreover have "mm_translate pd v s' = Inr (pa OR (v AND 0xFFF), Some MM_FLG_WR)"
    using mm_translate_table [OF ht] nz pte_simps [OF pa, of MM_FLG_WR, folded pte_def] fl(2)
    by (simp add: info' tof rt Let_def)
  moreover have "mm_translate pd w s' = (let pte = tab s pt (pti_of w) in
      if bit pte 0 then Inr (page_base pte OR (w AND 0xFFF), Some (pte AND (MM_FLG_US OR MM_FLG_WR)))
      else Inr (MM_NADDR, None))"
    using mm_translate_table [of s' pd w] ht nz w by (simp add: info' tof rt Let_def)
  ultimately show ?thesis by blast
qed

text \<open>
  \<open>mm_map_range\<close> over a page that is mapped already (with \<open>MM_FLG_MERGE\<close>) takes a physical page
  and does not use it: nothing refers to the page any more.
\<close>

lemma map_range_merge_leak:
  assumes wf: "space_wf s pd" and t: "has_table s pd (pdi_of v)" and v: "v AND 0xFFF = 0"
    and room: "tab s (table_info pd s) (pdi_of v) AND 0xFFF \<noteq> 0xFFF"
    and pr: "bit (tab s (table_of s pd (pdi_of v)) (pti_of v)) 0"
    and p: "mm_alloc_physical_page 0 (mphys s) = Inr (p', page)"
  shows "mm_map_range pd v 1 MM_FLG_MERGE s = Inr (s\<lparr>mphys := p'\<rparr>)"
proof -
  have fl: "MM_FLG_MERGE AND MM_FLG_PS = 0" "MM_FLG_MERGE AND MM_FLG_MERGE \<noteq> 0"
    by (simp_all add: MM_FLG_MERGE_def MM_FLG_PS_def)
  show ?thesis
    using wf t v room pr p fl pdi_lt [of v] pti_lt [of v]
    by (simp add: mm_map_range_def map_alloc_one_def rdE_def flg_simps has_table_def space_wf_def
        old_table_def table_of_def table_info_def Let_def)
qed

section \<open>A concrete space\<close>

definition ex_tab :: "u32 \<Rightarrow> nat \<Rightarrow> u32" where
  "ex_tab t i =
     (if t = 0xC1000000 then (if i = 1023 then 0xC1001000 else if i = 1 then 0x2002007 else 0)
      else if t = 0xC1001000 then (if i = 1 then 0xC1002001 else 0)
      else if t = 0xC1002000 then (if i = 0 then 0x3000007 else 0)
      else if t = 0xC1003000 then (if i = 5 then 0xABC007 else 0)
      else 0)"

definition ex_mm :: mm where
  "ex_mm = \<lparr>mphys = all_free, pool = (pool_zero\<lparr>pbitmap := (replicate 32 0)[0 := 7], pvaddr := 0xC1000000, ppaddr := 0x2000000\<rparr>)
       # replicate 15 pool_zero, tab = ex_tab, ram = (\<lambda>_. 0), mm_kernel = 0xC0100000\<rparr>"

lemma ex_space: "table_info 0xC1000000 ex_mm = 0xC1001000" "table_of ex_mm 0xC1000000 1 = 0xC1002000"
  "has_table ex_mm 0xC1000000 i \<longleftrightarrow> i = 1" "space_wf ex_mm 0xC1000000"
proof -
  show info: "table_info 0xC1000000 ex_mm = 0xC1001000" by (simp add: table_info_def ex_mm_def ex_tab_def)
  have b: "bit (0x2002007 :: u32) 0" "\<not> bit (0x2002007 :: u32) 7" "\<not> bit (0xC1001000 :: u32) 0"
    by code_simp+
  show tof: "table_of ex_mm 0xC1000000 1 = 0xC1002000"
    by (simp add: table_of_def info) (simp add: ex_mm_def ex_tab_def page_base_def)
  show ht: "has_table ex_mm 0xC1000000 i \<longleftrightarrow> i = 1" for i
    using b by (auto simp: has_table_def ex_mm_def ex_tab_def)
  show "space_wf ex_mm 0xC1000000"
    using b tof by (auto simp: space_wf_def info ht) (auto simp: ex_mm_def ex_tab_def)
qed



theorem pool_entry_alloc_correct_witness:
  "pool_entry_alloc (pool_zero\<lparr>pbitmap := replicate 32 (- 1)\<rparr>) = Inl OutOfBounds"
proof -
  let ?e = "pool_zero\<lparr>pbitmap := replicate 32 (- 1)\<rparr>"
  have "pool_free ?e = {}" by (auto simp: pool_free_def)
  then show ?thesis using pool_entry_alloc_correct [of ?e] by (simp add: pool_zero_def)
qed

theorem map_new_table_stale_witness:
  "\<exists>s'. mm_map_range_pages 0xC1000000 0x800000 [0x5000000] 1 MM_FLG_WR ex_mm = Inr s' \<and>
     mm_translate 0xC1000000 0x800000 s' = Inr (0x5000000, Some MM_FLG_WR) \<and>
     mm_translate 0xC1000000 0x805000 s' = Inr (0xABC000, Some (MM_FLG_US OR MM_FLG_WR))"
proof -
  have c: "pdi_of 0x800000 = 2" "pti_of 0x800000 = 0" "pdi_of 0x805000 = 2" "pti_of 0x805000 = 5"
    "(0x800000 :: u32) AND 0xFFF = 0" "(0x5000000 :: u32) AND 0xFFF = 0" "(0x2003000 :: u32) AND 0xFFF = 0" "(0xC1003000 :: u32) AND 0xFFF = 0"
    "(0x805000 :: u32) AND 0xFFF = 0"
    "page_base 0xABC007 = 0xABC000" "bit (0xABC007 :: u32) 0" "0xABC007 AND (MM_FLG_US OR MM_FLG_WR) = MM_FLG_US OR MM_FLG_WR"
    by code_simp+
  have fb: "free_bit 7 = Some 3" by code_simp
  have up: "[0..<1024] = 0 # [1..<1024]" by (simp only: upt_conv_Cons One_nat_def zero_less_numeral)
  have "x86_page_pool_allocate ex_mm = Inr (ex_mm\<lparr>pool := (pool_zero\<lparr>pbitmap := (replicate 32 0)[0 := 15],
      pvaddr := 0xC1000000, ppaddr := 0x2000000\<rparr>) # replicate 15 pool_zero\<rparr>, 0xC1003000, 0x2003000)"
  proof -
    let ?e = "pool_zero\<lparr>pbitmap := (replicate 32 0)[0 := 7], pvaddr := 0xC1000000, ppaddr := 0x2000000\<rparr>"
    let ?e' = "pool_zero\<lparr>pbitmap := (replicate 32 0)[0 := 15], pvaddr := 0xC1000000, ppaddr := 0x2000000\<rparr>"
    have "pool_scan (0 # [1..<1024]) ?e = Inr (Some (?e', 0xC1003000, 0x2003000))"
      using fb by (simp add: res_simps pool_zero_def Let_def)
    then have "pool_entry_alloc ?e = Inr (Some (?e', 0xC1003000, 0x2003000))"
      unfolding up [symmetric] by (simp add: pool_entry_alloc_def pool_zero_def del: upt_rec_numeral)
    then show ?thesis
      by (simp add: x86_page_pool_allocate_def X86_MM_PAGE_POOL_def upt_conv_Cons res_simps ex_mm_def)
  qed
  moreover have "tab ex_mm 0xC1000000 2 = 0" "tab ex_mm 0xC1003000 5 = 0xABC007" by (simp_all add: ex_mm_def ex_tab_def)
  ultimately show ?thesis
    using map_new_table_stale [OF ex_space(4), of "0x800000" "0x5000000" _ "0xC1003000" "0x2003000" "0x805000"] c ex_space
    by (auto simp: Let_def)
qed

end
