(* ===== verification/Kernel.thy ===== *)
theory Kernel
  imports DebugFmt Paging
begin

text \<open>
  The state the upper half of the kernel shares: files, mounts, file systems, devices and tasks
  (\<open>src/src/sys/vfs.h\<close>, \<open>sys/dev.h\<close>, \<open>sys/task.h\<close>, \<open>arch/x86/task/task.h\<close> and the static variables of
  the \<open>.c\<close> files), with the access to memory and to objects that all of it uses, and the small
  operations of \<open>sys/task.c\<close>.

  Bytes of kernel memory are the bytes of the heap's memory. Objects that the code allocates are
  also kept by address in partial maps, one for each type: an address that is not in the map has
  been freed or was never allocated, and using it is the fault \<open>UseAfterFree\<close>. Fresh memory is not
  cleared by \<open>heap_alloc\<close>: the fields of a new object are those of the \<open>junk\<close> objects, about which
  nothing is known. The static \<open>vfs_t\<close> and \<open>dev_t\<close> objects are named by \<open>fs_id\<close> and \<open>dev_id\<close>, and
  a function pointer in one of them by the file system or driver whose function it is.
\<close>

section \<open>Static objects\<close>

datatype fs_id = Devfs | Initramfs | Procfs
datatype dev_id = Dev_initrd | Dev_null | Dev_zero | Dev_tty nat
datatype driver = Drv_tty | Drv_pseudo

text \<open>
  The functions that the file systems install. None of them sets \<open>mount\<close>, \<open>umount\<close>, \<open>close\<close>,
  \<open>write\<close>, \<open>closedir\<close> or \<open>diract\<close>: these pointers are NULL in every \<open>vfs_t\<close> and have no field here.
\<close>

datatype fs_open_fn = Devfs_open | Initramfs_open | Procfs_open
datatype fs_read_fn = Initramfs_read | Procfs_read
datatype fs_fact_fn = Devfs_fact | Initramfs_fact
datatype fs_opendir_fn = Devfs_opendir | Initramfs_opendir | Procfs_opendir
datatype fs_readdir_fn = Devfs_readdir | Initramfs_readdir | Procfs_readdir

record vfs =
  v_flags :: u32
  v_open :: "fs_open_fn option"
  v_read :: "fs_read_fn option"
  v_fact :: "fs_fact_fn option"
  v_opendir :: "fs_opendir_fn option"
  v_readdir :: "fs_readdir_fn option"

text \<open>No device of the sources sets the \<open>open\<close> and \<open>close\<close> pointers of its \<open>dev_t\<close>.\<close>

record dev =
  d_flags :: u32
  d_read :: "driver option"
  d_write :: "driver option"

definition DEV_FLG_CHR :: u32 where "DEV_FLG_CHR = 1"
definition DEV_FLG_RD :: u32 where "DEV_FLG_RD = 2"
definition DEV_FLG_WR :: u32 where "DEV_FLG_WR = 4"

section \<open>Files and mounts\<close>

definition VFS_FLG_RD :: u32 where "VFS_FLG_RD = 1"
definition VFS_FLG_WR :: u32 where "VFS_FLG_WR = 2"
definition VFS_FLG_DIR :: u32 where "VFS_FLG_DIR = 0x200000"

definition VFS_TYPE_REG :: u32 where "VFS_TYPE_REG = 0"
definition VFS_TYPE_BLK :: u32 where "VFS_TYPE_BLK = 1"
definition VFS_TYPE_CHR :: u32 where "VFS_TYPE_CHR = 2"

definition VFS_DT_CHR :: u8 where "VFS_DT_CHR = 2"
definition VFS_DT_DIR :: u8 where "VFS_DT_DIR = 4"
definition VFS_DT_BLK :: u8 where "VFS_DT_BLK = 6"
definition VFS_DT_REG :: u8 where "VFS_DT_REG = 8"

definition VFS_READ_ASYNC :: u32 where "VFS_READ_ASYNC = - 2"

record vfs_file =
  f_flags :: u32
  f_dev :: "dev_id option"
  f_fs :: "fs_id option"
  f_path :: bytes
  dev_priv :: u32
  fs_priv :: u32
  pos0 :: u32
  pos1 :: u32
  op_buf :: u32
  op_res :: u32
  op_len :: u32
  op_type :: u32
  f_task :: u32

definition file_zero :: vfs_file where
  "file_zero = \<lparr>f_flags = 0, f_dev = None, f_fs = None, f_path = replicate 256 0, dev_priv = 0,
     fs_priv = 0, pos0 = 0, pos1 = 0, op_buf = 0, op_res = 0, op_len = 0, op_type = 0, f_task = 0\<rparr>"

text \<open>\<open>sizeof(vfs_file_t)\<close>\<close>

abbreviation file_size :: u32 where "file_size \<equiv> 304"

record mount_ent =
  m_fs :: "fs_id option"
  m_srcdev :: "dev_id option"
  m_src :: bytes
  m_dst :: bytes

definition mount_zero :: mount_ent where
  "mount_zero = \<lparr>m_fs = None, m_srcdev = None, m_src = replicate 256 0, m_dst = replicate 256 0\<rparr>"

record vfs_dirent =
  d_ino :: u32
  d_off :: u32
  d_reclen :: u16
  d_type :: u8
  d_name :: bytes

section \<open>Nodes of devfs and procfs\<close>

record devfs_node =
  dn_dev :: "dev_id option"
  dn_param :: u32
  dn_name :: bytes

text \<open>The only function a procfs node is ever given is \<open>procfs_get_test\<close>.\<close>

datatype get_int_fn = Procfs_get_test

record procfs_node =
  pn_name :: bytes
  pn_flags :: u32
  pn_data :: u32
  pn_get :: get_int_fn

section \<open>Tasks\<close>

record task_ctl =
  fds :: "u32 list"
  sleep_deadline :: u64
  c_pid :: u32
  pending_signal :: u32
  sigctx :: u32

record task_context =
  x_ds :: u32 x_es :: u32 x_fs :: u32 x_gs :: u32
  x_cr3 :: u32
  x_edi :: u32 x_esi :: u32 x_ebp :: u32 x_oesp :: u32
  x_ebx :: u32 x_edx :: u32 x_ecx :: u32 x_eax :: u32
  x_eip :: u32 x_cs :: u32 x_eflags :: u32 x_esp :: u32 x_ss :: u32

record task =
  esp0 :: u32
  ebp0 :: u32
  esp3_bottom :: u32
  esp3_size :: u32
  sigeip :: u32
  sigesp :: u32
  t_flag :: u32
  wait_type :: u32
  t_pd :: u32
  t_ctl :: u32
  t_next :: u32

definition TASK_FLG_RUNNING :: u32 where "TASK_FLG_RUNNING = 1"
definition TASK_FLG_STOP :: u32 where "TASK_FLG_STOP = 2"
definition TASK_FLG_WAIT :: u32 where "TASK_FLG_WAIT = 4"
definition TASK_FLG_BUSY :: u32 where "TASK_FLG_BUSY = 8"
definition TASK_WAIT_SLEEP :: u32 where "TASK_WAIT_SLEEP = 1"
definition TASK_WAIT_PID :: u32 where "TASK_WAIT_PID = 2"

section \<open>The state\<close>

text \<open>
  The nodes of devfs and procfs are linked lists that only ever grow at the end: they are lists
  of addresses and nodes. \<open>cur_pd\<close> is the space that \<open>mm_set\<close> loaded last. \<open>com_out\<close> and
  \<open>con_out\<close> are the characters sent to the serial port and to the console.
\<close>

record kst =
  kheap :: heap
  kmm :: mm
  cur_pd :: u32
  files :: "u32 \<Rightarrow> vfs_file option"
  tasks :: "u32 \<Rightarrow> task option"
  ctls :: "u32 \<Rightarrow> task_ctl option"
  ctxs :: "u32 \<Rightarrow> task_context option"
  junk_file :: vfs_file
  junk_task :: task
  junk_ctx :: task_context
  junk_mem :: "nat \<Rightarrow> u8"
  mounts :: "mount_ent list"
  fss :: "fs_id \<Rightarrow> vfs"
  devs :: "dev_id \<Rightarrow> dev"
  initrd_base :: u32
  initrd_len :: u32
  dev_initrd :: "dev_id option"
  dev_null :: "dev_id option"
  dev_zero :: "dev_id option"
  devfs_nodes :: "(u32 \<times> devfs_node) list"
  procfs_nodes :: "(u32 \<times> procfs_node) list"
  ttyparam :: "nat \<Rightarrow> u32"
  tty_pending :: "nat \<Rightarrow> u32"
  com_out :: bytes
  con_out :: bytes
  task_current :: u32
  task_first :: u32
  task_last :: u32
  last_pid :: u32
  tasking_entry :: bool
  systime :: u64

section \<open>Objects\<close>

definition obj :: "(u32 \<Rightarrow> 'a option) \<Rightarrow> u32 \<Rightarrow> 'a res" where
  "obj m p = (if p = 0 then Inl NullDeref else case m p of None \<Rightarrow> Inl UseAfterFree | Some x \<Rightarrow> Inr x)"

lemma obj_eq_Inr: "obj m p = Inr x \<longleftrightarrow> p \<noteq> 0 \<and> m p = Some x"
  by (auto simp: obj_def split: option.splits)

lemma obj_some [res_simps]: "p \<noteq> 0 \<Longrightarrow> m p = Some x \<Longrightarrow> obj m p = Inr x"
  by (simp add: obj_eq_Inr)

definition get_file :: "u32 \<Rightarrow> kst \<Rightarrow> vfs_file res" where
  "get_file p s = obj (files s) p"

definition put_file :: "u32 \<Rightarrow> vfs_file \<Rightarrow> kst \<Rightarrow> kst" where
  "put_file p f s = s\<lparr>files := (files s)(p := Some f)\<rparr>"

definition upd_file :: "u32 \<Rightarrow> (vfs_file \<Rightarrow> vfs_file) \<Rightarrow> kst \<Rightarrow> kst res" where
  "upd_file p g s = bindR (get_file p s) (\<lambda>f. Inr (put_file p (g f) s))"

definition get_task :: "u32 \<Rightarrow> kst \<Rightarrow> task res" where
  "get_task p s = obj (tasks s) p"

definition upd_task :: "u32 \<Rightarrow> (task \<Rightarrow> task) \<Rightarrow> kst \<Rightarrow> kst res" where
  "upd_task p g s = bindR (get_task p s) (\<lambda>t. Inr (s\<lparr>tasks := (tasks s)(p := Some (g t))\<rparr>))"

definition get_ctl :: "u32 \<Rightarrow> kst \<Rightarrow> task_ctl res" where
  "get_ctl p s = obj (ctls s) p"

definition upd_ctl :: "u32 \<Rightarrow> (task_ctl \<Rightarrow> task_ctl) \<Rightarrow> kst \<Rightarrow> kst res" where
  "upd_ctl p g s = bindR (get_ctl p s) (\<lambda>c. Inr (s\<lparr>ctls := (ctls s)(p := Some (g c))\<rparr>))"

definition get_ctx :: "u32 \<Rightarrow> kst \<Rightarrow> task_context res" where
  "get_ctx p s = obj (ctxs s) p"

definition upd_ctx :: "u32 \<Rightarrow> (task_context \<Rightarrow> task_context) \<Rightarrow> kst \<Rightarrow> kst res" where
  "upd_ctx p g s = bindR (get_ctx p s) (\<lambda>c. Inr (s\<lparr>ctxs := (ctxs s)(p := Some (g c))\<rparr>))"

lemmas obj_defs = get_file_def put_file_def upd_file_def get_task_def upd_task_def get_ctl_def
  upd_ctl_def get_ctx_def upd_ctx_def

text \<open>A loop that follows pointers and never ends is the fault \<open>Diverges\<close>.\<close>

definition endless :: "'a res option \<Rightarrow> 'a res" where
  "endless r = (case r of None \<Rightarrow> Inl Diverges | Some x \<Rightarrow> x)"

lemma endless_simps [simp]: "endless (Some x) = x" "endless None = Inl Diverges"
  by (simp_all add: endless_def)

definition kalloc :: "u32 \<Rightarrow> kst \<Rightarrow> (kst \<times> u32) res" where
  "kalloc n s = (case heap_alloc n (kheap s) of None \<Rightarrow> Inl Diverges
     | Some (h, p) \<Rightarrow> Inr (s\<lparr>kheap := h\<rparr>, p))"

definition kfree :: "u32 \<Rightarrow> kst \<Rightarrow> kst res" where
  "kfree p s = bindR (heap_free p (kheap s)) (\<lambda>h. Inr (s\<lparr>kheap := h\<rparr>))"

text \<open>A buffer in memory that nothing has written yet.\<close>

definition junk :: "nat \<Rightarrow> kst \<Rightarrow> bytes" where
  "junk n s = map (junk_mem s) [0..<n]"

section \<open>Memory\<close>

text \<open>
  A byte at a virtual address: kernel memory above \<open>KERNEL_VIRT_BASE\<close>, below it the page that the
  current space maps there.
\<close>

definition vread :: "u32 \<Rightarrow> kst \<Rightarrow> u8 res" where
  "vread a s =
     (if KERNEL_VIRT_BASE \<le> a then Inr (hmem (kheap s) a)
      else bindR (mm_translate (cur_pd s) a (kmm s)) (\<lambda>(pa, rflags).
        if rflags = None then Inl OutOfBounds else Inr (ram (kmm s) pa)))"

definition vwrite :: "u32 \<Rightarrow> u8 \<Rightarrow> kst \<Rightarrow> kst res" where
  "vwrite a b s =
     (if KERNEL_VIRT_BASE \<le> a then Inr (s\<lparr>kheap := (kheap s)\<lparr>hmem := (hmem (kheap s))(a := b)\<rparr>\<rparr>)
      else bindR (mm_translate (cur_pd s) a (kmm s)) (\<lambda>(pa, rflags).
        if rflags = None then Inl OutOfBounds
        else Inr (s\<lparr>kmm := (kmm s)\<lparr>ram := (ram (kmm s))(pa := b)\<rparr>\<rparr>)))"

fun vreads :: "u32 \<Rightarrow> nat \<Rightarrow> kst \<Rightarrow> bytes res" where
  "vreads a 0 s = Inr []"
| "vreads a (Suc n) s = bindR (vread a s) (\<lambda>b. bindR (vreads (a + 1) n s) (\<lambda>bs. Inr (b # bs)))"

fun vwrites :: "u32 \<Rightarrow> bytes \<Rightarrow> kst \<Rightarrow> kst res" where
  "vwrites a [] s = Inr s"
| "vwrites a (b # bs) s = bindR (vwrite a b s) (vwrites (a + 1) bs)"

definition word_bytes :: "u32 \<Rightarrow> bytes" where
  "word_bytes v = [ucast v, ucast (drop_bit 8 v), ucast (drop_bit 16 v), ucast (drop_bit 24 v)]"

lemma bits_32: "n < 32 \<Longrightarrow> n < 8 \<or> 8 \<le> n \<and> n < 16 \<or> 16 \<le> n \<and> n < 24 \<or> 24 \<le> (n :: nat)"
  by arith

lemma word_of_bytes:
  "ucast (ucast v :: u8) OR push_bit 8 (ucast (ucast (drop_bit 8 v) :: u8)) OR push_bit 16 (ucast (ucast (drop_bit 16 v) :: u8)) OR
    push_bit 24 (ucast (ucast (drop_bit 24 v) :: u8)) = (v :: u32)"
proof (rule bit_word_eqI)
  fix n assume n: "n < LENGTH(32)"
  then show "bit (ucast (ucast v :: u8) OR push_bit 8 (ucast (ucast (drop_bit 8 v) :: u8)) OR
      push_bit 16 (ucast (ucast (drop_bit 16 v) :: u8)) OR push_bit 24 (ucast (ucast (drop_bit 24 v) :: u8)) :: u32) n \<longleftrightarrow> bit v n"
    using bits_32 [of n, simplified] by (auto simp: bit_simps)
qed

lemma length_word_bytes [simp]: "length (word_bytes v) = 4"
  by (simp add: word_bytes_def)

definition vwrite32 :: "u32 \<Rightarrow> u32 \<Rightarrow> kst \<Rightarrow> kst res" where
  "vwrite32 a v s = vwrites a (word_bytes v) s"

definition vread32 :: "u32 \<Rightarrow> kst \<Rightarrow> u32 res" where
  "vread32 a s = bindR (vreads a 4 s) (\<lambda>bs.
     Inr (ucast (bs ! 0) OR push_bit 8 (ucast (bs ! 1)) OR push_bit 16 (ucast (bs ! 2)) OR push_bit 24 (ucast (bs ! 3))))"

definition mm_set :: "u32 \<Rightarrow> kst \<Rightarrow> kst" where
  "mm_set pd s = s\<lparr>cur_pd := pd\<rparr>"

section \<open>sys/task.c and task_by_pid\<close>

definition SYSTICK_DES_RES :: u64 where "SYSTICK_DES_RES = 1000000"

record timespec =
  tv_sec :: u64
  tv_nsec :: u64

definition sleep_delta :: "timespec \<Rightarrow> u64" where
  "sleep_delta ts = tv_sec ts * SYSTICK_DES_RES + tv_nsec ts * (1000000 div SYSTICK_DES_RES)"

definition task_set_sleep :: "u32 \<Rightarrow> timespec \<Rightarrow> kst \<Rightarrow> kst res" where
  "task_set_sleep t ts s =
     bindR (get_task t s) (\<lambda>x. upd_ctl (t_ctl x) (\<lambda>c. c\<lparr>sleep_deadline := sleep_delta ts + systime s\<rparr>) s)"

definition task_busy :: "u32 \<Rightarrow> kst \<Rightarrow> kst res" where
  "task_busy t s = upd_task t (\<lambda>x. x\<lparr>t_flag := t_flag x OR TASK_FLG_BUSY\<rparr>) s"

definition task_nobusy :: "u32 \<Rightarrow> kst \<Rightarrow> kst res" where
  "task_nobusy t s = upd_task t (\<lambda>x. x\<lparr>t_flag := t_flag x AND NOT TASK_FLG_BUSY\<rparr>) s"

partial_function (option) pid_loop :: "kst \<Rightarrow> u32 \<Rightarrow> u32 \<Rightarrow> u32 res option" where
  "pid_loop s p t =
     (if t = 0 then Some (Inr 0)
      else case get_task t s of
        Inl e \<Rightarrow> Some (Inl e)
      | Inr x \<Rightarrow>
          if t_ctl x \<noteq> 0 then
            (case get_ctl (t_ctl x) s of
               Inl e \<Rightarrow> Some (Inl e)
             | Inr c \<Rightarrow> if c_pid c = p then Some (Inr t) else pid_loop s p (t_next x))
          else if p = 0 then Some (Inr t)
          else pid_loop s p (t_next x))"

declare pid_loop.simps [code]

definition task_by_pid :: "u32 \<Rightarrow> kst \<Rightarrow> u32 res" where
  "task_by_pid p s = endless (pid_loop s p (task_first s))"

section \<open>Bytes of kernel memory\<close>

text \<open>\<open>n\<close> bytes from an address on.\<close>

definition mbytes :: "mem \<Rightarrow> u32 \<Rightarrow> nat \<Rightarrow> bytes" where
  "mbytes m a n = map (\<lambda>i. m (a + of_nat i)) [0..<n]"

definition kernel_mem :: "kst \<Rightarrow> mem" where "kernel_mem s = hmem (kheap s)"

text \<open>Memory that holds the bytes \<open>bs\<close> at \<open>a\<close>.\<close>

definition holds :: "mem \<Rightarrow> u32 \<Rightarrow> bytes \<Rightarrow> bool" where
  "holds m a bs \<longleftrightarrow> (\<forall>i < length bs. m (a + of_nat i) = bs ! i)"

lemma holds_append: "holds m a (xs @ ys) \<longleftrightarrow> holds m a xs \<and> holds m (a + of_nat (length xs)) ys"
proof
  assume h: "holds m a (xs @ ys)"
  have "m (a + of_nat (length xs) + of_nat i) = ys ! i" if "i < length ys" for i
    using h [unfolded holds_def, rule_format, of "length xs + i"] that by (simp add: nth_append add.assoc)
  moreover have "m (a + of_nat i) = xs ! i" if "i < length xs" for i
    using h [unfolded holds_def, rule_format, of i] that by (simp add: nth_append)
  ultimately show "holds m a xs \<and> holds m (a + of_nat (length xs)) ys" by (simp add: holds_def)
next
  assume h: "holds m a xs \<and> holds m (a + of_nat (length xs)) ys"
  show "holds m a (xs @ ys)" unfolding holds_def
  proof (intro allI impI)
    fix i assume i: "i < length (xs @ ys)"
    show "m (a + of_nat i) = (xs @ ys) ! i"
    proof (cases "i < length xs")
      case True then show ?thesis using h by (simp add: holds_def nth_append)
    next
      case False
      then obtain j where "i = length xs + j" "j < length ys" using i by (metis add_less_cancel_left le_iff_add length_append not_less)
      then show ?thesis using h by (simp add: holds_def nth_append add.assoc)
    qed
  qed
qed

lemma mbytes_holds: "holds m a (bs @ cs) \<Longrightarrow> mbytes m a (length bs) = bs"
  by (auto simp: holds_def mbytes_def nth_append intro!: nth_equalityI)


text \<open>A range of kernel memory that does not wrap, the bytes stored to it, and its addresses.\<close>

definition kspan :: "u32 \<Rightarrow> nat \<Rightarrow> bool" where
  "kspan a n \<longleftrightarrow> KERNEL_VIRT_BASE \<le> a \<and> unat a + n \<le> 2 ^ 32"

definition in_span :: "u32 \<Rightarrow> nat \<Rightarrow> u32 \<Rightarrow> bool" where
  "in_span a n x \<longleftrightarrow> unat a \<le> unat x \<and> unat x < unat a + n"

fun store_bytes :: "u32 \<Rightarrow> bytes \<Rightarrow> mem \<Rightarrow> mem" where
  "store_bytes a [] m = m"
| "store_bytes a (b # bs) m = store_bytes (a + 1) bs (m(a := b))"

definition set_mem :: "mem \<Rightarrow> kst \<Rightarrow> kst" where
  "set_mem m s = s\<lparr>kheap := (kheap s)\<lparr>hmem := m\<rparr>\<rparr>"

lemma set_mem_simps [simp]:
  "kernel_mem (set_mem m s) = m" "set_mem m (set_mem m' s) = set_mem m s" "files (set_mem m s) = files s"
  "tasks (set_mem m s) = tasks s" "tty_pending (set_mem m s) = tty_pending s" "kmm (set_mem m s) = kmm s"
  by (simp_all add: set_mem_def kernel_mem_def)

lemma kspan_Suc: "kspan a (Suc n) \<Longrightarrow> 0 < n \<Longrightarrow> kspan (a + 1) n \<and> unat (a + 1) = unat a + 1"
proof -
  assume k: "kspan a (Suc n)" "0 < n"
  then have "unat (a + 1) = unat a + 1" by (subst unat_add_nowrap) (auto simp: kspan_def)
  then show ?thesis using k by (auto simp: kspan_def word_le_nat_alt)
qed

lemma kspan_less: "kspan a n \<Longrightarrow> k \<le> n \<Longrightarrow> kspan a k"
  by (auto simp: kspan_def)

lemma mbytes_Suc: "mbytes m a (Suc n) = m a # mbytes m (a + 1) n"
  by (simp add: mbytes_def map_upt_Suc add.assoc del: upt_Suc)

lemma vreads_kernel: "kspan a n \<Longrightarrow> vreads a n s = Inr (mbytes (kernel_mem s) a n)"
proof (induction n arbitrary: a)
  case (Suc n)
  have a: "KERNEL_VIRT_BASE \<le> a" using Suc.prems by (simp add: kspan_def)
  show ?case
  proof (cases "n = 0")
    case True
    then show ?thesis using a by (simp add: vread_def mbytes_def kernel_mem_def)
  next
    case False
    then have "kspan (a + 1) n" using kspan_Suc [OF Suc.prems] by simp
    then show ?thesis using Suc.IH a by (simp add: vread_def mbytes_Suc kernel_mem_def)
  qed
qed (simp add: mbytes_def)

lemma vwrites_kernel: "kspan a (length bs) \<Longrightarrow> vwrites a bs s = Inr (set_mem (store_bytes a bs (kernel_mem s)) s)"
proof (induction bs arbitrary: a s)
  case (Cons b bs)
  have a: "KERNEL_VIRT_BASE \<le> a" using Cons.prems by (simp add: kspan_def)
  have w: "vwrite a b s = Inr (set_mem ((kernel_mem s)(a := b)) s)"
    using a by (simp add: vwrite_def set_mem_def kernel_mem_def)
  show ?case
  proof (cases "bs = []")
    case True
    then show ?thesis using w by (simp add: fun_upd_def)
  next
    case False
    then have "kspan (a + 1) (length bs)" using kspan_Suc [of a "length bs"] Cons.prems by simp
    then show ?thesis using Cons.IH w by (simp add: fun_upd_def)
  qed
qed (simp add: set_mem_def kernel_mem_def)

lemma in_span_Suc:
  "unat a + Suc n \<le> 2 ^ 32 \<Longrightarrow> in_span a (Suc n) x \<longleftrightarrow> x = a \<or> (0 < n \<and> in_span (a + 1) n x)"
proof (cases "n = 0")
  case True
  then show ?thesis by (auto simp: in_span_def word_unat_eq_iff)
next
  case False
  assume "unat a + Suc n \<le> 2 ^ 32"
  then have "unat (a + 1) = unat a + 1" using False by (subst unat_add_nowrap) auto
  then show ?thesis using False by (auto simp: in_span_def word_unat_eq_iff)
qed

lemma store_bytes_other:
  "unat a + length bs \<le> 2 ^ 32 \<Longrightarrow> \<not> in_span a (length bs) x \<Longrightarrow> store_bytes a bs m x = m x"
proof (induction bs arbitrary: a m)
  case (Cons b bs)
  show ?case
  proof (cases "bs = []")
    case False
    then have "unat (a + 1) = unat a + 1" using Cons.prems(1) by (subst unat_add_nowrap) (cases bs; simp)+
    then have "unat (a + 1) + length bs \<le> 2 ^ 32" using Cons.prems(1) by simp
    then show ?thesis
      using Cons.IH Cons.prems False in_span_Suc [of a "length bs" x] by simp
  qed (use Cons.prems in \<open>auto simp: in_span_def\<close>)
qed simp

lemma store_bytes_holds: "unat a + length bs \<le> 2 ^ 32 \<Longrightarrow> holds (store_bytes a bs m) a bs"
proof (induction bs arbitrary: a m)
  case (Cons b bs)
  show ?case
  proof (cases "bs = []")
    case False
    then have u: "unat (a + 1) = unat a + 1" using Cons.prems(1) by (subst unat_add_nowrap) (cases bs; simp)+
    then have l: "unat (a + 1) + length bs \<le> 2 ^ 32" using Cons.prems(1) by simp
    have "\<not> in_span (a + 1) (length bs) a" using u by (simp add: in_span_def)
    then have "store_bytes (a + 1) bs (m(a := b)) a = b" using store_bytes_other [OF l] by simp
    then show ?thesis using Cons.IH [OF l] holds_append [of _ a "[b]" bs] by (simp add: holds_def)
  qed (simp add: holds_def)
qed (simp add: holds_def)

lemma holds_cong:
  assumes "holds m a bs" "\<And>x. in_span a (length bs) x \<Longrightarrow> m' x = m x" "unat a + length bs \<le> 2 ^ 32"
  shows "holds m' a bs"
proof -
  have "in_span a (length bs) (a + of_nat i)" if "i < length bs" for i
    using unat_plus_small [OF assms(3) that] that by (simp add: in_span_def)
  then show ?thesis using assms(1,2) by (simp add: holds_def)
qed

lemma holds_mbytes: "holds m a bs \<Longrightarrow> n \<le> length bs \<Longrightarrow> mbytes m a n = take n bs"
  by (auto simp: holds_def mbytes_def intro!: nth_equalityI)


section \<open>A concrete state\<close>

definition bts :: "string \<Rightarrow> bytes" where "bts s = map of_char s"

definition dst_array :: "bytes \<Rightarrow> bytes" where
  "dst_array d = d @ replicate (256 - length d) 0"

text \<open>What \<open>kernel_main\<close> mounts: devfs on \<open>/dev\<close>, then the initial ram disk on \<open>/\<close>.\<close>

definition boot_mounts :: "mount_ent list" where
  "boot_mounts =
     [mount_zero\<lparr>m_fs := Some Devfs, m_dst := dst_array (bts ''/dev'')\<rparr>,
      mount_zero\<lparr>m_fs := Some Initramfs, m_srcdev := Some Dev_initrd, m_dst := dst_array (bts ''/'')\<rparr>]
     @ replicate 14 mount_zero"

definition ex_kheap :: heap where
  "ex_kheap = heap_of (mem_of [(4096, 0xDEADF00D, 4000, 0, 0)]) (one_region 4096)"

lemma ex_kheap_wf: "heap_wf ex_kheap [([blk 4096 4000 False], 4096, 8192)]"
proof -
  have "chain (mem_of [(4096, 0xDEADF00D, 4000, 0, 0)]) 4096 [blk 4096 4000 False] 8192"
    by code_simp
  then show ?thesis unfolding ex_kheap_def by (rule heap_wf_one) (simp_all add: blk_def)
qed

text \<open>The first allocation of this heap succeeds.\<close>

lemma ex_kheap_alloc:
  assumes "c \<le> 4000"
  obtains h p xs where "heap_alloc c ex_kheap = Some (h, p)" "p \<noteq> 0" "heap_wf h xs"
  using heap_alloc_cases [OF ex_kheap_wf, of c] assms by (auto simp: blk_def)

definition ex_kst :: kst where
  "ex_kst = \<lparr>kheap = ex_kheap, kmm = ex_mm, cur_pd = 0xC1000000,
     files = (\<lambda>_. None), tasks = (\<lambda>_. None), ctls = (\<lambda>_. None), ctxs = (\<lambda>_. None),
     junk_file = file_zero\<lparr>f_flags := 0x12345678\<rparr>,
     junk_task = \<lparr>esp0 = 7, ebp0 = 7, esp3_bottom = 7, esp3_size = 7, sigeip = 7, sigesp = 7, t_flag = 7,
       wait_type = 7, t_pd = 7, t_ctl = 7, t_next = 7\<rparr>,
     junk_ctx = \<lparr>x_ds = 9, x_es = 9, x_fs = 9, x_gs = 9, x_cr3 = 9, x_edi = 9, x_esi = 9, x_ebp = 9, x_oesp = 9,
       x_ebx = 9, x_edx = 9, x_ecx = 9, x_eax = 9, x_eip = 9, x_cs = 9, x_eflags = 9, x_esp = 9, x_ss = 9\<rparr>,
     junk_mem = (\<lambda>_. 0xAA), mounts = boot_mounts,
     fss = (\<lambda>_. \<lparr>v_flags = 0, v_open = None, v_read = None, v_fact = None, v_opendir = None, v_readdir = None\<rparr>),
     devs = (\<lambda>_. \<lparr>d_flags = 0, d_read = None, d_write = None\<rparr>),
     initrd_base = 0, initrd_len = 0, dev_initrd = None, dev_null = None, dev_zero = None,
     devfs_nodes = [], procfs_nodes = [], ttyparam = (\<lambda>_. 0), tty_pending = (\<lambda>_. 0),
     com_out = [], con_out = [], task_current = 0, task_first = 0, task_last = 0, last_pid = 0,
     tasking_entry = True, systime = 0\<rparr>"


end
