(* ===== verification/Drivers.thy ===== *)
theory Drivers
  imports Kernel
begin

text \<open>
  The file systems and devices under the VFS: the ram disk with its tar archive
  (\<open>src/src/dev/initrd.c\<close>), devfs (\<open>dev/devfs.c\<close>), the pseudo devices (\<open>dev/pseudo.c\<close>), the
  terminals (\<open>dev/tty.c\<close>), procfs (\<open>dev/procfs.c\<close>) and \<open>sys/dev.c\<close>. The archive lies in kernel
  memory. A path is the list of the bytes from the pointer on.
\<close>

section \<open>sys/dev.c and vfs_init\<close>

definition dev_init :: "dev_id \<Rightarrow> u32 \<Rightarrow> kst \<Rightarrow> kst" where
  "dev_init d flags s = s\<lparr>devs := (devs s)(d := \<lparr>d_flags = flags, d_read = None, d_write = None\<rparr>)\<rparr>"

definition dev_open :: "dev_id option \<Rightarrow> u32 \<Rightarrow> u32 \<Rightarrow> kst \<Rightarrow> (kst \<times> u32) res" where
  "dev_open d f flags s =
     (case d of None \<Rightarrow> Inl AssertFail
      | Some dv \<Rightarrow>
          bindR (upd_file f (\<lambda>x. x\<lparr>f_flags := f_flags x AND NOT (push_bit 2 7)\<rparr>) s) (\<lambda>s.
          let ty = (if nz (d_flags (devs s dv) AND DEV_FLG_CHR) then VFS_TYPE_CHR else VFS_TYPE_BLK) in
          bindR (upd_file f (\<lambda>x. x\<lparr>f_flags := f_flags x OR push_bit 2 ty, f_dev := Some dv, dev_priv := 0\<rparr>) s)
            (\<lambda>s. Inr (s, 0))))"

definition vfs_init :: "fs_id \<Rightarrow> kst \<Rightarrow> kst" where
  "vfs_init fs s = s\<lparr>fss := (fss s)(fs := \<lparr>v_flags = 0, v_open = None, v_read = None,
     v_fact = None, v_opendir = None, v_readdir = None\<rparr>)\<rparr>"

text \<open>What a \<open>fact\<close> call writes through its variable argument.\<close>

datatype fact_out = Fact_none | Fact_mem u32 | Fact_dev "dev_id option"

definition VFS_FACT_STAT :: u32 where "VFS_FACT_STAT = 1"
definition VFS_FACT_BLKDEV :: u32 where "VFS_FACT_BLKDEV = 2"
definition VFS_FACT_GETM :: u32 where "VFS_FACT_GETM = 3"

section \<open>tar headers\<close>

definition TAR_FILE :: u32 where "TAR_FILE = 0"
definition TAR_DIR :: u32 where "TAR_DIR = 5"
definition TAR_UNDEF :: u32 where "TAR_UNDEF = 7"

text \<open>A header is 512 bytes.\<close>

definition tar_hdr :: "mem \<Rightarrow> u32 \<Rightarrow> bytes" where "tar_hdr m it = mbytes m it 512"
definition tar_size :: "bytes \<Rightarrow> bytes" where "tar_size t = take 12 (drop 124 t)"
definition tar_typeflag :: "bytes \<Rightarrow> u8" where "tar_typeflag t = t ! 156"
definition tar_magic :: "bytes \<Rightarrow> bytes" where "tar_magic t = drop 257 t"

fun oct_loop :: "bytes \<Rightarrow> u32 \<Rightarrow> u32" where
  "oct_loop [] res = res"
| "oct_loop (c # cs) res = (if c = 0 then oct_loop cs res else oct_loop cs (push_bit 3 res OR (scast c - 48)))"

definition tar_oct2u32 :: "bytes \<Rightarrow> u32" where
  "tar_oct2u32 oct = oct_loop oct 0"

definition tar_is_ustar :: "bytes \<Rightarrow> bool res" where
  "tar_is_ustar t = bindR (strncmp (tar_magic t) (lit ''ustar'') 5) (\<lambda>r. Inr (r = 0))"

definition tar_type :: "bytes \<Rightarrow> bool \<Rightarrow> u32" where
  "tar_type t is_ustar =
     (if is_ustar then
        (if tar_typeflag t = 0 then TAR_FILE
         else if sint (tar_typeflag t) - 48 < 7 then scast (tar_typeflag t) - 48
         else TAR_UNDEF)
      else if list_ex (\<lambda>i. t ! i = ch (CHR ''/'') \<and> (i = 99 \<or> t ! (i + 1) = 0)) [0..<100] then TAR_DIR
      else TAR_FILE)"

text \<open>\<open>&it[n]\<close>, and the number of blocks that the contents of an entry take.\<close>

definition tar_at :: "u32 \<Rightarrow> u32 \<Rightarrow> u32" where "tar_at it n = it + n * 512"

definition tar_blocks :: "bytes \<Rightarrow> u32" where
  "tar_blocks t = MM_ALIGN_UP (tar_oct2u32 (tar_size t)) 512 div 512"

partial_function (option) find_loop :: "mem \<Rightarrow> bytes \<Rightarrow> bool \<Rightarrow> u32 \<Rightarrow> u32 res option" where
  "find_loop m name zb it =
     (let t = tar_hdr m it in
      if hd t = 0 then
        (if zb then Some (Inr MM_NADDR) else find_loop m name True (tar_at it 1))
      else case tar_is_ustar t of
        Inl e \<Rightarrow> Some (Inl e)
      | Inr u \<Rightarrow>
          if tar_type t u = TAR_FILE then
            (case strncmp t name 100 of
               Inl e \<Rightarrow> Some (Inl e)
             | Inr c \<Rightarrow> if c = 0 then Some (Inr it)
                        else find_loop m name False (tar_at it (tar_blocks t + 1)))
          else find_loop m name False (tar_at it 1))"

declare find_loop.simps [code]

definition initrd_find_file :: "mem \<Rightarrow> u32 \<Rightarrow> bytes \<Rightarrow> u32 res" where
  "initrd_find_file m base name = endless (find_loop m name False base)"

section \<open>initramfs\<close>

definition initramfs_opendir :: "mount_ent \<Rightarrow> u32 \<Rightarrow> kst \<Rightarrow> (kst \<times> u32) res" where
  "initramfs_opendir mnt dir s =
     assertR (dev_initrd s = m_srcdev mnt)
       (case m_srcdev mnt of None \<Rightarrow> Inl NullDeref
        | Some _ \<Rightarrow> bindR (upd_file dir (\<lambda>x. x\<lparr>dev_priv := initrd_base s\<rparr>) s) (\<lambda>s. Inr (s, 0)))"

text \<open>The number of slashes of a string, and of its slashes that are not its last character.\<close>

fun count_slashes :: "bytes \<Rightarrow> nat res" where
  "count_slashes [] = Inl OutOfBounds"
| "count_slashes (c # p) =
     (if c = 0 then Inr 0
      else bindR (count_slashes p) (\<lambda>n. Inr (if c = ch (CHR ''/'') then Suc n else n)))"

fun count_inner :: "bytes \<Rightarrow> nat res" where
  "count_inner [] = Inl OutOfBounds"
| "count_inner (c # p) =
     (if c = 0 then Inr 0
      else bindR (if c = ch (CHR ''/'') then bindR (deref p) (\<lambda>d. Inr (nz d)) else Inr False) (\<lambda>b.
           bindR (count_inner p) (\<lambda>n. Inr (if b then Suc n else n))))"

text \<open>Whether the result is 0.\<close>

definition initramfs_check_path_match :: "bytes \<Rightarrow> bytes \<Rightarrow> bool res" where
  "initramfs_check_path_match p0 p1 =
     bindR (strlen p0) (\<lambda>l.
     bindR (strncmp p0 p1 l) (\<lambda>r.
       if r \<noteq> 0 then Inr False
       else bindR (deref p0) (\<lambda>c.
            bindR (count_slashes p0) (\<lambda>n.
            bindR (count_inner p1) (\<lambda>d1.
            Inr ((if nz c then Suc n else n) = d1))))))"

partial_function (option) readdir_loop :: "mem \<Rightarrow> bytes \<Rightarrow> bool \<Rightarrow> u32 \<Rightarrow> u32 option res option" where
  "readdir_loop m path is_ustar hdr =
     (let t = tar_hdr m hdr in
      case initramfs_check_path_match path t of
        Inl e \<Rightarrow> Some (Inl e)
      | Inr c \<Rightarrow>
          if c then Some (Inr (Some hdr))
          else (let hdr = (if tar_type t is_ustar = TAR_FILE then tar_at hdr (1 + tar_blocks t) else tar_at hdr 1) in
                if m hdr = 0 then Some (Inr None) else readdir_loop m path is_ustar hdr))"

declare readdir_loop.simps [code]

text \<open>The header to go on with after the entry at \<open>hdr\<close>.\<close>

definition readdir_next :: "mem \<Rightarrow> bool \<Rightarrow> u32 \<Rightarrow> u32" where
  "readdir_next m is_ustar hdr =
     (let t = tar_hdr m hdr in
      if tar_type t is_ustar = TAR_FILE then
        (let hdr = tar_at hdr (1 + tar_blocks t) in
         if m hdr = 0 then (let hdr = tar_at hdr 1 in if m hdr = 0 then MM_NADDR else hdr) else hdr)
      else tar_at hdr 1)"

definition initramfs_readdir :: "u32 \<Rightarrow> vfs_dirent \<Rightarrow> kst \<Rightarrow> (kst \<times> vfs_dirent \<times> u32) res" where
  "initramfs_readdir dir ent s =
     bindR (get_file dir s) (\<lambda>d.
     let pos = dev_priv d; m = kernel_mem s in
     if pos = MM_NADDR then Inr (s, ent, - 1)
     else bindR (tar_is_ustar (tar_hdr m pos)) (\<lambda>u.
          bindR (endless (readdir_loop m (f_path d) u pos)) (\<lambda>r.
            case r of
              None \<Rightarrow> Inr (put_file dir (d\<lparr>dev_priv := MM_NADDR\<rparr>) s, ent, - 1)
            | Some hdr \<Rightarrow>
                bindR (deref (f_path d)) (\<lambda>c.
                bindR (if nz c then bindR (strlen (f_path d)) (\<lambda>l. Inr (l + 1)) else Inr 0) (\<lambda>off.
                bindR (strcpy (d_name ent) (drop (unat off) (tar_hdr m hdr))) (\<lambda>nm.
                let ty = (if tar_type (tar_hdr m hdr) u = TAR_FILE then VFS_DT_REG else VFS_DT_DIR) in
                Inr (put_file dir (d\<lparr>dev_priv := readdir_next m u hdr\<rparr>) s, ent\<lparr>d_name := nm, d_type := ty\<rparr>, 0)))))))"

definition initramfs_open :: "u32 \<Rightarrow> bytes \<Rightarrow> u32 \<Rightarrow> kst \<Rightarrow> (kst \<times> u32) res" where
  "initramfs_open f path flags s =
     bindR (initrd_find_file (kernel_mem s) (initrd_base s) path) (\<lambda>loc.
       if loc = MM_NADDR then Inr (s, - 1)
       else bindR (upd_file f (\<lambda>x. x\<lparr>pos0 := tar_at loc 1,
              pos1 := tar_oct2u32 (tar_size (tar_hdr (kernel_mem s) loc))\<rparr>) s) (\<lambda>s. Inr (s, 0)))"

definition initramfs_read :: "u32 \<Rightarrow> u32 \<Rightarrow> u32 \<Rightarrow> kst \<Rightarrow> (kst \<times> u32) res" where
  "initramfs_read f data len s =
     bindR (get_file f s) (\<lambda>x.
     let l = (if len > pos1 x then pos1 x else len) in
     bindR (vreads (pos0 x) (unat l) s) (\<lambda>bs.
     bindR (vwrites data bs s) (\<lambda>s.
     Inr (put_file f (x\<lparr>pos1 := pos1 x - l, pos0 := pos0 x + l\<rparr>) s, l))))"

definition initramfs_fact :: "bytes \<Rightarrow> u32 \<Rightarrow> kst \<Rightarrow> (u32 \<times> fact_out) res" where
  "initramfs_fact path action s =
     (if action = VFS_FACT_GETM then
        bindR (initrd_find_file (kernel_mem s) (initrd_base s) path) (\<lambda>f.
          if f = MM_NADDR then Inr (- 1, Fact_none) else Inr (0, Fact_mem (f + 512)))
      else Inr (- 1, Fact_none))"

definition initrd_init :: "u32 \<Rightarrow> u32 \<Rightarrow> kst \<Rightarrow> kst" where
  "initrd_init addr len s =
     (let s = (dev_init Dev_initrd DEV_FLG_RD s)\<lparr>initrd_base := addr, initrd_len := len, dev_initrd := Some Dev_initrd\<rparr>;
          s = vfs_init Initramfs s
      in s\<lparr>fss := (fss s)(Initramfs := (fss s Initramfs)\<lparr>v_opendir := Some Initramfs_opendir, v_readdir := Some Initramfs_readdir,
           v_fact := Some Initramfs_fact, v_read := Some Initramfs_read, v_open := Some Initramfs_open\<rparr>)\<rparr>)"

section \<open>devfs\<close>

fun devfs_find :: "(u32 \<times> devfs_node) list \<Rightarrow> bytes \<Rightarrow> devfs_node option res" where
  "devfs_find [] path = Inr None"
| "devfs_find ((_, n) # ns) path =
     bindR (strcmp (dn_name n) path) (\<lambda>c. if c = 0 then Inr (Some n) else devfs_find ns path)"

definition devfs_open :: "u32 \<Rightarrow> bytes \<Rightarrow> u32 \<Rightarrow> kst \<Rightarrow> (kst \<times> u32) res" where
  "devfs_open f path flags s =
     bindR (devfs_find (devfs_nodes s) path) (\<lambda>r.
       case r of None \<Rightarrow> Inr (s, - 1) | Some n \<Rightarrow> dev_open (dn_dev n) f flags s)"

fun blkdev_find :: "(dev_id \<Rightarrow> dev) \<Rightarrow> (u32 \<times> devfs_node) list \<Rightarrow> bytes \<Rightarrow> (u32 \<times> fact_out) res" where
  "blkdev_find dv [] path = Inr (- 1, Fact_none)"
| "blkdev_find dv ((_, n) # ns) path =
     (case dn_dev n of None \<Rightarrow> Inl NullDeref
      | Some d \<Rightarrow>
          if \<not> nz (d_flags (dv d) AND DEV_FLG_CHR) then
            bindR (strcmp (dn_name n) path) (\<lambda>c.
              if c = 0 then Inr (0, Fact_dev (Some d)) else blkdev_find dv ns path)
          else blkdev_find dv ns path)"

definition devfs_fact :: "bytes \<Rightarrow> u32 \<Rightarrow> kst \<Rightarrow> (u32 \<times> fact_out) res" where
  "devfs_fact path act s =
     (if act = VFS_FACT_BLKDEV then blkdev_find (devs s) (devfs_nodes s) path else Inr (- 1, Fact_none))"

text \<open>The address of the first node of a list (NULL for the empty one).\<close>

definition first_addr :: "(u32 \<times> 'a) list \<Rightarrow> u32" where
  "first_addr ns = (case ns of [] \<Rightarrow> 0 | (a, _) # _ \<Rightarrow> a)"

text \<open>The node at an address and the address of the next one.\<close>

fun node_at :: "(u32 \<times> 'a) list \<Rightarrow> u32 \<Rightarrow> ('a \<times> u32) option" where
  "node_at [] p = None"
| "node_at ((a, n) # ns) p = (if a = p then Some (n, first_addr ns) else node_at ns p)"

definition devfs_opendir :: "u32 \<Rightarrow> bytes \<Rightarrow> kst \<Rightarrow> (kst \<times> u32) res" where
  "devfs_opendir dir path s =
     bindR (deref path) (\<lambda>c.
       if nz c then Inr (s, - 1)
       else bindR (upd_file dir (\<lambda>x. x\<lparr>dev_priv := first_addr (devfs_nodes s)\<rparr>) s) (\<lambda>s. Inr (s, 0)))"

definition devfs_readdir :: "u32 \<Rightarrow> vfs_dirent \<Rightarrow> kst \<Rightarrow> (kst \<times> vfs_dirent \<times> u32) res" where
  "devfs_readdir dir ent s =
     bindR (get_file dir s) (\<lambda>d.
       if dev_priv d = 0 then Inr (s, ent, - 1)
       else case node_at (devfs_nodes s) (dev_priv d) of
         None \<Rightarrow> Inl UseAfterFree
       | Some (n, nxt) \<Rightarrow>
           bindR (strcpy (d_name ent) (dn_name n)) (\<lambda>nm.
             case dn_dev n of None \<Rightarrow> Inl AssertFail
             | Some dv \<Rightarrow>
                 (let ty = (if nz (d_flags (devs s dv) AND DEV_FLG_CHR) then VFS_DT_CHR else VFS_DT_BLK) in
                  Inr (put_file dir (d\<lparr>dev_priv := nxt\<rparr>) s, ent\<lparr>d_name := nm, d_type := ty\<rparr>, 0))))"

abbreviation devfs_node_size :: u32 where "devfs_node_size \<equiv> 268"

definition devfs_add :: "dev_id option \<Rightarrow> bytes \<Rightarrow> u32 \<Rightarrow> kst \<Rightarrow> kst res" where
  "devfs_add d p param s =
     bindR (kalloc devfs_node_size s) (\<lambda>(s, node).
     assertR (node \<noteq> 0)
       (bindR (strcpy (junk 256 s) p) (\<lambda>nm.
        Inr (s\<lparr>devfs_nodes := devfs_nodes s @ [(node, \<lparr>dn_dev = d, dn_param = param, dn_name = nm\<rparr>)]\<rparr>))))"

section \<open>Pseudo devices\<close>

definition DEV_PSEUDO_ZERO :: u32 where "DEV_PSEUDO_ZERO = 0"
definition DEV_PSEUDO_NULL :: u32 where "DEV_PSEUDO_NULL = 1"

definition dev_pseudo_read :: "u32 \<Rightarrow> u32 \<Rightarrow> u32 \<Rightarrow> kst \<Rightarrow> (kst \<times> u32) res" where
  "dev_pseudo_read f buf len s =
     bindR (get_file f s) (\<lambda>x.
       if dev_priv x = DEV_PSEUDO_NULL then Inr (s, 0)
       else if dev_priv x = DEV_PSEUDO_ZERO then
         bindR (vwrites buf (replicate (unat len) 0) s) (\<lambda>s. Inr (s, len))
       else Inr (s, - 1))"

definition dev_pseudo_write :: "u32 \<Rightarrow> u32 \<Rightarrow> u32 \<Rightarrow> kst \<Rightarrow> (kst \<times> u32) res" where
  "dev_pseudo_write f buf len s = Inr (s, len)"

definition dev_pseudo_setup :: "kst \<Rightarrow> kst" where
  "dev_pseudo_setup s =
     (dev_init Dev_zero (DEV_FLG_RD OR DEV_FLG_WR) (dev_init Dev_null (DEV_FLG_RD OR DEV_FLG_WR) s))
       \<lparr>dev_null := Some Dev_null, dev_zero := Some Dev_zero\<rparr>"

definition devfs_init :: "kst \<Rightarrow> kst" where
  "devfs_init s =
     (let s = vfs_init Devfs (s\<lparr>devfs_nodes := []\<rparr>);
          s = s\<lparr>fss := (fss s)(Devfs := (fss s Devfs)\<lparr>v_open := Some Devfs_open, v_fact := Some Devfs_fact,
                  v_opendir := Some Devfs_opendir, v_readdir := Some Devfs_readdir\<rparr>)\<rparr>
      in dev_pseudo_setup s)"

section \<open>Terminals\<close>

definition TTY_COUNT :: nat where "TTY_COUNT = 8"
definition TTY_FLG_SER :: u32 where "TTY_FLG_SER = 0xF0000000"

definition tty_write_char :: "nat \<Rightarrow> u8 \<Rightarrow> kst \<Rightarrow> kst" where
  "tty_write_char t c s =
     (if ttyparam s t = TTY_FLG_SER then s\<lparr>com_out := com_out s @ [c]\<rparr>
      else if ttyparam s t = 0 then s\<lparr>com_out := com_out s @ [c], con_out := con_out s @ [c]\<rparr>
      else s)"

definition tty_write :: "nat \<Rightarrow> u32 \<Rightarrow> u32 \<Rightarrow> kst \<Rightarrow> (kst \<times> u32) res" where
  "tty_write t data len s =
     bindR (foldR (\<lambda>i s. bindR (vread (data + of_nat i) s) (\<lambda>c. Inr (tty_write_char t c s)))
       [0..<unat len] s) (\<lambda>s. Inr (s, len))"

definition tty_read :: "nat \<Rightarrow> u32 \<Rightarrow> kst \<Rightarrow> (kst \<times> u32) res" where
  "tty_read t f s =
     (if tty_pending s t \<noteq> 0 then Inl Panic
      else Inr (s\<lparr>tty_pending := (tty_pending s)(t := f)\<rparr>, VFS_READ_ASYNC))"

definition tty_setup :: "nat \<Rightarrow> kst \<Rightarrow> kst" where
  "tty_setup i s =
     (let s = dev_init (Dev_tty i) (DEV_FLG_CHR OR DEV_FLG_WR) s
      in s\<lparr>devs := (devs s)(Dev_tty i := (devs s (Dev_tty i))\<lparr>d_write := Some Drv_tty, d_read := Some Drv_tty\<rparr>)\<rparr>)"

definition tty_zero :: "nat \<Rightarrow> kst \<Rightarrow> kst" where
  "tty_zero i s = (dev_init (Dev_tty i) 0 s)\<lparr>ttyparam := (ttyparam s)(i := 0), tty_pending := (tty_pending s)(i := 0)\<rparr>"

definition tty_init :: "kst \<Rightarrow> kst" where
  "tty_init s =
     (let s = tty_setup 1 (tty_setup 0 (fold tty_zero [0..<TTY_COUNT] s))
      in s\<lparr>ttyparam := (ttyparam s)(0 := 0, 1 := TTY_FLG_SER)\<rparr>)"

definition tty_get :: "u32 \<Rightarrow> dev_id option" where
  "tty_get n = (if n = TTY_FLG_SER then Some (Dev_tty 1) else if n = 0 then Some (Dev_tty 0) else None)"

definition devfs_populate :: "kst \<Rightarrow> kst res" where
  "devfs_populate s =
     bindR (if dev_initrd s \<noteq> None then devfs_add (dev_initrd s) (lit ''ram0'') 0 s else Inr s) (\<lambda>s.
     bindR (devfs_add (dev_null s) (lit ''null'') 0 s) (\<lambda>s.
     bindR (devfs_add (dev_zero s) (lit ''zero'') 0 s) (\<lambda>s.
     bindR (devfs_add (tty_get 0) (lit ''tty0'') 0 s) (\<lambda>s.
     devfs_add (tty_get TTY_FLG_SER) (lit ''ttyS0'') 0 s))))"

section \<open>procfs\<close>

definition PROCFS_DIR_ROOT_PIDS :: u32 where "PROCFS_DIR_ROOT_PIDS = 0"
definition PROCFS_DIR_ROOT_NODES :: u32 where "PROCFS_DIR_ROOT_NODES = 1"
definition PROCFS_DIR_ROOT_END :: u32 where "PROCFS_DIR_ROOT_END = 2"

text \<open>Whether the first component of a path has digits only.\<close>

fun pid_path :: "bytes \<Rightarrow> bool res" where
  "pid_path [] = Inl OutOfBounds"
| "pid_path (c # x) =
     (if c = 0 then Inr True
      else if c = ch (CHR ''/'') then Inr True
      else if sint c < 48 \<or> sint c > 57 then Inr False
      else pid_path x)"

definition procfs_opendir :: "u32 \<Rightarrow> bytes \<Rightarrow> kst \<Rightarrow> (kst \<times> u32) res" where
  "procfs_opendir dir path s =
     bindR (deref path) (\<lambda>c.
       if c = 0 then
         bindR (upd_file dir (\<lambda>x. x\<lparr>pos0 := PROCFS_DIR_ROOT_PIDS, pos1 := task_first s\<rparr>) s) (\<lambda>s. Inr (s, 0))
       else bindR (pid_path path) (\<lambda>m.
         if m then bindR (atoi path) (\<lambda>pid. bindR (task_by_pid pid s) (\<lambda>t. Inr (s, - 1)))
         else Inr (s, - 1)))"

definition procfs_readdir :: "u32 \<Rightarrow> vfs_dirent \<Rightarrow> kst \<Rightarrow> (kst \<times> vfs_dirent \<times> u32) res" where
  "procfs_readdir dir ent s =
     bindR (get_file dir s) (\<lambda>d.
       if pos0 d = PROCFS_DIR_ROOT_PIDS then
         assertR (pos1 d \<noteq> 0)
           (bindR (get_task (pos1 d) s) (\<lambda>t.
            bindR (if t_ctl t \<noteq> 0 then bindR (get_ctl (t_ctl t) s) (\<lambda>c. debug_ds (scast (c_pid c)) (d_name ent) False False)
                   else strcpy (d_name ent) (lit ''0'')) (\<lambda>nm.
            let d' = (if t_next t \<noteq> 0 then d\<lparr>pos1 := t_next t\<rparr>
                      else if first_addr (procfs_nodes s) \<noteq> 0
                      then d\<lparr>pos0 := PROCFS_DIR_ROOT_NODES, pos1 := first_addr (procfs_nodes s)\<rparr>
                      else d\<lparr>pos0 := PROCFS_DIR_ROOT_END\<rparr>)
            in Inr (put_file dir d' s, ent\<lparr>d_name := nm, d_type := VFS_DT_DIR\<rparr>, 0))))
       else if pos0 d = PROCFS_DIR_ROOT_NODES then
         assertR (pos1 d \<noteq> 0)
           (case node_at (procfs_nodes s) (pos1 d) of None \<Rightarrow> Inl UseAfterFree
            | Some (n, nxt) \<Rightarrow>
                bindR (strcpy (d_name ent) (pn_name n)) (\<lambda>nm.
                let d' = (if nxt \<noteq> 0 then d\<lparr>pos1 := nxt\<rparr> else d\<lparr>pos1 := 0, pos0 := PROCFS_DIR_ROOT_END\<rparr>)
                in Inr (put_file dir d' s, ent\<lparr>d_name := nm, d_type := VFS_DT_REG\<rparr>, 0)))
       else Inr (s, ent, - 1))"

fun procfs_find :: "(u32 \<times> procfs_node) list \<Rightarrow> bytes \<Rightarrow> (u32 \<times> procfs_node) option res" where
  "procfs_find [] path = Inr None"
| "procfs_find ((a, n) # ns) path =
     bindR (strcmp (pn_name n) path) (\<lambda>c. if c = 0 then Inr (Some (a, n)) else procfs_find ns path)"

definition procfs_open :: "u32 \<Rightarrow> bytes \<Rightarrow> u32 \<Rightarrow> kst \<Rightarrow> (kst \<times> u32) res" where
  "procfs_open f path flags s =
     bindR (pid_path path) (\<lambda>m.
       if m then Inr (s, - 1)
       else bindR (procfs_find (procfs_nodes s) path) (\<lambda>r.
         case r of None \<Rightarrow> Inr (s, - 1)
         | Some (a, n) \<Rightarrow>
             bindR (upd_file f (\<lambda>x. x\<lparr>fs_priv := a, pos0 := 0, pos1 := (pn_flags n AND 0xFF) OR 0x80000000\<rparr>) s)
               (\<lambda>s. Inr (s, 0))))"

fun procfs_get_int :: "get_int_fn \<Rightarrow> u32 \<Rightarrow> u32" where
  "procfs_get_int Procfs_get_test v = 1234"

definition procfs_read :: "u32 \<Rightarrow> u32 \<Rightarrow> u32 \<Rightarrow> kst \<Rightarrow> (kst \<times> u32) res" where
  "procfs_read f buf lim s =
     bindR (get_file f s) (\<lambda>x.
     assertR (fs_priv x \<noteq> 0)
       (if nz (pos1 x AND 0x80000000) then
          (let left = pos1 x AND 0xFF; cnt = (if left > lim then lim else left) in
           if cnt = 0 then Inr (s, - 1)
           else case node_at (procfs_nodes s) (fs_priv x) of None \<Rightarrow> Inl UseAfterFree
             | Some (n, _) \<Rightarrow>
                 if pn_flags n AND 0xFF = 4 then
                   (let r = word_bytes (procfs_get_int (pn_get n) (pn_data n)) in
                    if unat (pos0 x) + unat cnt > 4 then Inl OutOfBounds
                    else bindR (vwrites buf (take (unat cnt) (drop (unat (pos0 x)) r)) s) (\<lambda>s.
                         Inr (put_file f (x\<lparr>pos1 := (pos1 x AND 0xFFFFFF00) OR (left - cnt), pos0 := pos0 x + cnt\<rparr>) s, cnt)))
                 else Inr (s, - 1))
        else Inr (s, - 1)))"

abbreviation procfs_node_size :: u32 where "procfs_node_size \<equiv> 272"

definition procfs_add_int :: "bytes \<Rightarrow> get_int_fn \<Rightarrow> u32 \<Rightarrow> kst \<Rightarrow> kst res" where
  "procfs_add_int name f v s =
     bindR (kalloc procfs_node_size s) (\<lambda>(s, node).
     if node = 0 then Inl NullDeref
     else bindR (strcpy (junk 255 s) name) (\<lambda>nm.
       Inr (s\<lparr>procfs_nodes := procfs_nodes s @ [(node, \<lparr>pn_name = nm, pn_flags = 4, pn_data = v, pn_get = f\<rparr>)]\<rparr>)))"

definition procfs_init :: "kst \<Rightarrow> kst res" where
  "procfs_init s =
     (let s = vfs_init Procfs s;
          s = s\<lparr>fss := (fss s)(Procfs := (fss s Procfs)\<lparr>v_flags := VFS_FLG_RD, v_opendir := Some Procfs_opendir,
                  v_readdir := Some Procfs_readdir, v_open := Some Procfs_open, v_read := Some Procfs_read\<rparr>)\<rparr>
      in procfs_add_int (lit ''test'') Procfs_get_test 0 (s\<lparr>procfs_nodes := []\<rparr>))"

end
