(* ===== verification/Vfs.thy ===== *)
theory Vfs
  imports Drivers
begin

text \<open>
  The virtual file system, \<open>src/src/sys/vfs.c\<close>, and the input side of the terminals, \<open>tty_type\<close> of
  \<open>dev/tty.c\<close>, which completes reads through it. A path is the list of the bytes from the pointer
  on; the pointer \<open>rel\<close> that a lookup returns is such a list too (\<open>None\<close> stands for the pointer
  one past NULL, which the code can produce).
\<close>

section \<open>The functions behind the pointers\<close>

fun call_open :: "fs_open_fn \<Rightarrow> u32 \<Rightarrow> bytes \<Rightarrow> u32 \<Rightarrow> kst \<Rightarrow> (kst \<times> u32) res" where
  "call_open Devfs_open f path flags s = devfs_open f path flags s"
| "call_open Initramfs_open f path flags s = initramfs_open f path flags s"
| "call_open Procfs_open f path flags s = procfs_open f path flags s"

fun call_fs_read :: "fs_read_fn \<Rightarrow> u32 \<Rightarrow> u32 \<Rightarrow> u32 \<Rightarrow> kst \<Rightarrow> (kst \<times> u32) res" where
  "call_fs_read Initramfs_read f buf len s = initramfs_read f buf len s"
| "call_fs_read Procfs_read f buf len s = procfs_read f buf len s"

fun call_fact :: "fs_fact_fn \<Rightarrow> bytes \<Rightarrow> u32 \<Rightarrow> kst \<Rightarrow> (u32 \<times> fact_out) res" where
  "call_fact Devfs_fact path act s = devfs_fact path act s"
| "call_fact Initramfs_fact path act s = initramfs_fact path act s"

fun call_opendir :: "fs_opendir_fn \<Rightarrow> mount_ent \<Rightarrow> u32 \<Rightarrow> bytes \<Rightarrow> kst \<Rightarrow> (kst \<times> u32) res" where
  "call_opendir Devfs_opendir mnt dir path s = devfs_opendir dir path s"
| "call_opendir Initramfs_opendir mnt dir path s = initramfs_opendir mnt dir s"
| "call_opendir Procfs_opendir mnt dir path s = procfs_opendir dir path s"

fun call_readdir :: "fs_readdir_fn \<Rightarrow> u32 \<Rightarrow> vfs_dirent \<Rightarrow> kst \<Rightarrow> (kst \<times> vfs_dirent \<times> u32) res" where
  "call_readdir Devfs_readdir dir ent s = devfs_readdir dir ent s"
| "call_readdir Initramfs_readdir dir ent s = initramfs_readdir dir ent s"
| "call_readdir Procfs_readdir dir ent s = procfs_readdir dir ent s"

definition tty_no :: "dev_id \<Rightarrow> nat" where
  "tty_no d = (case d of Dev_tty i \<Rightarrow> i | _ \<Rightarrow> 0)"

fun call_dev_read :: "driver \<Rightarrow> dev_id \<Rightarrow> u32 \<Rightarrow> u32 \<Rightarrow> u32 \<Rightarrow> kst \<Rightarrow> (kst \<times> u32) res" where
  "call_dev_read Drv_tty d f buf len s = tty_read (tty_no d) f s"
| "call_dev_read Drv_pseudo d f buf len s = dev_pseudo_read f buf len s"

fun call_dev_write :: "driver \<Rightarrow> dev_id \<Rightarrow> u32 \<Rightarrow> u32 \<Rightarrow> u32 \<Rightarrow> kst \<Rightarrow> (kst \<times> u32) res" where
  "call_dev_write Drv_tty d f buf len s = tty_write (tty_no d) buf len s"
| "call_dev_write Drv_pseudo d f buf len s = dev_pseudo_write f buf len s"

section \<open>Reading and writing\<close>

definition file_type :: "vfs_file \<Rightarrow> u32" where
  "file_type f = drop_bit 2 (f_flags f) AND 7"

definition read_op :: "u32 \<Rightarrow> vfs_file \<Rightarrow> u32 \<Rightarrow> u32 \<Rightarrow> kst \<Rightarrow> (kst \<times> u32) res" where
  "read_op f x buf len s =
     (if file_type x = VFS_TYPE_REG then
        (case f_fs x of None \<Rightarrow> Inl AssertFail
         | Some fs \<Rightarrow> (case v_read (fss s fs) of None \<Rightarrow> Inl AssertFail
             | Some rdf \<Rightarrow> call_fs_read rdf f buf len s))
      else if file_type x = VFS_TYPE_BLK \<or> file_type x = VFS_TYPE_CHR then
        (case f_dev x of None \<Rightarrow> Inl AssertFail
         | Some d \<Rightarrow> (case d_read (devs s d) of None \<Rightarrow> Inl AssertFail
             | Some drv \<Rightarrow> call_dev_read drv d f buf len s))
      else Inl Panic)"

definition vfs_read :: "u32 \<Rightarrow> u32 \<Rightarrow> u32 \<Rightarrow> u32 \<Rightarrow> kst \<Rightarrow> (kst \<times> u32) res" where
  "vfs_read f buf len res s =
     assertR (f \<noteq> 0)
       (bindR (get_file f s) (\<lambda>x.
          if \<not> nz (f_flags x AND VFS_FLG_RD) then Inr (s, - 1)
          else if op_buf x \<noteq> 0 then Inl Panic
          else
            bindR (vwrite32 res 0 s) (\<lambda>s.
             let x = x\<lparr>op_buf := buf, op_res := res, op_len := len, op_type := f_flags x AND 3\<rparr>;
                 s = put_file f x s in
             bindR (read_op f x buf len s) (\<lambda>(s, r).
               if r \<noteq> VFS_READ_ASYNC then bindR (upd_file f (\<lambda>x. x\<lparr>op_buf := 0\<rparr>) s) (\<lambda>s. Inr (s, r))
               else Inr (s, r)))))"

definition vfs_write :: "u32 \<Rightarrow> u32 \<Rightarrow> u32 \<Rightarrow> kst \<Rightarrow> (kst \<times> u32) res" where
  "vfs_write f buf len s =
     assertR (f \<noteq> 0)
       (bindR (get_file f s) (\<lambda>x.
          if \<not> nz (f_flags x AND VFS_FLG_WR) then Inr (s, - 1)
          else if file_type x = VFS_TYPE_REG then Inl AssertFail
          else if file_type x = VFS_TYPE_BLK \<or> file_type x = VFS_TYPE_CHR then
            (case f_dev x of None \<Rightarrow> Inl AssertFail
             | Some d \<Rightarrow> (case d_write (devs s d) of None \<Rightarrow> Inl AssertFail
                 | Some drv \<Rightarrow> call_dev_write drv d f buf len s))
          else Inl Panic))"

text \<open>
  \<open>vfs_gets\<close>: \<open>cp\<close> and \<open>rp\<close> are the addresses of its locals \<open>c\<close> and \<open>r\<close>. The loop has
  \<open>k\<close> more rounds before the index \<open>i\<close> reaches \<open>lim - 1\<close>; \<open>None\<close> is the early return of -1.
\<close>

fun gets_loop :: "nat \<Rightarrow> u32 \<Rightarrow> u32 \<Rightarrow> u32 \<Rightarrow> u32 \<Rightarrow> u32 \<Rightarrow> kst \<Rightarrow> (kst \<times> u32 option) res" where
  "gets_loop 0 f buf i cp rp s = Inr (s, Some i)"
| "gets_loop (Suc k) f buf i cp rp s =
     bindR (vfs_read f cp 1 rp s) (\<lambda>(s, r).
       if r \<noteq> 1 then Inr (s, if i = 0 then None else Some i)
       else bindR (vread cp s) (\<lambda>c.
         if c = 10 then Inr (s, Some i)
         else bindR (vwrite (buf + i) c s) (gets_loop k f buf (i + 1) cp rp)))"

definition vfs_gets :: "u32 \<Rightarrow> u32 \<Rightarrow> u32 \<Rightarrow> u32 \<Rightarrow> u32 \<Rightarrow> kst \<Rightarrow> (kst \<times> u32) res" where
  "vfs_gets f buf lim cp rp s =
     bindR (gets_loop (unat (lim - 1)) f buf 0 cp rp s) (\<lambda>(s, r).
       case r of None \<Rightarrow> Inr (s, - 1)
       | Some i \<Rightarrow> bindR (vwrite (buf + i) 0 s) (\<lambda>s. Inr (s, i)))"

section \<open>Lookup\<close>

definition skip_slash :: "bytes \<Rightarrow> bytes res" where
  "skip_slash p = bindR (deref p) (\<lambda>c. Inr (if c = ch (CHR ''/'') then tl p else p))"

lemma strchrnul_length: "strchrnul p c = Inr e \<Longrightarrow> e \<noteq> [] \<and> length e \<le> length p"
  by (induction p c rule: strchrnul.induct) (auto split: if_splits)

function match_loop :: "bytes \<Rightarrow> bytes \<Rightarrow> nat \<Rightarrow> nat res" where
  "match_loop p0 p1 n =
     bindR (strchrnul p0 (ch (CHR ''/''))) (\<lambda>e0.
     bindR (strchrnul p1 (ch (CHR ''/''))) (\<lambda>e1.
       if length p1 - length e1 = length p0 - length e0 then
         bindR (strncmp p0 p1 (of_nat (length p0 - length e0))) (\<lambda>c.
           if c = 0 then match_loop (tl e0) (tl e1) (Suc n) else Inr n)
       else Inr n))"
  by auto
termination
proof (relation "measure (\<lambda>(p0, p1, n). length p0)")
  fix p0 p1 e0 e1 :: bytes and n :: nat and c :: int
  assume "strchrnul p0 (ch (CHR ''/'')) = Inr e0"
  then have "e0 \<noteq> []" "length e0 \<le> length p0" using strchrnul_length by blast+
  then show "((tl e0, tl e1, Suc n), p0, p1, n) \<in> measure (\<lambda>(p0, p1, n). length p0)"
    by (cases e0) auto
qed simp

declare match_loop.simps [simp del]

definition vfs_components_match :: "bytes \<Rightarrow> bytes \<Rightarrow> nat res" where
  "vfs_components_match p0 p1 =
     bindR (strcmp p1 (lit ''/'')) (\<lambda>c.
       if c = 0 then Inr 1
       else bindR (skip_slash p0) (\<lambda>p0. bindR (skip_slash p1) (\<lambda>p1. match_loop p0 p1 0)))"

text \<open>\<open>for (i = 0; i < match; ++i) e = strchr(e, '/')\<close>\<close>

fun strchr_times :: "nat \<Rightarrow> bytes option \<Rightarrow> bytes option res" where
  "strchr_times 0 e = Inr e"
| "strchr_times (Suc n) e =
     (case e of None \<Rightarrow> Inl NullDeref
      | Some p \<Rightarrow> bindR (strchr p (ch (CHR ''/''))) (strchr_times n))"

record lookup =
  l_match :: nat
  l_slash :: bool
  l_mount :: "nat option"
  l_rel :: "bytes option"

text \<open>One mount in use; the flag says that the loop is left.\<close>

definition lookup_one :: "bytes \<Rightarrow> nat \<Rightarrow> bytes \<Rightarrow> lookup \<Rightarrow> (lookup \<times> bool) res" where
  "lookup_one path i dst l =
     bindR (strcmp dst path) (\<lambda>c.
       if c = 0 then
         bindR (strlen path) (\<lambda>n.
         Inr (l\<lparr>l_rel := Some (drop (unat n) path), l_mount := Some i, l_match := 10000\<rparr>, True))
       else
         bindR (vfs_components_match path dst) (\<lambda>match.
           if match > l_match l \<or> match \<ge> l_match l \<and> l_slash l then
             bindR (strcmp dst (lit ''/'')) (\<lambda>c.
               if c \<noteq> 0 then
                 bindR (strchr_times match (Some (tl path))) (\<lambda>e.
                 Inr (l\<lparr>l_rel := map_option tl e, l_slash := False, l_mount := Some i, l_match := match\<rparr>, False))
               else
                 Inr (l\<lparr>l_rel := Some (tl path), l_slash := True, l_mount := Some i, l_match := match\<rparr>, False))
           else Inr (l, False)))"

fun lookup_loop :: "bytes \<Rightarrow> (nat \<times> mount_ent) list \<Rightarrow> lookup \<Rightarrow> lookup res" where
  "lookup_loop path [] l = Inr l"
| "lookup_loop path ((i, m) # ms) l =
     bindR (rd (m_dst m) 0) (\<lambda>c.
       if nz c then
         bindR (lookup_one path i (m_dst m) l) (\<lambda>(l, found).
           if found then Inr l else lookup_loop path ms l)
       else Inr l)"

text \<open>\<open>None\<close> is the result -1; otherwise the mount and \<open>rel\<close>.\<close>

definition vfs_lookup_file :: "bytes \<Rightarrow> kst \<Rightarrow> (nat \<times> bytes option) option res" where
  "vfs_lookup_file path s =
     bindR (lookup_loop path (List.enumerate 0 (mounts s))
       \<lparr>l_match = 0, l_slash = False, l_mount = None, l_rel = None\<rparr>) (\<lambda>l.
     case l_mount l of None \<Rightarrow> Inr None
     | Some i \<Rightarrow> Inr (if l_match l = 0 then None else Some (i, l_rel l)))"

text \<open>The pointer \<open>rel\<close> as an argument that will be read.\<close>

definition rel_path :: "bytes option \<Rightarrow> bytes res" where
  "rel_path r = (case r of None \<Rightarrow> Inl NullDeref | Some p \<Rightarrow> Inr p)"

section \<open>Opening and closing\<close>

definition vfs_open :: "bytes \<Rightarrow> u32 \<Rightarrow> kst \<Rightarrow> (kst \<times> u32) res" where
  "vfs_open path flags s =
     bindR (vfs_lookup_file path s) (\<lambda>r. case r of None \<Rightarrow> Inr (s, 0)
     | Some (i, rel) \<Rightarrow>
         bindR (rd (mounts s) i) (\<lambda>mount.
         case m_fs mount of None \<Rightarrow> Inl AssertFail
         | Some fs \<Rightarrow> (case v_open (fss s fs) of None \<Rightarrow> Inl AssertFail
             | Some opn \<Rightarrow>
                 bindR (kalloc file_size s) (\<lambda>(s, p).
                 if p = 0 then Inl NullDeref
                 else
                   (let s = put_file p (file_zero\<lparr>f_fs := Some fs, f_flags := flags AND 3\<rparr>) s in
                    bindR (rel_path rel) (\<lambda>rel.
                    bindR (call_open opn p rel flags s) (\<lambda>(s, c).
                      if c \<noteq> 0 then bindR (kfree p s) (\<lambda>s. Inr (s\<lparr>files := (files s)(p := None)\<rparr>, 0))
                      else Inr (s, p))))))))"

definition vfs_close :: "u32 \<Rightarrow> kst \<Rightarrow> kst res" where
  "vfs_close f s =
     (if f \<noteq> 0 then
        bindR (get_file f s) (\<lambda>x.
        assertR (f_fs x \<noteq> None)
          (bindR (kfree f s) (\<lambda>s. Inr (s\<lparr>files := (files s)(f := None)\<rparr>))))
      else Inr s)"

section \<open>Facts\<close>

definition vfs_fact :: "bytes \<Rightarrow> u32 \<Rightarrow> kst \<Rightarrow> (u32 \<times> fact_out) option res" where
  "vfs_fact path act s =
     bindR (vfs_lookup_file path s) (\<lambda>r. case r of None \<Rightarrow> Inr None
     | Some (i, rel) \<Rightarrow>
         bindR (rd (mounts s) i) (\<lambda>mnt.
         case m_fs mnt of None \<Rightarrow> Inl AssertFail
         | Some fs \<Rightarrow> (case v_fact (fss s fs) of None \<Rightarrow> Inl AssertFail
             | Some fct \<Rightarrow>
                 bindR (rel_path rel) (\<lambda>rel. bindR (call_fact fct rel act s) (\<lambda>r. Inr (Some r))))))"

definition vfs_getm :: "bytes \<Rightarrow> kst \<Rightarrow> u32 res" where
  "vfs_getm path s =
     bindR (vfs_fact path VFS_FACT_GETM s) (\<lambda>r.
       case r of Some (c, Fact_mem a) \<Rightarrow> Inr (if c \<noteq> 0 then MM_NADDR else a) | _ \<Rightarrow> Inr MM_NADDR)"

definition vfs_stat :: "bytes \<Rightarrow> kst \<Rightarrow> u32 res" where
  "vfs_stat path s =
     bindR (vfs_fact path VFS_FACT_STAT s) (\<lambda>r. Inr (case r of None \<Rightarrow> - 1 | Some (c, _) \<Rightarrow> c))"

definition vfs_get_blkdev :: "bytes \<Rightarrow> kst \<Rightarrow> dev_id option res" where
  "vfs_get_blkdev path s =
     bindR (vfs_fact path VFS_FACT_BLKDEV s) (\<lambda>r.
       case r of Some (c, Fact_dev d) \<Rightarrow> Inr (if c \<noteq> 0 then None else d) | _ \<Rightarrow> Inr None)"

section \<open>Directories\<close>

text \<open>The object is not cleared: \<open>flags\<close> keeps the other bits of what the memory held.\<close>

definition vfs_opendir :: "bytes \<Rightarrow> kst \<Rightarrow> (kst \<times> u32) res" where
  "vfs_opendir path s =
     bindR (vfs_lookup_file path s) (\<lambda>r. case r of None \<Rightarrow> Inr (s, 0)
     | Some (i, rel) \<Rightarrow>
         bindR (rd (mounts s) i) (\<lambda>mnt.
         case m_fs mnt of None \<Rightarrow> Inl AssertFail
         | Some fs \<Rightarrow> (case v_opendir (fss s fs) of None \<Rightarrow> Inl AssertFail
             | Some opn \<Rightarrow>
                 bindR (kalloc file_size s) (\<lambda>(s, p).
                 if p = 0 then Inl NullDeref
                 else
                   bindR (rel_path rel) (\<lambda>rel.
                   bindR (strcpy (f_path (junk_file s)) rel) (\<lambda>nm.
                   let d = (junk_file s)\<lparr>f_path := nm, f_flags := f_flags (junk_file s) OR VFS_FLG_DIR,
                             f_dev := m_srcdev mnt, f_fs := Some fs\<rparr> in
                   bindR (call_opendir opn mnt p rel (put_file p d s)) (\<lambda>(s, c).
                     if c \<noteq> 0 then bindR (kfree p s) (\<lambda>s. Inr (s\<lparr>files := (files s)(p := None)\<rparr>, 0))
                     else Inr (s, p))))))))"

definition vfs_readdir :: "u32 \<Rightarrow> vfs_dirent \<Rightarrow> kst \<Rightarrow> (kst \<times> vfs_dirent \<times> u32) res" where
  "vfs_readdir dir ent s =
     assertR (dir \<noteq> 0)
       (bindR (get_file dir s) (\<lambda>d.
          case f_fs d of None \<Rightarrow> Inl AssertFail
          | Some fs \<Rightarrow>
              assertR (nz (f_flags d AND VFS_FLG_DIR))
                (case v_readdir (fss s fs) of None \<Rightarrow> Inr (s, ent, - 1)
                 | Some rdd \<Rightarrow> call_readdir rdd dir ent s)))"

definition vfs_closedir :: "u32 \<Rightarrow> kst \<Rightarrow> kst res" where
  "vfs_closedir dir s =
     assertR (dir \<noteq> 0)
       (bindR (get_file dir s) (\<lambda>d.
        assertR (f_fs d \<noteq> None \<and> nz (f_flags d AND VFS_FLG_DIR))
          (bindR (kfree dir s) (\<lambda>s. Inr (s\<lparr>files := (files s)(dir := None)\<rparr>)))))"

section \<open>Mounting\<close>

definition mount_fill :: "nat \<Rightarrow> bytes option \<Rightarrow> bytes \<Rightarrow> fs_id \<Rightarrow> kst \<Rightarrow> (kst \<times> u32) res" where
  "mount_fill i src dst fs s =
     bindR (wr (mounts s) i mount_zero) (\<lambda>ms.
     let s = s\<lparr>mounts := ms\<rparr> in
     bindR (case src of None \<Rightarrow> Inr (Some mount_zero)
            | Some sp \<Rightarrow>
                bindR (vfs_get_blkdev sp s) (\<lambda>b. case b of None \<Rightarrow> Inr None
                | Some d \<Rightarrow> bindR (strcpy (m_src mount_zero) sp) (\<lambda>nm.
                    Inr (Some (mount_zero\<lparr>m_srcdev := Some d, m_src := nm\<rparr>))))) (\<lambda>r.
     case r of None \<Rightarrow> Inr (s, - 1)
     | Some mnt \<Rightarrow>
         bindR (strcpy (m_dst mnt) dst) (\<lambda>nm.
         bindR (wr (mounts s) i (mnt\<lparr>m_dst := nm, m_fs := Some fs\<rparr>)) (\<lambda>ms.
         Inr (s\<lparr>mounts := ms\<rparr>, 0)))))"

fun mount_loop :: "nat list \<Rightarrow> bytes option \<Rightarrow> bytes \<Rightarrow> fs_id \<Rightarrow> kst \<Rightarrow> (kst \<times> u32) res" where
  "mount_loop [] src dst fs s = Inr (s, - 1)"
| "mount_loop (i # is) src dst fs s =
     bindR (rd (mounts s) i) (\<lambda>m.
     bindR (rd (m_dst m) 0) (\<lambda>c.
       if nz c then
         bindR (strcmp (m_dst m) dst) (\<lambda>c. if c = 0 then Inr (s, - 1) else mount_loop is src dst fs s)
       else mount_fill i src dst fs s))"

definition vfs_mount :: "bytes option \<Rightarrow> bytes \<Rightarrow> fs_id \<Rightarrow> kst \<Rightarrow> (kst \<times> u32) res" where
  "vfs_mount src dst fs s = mount_loop [0..<16] src dst fs s"

section \<open>Completing a read\<close>

text \<open>Copying to the buffer of a reader: into the space of its task, or into kernel memory.\<close>

definition send_copy :: "vfs_file \<Rightarrow> u32 \<Rightarrow> bytes \<Rightarrow> u32 \<Rightarrow> kst \<Rightarrow> kst res" where
  "send_copy x a src sz s =
     (if f_task x \<noteq> 0 then
        bindR (get_task (f_task x) s) (\<lambda>t.
        bindR (mm_memcpy_kernel_to_user (t_pd t) a src sz (kmm s)) (\<lambda>m. Inr (s\<lparr>kmm := m\<rparr>)))
      else if length src < unat sz then Inl OutOfBounds
      else vwrites a (take (unat sz) src) s)"

definition vfs_send_read_res :: "u32 \<Rightarrow> bytes \<Rightarrow> u32 \<Rightarrow> kst \<Rightarrow> (kst \<times> u32) res" where
  "vfs_send_read_res f src count s =
     assertR (f \<noteq> 0)
       (bindR (get_file f s) (\<lambda>x.
        assertR (op_buf x \<noteq> 0 \<and> op_res x \<noteq> 0)
          (bindR (vread32 (op_res x) s) (\<lambda>n.
             if n = - 1 then Inr (put_file f (x\<lparr>op_buf := 0\<rparr>) s, 1)
             else
               (let sz = (if count > op_len x then op_len x else count) in
                bindR (send_copy x (op_buf x + n) src sz s) (\<lambda>s.
                bindR (vread32 (op_res x) s) (\<lambda>n.
                bindR (vwrite32 (op_res x) (n + sz) s) (\<lambda>s.
                bindR (vread32 (op_res x) s) (\<lambda>n.
                  if n = op_len x then
                    bindR (upd_file f (\<lambda>x. x\<lparr>op_buf := 0\<rparr>) s) (\<lambda>s.
                    bindR (if f_task x \<noteq> 0 then task_nobusy (f_task x) s else Inr s) (\<lambda>s. Inr (s, 1)))
                  else Inr (s, 0))))))))))"

text \<open>A character typed at the terminal; the code calls it for \<open>n = 0\<close> only.\<close>

definition tty_type :: "u32 \<Rightarrow> u8 \<Rightarrow> kst \<Rightarrow> kst res" where
  "tty_type n c s =
     assertR (n = 0)
       (let f = tty_pending s 0 in
        if f \<noteq> 0 then
          bindR (get_file f s) (\<lambda>x.
          assertR (op_buf x \<noteq> 0 \<and> op_res x \<noteq> 0)
            (bindR (vfs_send_read_res f [c] 1 s) (\<lambda>(s, r).
               Inr (if r = 1 then s\<lparr>tty_pending := (tty_pending s)(0 := 0)\<rparr> else s))))
        else Inr s)"

end
