(* ===== verification/VfsLookup.thy ===== *)
theory VfsLookup
  imports Vfs
begin

text \<open>
  What \<open>vfs_lookup_file\<close> of \<open>src/src/sys/vfs.c\<close> finds: the specification over tables of mounts of
  \<open>/\<close> and of single components, the two cases where the code goes wrong, and the mount table of
  the running kernel.
\<close>

section \<open>Lookup over single-component mounts\<close>

text \<open>The character \<open>/\<close>.\<close>

abbreviation slash :: u8 where "slash \<equiv> 47"

text \<open>A path component, and the absolute path with the components \<open>cs\<close>.\<close>

definition comp :: "bytes \<Rightarrow> bool" where
  "comp c \<longleftrightarrow> c \<noteq> [] \<and> 0 \<notin> set c \<and> slash \<notin> set c"

definition path_str :: "bytes list \<Rightarrow> bytes" where
  "path_str cs = concat (map (\<lambda>c. slash # c) cs)"

text \<open>The path without its first slash.\<close>

definition rel_str :: "bytes list \<Rightarrow> bytes" where
  "rel_str cs = tl (path_str cs)"

text \<open>A mount in use: its \<open>dst\<close> array holds the string \<open>d\<close> and zeros.\<close>

definition mounted :: "mount_ent \<Rightarrow> bytes \<Rightarrow> bool" where
  "mounted m d \<longleftrightarrow> 0 \<notin> set d \<and> length d < 255 \<and> m_dst m = d @ replicate (256 - length d) 0"

definition simple_dst :: "bytes \<Rightarrow> bool" where
  "simple_dst d \<longleftrightarrow> d = [slash] \<or> (\<exists>c. comp c \<and> d = slash # c)"

lemma path_str_simps [simp]: "path_str [] = []" "path_str (c # cs) = slash # c @ path_str cs"
  by (simp_all add: path_str_def)

lemma rel_str_Cons [simp]: "rel_str (c # cs) = c @ path_str cs"
  by (simp add: rel_str_def)

lemma takeWhile_stop: "x \<notin> set c \<Longrightarrow> takeWhile (\<lambda>y. y \<noteq> x) (c @ x # r) = c"
  by (induction c) auto

lemma comp_zero: "\<forall>c \<in> set cs. comp c \<Longrightarrow> 0 \<notin> set (path_str cs)"
  by (induction cs) (auto simp: comp_def)

lemma takeWhile_comp:
  "comp c \<Longrightarrow> takeWhile (\<lambda>x. x \<noteq> slash) (c @ path_str cs) = c"
  by (cases cs) (auto simp: comp_def takeWhile_stop takeWhile_eq_all_conv)

lemma takeWhile_comp0: "comp c \<Longrightarrow> takeWhile (\<lambda>x. x \<noteq> slash) c = c"
  using takeWhile_comp [of c "[]"] by (simp only: path_str_simps append_Nil2)

lemma mounted_cstr: "mounted m d \<Longrightarrow> cstr (m_dst m) d"
  by (auto simp: mounted_def cstr_def)

text \<open>The component comparison with a mount of one component.\<close>

lemma takeWhile_slash: "comp c \<Longrightarrow> takeWhile (\<lambda>x. x \<noteq> slash) (c @ slash # r) = c"
  by (simp add: comp_def takeWhile_stop)

lemma of_char_slash: "ch (CHR ''/'') = slash"
  by simp

lemma match_loop_step:
  assumes "cstr p0 s0" "cstr p1 s1" "length s0 < 2 ^ 32"
  defines "c0 \<equiv> takeWhile (\<lambda>x. x \<noteq> slash) s0" and "c1 \<equiv> takeWhile (\<lambda>x. x \<noteq> slash) s1"
  shows "match_loop p0 p1 n = (if c0 = c1 then match_loop (drop (Suc (length c0)) p0) (drop (Suc (length c1)) p1) (Suc n) else Inr n)"
proof -
  have le: "length c0 \<le> length s0" "length c1 \<le> length s1" unfolding c0_def c1_def by (rule length_takeWhile_le)+
  have d: "length p0 - length (drop (length c0) p0) = length c0" "length p1 - length (drop (length c1) p1) = length c1"
    using le cstr_length [OF assms(1)] cstr_length [OF assms(2)] by auto
  have t: "take (length c0) s0 = c0" "length c1 = length c0 \<Longrightarrow> take (length c0) s1 = c1"
    unfolding c0_def c1_def by (simp_all add: takeWhile_eq_take [symmetric])
       (metis takeWhile_eq_take)
  have u: "unat (of_nat (length c0) :: u32) = length c0" using le assms(3) by (simp add: unat_of_nat_small)
  have tl: "tl (drop (length c0) p0) = drop (Suc (length c0)) p0" "tl (drop (length c1) p1) = drop (Suc (length c1)) p1"
    by (simp_all add: drop_Suc tl_drop)
  have e: "strchrnul p0 slash = Inr (drop (length c0) p0)" "strchrnul p1 slash = Inr (drop (length c1) p1)"
    using strchrnul_cstr [OF assms(1)] strchrnul_cstr [OF assms(2)] by (simp_all add: c0_def c1_def)
  have "match_loop p0 p1 n = (if length c1 = length c0 then
      bindR (strncmp p0 p1 (of_nat (length c0))) (\<lambda>c. if c = 0
        then match_loop (drop (Suc (length c0)) p0) (drop (Suc (length c1)) p1) (Suc n) else Inr n) else Inr n)"
    by (subst match_loop.simps) (simp only: of_char_slash e bindR_Inr d tl)
  also have "\<dots> = (if length c1 = length c0 \<and> take (length c0) s0 = take (length c0) s1
      then match_loop (drop (Suc (length c0)) p0) (drop (Suc (length c1)) p1) (Suc n) else Inr n)"
    by (simp only: strncmp_cstr [OF assms(1,2)] u bindR_Inr) simp
  also have "length c1 = length c0 \<and> take (length c0) s0 = take (length c0) s1 \<longleftrightarrow> c0 = c1"
    using t by auto
  finally show ?thesis .
qed

text \<open>The component comparison with a mount of one component.\<close>

lemma match_other:
  assumes "cstr p0 (c @ path_str cs)" "comp c" "cstr p1 d" "comp d" "c \<noteq> d" "length (c @ path_str cs) < 2 ^ 32"
  shows "match_loop p0 p1 n = Inr n"
  using match_loop_step [OF assms(1,3,6)] assms(5)
  by (simp only: takeWhile_comp0 [OF assms(4)] takeWhile_comp [OF assms(2)] if_False)

lemma match_same:
  assumes "cstr p0 (c @ path_str (c' # cs))" "comp c" "comp c'" "length (c @ path_str (c' # cs)) < 2 ^ 32"
    "p1 = c @ 0 # 0 # r"
  shows "match_loop p0 p1 n = Inr (Suc n)"
proof -
  have c1: "cstr p1 c" using assms by (simp add: cstr_append comp_def)
  let ?q = "drop (Suc (length c)) p0"
  have "cstr (drop (length (c @ [slash])) p0) (c' @ path_str cs)" by (rule cstr_drop) (use assms(1) in simp)
  then have q: "cstr ?q (c' @ path_str cs)" by simp
  have c0: "cstr (drop (Suc (length c)) p1) []" using assms(5) by simp
  have "match_loop p0 p1 n = match_loop ?q (drop (Suc (length c)) p1) (Suc n)"
    using match_loop_step [OF assms(1) c1 assms(4)]
    by (simp only: takeWhile_comp0 [OF assms(2)] takeWhile_comp [OF assms(2)] simp_thms if_True)
  also have "\<dots> = Inr (Suc n)"
    using match_loop_step [OF q c0] takeWhile_comp [OF assms(3), of cs] assms(3,4) by (simp add: comp_def)
  finally show ?thesis .
qed

text \<open>What the comparison of a path with one mount of at most one component gives.\<close>

lemma components_match_simple:
  assumes p: "cstr p (path_str (c # cs))" "\<forall>x \<in> set (c # cs). comp x" "length (path_str (c # cs)) < 2 ^ 31"
    and m: "mounted m d" "simple_dst d" "d \<noteq> path_str (c # cs)"
  shows "vfs_components_match p (m_dst m) =
    Inr (if d = [slash] \<or> d = slash # c then 1 else 0)"
proof -
  have dl: "length d < 255" using m(1) by (simp add: mounted_def)
  have root: "strcmp (m_dst m) (lit ''/'') = Inr (if d = [slash] then 0 else 1)"
    using strcmp_cstr [OF mounted_cstr [OF m(1)], of "lit ''/''" "[slash]"] dl by (simp add: lit_def)
  show ?thesis
  proof (cases "d = [slash]")
    case True
    then show ?thesis using root by (simp add: vfs_components_match_def)
  next
    case False
    then obtain e where e: "comp e" "d = slash # e" using m(2) by (auto simp: simple_dst_def)
    obtain p0 where p0: "p = slash # p0" "cstr p0 (c @ path_str cs)" using p(1) by auto
    define p1 where "p1 = e @ replicate (256 - length d) 0"
    have p1: "m_dst m = slash # p1" using m(1) e(2) by (simp add: mounted_def p1_def)
    have ne: "0 \<notin> set e" using e(1) by (simp add: comp_def)
    have k: "256 - length d = Suc (Suc (254 - length d))" using dl by simp
    then have p1': "p1 = e @ 0 # 0 # replicate (254 - length d) 0" unfolding p1_def k by simp
    have c1: "cstr p1 e" using p1' ne by (simp add: cstr_append)
    have l: "length (c @ path_str cs) < 2 ^ 32" using p(3) by simp
    have "match_loop p0 p1 0 = Inr (if e = c then 1 else 0)"
    proof (cases "e = c")
      case True
      then obtain c' cs' where cs: "cs = c' # cs'" using m(3) e(2) by (cases cs) auto
      show ?thesis
        using match_same [of p0 c c' cs' p1 "replicate (254 - length d) 0" 0] p0(2) p(2) l p1' True cs by simp
    next
      case False
      then show ?thesis using match_other [OF p0(2) _ c1 e(1) _ l] p(2) by simp
    qed
    then show ?thesis
      using root False e p0(1) p1 by (simp add: vfs_components_match_def skip_slash_def)
  qed
qed

text \<open>
  The specification: the first mount whose destination is the path's first component wins, with
  what follows it; otherwise the first mount of \<open>/\<close>, with the path without its first slash.
  The index is the position in the mount table.
\<close>

fun first_dst :: "bytes \<Rightarrow> nat \<Rightarrow> bytes list \<Rightarrow> nat option" where
  "first_dst d i [] = None"
| "first_dst d i (e # ds) = (if e = d then Some i else first_dst d (Suc i) ds)"

definition resolve :: "bytes list \<Rightarrow> bytes \<Rightarrow> bytes list \<Rightarrow> (nat \<times> bytes) option" where
  "resolve ds c cs =
     (case first_dst (slash # c) 0 ds of
        Some i \<Rightarrow> Some (i, rel_str cs)
      | None \<Rightarrow> map_option (\<lambda>i. (i, rel_str (c # cs))) (first_dst [slash] 0 ds))"

text \<open>What the loop has found: nothing, a mount of \<open>/\<close>, or a mount of the component.\<close>

definition found_state :: "lookup \<Rightarrow> bytes \<Rightarrow> bytes \<Rightarrow> bytes list \<Rightarrow> nat option \<Rightarrow> nat option \<Rightarrow> bool" where
  "found_state l p c cs root this \<longleftrightarrow>
     (case this of
        Some i \<Rightarrow> l_match l = 1 \<and> \<not> l_slash l \<and> l_mount l = Some i \<and> (\<exists>r. l_rel l = Some r \<and> cstr r (rel_str cs))
      | None \<Rightarrow> (case root of
          Some i \<Rightarrow> l_match l = 1 \<and> l_slash l \<and> l_mount l = Some i \<and> l_rel l = Some (tl p)
        | None \<Rightarrow> l_match l = 0 \<and> \<not> l_slash l \<and> l_mount l = None))"

lemma strcmp_dst:
  "mounted m d \<Longrightarrow> cstr q t \<Longrightarrow> length t < 2 ^ 31 \<Longrightarrow> strcmp (m_dst m) q = Inr (if d = t then 0 else 1)"
  using mounted_cstr [of m d] by (subst strcmp_cstr) (auto simp: mounted_def)

lemma lookup_one_simple:
  assumes p: "cstr p (path_str (c # cs))" "\<forall>x \<in> set (c # cs). comp x" "length (path_str (c # cs)) < 2 ^ 31"
    and m: "mounted m d" "simple_dst d" "d \<noteq> path_str (c # cs)"
    and st: "found_state l p c cs root this" "root = None \<or> d \<noteq> [slash]"
  shows "\<exists>l'. lookup_one p i (m_dst m) l = Inr (l', False) \<and>
    found_state l' p c cs (if root = None \<and> d = [slash] then Some i else root)
      (if this = None \<and> d = slash # c then Some i else this)"
proof -
  have c: "comp c" using p(2) by simp
  then have c_ne: "slash # c \<noteq> [slash]" by (simp add: comp_def)
  have eq: "strcmp (m_dst m) p = Inr 1" using strcmp_dst [OF m(1) p(1,3)] m(3) by simp
  have root_cmp: "strcmp (m_dst m) (lit ''/'') = Inr (if d = [slash] then 0 else 1)"
    by (rule strcmp_dst [OF m(1)]) (simp_all add: lit_def)
  have rel: "\<exists>r. strchr_times 1 (Some (tl p)) = Inr (Some r) \<and> cstr (tl r) (rel_str cs)" if "d = slash # c"
  proof -
    have "cs \<noteq> []" using m(3) that by auto
    then obtain c' cs' where cs: "cs = c' # cs'" by (cases cs) auto
    obtain q where q: "p = slash # q" "cstr q (c @ path_str cs)" using p(1) by auto
    have "cstr (drop (length c) q) (path_str cs)" by (rule cstr_drop [OF q(2)])
    then show ?thesis using q cs c by (auto simp: strchr_cstr [OF q(2)] comp_def takeWhile_stop)
  qed
  note cm = components_match_simple [OF p m]
  show ?thesis
    using st(2) st(1) cm eq root_cmp rel c_ne unfolding found_state_def
    by (auto simp: lookup_one_def split: option.splits)
qed

lemma lookup_one_exact:
  assumes p: "cstr p (path_str (c # cs))" "length (path_str (c # cs)) < 2 ^ 31"
    and m: "mounted m (path_str (c # cs))"
  shows "\<exists>l'. lookup_one p i (m_dst m) l = Inr (l', True) \<and> l_match l' = 10000 \<and> l_mount l' = Some i \<and>
    (\<exists>r. l_rel l' = Some r \<and> cstr r [])"
proof -
  have "strcmp (m_dst m) p = Inr 0" using strcmp_dst [OF m p] by simp
  moreover have "unat (of_nat (length (path_str (c # cs))) :: u32) = length (path_str (c # cs))"
    by (rule unat_of_nat_small) (use p(2) in simp)
  moreover have "cstr (drop (length (path_str (c # cs))) p) []"
    by (rule cstr_drop) (use p(1) in simp)
  ultimately show ?thesis unfolding lookup_one_def
    by (simp add: strlen_cstr [OF p(1)] del: path_str_simps cstr_Nil)
qed

text \<open>The mounts in use, and the rest of the table, which is not.\<close>

definition table_of_mounts :: "mount_ent list \<Rightarrow> bytes list \<Rightarrow> mount_ent list \<Rightarrow> bool" where
  "table_of_mounts us ds es \<longleftrightarrow> list_all2 mounted us ds \<and> distinct ds \<and> (\<forall>d \<in> set ds. simple_dst d) \<and>
     (es = [] \<or> (\<exists>m es' r. es = m # es' \<and> m_dst m = 0 # r))"

lemma simple_dst_ne: "simple_dst d \<Longrightarrow> \<exists>x t. d = x # t"
  by (auto simp: simple_dst_def)

lemma lookup_loop_simple:
  assumes p: "cstr p (path_str (c # cs))" "\<forall>x \<in> set (c # cs). comp x" "length (path_str (c # cs)) < 2 ^ 31"
    and t: "table_of_mounts us ds es"
    and st: "found_state l p c cs root this" "root = None \<or> [slash] \<notin> set ds"
  shows "\<exists>l'. lookup_loop p (List.enumerate i (us @ es)) l = Inr l' \<and>
    (let root' = (if root = None then first_dst [slash] i ds else root);
         this' = (if this = None then first_dst (slash # c) i ds else this)
     in found_state l' p c cs root' this' \<or>
        (\<exists>k. cs = [] \<and> first_dst (slash # c) i ds = Some k \<and> l_match l' = 10000 \<and> l_mount l' = Some k \<and>
           (\<exists>r. l_rel l' = Some r \<and> cstr r [])))"
  using t st
proof (induction us arbitrary: ds l root this i)
  case Nil
  then have "lookup_loop p (List.enumerate i es) l = Inr l"
    by (auto simp: table_of_mounts_def res_simps)
  then show ?case using Nil by (auto simp: table_of_mounts_def)
next
  case (Cons m us)
  then obtain d ds' where ds: "ds = d # ds'" "mounted m d" "simple_dst d" "d \<notin> set ds'" and t': "table_of_mounts us ds' es"
    by (auto simp: table_of_mounts_def list_all2_Cons1)
  have nz: "rd (m_dst m) 0 = Inr (m_dst m ! 0)" "m_dst m ! 0 \<noteq> 0"
    using ds(2) simple_dst_ne [OF ds(3)] by (auto simp: mounted_def res_simps)
  show ?case
  proof (cases "d = path_str (c # cs)")
    case True
    obtain l' where l': "lookup_one p i (m_dst m) l = Inr (l', True)" "l_match l' = 10000" "l_mount l' = Some i"
      "\<exists>r. l_rel l' = Some r \<and> cstr r []"
      using lookup_one_exact [OF p(1,3)] ds(2) unfolding True by blast
    have "cs = []"
    proof -
      have "simple_dst (path_str (c # cs))" using ds(3) True by simp
      then have "slash \<notin> set (c @ path_str cs)" using p(2) by (auto simp: simple_dst_def comp_def)
      then show ?thesis by (cases cs) auto
    qed
    moreover from this have "first_dst (slash # c) i ds = Some i" using True ds(1) by simp
    ultimately show ?thesis using nz l' by (auto simp: Let_def)
  next
    case False
    obtain l' where l': "lookup_one p i (m_dst m) l = Inr (l', False)"
      "found_state l' p c cs (if root = None \<and> d = [slash] then Some i else root)
        (if this = None \<and> d = slash # c then Some i else this)"
      using lookup_one_simple [OF p ds(2,3) False Cons.prems(2)] Cons.prems(3) ds(1) by auto
    have c: "c \<noteq> []" "cs = [] \<Longrightarrow> d \<noteq> slash # c" using p(2) False by (auto simp: comp_def)
    show ?thesis using nz l'(1) Cons.IH [OF t' l'(2), of "Suc i"] Cons.prems(3) ds(1,4) c
      by (auto simp: Let_def split: if_splits)
  qed
qed

lemma lookup_simple:
  assumes p: "cstr p (path_str (c # cs))" "\<forall>x \<in> set (c # cs). comp x" "length (path_str (c # cs)) < 2 ^ 31"
    and t: "table_of_mounts us ds es" "mounts s = us @ es"
  shows "case resolve ds c cs of
      None \<Rightarrow> vfs_lookup_file p s = Inr None
    | Some (i, rel) \<Rightarrow> \<exists>r. vfs_lookup_file p s = Inr (Some (i, Some r)) \<and> cstr r rel"
proof -
  let ?l = "\<lparr>l_match = 0, l_slash = False, l_mount = None, l_rel = None\<rparr>"
  have "found_state ?l p c cs None None" by (simp add: found_state_def)
  from lookup_loop_simple [OF p t(1) this disjI1 [OF refl], of 0]
  obtain l' where l': "lookup_loop p (List.enumerate 0 (us @ es)) ?l = Inr l'"
    "found_state l' p c cs (first_dst [slash] 0 ds) (first_dst (slash # c) 0 ds) \<or>
        (\<exists>k. cs = [] \<and> first_dst (slash # c) 0 ds = Some k \<and> l_match l' = 10000 \<and> l_mount l' = Some k \<and>
           (\<exists>r. l_rel l' = Some r \<and> cstr r []))"
    by (auto simp: Let_def)
  have "\<exists>r. p = slash # r \<and> cstr r (c @ path_str cs)" using p(1) by auto
  then show ?thesis
    using l' unfolding found_state_def resolve_def vfs_lookup_file_def t(2)
    by (auto split: option.splits simp: rel_str_def)
qed


text \<open>
  A mount of two components does not work: the loop that skips the matched components finds
  the same slash again, so a file below the mount is looked up by the second component of the
  mount and what follows.
\<close>

theorem vfs_lookup_nested:
  assumes p: "cstr p (path_str (a # b # c # cs))" "\<forall>x \<in> set (a # b # c # cs). comp x"
      "length (path_str (a # b # c # cs)) < 2 ^ 31"
    and m: "mounted m (path_str [a, b])" and s: "mounts s = [m]"
  shows "\<exists>r. vfs_lookup_file p s = Inr (Some (0, Some r)) \<and> cstr r (rel_str (b # c # cs))"
proof -
  obtain p0 where p0: "p = slash # p0" "cstr p0 (a @ path_str (b # c # cs))" using p(1) by auto
  have comps: "comp a" "comp b" "comp c" using p(2) by auto
  define d where "d = path_str [a, b]"
  have dl: "length d < 255" "0 \<notin> set d" using m by (simp_all add: mounted_def d_def)
  define p1 where "p1 = a @ slash # b @ 0 # 0 # replicate (254 - length d) 0"
  have "256 - length d = Suc (Suc (254 - length d))" using dl by simp
  then have p1: "m_dst m = slash # p1" using m unfolding mounted_def d_def [symmetric]
    by (simp add: p1_def) (simp add: d_def)
  have c1: "cstr p1 (a @ slash # b)"
    using dl(2) cstr_append [of "a @ slash # b" "0 # replicate (254 - length d) 0"] by (simp add: p1_def d_def)
  have len: "length (a @ path_str (b # c # cs)) < 2 ^ 32" using p(3) by simp
  let ?q = "drop (Suc (length a)) p0"
  have "cstr (drop (length (a @ [slash])) p0) (b @ path_str (c # cs))"
    by (rule cstr_drop) (use p0(2) in simp)
  then have q: "cstr ?q (b @ path_str (c # cs))" by simp
  have "match_loop p0 p1 0 = match_loop ?q (drop (Suc (length a)) p1) 1"
    using match_loop_step [OF p0(2) c1 len, of 0] by (simp add: takeWhile_slash [OF comps(1)])
  also have "\<dots> = Inr 2"
    using match_same [OF q comps(2,3), of "drop (Suc (length a)) p1" "replicate (254 - length d) 0" 1] len
    by (simp add: p1_def)
  finally have ml: "match_loop p0 p1 0 = Inr 2" .
  have ne: "strcmp (m_dst m) p = Inr 1" "strcmp (m_dst m) (lit ''/'') = Inr 1"
    using strcmp_dst [OF m p(1,3)] strcmp_dst [OF m, of "lit ''/''" "[slash]"] comps by (auto simp: lit_def comp_def)
  have cm: "vfs_components_match p (m_dst m) = Inr 2"
    using ne(2) ml p0(1) p1 by (simp add: vfs_components_match_def skip_slash_def)
  have q': "cstr (drop (length a) p0) (slash # b @ path_str (c # cs))"
    using cstr_drop [of p0 a "path_str (b # c # cs)"] p0(2) by simp
  then obtain r where r: "drop (length a) p0 = slash # r" "cstr r (b @ path_str (c # cs))" by auto
  have tw: "takeWhile (\<lambda>x. x \<noteq> slash) (a @ slash # b @ path_str (c # cs)) = a"
    using takeWhile_comp [OF comps(1), of "b # c # cs"] by simp
  have "strchr p0 (ch (CHR ''/'')) = Inr (Some (slash # r))"
    using strchr_cstr [OF p0(2), of slash] tw r(1) by (simp add: path_str_simps(2) [of b] del: path_str_simps)
  moreover have "strchr (slash # r) (ch (CHR ''/'')) = Inr (Some (slash # r))" by simp
  ultimately have "strchr_times 2 (Some p0) = Inr (Some (slash # r))" by (simp add: numeral_2_eq_2)
  then show ?thesis
    using ne cm p0(1) p1 r(2)
    by (simp add: vfs_lookup_file_def s lookup_one_def res_simps)
qed

text \<open>A path with a slash at its end is read past its end, when its first component is a mount.\<close>

lemma vfs_lookup_trailing_slash:
  assumes "comp c" "length c < 250" "mounted m (slash # c)" "mounts s = [m]"
  shows "vfs_lookup_file (slash # c @ [slash, 0]) s = Inl OutOfBounds"
proof -
  define p0 where "p0 = c @ [slash, 0]"
  have z: "0 \<notin> set c" using assms(1) by (simp add: comp_def)
  have c0: "cstr p0 (c @ [slash])" using z by (simp add: p0_def cstr_append [of "c @ [slash]" "[]", simplified])
  then have cp: "cstr (slash # p0) (slash # c @ [slash])" by simp
  define k where "k = 253 - length c"
  have p1: "m_dst m = slash # c @ 0 # 0 # replicate k 0"
  proof -
    have "256 - length (slash # c) = Suc (Suc k)" using assms(2) by (simp add: k_def)
    then show ?thesis using assms(3) unfolding mounted_def by (metis append_Cons replicate_Suc)
  qed
  have c1: "cstr (c @ 0 # 0 # replicate k 0) c" by (rule cstr_append [OF z])
  have "match_loop p0 (c @ 0 # 0 # replicate k 0) 0 = match_loop [0] (0 # replicate k 0) 1"
    using match_loop_step [OF c0 c1, of 0] assms(2)
    by (simp add: p0_def takeWhile_slash [OF assms(1)] takeWhile_comp0 [OF assms(1)] del: takeWhile_eq_all_conv)
  also have "\<dots> = match_loop [] (replicate k 0) 2"
    using match_loop_step [of "[0]" "[]" "0 # replicate k 0" "[]" 1] by (simp add: numeral_2_eq_2)
  also have "\<dots> = Inl OutOfBounds" by (subst match_loop.simps) simp
  finally have ml: "match_loop p0 (c @ 0 # 0 # replicate k 0) 0 = Inl OutOfBounds" .
  have "strcmp (m_dst m) (slash # p0) = Inr 1" "strcmp (m_dst m) (lit ''/'') = Inr 1"
    using strcmp_dst [OF assms(3) cp] strcmp_dst [OF assms(3), of "lit ''/''" "[slash]"] assms(1,2)
    by (auto simp: lit_def comp_def)
  then show ?thesis using ml p1
    by (simp add: vfs_lookup_file_def assms(4) lookup_one_def res_simps vfs_components_match_def skip_slash_def p0_def)
qed

section \<open>The table of the running kernel\<close>

lemma mounted_array: "0 \<notin> set d \<Longrightarrow> length d < 255 \<Longrightarrow> m_dst m = dst_array d \<Longrightarrow> mounted m d"
  by (simp add: mounted_def dst_array_def)

lemma boot_table:
  "\<exists>us es. boot_mounts = us @ es \<and> table_of_mounts us [bts ''/dev'', bts ''/''] es"
proof -
  let ?m1 = "mount_zero\<lparr>m_fs := Some Devfs, m_dst := dst_array (bts ''/dev'')\<rparr>"
  let ?m2 = "mount_zero\<lparr>m_fs := Some Initramfs, m_srcdev := Some Dev_initrd, m_dst := dst_array (bts ''/'')\<rparr>"
  have "m_dst mount_zero = 0 # replicate 255 0"
    by (simp add: mount_zero_def replicate_Suc [symmetric] del: replicate_Suc)
  moreover have "replicate 14 mount_zero = mount_zero # replicate 13 mount_zero"
    by (simp add: replicate_Suc [symmetric] del: replicate_Suc)
  moreover have "mounted ?m1 (bts ''/dev'')" "mounted ?m2 (bts ''/'')"
    by (auto intro: mounted_array simp: bts_def)
  moreover have "simple_dst (bts ''/dev'')" "simple_dst (bts ''/'')"
    by (auto simp: simple_dst_def comp_def bts_def)
  moreover have "bts ''/dev'' \<noteq> bts ''/''" by (simp add: bts_def)
  ultimately have "table_of_mounts [?m1, ?m2] [bts ''/dev'', bts ''/''] (replicate 14 mount_zero)"
    unfolding table_of_mounts_def by simp
  then show ?thesis unfolding boot_mounts_def by blast
qed


theorem vfs_lookup_nested_witness:
  "\<exists>r. vfs_lookup_file (lit ''/a/b/c'') (ex_kst\<lparr>mounts := [mount_zero\<lparr>m_dst := dst_array (bts ''/a/b'')\<rparr>]\<rparr>) =
     Inr (Some (0, Some r)) \<and> cstr r (bts ''b/c'')"
proof -
  let ?m = "mount_zero\<lparr>m_dst := dst_array (bts ''/a/b'')\<rparr>" and ?p = "[bts ''a'', bts ''b'', bts ''c'']"
  have "cstr (lit ''/a/b/c'') (path_str ?p)" "\<forall>x \<in> set ?p. comp x" "length (path_str ?p) < 2 ^ 31"
    by (auto simp: lit_def bts_def comp_def)
  moreover have "mounted ?m (path_str [bts ''a'', bts ''b''])"
    by (rule mounted_array) (auto simp: bts_def)
  moreover have "rel_str [bts ''b'', bts ''c''] = bts ''b/c''" by (simp add: bts_def rel_str_def)
  moreover have "mounts (ex_kst\<lparr>mounts := [?m]\<rparr>) = [?m]" by simp
  ultimately show ?thesis by (metis vfs_lookup_nested)
qed

end
