(* ===== verification/Archive.thy ===== *)
theory Archive
  imports Drivers
begin

text \<open>
  The ram disk of \<open>src/src/dev/initrd.c\<close> reads what a tar program packed: the layout of an
  archive, the lookup of a file in it, and reading a file to its end.
\<close>

section \<open>Packing an archive\<close>

text \<open>
  A file is packed as a ustar header and its contents, padded to 512 bytes: the name padded
  with zeros, the size as eleven octal digits, type \<open>0\<close> and the magic. Two zero blocks end the
  archive. The other fields of the header are given as \<open>misc\<close>; the code never reads them.
\<close>

record tar_file =
  tf_name :: bytes
  tf_data :: bytes
  tf_misc1 :: bytes
  tf_misc2 :: bytes
  tf_misc3 :: bytes
  tf_misc4 :: bytes

fun oct_digits :: "nat \<Rightarrow> nat \<Rightarrow> bytes" where
  "oct_digits 0 n = []"
| "oct_digits (Suc k) n = oct_digits k (n div 8) @ [of_nat (48 + n mod 8)]"

definition pad512 :: "bytes \<Rightarrow> bytes" where
  "pad512 d = d @ replicate (((length d + 511) div 512) * 512 - length d) 0"

definition file_hdr :: "tar_file \<Rightarrow> bytes" where
  "file_hdr f = tf_name f @ replicate (100 - length (tf_name f)) 0 @ tf_misc1 f @
     oct_digits 11 (length (tf_data f)) @ [0] @ tf_misc2 f @ [48] @ tf_misc3 f @ lit ''ustar'' @ tf_misc4 f"

definition pack :: "tar_file list \<Rightarrow> bytes" where
  "pack fs = concat (map (\<lambda>f. file_hdr f @ pad512 (tf_data f)) fs) @ replicate 1024 0"

text \<open>Names are between 1 and 99 characters long, the other fields have their sizes.\<close>

definition file_ok :: "tar_file \<Rightarrow> bool" where
  "file_ok f \<longleftrightarrow> tf_name f \<noteq> [] \<and> length (tf_name f) \<le> 99 \<and> 0 \<notin> set (tf_name f) \<and>
     length (tf_data f) < 2 ^ 31 \<and> length (tf_misc1 f) = 24 \<and> length (tf_misc2 f) = 20 \<and>
     length (tf_misc3 f) = 100 \<and> length (tf_misc4 f) = 249"

lemma length_oct [simp]: "length (oct_digits k n) = k"
  by (induction k arbitrary: n) auto

lemma length_hdr: "file_ok f \<Longrightarrow> length (file_hdr f) = 512"
  by (simp add: file_hdr_def file_ok_def lit_def)

lemma oct_loop_append: "oct_loop (xs @ ys) r = oct_loop ys (oct_loop xs r)"
  by (induction xs arbitrary: r) auto

lemma oct_step:
  assumes "x < 8" "r < 2 ^ 29"
  shows "push_bit 3 (of_nat r) OR (of_nat x :: u32) = of_nat (8 * r + x)"
proof -
  have x: "take_bit 3 (of_nat x :: u32) = of_nat x"
    using assms(1) by (simp only: word_unat_eq_iff) (simp add: unat_take unat_of_nat_small del: take_bit_eq_mod)
  have "push_bit 3 (of_nat r) AND (take_bit 3 (of_nat x)) = (0 :: u32)"
    by (rule bit_word_eqI) (auto simp: bit_simps)
  then have "push_bit 3 (of_nat r) OR (of_nat x) = push_bit 3 (of_nat r) + (of_nat x :: u32)"
    unfolding x by (rule disjunctive_add_eq_or [symmetric])
  then show ?thesis by (simp add: push_bit_eq_mult algebra_simps)
qed

lemma oct_digit: "x < 8 \<Longrightarrow> (scast (of_nat (48 + x) :: u8) :: u32) - 48 = of_nat x \<and> (of_nat (48 + x) :: u8) \<noteq> 0"
proof -
  assume "x < 8"
  then consider "x = 0" | "x = 1" | "x = 2" | "x = 3" | "x = 4" | "x = 5" | "x = 6" | "x = 7" by linarith
  then show ?thesis by cases simp_all
qed

lemma oct_loop_digits: "n < 2 ^ 32 \<Longrightarrow> n < 8 ^ k \<Longrightarrow> oct_loop (oct_digits k n) 0 = of_nat n"
proof (induction k arbitrary: n)
  case (Suc k)
  have "n div 8 < 8 ^ k" using Suc.prems by (simp add: less_mult_imp_div_less mult.commute)
  then have "oct_loop (oct_digits k (n div 8)) 0 = of_nat (n div 8)" using Suc by simp
  then show ?case
    using oct_digit [of "n mod 8"] oct_step [of "n mod 8" "n div 8"] Suc.prems(1)
    by (simp add: oct_loop_append del: of_nat_add)
qed simp

lemma tar_size_of: "file_ok f \<Longrightarrow> tar_oct2u32 (tar_size (file_hdr f @ r)) = of_nat (length (tf_data f))"
proof -
  assume f: "file_ok f"
  have "tar_size (file_hdr f @ r) = oct_digits 11 (length (tf_data f)) @ [0]"
    using f by (simp add: tar_size_def file_hdr_def file_ok_def lit_def)
  then show ?thesis using f by (simp add: tar_oct2u32_def oct_loop_append oct_loop_digits file_ok_def)
qed

lemma hdr_ustar: "file_ok f \<Longrightarrow> tar_is_ustar (file_hdr f) = Inr True"
proof -
  assume f: "file_ok f"
  have "tar_magic (file_hdr f) = lit ''ustar'' @ tf_misc4 f"
    using f by (simp add: tar_magic_def file_hdr_def file_ok_def)
  moreover have "cstr (lit ''ustar'' @ tf_misc4 f) [117, 115, 116, 97, 114]" "cstr (lit ''ustar'') [117, 115, 116, 97, 114]"
    by (simp_all add: lit_def)
  ultimately show ?thesis by (simp add: tar_is_ustar_def strncmp_cstr del: cstr_Cons)
qed

lemma hdr_file: "file_ok f \<Longrightarrow> tar_type (file_hdr f) True = TAR_FILE"
proof -
  assume f: "file_ok f"
  have "file_hdr f = (tf_name f @ replicate (100 - length (tf_name f)) 0 @ tf_misc1 f @
     oct_digits 11 (length (tf_data f)) @ [0] @ tf_misc2 f) @ 48 # (tf_misc3 f @ lit ''ustar'' @ tf_misc4 f)"
    by (simp add: file_hdr_def)
  moreover have "length (tf_name f @ replicate (100 - length (tf_name f)) 0 @ tf_misc1 f @
     oct_digits 11 (length (tf_data f)) @ [0] @ tf_misc2 f) = 156" using f by (simp add: file_ok_def)
  ultimately have "tar_typeflag (file_hdr f) = 48" unfolding tar_typeflag_def by (metis nth_append_length)
  then show ?thesis by (simp add: tar_type_def TAR_FILE_def)
qed

lemma hdr_name: "file_ok f \<Longrightarrow> cstr (file_hdr f) (tf_name f)"
proof -
  assume f: "file_ok f"
  have "replicate (100 - length (tf_name f)) 0 = (0 :: u8) # replicate (99 - length (tf_name f)) 0"
    using f unfolding replicate_Suc [symmetric] by (intro arg_cong2 [where f = replicate]) (auto simp: file_ok_def)
  then show ?thesis using f by (simp add: file_hdr_def file_ok_def cstr_append)
qed

lemma unat_and_511: "unat (w AND NOT 0x1FF :: u32) = unat w div 512 * 512"
proof -
  have m: "(0x1FF :: u32) = mask 9" by (simp add: mask_numeral)
  have "w AND NOT 0x1FF = push_bit 9 (drop_bit 9 w)"
    unfolding m by (rule bit_word_eqI) (auto simp: bit_simps)
  moreover have "unat (drop_bit 9 w) = unat w div 512" by (simp add: unat_drop)
  moreover have "unat w div 512 * 512 < 2 ^ 32" using unat_lt [of w] by simp
  ultimately show ?thesis by (simp add: push_bit_eq_mult unat_word_ariths)
qed

lemma tar_blocks_of:
  "file_ok f \<Longrightarrow> tar_blocks (file_hdr f) = of_nat ((length (tf_data f) + 511) div 512)"
proof -
  assume f: "file_ok f"
  let ?n = "length (tf_data f)"
  have n: "?n < 2 ^ 31" using f by (simp add: file_ok_def)
  have sz: "tar_oct2u32 (tar_size (file_hdr f)) = of_nat ?n" using tar_size_of [OF f, of "[]"] by simp
  have "unat (of_nat ?n + 0x200 - 1 :: u32) = ?n + 511"
  proof -
    have "of_nat ?n + 0x200 - 1 = (of_nat (?n + 511) :: u32)" by simp
    then show ?thesis using n unat_of_nat_small [of "?n + 511", where 'a = 32] by (simp del: of_nat_add)
  qed
  then have "unat (MM_ALIGN_UP (of_nat ?n) 512) = (?n + 511) div 512 * 512"
    by (simp add: MM_ALIGN_UP_def unat_and_511 [simplified])
  then have b: "unat (tar_blocks (file_hdr f)) = (?n + 511) div 512"
    unfolding tar_blocks_def sz by (simp add: unat_div)
  have "of_nat (unat (tar_blocks (file_hdr f))) = tar_blocks (file_hdr f)" by simp
  then show ?thesis unfolding b by (rule sym)
qed

lemma length_pad512: "length (pad512 d) = (length d + 511) div 512 * 512"
  using div_mult_mod_eq [of "length d + 511" 512] by (simp add: pad512_def)

definition entry_size :: "tar_file \<Rightarrow> nat" where
  "entry_size f = 512 + (length (tf_data f) + 511) div 512 * 512"

lemma tar_next: "file_ok f \<Longrightarrow> tar_at a (tar_blocks (file_hdr f) + 1) = a + of_nat (entry_size f)"
  by (simp add: tar_at_def tar_blocks_of entry_size_def algebra_simps)

text \<open>The first file of a name, and the address of its header.\<close>

fun locate :: "u32 \<Rightarrow> tar_file list \<Rightarrow> bytes \<Rightarrow> (u32 \<times> tar_file) option" where
  "locate a [] n = None"
| "locate a (f # fs) n = (if tf_name f = n then Some (a, f) else locate (a + of_nat (entry_size f)) fs n)"

lemma holds_pack_Cons:
  assumes "holds m a (pack (f # fs))" "file_ok f"
  shows "tar_hdr m a = file_hdr f" "holds m (a + 512) (tf_data f)" "holds m (a + of_nat (entry_size f)) (pack fs)"
proof -
  have p: "pack (f # fs) = file_hdr f @ pad512 (tf_data f) @ pack fs" by (simp add: pack_def)
  have l: "length (file_hdr f) = 512" "length (pad512 (tf_data f)) = (length (tf_data f) + 511) div 512 * 512"
    using assms(2) by (simp_all add: length_hdr length_pad512)
  show "tar_hdr m a = file_hdr f"
    using mbytes_holds [of m a "file_hdr f"] assms(1) unfolding tar_hdr_def p l by simp
  show "holds m (a + 512) (tf_data f)"
    using assms(1) unfolding p by (simp add: holds_append l pad512_def)
  show "holds m (a + of_nat (entry_size f)) (pack fs)"
    using assms(1) unfolding p by (simp add: holds_append l entry_size_def add.assoc)
qed

lemma hd_hdr: "file_ok f \<Longrightarrow> hd (file_hdr f) \<noteq> 0"
  by (cases "tf_name f") (auto simp: file_ok_def file_hdr_def)

lemma mbytes_hd: "0 < n \<Longrightarrow> hd (mbytes m a n) = m a"
  by (simp add: mbytes_def upt_conv_Cons)

lemma find_loop_pack:
  assumes "holds m a (pack fs)" "\<forall>f \<in> set fs. file_ok f" "cstr name n"
  shows "find_loop m name False a = Some (Inr (case locate a fs n of None \<Rightarrow> MM_NADDR | Some (b, _) \<Rightarrow> b))"
  using assms(1,2)
proof (induction fs arbitrary: a)
  case Nil
  then have "m a = 0" "m (a + of_nat 512) = 0"
    unfolding pack_def holds_def by (force simp del: of_nat_numeral)+
  then have "hd (tar_hdr m a) = 0" "hd (tar_hdr m (tar_at a 1)) = 0"
    by (simp_all add: tar_hdr_def mbytes_hd tar_at_def)
  then show ?case by (subst find_loop.simps, subst find_loop.simps) (simp add: Let_def)
next
  case (Cons f fs)
  have f: "file_ok f" using Cons.prems(2) by simp
  note h = holds_pack_Cons [OF Cons.prems(1) f]
  have "take 100 (tf_name f) = take 100 n \<longleftrightarrow> tf_name f = n"
  proof
    assume t: "take 100 (tf_name f) = take 100 n"
    have l: "length (tf_name f) \<le> 99" using f by (simp add: file_ok_def)
    then have "length (take 100 n) \<le> 99" using t by (metis length_take min.coboundedI1)
    then have "length n \<le> 99" by simp
    then show "tf_name f = n" using t l by simp
  qed simp
  then have "strncmp (file_hdr f) name 100 = Inr (if tf_name f = n then 0 else 1)"
    using strncmp_cstr [OF hdr_name [OF f] assms(3), of 100] by simp
  then show ?case
    using Cons.IH [OF h(3)] Cons.prems(2) hd_hdr [OF f]
    by (subst find_loop.simps) (simp add: Let_def h(1) hdr_ustar [OF f] hdr_file [OF f] tar_next [OF f])
qed

section \<open>Reading a packed file\<close>

text \<open>
  An open file of the ram disk: its position is the address of the bytes that are left, which
  are \<open>d\<close>.
\<close>

definition file_left :: "kst \<Rightarrow> u32 \<Rightarrow> bytes \<Rightarrow> bool" where
  "file_left s f d \<longleftrightarrow> f \<noteq> 0 \<and> length d < 2 ^ 31 \<and>
     (\<exists>x. files s f = Some x \<and> pos1 x = of_nat (length d) \<and> (d \<noteq> [] \<longrightarrow> kspan (pos0 x) (length d)) \<and>
        holds (kernel_mem s) (pos0 x) d)"

text \<open>The buffer does not overlap the bytes that are left.\<close>

definition buf_apart :: "kst \<Rightarrow> u32 \<Rightarrow> u32 \<Rightarrow> nat \<Rightarrow> bool" where
  "buf_apart s f buf n \<longleftrightarrow> (\<forall>x. files s f = Some x \<longrightarrow> (\<forall>a. in_span (pos0 x) (unat (pos1 x)) a \<longrightarrow> \<not> in_span buf n a))"

lemma drop_span:
  assumes "kspan a (length d)" "n \<le> length d"
  shows "kspan (a + of_nat n) (length (drop n d)) \<or> n = length d"
    "in_span (a + of_nat n) (length (drop n d)) x \<Longrightarrow> n < length d \<Longrightarrow> in_span a (length d) x"
    "holds m a d \<Longrightarrow> holds m (a + of_nat n) (drop n d)"
proof -
  have u: "unat (a + of_nat n) = unat a + n" if "n < length d"
    using assms(1) that unat_plus_small [of a "length d" n] by (simp add: kspan_def)
  show "kspan (a + of_nat n) (length (drop n d)) \<or> n = length d"
    using u assms by (auto simp: kspan_def word_le_nat_alt)
  show "in_span a (length d) x" if "in_span (a + of_nat n) (length (drop n d)) x" "n < length d"
    using u that by (auto simp: in_span_def)
  show "holds m (a + of_nat n) (drop n d)" if "holds m a d"
    using that holds_append [of m a "take n d" "drop n d"] assms(2)
    by (cases "n = length d") (simp_all add: holds_def min_def)
qed

lemma initramfs_read_step:
  assumes f: "file_left s f d" and b: "kspan buf n" "buf_apart s f buf n" and n: "n < 2 ^ 32"
  shows "\<exists>x m p0. files s f = Some x \<and>
    initramfs_read f buf (of_nat n) s =
      Inr (put_file f (x\<lparr>pos1 := of_nat (length (drop n d)), pos0 := p0\<rparr>) (set_mem m s), of_nat (min n (length d))) \<and>
    holds m buf (take n d) \<and> (\<forall>y. \<not> in_span buf n y \<longrightarrow> m y = kernel_mem s y) \<and>
    (drop n d \<noteq> [] \<longrightarrow> kspan p0 (length (drop n d))) \<and> holds m p0 (drop n d) \<and>
    (\<forall>y. in_span p0 (length (drop n d)) y \<longrightarrow> in_span (pos0 x) (length d) y)"
proof -
  obtain x where x: "f \<noteq> 0" "files s f = Some x" "pos1 x = of_nat (length d)" "d \<noteq> [] \<Longrightarrow> kspan (pos0 x) (length d)"
    "holds (kernel_mem s) (pos0 x) d" and ld: "length d < 2 ^ 31"
    using f by (auto simp: file_left_def)
  have u: "unat (of_nat n :: u32) = n" "unat (of_nat (length d) :: u32) = length d"
    using n ld by (simp_all add: unat_of_nat_small)
  define k where "k = min n (length d)"
  have l: "(if of_nat n > pos1 x then pos1 x else of_nat n) = of_nat k"
    using u x(3) by (auto simp: k_def word_less_nat_alt)
  have uk: "unat (of_nat k :: u32) = k" using n by (simp add: unat_of_nat_small k_def)
  have kd: "k \<le> length d" "k \<le> n" by (simp_all add: k_def)
  have tk: "take n d = take k d" "drop n d = drop k d" by (simp_all add: k_def min_def)
  have rd: "vreads (pos0 x) k s = Inr (take k d)"
    using vreads_kernel [OF kspan_less [OF x(4) kd(1)]] holds_mbytes [OF x(5) kd(1)]
    by (cases "d = []") (auto simp: k_def)
  have kb: "kspan buf (length (take k d))" using kspan_less [OF b(1) kd(2)] kd by simp
  define m' where "m' = store_bytes buf (take k d) (kernel_mem s)"
  have p1: "pos1 x - of_nat k = of_nat (length (drop n d))"
    using kd by (simp add: x(3) tk of_nat_diff)
  have r: "initramfs_read f buf (of_nat n) s =
      Inr (put_file f (x\<lparr>pos1 := of_nat (length (drop n d)), pos0 := pos0 x + of_nat k\<rparr>) (set_mem m' s), of_nat k)"
    using x(1,2) l rd vwrites_kernel [OF kb] p1
    by (simp add: initramfs_read_def obj_defs res_simps Let_def uk m'_def)
  have wrap: "unat buf + length (take k d) \<le> 2 ^ 32" using kb by (simp add: kspan_def)
  have other: "m' y = kernel_mem s y" if "\<not> in_span buf n y" for y
    using store_bytes_other [OF wrap] that kd unfolding m'_def by (auto simp: in_span_def)
  have hb: "holds m' buf (take n d)" unfolding tk m'_def by (rule store_bytes_holds [OF wrap])
  have ap: "\<not> in_span buf n y" if "in_span (pos0 x) (length d) y" for y
    using b(2) x(2,3) u(2) that by (simp add: buf_apart_def)
  have hd: "holds m' (pos0 x) d"
  proof (cases "d = []")
    case False
    show ?thesis
      by (rule holds_cong [OF x(5)]) (use other ap x(4) [OF False] in \<open>auto simp: kspan_def\<close>)
  qed (simp add: holds_def)
  have rest: "(drop n d \<noteq> [] \<longrightarrow> kspan (pos0 x + of_nat k) (length (drop n d))) \<and>
    holds m' (pos0 x + of_nat k) (drop n d) \<and>
    (\<forall>y. in_span (pos0 x + of_nat k) (length (drop n d)) y \<longrightarrow> in_span (pos0 x) (length d) y)"
  proof (cases "n < length d")
    case True
    then have k: "k = n" "d \<noteq> []" by (auto simp: k_def)
    show ?thesis using drop_span [OF x(4) [OF k(2)], of n] True hd by (auto simp: k(1))
  next
    case False
    then show ?thesis by (simp add: holds_def in_span_def)
  qed
  show ?thesis using r x(2) hb other rest unfolding k_def by blast
qed

text \<open>What that says of the file.\<close>

lemma file_left_after:
  assumes "file_left s f d" "files s f = Some x" "drop n d \<noteq> [] \<longrightarrow> kspan p0 (length (drop n d))"
    "holds m p0 (drop n d)" "\<forall>y. in_span p0 (length (drop n d)) y \<longrightarrow> in_span (pos0 x) (length d) y"
    "files s' f = Some x'" "pos1 x' = of_nat (length (drop n d))" "pos0 x' = p0" "kernel_mem s' = m"
  shows "file_left s' f (drop n d)" "buf_apart s f b k \<Longrightarrow> buf_apart s' f b k"
proof -
  have l: "length d < 2 ^ 31" "f \<noteq> 0" "pos1 x = of_nat (length d)" using assms(1,2) by (auto simp: file_left_def)
  then show "file_left s' f (drop n d)" using assms(3-) by (auto simp: file_left_def)
  have u: "unat (pos1 x') = length (drop n d)" "unat (pos1 x) = length d"
    unfolding assms(7) l(3) by (rule unat_of_nat_small, use l in simp)+
  show "buf_apart s' f b k" if "buf_apart s f b k"
    using that assms(2,5,6,8) u by (auto simp: buf_apart_def)
qed

lemma initramfs_read_left:
  assumes f: "file_left s f d" and b: "kspan buf n" "buf_apart s f buf n" and n: "n < 2 ^ 32"
  shows "\<exists>s'. initramfs_read f buf (of_nat n) s = Inr (s', of_nat (min n (length d))) \<and>
    holds (kernel_mem s') buf (take n d) \<and> file_left s' f (drop n d) \<and> buf_apart s' f buf n"
proof -
  obtain x m p0 where r: "files s f = Some x" "initramfs_read f buf (of_nat n) s =
      Inr (put_file f (x\<lparr>pos1 := of_nat (length (drop n d)), pos0 := p0\<rparr>) (set_mem m s), of_nat (min n (length d)))"
    "holds m buf (take n d)" "drop n d \<noteq> [] \<longrightarrow> kspan p0 (length (drop n d))" "holds m p0 (drop n d)"
    "\<forall>y. in_span p0 (length (drop n d)) y \<longrightarrow> in_span (pos0 x) (length d) y"
    using initramfs_read_step [OF assms] by (elim exE conjE) (rule that)
  let ?x = "x\<lparr>pos1 := of_nat (length (drop n d)), pos0 := p0\<rparr>"
  let ?s = "put_file f ?x (set_mem m s)"
  have s: "files ?s f = Some ?x" "kernel_mem ?s = m" by (simp_all add: put_file_def set_mem_def kernel_mem_def)
  have "file_left ?s f (drop n d)" "buf_apart ?s f buf n"
    using file_left_after [OF f r(1,4,5,6) s(1) _ _ s(2)] b(2) by simp_all
  then show ?thesis using r(2,3) s(2) by auto
qed

lemma pack_length: "file_ok f \<Longrightarrow> length (pack (f # fs)) = entry_size f + length (pack fs)"
  by (simp add: pack_def length_hdr length_pad512 entry_size_def)

lemma locate_holds:
  assumes "holds m a (pack fs)" "\<forall>f \<in> set fs. file_ok f" "kspan a (length (pack fs))" "locate a fs n = Some (b, f)"
  shows "f \<in> set fs \<and> tar_hdr m b = file_hdr f \<and> holds m (b + 512) (tf_data f) \<and>
    kspan (b + 512) (length (tf_data f)) \<and> b \<noteq> MM_NADDR \<and>
    (\<forall>y. in_span (b + 512) (length (tf_data f)) y \<longrightarrow> in_span a (length (pack fs)) y)"
  using assms
proof (induction fs arbitrary: a)
  case (Cons g fs)
  have g: "file_ok g" using Cons.prems(2) by simp
  note h = holds_pack_Cons [OF Cons.prems(1) g]
  have l: "length (pack (g # fs)) = entry_size g + length (pack fs)" "1024 \<le> length (pack fs)"
    using pack_length [OF g] by (simp_all add: pack_def)
  have dl: "length (tf_data g) \<le> entry_size g - 512"
    using length_pad512 [of "tf_data g"] by (simp add: entry_size_def pad512_def)
  have k: "KERNEL_VIRT_BASE \<le> a" "unat a + entry_size g + 1024 \<le> 2 ^ 32"
    using Cons.prems(3) l by (auto simp: kspan_def)
  show ?case
  proof (cases "tf_name g = n")
    case True
    then have b: "b = a" "f = g" using Cons.prems(4) by simp_all
    have "unat (a + 512) = unat a + 512"
      using k(2) by (subst unat_add_nowrap) (auto simp: entry_size_def)
    moreover have "a \<noteq> MM_NADDR" using k(2) by (auto simp: MM_NADDR_def entry_size_def)
    ultimately show ?thesis using b h k dl
      by (auto simp: kspan_def word_le_nat_alt entry_size_def in_span_def l(1) [unfolded entry_size_def])
  next
    case False
    have e: "unat (of_nat (entry_size g) :: u32) = entry_size g" using k(2) by (simp add: unat_of_nat_small)
    then have "unat (a + of_nat (entry_size g)) = unat a + entry_size g"
      using k(2) by (subst unat_add_nowrap) auto
    then have "kspan (a + of_nat (entry_size g)) (length (pack fs))"
      "\<forall>y. in_span (a + of_nat (entry_size g)) (length (pack fs)) y \<longrightarrow> in_span a (length (pack (g # fs))) y"
      using Cons.prems(3) l(1) by (auto simp: kspan_def in_span_def word_le_nat_alt)
    then show ?thesis using Cons.IH [OF h(3)] Cons.prems(2,4) False by simp
  qed
qed simp

lemma initramfs_open_packed:
  assumes h: "holds (kernel_mem s) (initrd_base s) (pack fs)" "\<forall>f \<in> set fs. file_ok f"
      "kspan (initrd_base s) (length (pack fs))"
    and p: "cstr path n" and f: "p \<noteq> 0" "files s p = Some x"
  shows "case locate (initrd_base s) fs n of
      None \<Rightarrow> initramfs_open p path flags s = Inr (s, - 1)
    | Some (b, f) \<Rightarrow> \<exists>s'. initramfs_open p path flags s = Inr (s', 0) \<and> file_left s' p (tf_data f) \<and>
        s' = put_file p (x\<lparr>pos0 := b + 512, pos1 := of_nat (length (tf_data f))\<rparr>) s"
proof (cases "locate (initrd_base s) fs n")
  case None
  then show ?thesis using find_loop_pack [OF h(1,2) p] by (simp add: initramfs_open_def initrd_find_file_def)
next
  case (Some r)
  then obtain b f where r: "locate (initrd_base s) fs n = Some (b, f)" by (cases r) auto
  note l = locate_holds [OF h r]
  have ok: "file_ok f" using h(2) l by blast
  have sz: "tar_oct2u32 (tar_size (file_hdr f)) = of_nat (length (tf_data f))"
    using tar_size_of [OF ok, of "[]"] by simp
  let ?s = "put_file p (x\<lparr>pos0 := b + 512, pos1 := of_nat (length (tf_data f))\<rparr>) s"
  have "initramfs_open p path flags s = Inr (?s, 0)"
    using find_loop_pack [OF h(1,2) p] r l f sz
    by (simp add: initramfs_open_def initrd_find_file_def obj_defs res_simps tar_at_def)
  moreover have "file_left ?s p (tf_data f)"
    using l f ok by (simp add: file_left_def put_file_def kernel_mem_def file_ok_def)
  ultimately show ?thesis using r by simp
qed

text \<open>Reading to the end with a buffer of \<open>len\<close> bytes, at most \<open>k\<close> times.\<close>

fun read_all :: "nat \<Rightarrow> u32 \<Rightarrow> u32 \<Rightarrow> u32 \<Rightarrow> kst \<Rightarrow> (kst \<times> bytes) res" where
  "read_all 0 f buf len s = Inr (s, [])"
| "read_all (Suc k) f buf len s =
     bindR (initramfs_read f buf len s) (\<lambda>(s, r).
       if r = 0 then Inr (s, [])
       else bindR (vreads buf (unat r) s) (\<lambda>bs. bindR (read_all k f buf len s) (\<lambda>(s, rest). Inr (s, bs @ rest))))"

lemma read_at_end: "f \<noteq> 0 \<Longrightarrow> files s f = Some x \<Longrightarrow> pos1 x = 0 \<Longrightarrow> \<exists>s'. initramfs_read f buf len s = Inr (s', 0)"
  by (cases "len = 0") (auto simp: initramfs_read_def obj_defs res_simps word_gt_0)

lemma read_all_packed:
  assumes "file_left s f d" "kspan buf n" "buf_apart s f buf n" "n < 2 ^ 32" "0 < n" "length d < k * n"
  shows "\<exists>s'. read_all k f buf (of_nat n) s = Inr (s', d)"
  using assms
proof (induction k arbitrary: s d)
  case (Suc k)
  have f0: "f \<noteq> 0" using Suc.prems(1) by (simp add: file_left_def)
  obtain s1 where s1: "initramfs_read f buf (of_nat n) s = Inr (s1, of_nat (min n (length d)))"
    "holds (kernel_mem s1) buf (take n d)" "file_left s1 f (drop n d)" "buf_apart s1 f buf n"
    using initramfs_read_left [OF Suc.prems(1-4)] by blast
  have u: "unat (of_nat (min n (length d)) :: u32) = min n (length d)"
    using Suc.prems(4) by (intro unat_of_nat_small) auto
  show ?case
  proof (cases "d = []")
    case True
    then show ?thesis using s1(1) by simp
  next
    case False
    then have nz: "of_nat (min n (length d)) \<noteq> (0 :: u32)" using u Suc.prems(5) by (auto simp: word_unat_eq_iff)
    have "mbytes (kernel_mem s1) buf (min n (length d)) = take n d"
      using holds_mbytes [OF s1(2), of "min n (length d)"] by (simp add: min_def)
    then have v: "vreads buf (min n (length d)) s1 = Inr (take n d)"
      using vreads_kernel [OF kspan_less [OF Suc.prems(2)], of "min n (length d)"] by simp
    show ?thesis
    proof (cases "n < length d")
      case True
      then have k: "length (drop n d) < k * n" using Suc.prems(6) by simp
      obtain s2 where "read_all k f buf (of_nat n) s1 = Inr (s2, drop n d)"
        using Suc.IH [OF s1(3) Suc.prems(2) s1(4) Suc.prems(4,5) k] by blast
      then show ?thesis using s1(1) nz v u by simp
    next
      case False
      then obtain x where x: "files s1 f = Some x" "pos1 x = 0" using s1(3) by (auto simp: file_left_def)
      obtain s2 where "read_all k f buf (of_nat n) s1 = Inr (s2, [])"
      proof (cases k)
        case 0
        then show ?thesis using that by simp
      next
        case (Suc k')
        obtain s' where "initramfs_read f buf (of_nat n) s1 = Inr (s', 0)"
          using read_at_end [OF f0 x] by blast
        then show ?thesis using that Suc by simp
      qed
      then show ?thesis using s1(1) nz v u False by simp
    qed
  qed
qed simp

text \<open>
  C13: a file that was packed into the archive can be opened by its name and read back whole, with
  any buffer in kernel memory outside the archive: reading until a read returns 0 gives exactly
  the contents that were packed (of the first entry of that name). A name that was not packed is
  not found.
\<close>

theorem initramfs_roundtrip:
  assumes "holds (kernel_mem s) (initrd_base s) (pack fs)" "\<forall>f \<in> set fs. file_ok f"
      "kspan (initrd_base s) (length (pack fs))"
    and "cstr path n" "p \<noteq> 0" "files s p = Some x"
    and "kspan buf len" "0 < len" "len < 2 ^ 32" "\<forall>a. in_span (initrd_base s) (length (pack fs)) a \<longrightarrow> \<not> in_span buf len a"
  shows "case locate (initrd_base s) fs n of
      None \<Rightarrow> initramfs_open p path flags s = Inr (s, - 1)
    | Some (b, f) \<Rightarrow> \<exists>s1. initramfs_open p path flags s = Inr (s1, 0) \<and>
        (\<forall>k. length (tf_data f) < k * len \<longrightarrow> (\<exists>s2. read_all k p buf (of_nat len) s1 = Inr (s2, tf_data f)))"
proof (cases "locate (initrd_base s) fs n")
  case None
  then show ?thesis using initramfs_open_packed [OF assms(1-6)] by simp
next
  case (Some r)
  then obtain b f where r: "locate (initrd_base s) fs n = Some (b, f)" by (cases r) auto
  obtain s1 where s1: "initramfs_open p path flags s = Inr (s1, 0)" "file_left s1 p (tf_data f)"
    "s1 = put_file p (x\<lparr>pos0 := b + 512, pos1 := of_nat (length (tf_data f))\<rparr>) s"
    using initramfs_open_packed [OF assms(1-6)] r by auto
  have "unat (of_nat (length (tf_data f)) :: u32) = length (tf_data f)"
    by (rule unat_of_nat_small) (use s1(2) in \<open>simp add: file_left_def\<close>)
  then have "buf_apart s1 p buf len"
    using locate_holds [OF assms(1-3) r] assms(10) by (simp add: buf_apart_def s1(3) put_file_def)
  then show ?thesis
    using r s1(1) read_all_packed [OF s1(2) assms(7) _ assms(9,8)] by auto
qed

section \<open>A concrete archive\<close>

definition ex_file :: tar_file where
  "ex_file = \<lparr>tf_name = bts ''etc/motd'', tf_data = bts ''hello'', tf_misc1 = replicate 24 48,
     tf_misc2 = replicate 20 48, tf_misc3 = replicate 100 0, tf_misc4 = replicate 249 0\<rparr>"

definition ex_disk :: kst where
  "ex_disk = set_mem (store_bytes 0xC0200000 (pack [ex_file]) (\<lambda>_. 0))
     (ex_kst\<lparr>initrd_base := 0xC0200000, files := [0x1000 \<mapsto> file_zero]\<rparr>)"

lemma ex_file_ok: "file_ok ex_file"
  by (simp add: file_ok_def ex_file_def bts_def)

lemma ex_pack_length: "length (pack [ex_file]) = 2048"
proof -
  have "length (pack [ex_file]) = entry_size ex_file + length (pack [])" by (rule pack_length [OF ex_file_ok])
  moreover have "length (pack []) = 1024" by (simp add: pack_def)
  ultimately show ?thesis by (simp add: entry_size_def ex_file_def bts_def)
qed

lemma ex_disk_simps: "initrd_base ex_disk = 0xC0200000" "files ex_disk = [0x1000 \<mapsto> file_zero]"
  "holds (kernel_mem ex_disk) 0xC0200000 (pack [ex_file])"
proof -
  show "initrd_base ex_disk = 0xC0200000" "files ex_disk = [0x1000 \<mapsto> file_zero]"
    by (simp_all add: ex_disk_def set_mem_def)
  have "kernel_mem ex_disk = store_bytes 0xC0200000 (pack [ex_file]) (\<lambda>_. 0)" by (simp add: ex_disk_def)
  then show "holds (kernel_mem ex_disk) 0xC0200000 (pack [ex_file])"
    using store_bytes_holds [of "0xC0200000" "pack [ex_file]"] by (simp add: ex_pack_length)
qed

theorem initramfs_roundtrip_witness:
  "\<exists>s1 s2. initramfs_open 0x1000 (lit ''etc/motd'') 1 ex_disk = Inr (s1, 0) \<and>
     read_all 3 0x1000 0xC0300000 2 s1 = Inr (s2, bts ''hello'')"
proof -
  have "holds (kernel_mem ex_disk) (initrd_base ex_disk) (pack [ex_file])" "\<forall>f \<in> set [ex_file]. file_ok f"
    "kspan (initrd_base ex_disk) (length (pack [ex_file]))" "cstr (lit ''etc/motd'') (bts ''etc/motd'')"
    "(0x1000 :: u32) \<noteq> 0" "files ex_disk 0x1000 = Some file_zero" "kspan 0xC0300000 2" "(0 :: nat) < 2" "(2 :: nat) < 2 ^ 32"
    "\<forall>a. in_span (initrd_base ex_disk) (length (pack [ex_file])) a \<longrightarrow> \<not> in_span 0xC0300000 2 a"
    using ex_disk_simps ex_file_ok
    by (auto simp: kspan_def in_span_def ex_pack_length KERNEL_VIRT_BASE_def lit_def bts_def)
  from initramfs_roundtrip [OF this, of 1]
  have "\<exists>s1. initramfs_open 0x1000 (lit ''etc/motd'') 1 ex_disk = Inr (s1, 0) \<and>
      (\<forall>k. length (tf_data ex_file) < k * 2 \<longrightarrow> (\<exists>s2. read_all k 0x1000 0xC0300000 (of_nat 2) s1 = Inr (s2, tf_data ex_file)))"
    by (simp add: ex_file_def)
  then show ?thesis by (auto simp: ex_file_def bts_def)
qed

end
