(* ===== verification/UserCopy.thy ===== *)
theory UserCopy
  imports Kernel
begin

text \<open>
  Copies between the kernel and the memory of a task (\<open>arch/x86/mm/user.c\<close>): one page of the task
  after the other is mapped into the kernel's own directory, at the task's own address, read or
  written there, and unmapped again. The lemmas show that a copy touches exactly the bytes to which
  the task's own directory maps its addresses, and leaves every table as it was.
\<close>

section \<open>One page\<close>

text \<open>The address lies in a page that the task has mapped and the kernel can map there for a moment.\<close>

definition copyable :: "mm \<Rightarrow> u32 \<Rightarrow> u32 \<Rightarrow> bool" where
  "copyable s pd v \<longleftrightarrow> has_table s pd (pdi_of v) \<and> tab s (table_info pd s) (pdi_of v) \<noteq> 0 \<and>
     bit (tab s (table_of s pd (pdi_of v)) (pti_of v)) 0 \<and>
     has_table s (mm_kernel s) (pdi_of v) \<and>
     tab s (table_info (mm_kernel s) s) (pdi_of v) AND 0xFFF \<noteq> 0 \<and>
     tab s (table_info (mm_kernel s) s) (pdi_of v) AND 0xFFF \<noteq> 0xFFF \<and>
     tab s (table_of s (mm_kernel s) (pdi_of v)) (pti_of v) = 0"

text \<open>The physical address of a byte of the task.\<close>

definition phys_of :: "mm \<Rightarrow> u32 \<Rightarrow> u32 \<Rightarrow> u32" where
  "phys_of s pd v = page_base (tab s (table_of s pd (pdi_of v)) (pti_of v)) OR (v AND 0xFFF)"

definition put_bytes :: "(nat \<Rightarrow> u32) \<Rightarrow> nat \<Rightarrow> bytes \<Rightarrow> (u32 \<Rightarrow> u8) \<Rightarrow> u32 \<Rightarrow> u8" where
  "put_bytes f k bs r = fold (\<lambda>(j, b) r. r(f j := b)) (enumerate k bs) r"

lemma put_bytes_simps [simp]:
  "put_bytes f k [] r = r" "put_bytes f k (b # bs) r = put_bytes f (Suc k) bs (r(f k := b))"
  by (simp_all add: put_bytes_def)

lemma put_bytes_append: "put_bytes f k (bs @ cs) r = put_bytes f (k + length bs) cs (put_bytes f k bs r)"
  by (induction bs arbitrary: k r) simp_all

lemma put_bytes_shift:
  "(\<And>j. j < length bs \<Longrightarrow> f (k + j) = g (l + j)) \<Longrightarrow> put_bytes f k bs r = put_bytes g l bs r"
proof (induction bs arbitrary: k l r)
  case (Cons b bs)
  have "f (Suc k + j) = g (Suc l + j)" if "j < length bs" for j using Cons.prems [of "Suc j"] that by simp
  then have "put_bytes f (Suc k) bs r' = put_bytes g (Suc l) bs r'" for r' by (rule Cons.IH)
  then show ?case using Cons.prems [of 0] by simp
qed simp

lemma unat_mm_align: "v AND 0xFFF = 0 \<Longrightarrow> unat (v :: u32) mod 4096 = 0"
  using unat_and_fff [of v] by (metis unat_0)

lemma page_offset:
  assumes al: "(v :: u32) AND 0xFFF = 0" and n: "n < 4096"
  shows "pdi_of (v + of_nat n) = pdi_of v" "pti_of (v + of_nat n) = pti_of v"
    "(v + of_nat n) AND 0xFFF = of_nat n" "page_base (v + of_nat n) = v" "unat (v + of_nat n) = unat v + n"
proof -
  have m: "unat v mod 4096 = 0" by (rule unat_mm_align [OF al])
  have b: "unat v + n < 2 ^ 32"
  proof -
    obtain q where q: "unat v = 4096 * q" using m by (auto simp: mod_eq_0_iff_dvd dvd_def)
    then have "q < 1048576" using unat_lt [of v] by simp
    then show ?thesis using q n by simp
  qed
  show u: "unat (v + of_nat n) = unat v + n"
    using b n by (simp add: unat_word_ariths unat_of_nat)
  have d: "(unat v + n) div 4096 = unat v div 4096" "(unat v + n) mod 4096 = n"
    using m n by (auto simp: mod_eq_0_iff_dvd dvd_def)
  have "(unat v + n) div 4194304 = unat v div 4194304"
    using d(1) by (simp add: div_mult2_eq [of _ 4096 1024, simplified])
  then show "pdi_of (v + of_nat n) = pdi_of v" by (simp add: pdi_of_def unat_drop u)
  show "pti_of (v + of_nat n) = pti_of v"
    unfolding pti_of_def low_mask
    by (simp add: unat_take unat_drop take_bit_eq_mask [symmetric] u d(1) del: take_bit_eq_mod)
  show "(v + of_nat n) AND 0xFFF = of_nat n"
    using n by (simp add: word_unat_eq_iff unat_and_fff u d(2) unat_of_nat)
  show "page_base (v + of_nat n) = v"
    using m by (simp add: word_unat_eq_iff unat_page_base u d(1)) (auto simp: mod_eq_0_iff_dvd)
qed

lemma copyable_page:
  assumes "v AND 0xFFF = 0" "n < 4096"
  shows "copyable s pd (v + of_nat n) \<longleftrightarrow> copyable s pd v" "phys_of s pd (v + of_nat n) = phys_of s pd v OR of_nat n"
  using page_offset [OF assms] assms(1) by (simp_all add: copyable_def phys_of_def)

lemma naddr_not_page: "page_base w AND 0xFFF = 0" "page_base w \<noteq> MM_NADDR"
proof -
  show "page_base w AND 0xFFF = 0" for w unfolding page_base_def low_mask by (auto simp: bit_eq_iff bit_simps)
  from this [of w] show "page_base w \<noteq> MM_NADDR" by (auto simp: MM_NADDR_def)
qed

lemma copyable_mapped:
  assumes wf: "space_wf s (mm_kernel s)" and c: "copyable s pd v" and al: "v AND 0xFFF = 0"
  defines "K \<equiv> mm_kernel s"
  defines "pte \<equiv> phys_of s pd v OR ((MM_FLG_WR AND (MM_FLG_WR OR MM_FLG_US)) OR X86_MM_FLG_PR)"
  shows "map_user_page pd v s = Inr (map_old K v pte s)"
    "n < 4096 \<Longrightarrow> mm_translate K (v + of_nat n) (map_old K v pte s) = Inr (phys_of s pd v OR of_nat n, Some MM_FLG_WR)"
    "unmap_user_page v (map_old K v pte s) = Inr s"
proof -
  have w: "MM_FLG_WR AND MM_FLG_PS = 0" "MM_FLG_WR AND (MM_FLG_US OR MM_FLG_WR) = MM_FLG_WR"
    by (simp_all add: MM_FLG_WR_def MM_FLG_PS_def MM_FLG_US_def)
  have c': "has_table s K (pdi_of v)" "tab s (table_info K s) (pdi_of v) AND 0xFFF \<noteq> 0xFFF"
    "tab s (table_info K s) (pdi_of v) AND 0xFFF \<noteq> 0" "tab s (table_of s K (pdi_of v)) (pti_of v) = 0"
    using c by (simp_all add: copyable_def K_def)
  have wf': "space_wf s K" using wf by (simp add: K_def)
  let ?e = "tab s (table_of s pd (pdi_of v)) (pti_of v)"
  have t: "mm_translate pd v s = Inr (page_base ?e, Some (?e AND (MM_FLG_US OR MM_FLG_WR)))"
    using c al by (simp add: copyable_def mm_translate_table Let_def)
  have ph: "phys_of s pd v = page_base ?e" using al by (simp add: phys_of_def)
  have ps: "(?e AND (MM_FLG_US OR MM_FLG_WR)) AND MM_FLG_PS = 0"
    by (simp add: flg_simps bit_simps bit_flg)
  have m: "mm_map_range_pages K v [phys_of s pd v] 1 MM_FLG_WR s = Inr (map_old K v pte s)"
    using al w map_page_one_old [OF wf' c'(1,2)] by (simp add: mm_map_range_pages_def pte_def)
  show "map_user_page pd v s = Inr (map_old K v pte s)"
    using m ps naddr_not_page(2) [of ?e] by (simp add: map_user_page_def t ph K_def res_simps)
  show "mm_translate K (v + of_nat n) (map_old K v pte s) = Inr (phys_of s pd v OR of_nat n, Some MM_FLG_WR)" if n: "n < 4096"
  proof -
    have "phys_of s pd v AND 0xFFF = 0" using naddr_not_page(1) by (simp add: ph)
    note tr = map_old_translate [OF wf' c'(1,2) this, where w = "v + of_nat n" and fl = MM_FLG_WR, folded pte_def]
    show ?thesis unfolding tr using page_offset [OF al n] w by (simp add: same_page_def)
  qed
  have "mm_umap_range K v 1 MM_FLG_NOPHYS (map_old K v pte s) =
      Inr (s\<lparr>tab := (tab s)(table_of s K (pdi_of v) := (tab s (table_of s K (pdi_of v)))(pti_of v := 0))\<rparr>, - 1)"
    using umap_map_old [OF wf' c'(1) al c'(2,3)] by (simp add: Let_def)
  moreover have "(tab s)(table_of s K (pdi_of v) := (tab s (table_of s K (pdi_of v)))(pti_of v := 0)) = tab s"
    using c'(4) by (simp add: fun_eq_iff)
  moreover have "mm_kernel (map_old K v pte s) = K" by (simp add: map_old_def K_def Let_def)
  ultimately show "unmap_user_page v (map_old K v pte s) = Inr s"
    by (simp add: unmap_user_page_def)
qed

lemma map_old_ram [simp]:
  "map_old K v e (s\<lparr>ram := r\<rparr>) = (map_old K v e s)\<lparr>ram := r\<rparr>" "ram (map_old K v e s) = ram s"
  "mm_kernel (map_old K v e s) = mm_kernel s"
  by (simp_all add: map_old_def table_info_def table_of_def Let_def)

lemma ram_update_indep [simp]:
  "mm_translate pd v (s\<lparr>ram := r\<rparr>) = mm_translate pd v s" "copyable (s\<lparr>ram := r\<rparr>) pd v = copyable s pd v"
  "space_wf (s\<lparr>ram := r\<rparr>) pd = space_wf s pd" "phys_of (s\<lparr>ram := r\<rparr>) pd v = phys_of s pd v"
  by (simp_all add: mm_translate_def rdE_def table_info_def copyable_def has_table_def table_of_def space_wf_def phys_of_def)

text \<open>Accesses through the window that the mapping opens.\<close>

lemma kwrites_window:
  assumes "\<And>n. n < 4096 \<Longrightarrow> mm_translate (mm_kernel s) (v + of_nat n) s = Inr (f n, Some fl)"
    "a + length bs \<le> 4096"
  shows "kwrites (v + of_nat a) bs s = Inr (s\<lparr>ram := put_bytes f a bs (ram s)\<rparr>)"
  using assms
proof (induction bs arbitrary: a s)
  case (Cons b bs)
  define r where "r = (ram s)(f a := b)"
  have "kwrite (v + of_nat a) b s = Inr (s\<lparr>ram := r\<rparr>)"
    using Cons.prems by (simp add: kwrite_def kaddr_def r_def)
  moreover have "kwrites (v + of_nat (Suc a)) bs (s\<lparr>ram := r\<rparr>) = Inr (s\<lparr>ram := put_bytes f (Suc a) bs r\<rparr>)"
    using Cons.IH [of "s\<lparr>ram := r\<rparr>" "Suc a"] Cons.prems by simp
  ultimately show ?case by (simp add: algebra_simps r_def [symmetric])
qed simp

lemma kreads_window:
  assumes "\<And>n. n < 4096 \<Longrightarrow> mm_translate (mm_kernel s) (v + of_nat n) s = Inr (f n, Some fl)"
    "a + m \<le> 4096"
  shows "kreads (v + of_nat a) m s = Inr (map (\<lambda>j. ram s (f j)) [a..<a + m])"
  using assms(2)
proof (induction m arbitrary: a)
  case (Suc m)
  have "kread (v + of_nat a) s = Inr (ram s (f a))"
    using assms(1) Suc.prems by (simp add: kread_def kaddr_def)
  then show ?case using Suc.IH [of "Suc a"] Suc.prems by (simp add: algebra_simps upt_conv_Cons del: upt_Suc)
qed simp

section \<open>A copy of any length\<close>

text \<open>The bytes of the copy that lie in the \<open>i\<close>th page of the buffer: offsets in the page and in the copy.\<close>

definition copy_pos :: "u32 \<Rightarrow> nat \<Rightarrow> nat \<Rightarrow> nat" where
  "copy_pos p n i = min n (unat (page_base p) + 4096 * i - unat p)"

lemma page_base_le:
  obtains q r where "unat p = 4096 * q + r" "r < 4096" "unat (page_base p) = 4096 * q" "page_base p AND 0xFFF = 0"
proof -
  have "unat p = 4096 * (unat p div 4096) + unat p mod 4096" "unat p mod 4096 < 4096" by simp_all
  moreover have "unat (page_base p) = 4096 * (unat p div 4096)" by (simp add: unat_page_base)
  ultimately show ?thesis using naddr_not_page(1) [of p] that by metis
qed

lemma user_npages_eq:
  assumes "unat p + n + 4096 \<le> 2 ^ 32"
  shows "user_npages p (of_nat n) = (unat p - unat (page_base p) + n + 4095) div 4096"
proof -
  obtain q r where p: "unat p = 4096 * q + r" "unat (page_base p) = 4096 * q"
    by (rule page_base_le [of p])
  have "unat (of_nat n :: u32) = n" using assms by (intro unat_of_nat_small) simp
  then have "unat (p + of_nat n + 0xFFF) = unat p + n + 4095"
    using assms by (simp add: unat_word_ariths)
  moreover have "MM_ALIGN_UP (p + of_nat n) 0x1000 = page_base (p + of_nat n + 0xFFF)"
    by (simp add: MM_ALIGN_UP_def page_base_def algebra_simps)
  moreover have "(unat p + n + 4095) div 4096 = q + (r + n + 4095) div 4096"
    using p(1) by (simp add: add.assoc)
  ultimately have u: "unat (MM_ALIGN_UP (p + of_nat n) 0x1000) = 4096 * (q + (r + n + 4095) div 4096)"
    by (simp add: unat_page_base)
  have "unat (MM_ALIGN_UP (p + of_nat n) 0x1000 - page_base p) = 4096 * ((r + n + 4095) div 4096)"
    using u p(2) by (simp add: unat_sub word_le_nat_alt add_mult_distrib2)
  then show ?thesis using p by (simp add: user_npages_def unat_div)
qed

text \<open>The three bounds of a page of the copy, as numbers.\<close>

lemma user_window:
  assumes b: "unat p + n + 4096 \<le> 2 ^ 32" and i: "i < user_npages p (of_nat n)"
  defines "v \<equiv> page_base p + of_nat i * 0x1000"
  shows "v AND 0xFFF = 0" "unat (user_start p v) \<le> unat (user_stop p (of_nat n) v)"
    "unat (user_stop p (of_nat n) v) \<le> 4096"
    "unat v + unat (user_start p v) = unat p + copy_pos p n i"
    "unat v + unat (user_stop p (of_nat n) v) = unat p + copy_pos p n (Suc i)"
    "0 < n \<Longrightarrow> unat (user_start p v) < unat (user_stop p (of_nat n) v)"
proof -
  obtain q r where p: "unat p = 4096 * q + r" "r < 4096" "unat (page_base p) = 4096 * q"
    by (rule page_base_le [of p])
  have n: "unat (of_nat n :: u32) = n" using b by (intro unat_of_nat_small) simp
  have i': "4096 * i < r + n + 4095 - 4095 \<or> i = 0 \<and> n = 0 \<and> 0 < r"
    using i p user_npages_eq [OF b] by auto
  have "unat (of_nat i * 0x1000 :: u32) = i * 4096"
    using i' b p(1) by (subst unat_word_ariths) (auto simp: unat_of_nat)
  then have v: "unat v = 4096 * q + 4096 * i"
    using i' b p by (auto simp: v_def unat_word_ariths)
  show "v AND 0xFFF = 0"
    using unat_and_fff [of v] by (simp add: v word_unat_eq_iff)
  have st: "unat (user_start p v) = (if i = 0 then r else 0)"
    using p v by (auto simp: user_start_def word_less_nat_alt unat_sub word_le_nat_alt)
  have "unat (p + of_nat n) = unat p + n" using b n by (simp add: unat_word_ariths)
  then have "unat (p + of_nat n - v) = r + n - 4096 * i"
    using i' p v by (auto simp: unat_sub word_le_nat_alt)
  then have en: "unat (user_stop p (of_nat n) v) = min 4096 (r + n - 4096 * i)"
    by (auto simp: user_stop_def Let_def word_less_nat_alt)
  show "unat (user_start p v) \<le> unat (user_stop p (of_nat n) v)" "unat (user_stop p (of_nat n) v) \<le> 4096"
    "0 < n \<Longrightarrow> unat (user_start p v) < unat (user_stop p (of_nat n) v)"
    using st en i' p(2) by auto
  show "unat v + unat (user_start p v) = unat p + copy_pos p n i"
    using st v i' p by (auto simp: copy_pos_def)
  show "unat v + unat (user_stop p (of_nat n) v) = unat p + copy_pos p n (Suc i)"
    using en v i' p by (auto simp: copy_pos_def min_def)
qed


lemma copy_shift:
  assumes "unat v + unat a = unat p + k"
  shows "p + of_nat (k + j) = (v :: u32) + of_nat (unat (a :: u32) + j)"
proof -
  have "(of_nat (unat v + unat a + j) :: u32) = of_nat (unat p + k + j)" using assms by simp
  then show ?thesis by (simp add: add.assoc)
qed

text \<open>The window of one page of the copy.\<close>

lemma copy_page:
  assumes b: "unat p + n + 4096 \<le> 2 ^ 32" and c: "\<And>j. j < n \<Longrightarrow> copyable s pd (p + of_nat j)" "0 < n"
    and i: "i < user_npages p (of_nat n)"
  defines "v \<equiv> page_base p + of_nat i * 0x1000" and "k \<equiv> copy_pos p n i" and "l \<equiv> copy_pos p n (Suc i)"
  shows "v AND 0xFFF = 0" "copyable s pd v" "k \<le> l" "l \<le> n"
    "unat (user_stop p (of_nat n) v - user_start p v) = l - k" "unat (user_start p v) + (l - k) \<le> 4096"
    "j < l - k \<Longrightarrow> phys_of s pd v OR of_nat (unat (user_start p v) + j) = phys_of s pd (p + of_nat (k + j))"
proof -
  note w = user_window [OF b i, folded v_def k_def l_def]
  let ?a = "user_start p v"
  show "v AND 0xFFF = 0" by (rule w(1))
  show kl: "k \<le> l" "l \<le> n" using w(2,4,5) by (auto simp: k_def l_def copy_pos_def)
  show "unat (user_stop p (of_nat n) v - ?a) = l - k" using w(2,4,5) by (simp add: unat_sub word_le_nat_alt)
  show "unat ?a + (l - k) \<le> 4096" using w(2-5) by linarith
  note sh = copy_shift [OF w(4)]
  have "k < n" "unat ?a < 4096" using w(3,6) c(2) kl w(4,5) by linarith+
  then show "copyable s pd v" using c(1) [of k] sh [of 0] copyable_page(1) [OF w(1), of "unat ?a"] by simp
  show "phys_of s pd v OR of_nat (unat ?a + j) = phys_of s pd (p + of_nat (k + j))" if "j < l - k"
  proof -
    have "unat ?a + j < 4096" using that w(2-5) by linarith
    from copyable_page(2) [OF w(1) this, of s pd] show ?thesis unfolding sh by simp
  qed
qed

lemma k2u_step:
  assumes wf: "space_wf s (mm_kernel s)" and b: "unat p + n + 4096 \<le> 2 ^ 32" and len: "n \<le> length src"
    and c: "\<And>j. j < n \<Longrightarrow> copyable s pd (p + of_nat j)" "0 < n" and i: "i < user_npages p (of_nat n)"
  defines "f \<equiv> \<lambda>j. phys_of s pd (p + of_nat j)" and "k \<equiv> copy_pos p n i" and "l \<equiv> copy_pos p n (Suc i)"
  shows "k2u_one pd p src (of_nat n) i (s, k) =
    Inr (s\<lparr>ram := put_bytes f k (take (l - k) (drop k src)) (ram s)\<rparr>, l)"
proof -
  define v where "v = page_base p + of_nat i * 0x1000"
  define bs where "bs = take (l - k) (drop k src)"
  define r where "r = put_bytes f k bs (ram s)"
  note w = copy_page [OF b c i, folded v_def k_def l_def]
  define s1 where "s1 = map_old (mm_kernel s) v (phys_of s pd v OR ((MM_FLG_WR AND (MM_FLG_WR OR MM_FLG_US)) OR X86_MM_FLG_PR)) s"
  note m = copyable_mapped [OF wf w(2,1), folded s1_def]
  have k1: "mm_kernel s1 = mm_kernel s" "ram s1 = ram s" by (simp_all add: s1_def)
  have lb: "length bs = l - k" using w(3,4) len by (simp add: bs_def)
  have "put_bytes (\<lambda>j. phys_of s pd v OR of_nat j) (unat (user_start p v)) bs (ram s) = r"
    unfolding r_def f_def by (rule put_bytes_shift) (simp add: lb w(7) del: of_nat_add)
  then have kw: "kwrites (v + user_start p v) bs s1 = Inr (s1\<lparr>ram := r\<rparr>)"
    using kwrites_window [of s1 v "\<lambda>j. phys_of s pd v OR of_nat j" MM_FLG_WR "unat (user_start p v)" bs] m(2) k1 lb w(6)
    by simp
  have um: "unmap_user_page v (s1\<lparr>ram := r\<rparr>) = Inr (s\<lparr>ram := r\<rparr>)"
    using copyable_mapped(3) [of "s\<lparr>ram := r\<rparr>" pd v] wf w(1,2) by (simp add: s1_def)
  show ?thesis
    using m(1) kw um w(3-5) len unfolding bs_def [symmetric] r_def [symmetric]
    by (simp add: k2u_one_def Let_def v_def [symmetric] bs_def [symmetric])
qed

lemma copy_pos_ends:
  assumes "unat p + n + 4096 \<le> 2 ^ 32"
  shows "copy_pos p n 0 = 0" "copy_pos p n (user_npages p (of_nat n)) = n"
proof -
  obtain q r where p: "unat p = 4096 * q + r" "r < 4096" "unat (page_base p) = 4096 * q"
    by (rule page_base_le [of p])
  then show "copy_pos p n 0 = 0" by (simp add: copy_pos_def)
  show "copy_pos p n (user_npages p (of_nat n)) = n"
    using p user_npages_eq [OF assms] by (simp add: copy_pos_def)
qed

lemma copy_pos_mono: "copy_pos p n i \<le> copy_pos p n (Suc i)"
  by (simp add: copy_pos_def)

lemma take_between: "i \<le> j \<Longrightarrow> take i xs @ take (j - i) (drop i xs) = take j xs"
  by (metis le_add_diff_inverse take_add)

lemma memcpy_to_user:
  assumes wf: "space_wf s (mm_kernel s)" and b: "unat p + n + 4096 \<le> 2 ^ 32" and len: "n \<le> length src"
    and c: "\<And>j. j < n \<Longrightarrow> copyable s pd (p + of_nat j)" "0 < n"
  shows "mm_memcpy_kernel_to_user pd p src (of_nat n) s =
    Inr (s\<lparr>ram := put_bytes (\<lambda>j. phys_of s pd (p + of_nat j)) 0 (take n src) (ram s)\<rparr>)"
proof -
  let ?f = "\<lambda>j. phys_of s pd (p + of_nat j)" and ?N = "user_npages p (of_nat n)"
  have "foldR (k2u_one pd p src (of_nat n)) [0..<i] (s, 0) =
      Inr (s\<lparr>ram := put_bytes ?f 0 (take (copy_pos p n i) src) (ram s)\<rparr>, copy_pos p n i)" if "i \<le> ?N" for i
    using that
  proof (induction i)
    case 0
    show ?case by (simp add: copy_pos_ends [OF b])
  next
    case (Suc i)
    let ?r = "put_bytes ?f 0 (take (copy_pos p n i) src) (ram s)"
    have k: "copy_pos p n i \<le> length src" using len by (simp add: copy_pos_def)
    have "k2u_one pd p src (of_nat n) i (s\<lparr>ram := ?r\<rparr>, copy_pos p n i) =
        Inr (s\<lparr>ram := put_bytes ?f 0 (take (copy_pos p n (Suc i)) src) (ram s)\<rparr>, copy_pos p n (Suc i))"
      using k2u_step [of "s\<lparr>ram := ?r\<rparr>" p n src pd i] wf b len c Suc.prems k
        put_bytes_append [of ?f 0 "take (copy_pos p n i) src", symmetric]
      by (simp add: take_between [OF copy_pos_mono])
    then show ?case using Suc by (simp add: foldR_append)
  qed
  from this [of ?N] show ?thesis
    by (simp add: mm_memcpy_kernel_to_user_def copy_pos_ends [OF b])
qed


lemma u2k_step:
  assumes wf: "space_wf s (mm_kernel s)" and b: "unat p + n + 4096 \<le> 2 ^ 32"
    and c: "\<And>j. j < n \<Longrightarrow> copyable s pd (p + of_nat j)" "0 < n" and i: "i < user_npages p (of_nat n)"
  defines "f \<equiv> \<lambda>j. ram s (phys_of s pd (p + of_nat j))" and "k \<equiv> copy_pos p n i" and "l \<equiv> copy_pos p n (Suc i)"
  shows "u2k_one pd p (of_nat n) i (s, map f [0..<k]) = Inr (s, map f [0..<l])"
proof -
  define v where "v = page_base p + of_nat i * 0x1000"
  define a where "a = unat (user_start p v)"
  note w = copy_page [OF b c i, folded v_def k_def l_def, folded a_def]
  define s1 where "s1 = map_old (mm_kernel s) v (phys_of s pd v OR ((MM_FLG_WR AND (MM_FLG_WR OR MM_FLG_US)) OR X86_MM_FLG_PR)) s"
  note m = copyable_mapped [OF wf w(2,1), folded s1_def]
  have k1: "mm_kernel s1 = mm_kernel s" "ram s1 = ram s" by (simp_all add: s1_def)
  have "kreads (v + of_nat a) (l - k) s1 = Inr (map (\<lambda>j. ram s1 (phys_of s pd v OR of_nat j)) [a..<a + (l - k)])"
    by (rule kreads_window [where fl = MM_FLG_WR]) (use m(2) k1 w(6) in auto)
  also have "map (\<lambda>j. ram s1 (phys_of s pd v OR of_nat j)) [a..<a + (l - k)] = map f [k..<l]"
    by (rule nth_equalityI) (simp_all add: f_def k1 w(7) del: of_nat_add)
  finally have "kreads (v + user_start p v) (l - k) s1 = Inr (map f [k..<l])" by (simp add: a_def)
  moreover have "map f [0..<k] @ map f [k..<l] = map f [0..<l]"
    using w(3) upt_add_eq_append [of 0 k "l - k"] by (simp flip: map_append)
  ultimately show ?thesis
    using m(1,3) w(5) by (simp add: u2k_one_def Let_def v_def [symmetric])
qed

lemma memcpy_from_user:
  assumes wf: "space_wf s (mm_kernel s)" and b: "unat p + n + 4096 \<le> 2 ^ 32"
    and c: "\<And>j. j < n \<Longrightarrow> copyable s pd (p + of_nat j)" "0 < n"
  shows "mm_memcpy_user_to_kernel pd p (of_nat n) s = Inr (s, map (\<lambda>j. ram s (phys_of s pd (p + of_nat j))) [0..<n])"
proof -
  have "foldR (u2k_one pd p (of_nat n)) [0..<i] (s, []) =
      Inr (s, map (\<lambda>j. ram s (phys_of s pd (p + of_nat j))) [0..<copy_pos p n i])" if "i \<le> user_npages p (of_nat n)" for i
    using that
  proof (induction i)
    case 0
    show ?case by (simp add: copy_pos_ends [OF b])
  next
    case (Suc i)
    then show ?case using u2k_step [OF wf b c, of i] by (simp add: foldR_append)
  qed
  from this [of "user_npages p (of_nat n)"] show ?thesis
    by (simp add: mm_memcpy_user_to_kernel_def copy_pos_ends [OF b])
qed


section \<open>A concrete copy\<close>

text \<open>A task with a page at \<open>0x400000\<close> and one at \<open>0x401000\<close>, and a kernel directory with a table for them.\<close>

definition ex_ttab :: "u32 \<Rightarrow> nat \<Rightarrow> u32" where
  "ex_ttab t i =
     (if t = 0xC0100000 then (if i = 1023 then 0xC0101000 else if i = 1 then 0x2004007 else 0)
      else if t = 0xC0101000 then (if i = 1 then 0xC0102001 else 0)
      else if t = 0xC0102000 then 0
      else if t = 0xC1002000 then (if i = 0 then 0x3000007 else if i = 1 then 0x5000007 else 0)
      else ex_tab t i)"

definition ex_tmm :: mm where "ex_tmm = ex_mm\<lparr>tab := ex_ttab\<rparr>"

lemma ex_tmm_wf: "space_wf ex_tmm (mm_kernel ex_tmm)"
proof -
  have k: "mm_kernel ex_tmm = 0xC0100000" by (simp add: ex_tmm_def ex_mm_def)
  have info: "table_info 0xC0100000 ex_tmm = 0xC0101000" by (simp add: table_info_def ex_tmm_def ex_ttab_def)
  have b: "bit (0x2004007 :: u32) 0" "\<not> bit (0x2004007 :: u32) 7" "\<not> bit (0xC0101000 :: u32) 0"
    by code_simp+
  have tof: "table_of ex_tmm 0xC0100000 1 = 0xC0102000"
    by (simp add: table_of_def info) (simp add: ex_tmm_def ex_ttab_def page_base_def)
  have ht: "has_table ex_tmm 0xC0100000 i \<longleftrightarrow> i = 1" for i
    using b by (auto simp: has_table_def ex_tmm_def ex_ttab_def)
  show ?thesis
    unfolding k using b tof by (auto simp: space_wf_def info ht) (auto simp: ex_tmm_def ex_ttab_def)
qed

lemma ex_tmm_idx:
  "pdi_of 0x400FFF = 1" "pti_of 0x400FFF = 0" "pdi_of 0x401000 = 1" "pti_of 0x401000 = 1"
  "bit (0x2004007 :: u32) 0" "\<not> bit (0x2004007 :: u32) 7" "bit (0x2002007 :: u32) 0" "\<not> bit (0x2002007 :: u32) 7"
  "bit (0x3000007 :: u32) 0" "bit (0x5000007 :: u32) 0" "page_base 0xC1002001 = 0xC1002000"
  "page_base 0xC0102001 = 0xC0102000" "page_base 0x3000007 = 0x3000000" "page_base 0x5000007 = 0x5000000"
  "(0x3000000 :: u32) OR 0xFFF = 0x3000FFF"
  by code_simp+

lemma ex_tmm_tabs:
  "table_info 0xC1000000 ex_tmm = 0xC1001000" "table_info 0xC0100000 ex_tmm = 0xC0101000"
  "table_of ex_tmm 0xC1000000 1 = 0xC1002000" "table_of ex_tmm 0xC0100000 1 = 0xC0102000"
  "mm_kernel ex_tmm = 0xC0100000" "tab ex_tmm = ex_ttab"
  using ex_tmm_idx(11,12) by (simp_all add: table_info_def table_of_def ex_tmm_def ex_mm_def ex_ttab_def ex_tab_def)

lemma ex_tmm_copyable:
  "copyable ex_tmm 0xC1000000 0x400FFF" "copyable ex_tmm 0xC1000000 0x401000"
  "phys_of ex_tmm 0xC1000000 0x400FFF = 0x3000FFF" "phys_of ex_tmm 0xC1000000 0x401000 = 0x5000000"
  by (simp_all add: copyable_def phys_of_def has_table_def ex_tmm_idx ex_tmm_tabs del: One_nat_def)
    (simp_all add: ex_ttab_def ex_tab_def ex_tmm_idx)

lemma ex_tmm_two: "j < 2 \<Longrightarrow> copyable ex_tmm 0xC1000000 (0x400FFF + of_nat j)"
  using ex_tmm_copyable by (auto simp: less_2_cases_iff)



end
