(* ===== verification/VfsProps.thy ===== *)
theory VfsProps
  imports VfsLookup Archive UserCopy
begin

text \<open>
  Properties of the file operations of \<open>src/src/sys/vfs.c\<close> together with the file systems and
  devices under it: errors of reading, the pseudo devices, listing a directory of devfs, opening a
  device by its path, reading lines, and completing the read of a terminal.
\<close>

section \<open>Errors of reading\<close>

text \<open>
  A read of a file that is not open for reading returns -1 and changes nothing; a read while
  another is pending stops the kernel.
\<close>

theorem vfs_read_refused:
  assumes "f \<noteq> 0" "files s f = Some x"
  shows "(f_flags x AND VFS_FLG_RD = 0 \<longrightarrow> vfs_read f buf len res s = Inr (s, - 1)) \<and>
    (f_flags x AND VFS_FLG_RD \<noteq> 0 \<and> op_buf x \<noteq> 0 \<longrightarrow> vfs_read f buf len res s = Inl Panic)"
  using assms by (simp add: vfs_read_def get_file_def res_simps)

theorem vfs_read_refused_witness:
  "vfs_read 0x1000 0xC0300000 4 0xC0300010 ex_disk = Inr (ex_disk, - 1)"
  using vfs_read_refused [of "0x1000" ex_disk file_zero] by (simp add: ex_disk_simps file_zero_def)

lemma vwrite32_kernel:
  "kspan a 4 \<Longrightarrow> vwrite32 a v s = Inr (set_mem (store_bytes a (word_bytes v) (kernel_mem s)) s)"
  unfolding vwrite32_def by (rule vwrites_kernel) (simp add: word_bytes_def numeral_eq_Suc)

text \<open>
  Reading \<open>/dev/null\<close> or \<open>/dev/zero\<close> stops the kernel: \<open>dev_pseudo_setup\<close> gives the two devices
  no read function, and \<open>vfs_read\<close> asserts that there is one.
\<close>

theorem pseudo_read_asserts:
  assumes "d = Dev_null \<or> d = Dev_zero" "devs s d = devs (dev_pseudo_setup s0) d"
    and "f \<noteq> 0" "files s f = Some x" "f_dev x = Some d" "file_type x = VFS_TYPE_BLK"
    and "f_flags x AND VFS_FLG_RD \<noteq> 0" "op_buf x = 0" "kspan res 4"
  shows "vfs_read f buf len res s = Inl AssertFail"
proof -
  have "d_read (devs s d) = None" using assms(1,2) by (auto simp: dev_pseudo_setup_def dev_init_def)
  moreover have "devs (set_mem m s) = devs s" for m by (simp add: set_mem_def)
  ultimately show ?thesis
    using assms(3-) by (simp add: vfs_read_def get_file_def res_simps vwrite32_kernel Let_def put_file_def
        read_op_def file_type_def VFS_TYPE_BLK_def VFS_TYPE_REG_def)
qed

theorem pseudo_read_asserts_witness:
  "vfs_read 0x1000 0xC0300000 4 0xC0300010
     ((dev_pseudo_setup ex_disk)\<lparr>files := [0x1000 \<mapsto> file_zero\<lparr>f_flags := 5, f_dev := Some Dev_zero\<rparr>]\<rparr>) = Inl AssertFail"
proof -
  let ?x = "file_zero\<lparr>f_flags := 5, f_dev := Some Dev_zero\<rparr>"
  let ?s = "(dev_pseudo_setup ex_disk)\<lparr>files := [0x1000 \<mapsto> ?x]\<rparr>"
  have "devs ?s Dev_zero = devs (dev_pseudo_setup ex_disk) Dev_zero" "files ?s 0x1000 = Some ?x"
    "f_dev ?x = Some Dev_zero" "file_type ?x = VFS_TYPE_BLK" "f_flags ?x AND VFS_FLG_RD \<noteq> 0" "op_buf ?x = 0" "kspan 0xC0300010 4"
    by (simp_all add: file_zero_def file_type_def VFS_TYPE_BLK_def VFS_FLG_RD_def kspan_def KERNEL_VIRT_BASE_def)
  moreover have "(0x1000 :: u32) \<noteq> 0" by simp
  ultimately show ?thesis using pseudo_read_asserts [OF disjI2 [OF refl]] by blast
qed

section \<open>Listing devfs\<close>

text \<open>A list of nodes: distinct addresses, devices, and names that fit.\<close>

definition nodes_ok :: "(u32 \<times> devfs_node) list \<Rightarrow> bytes list \<Rightarrow> bool" where
  "nodes_ok ns names \<longleftrightarrow> distinct (map fst ns) \<and> 0 \<notin> fst ` set ns \<and>
     list_all2 (\<lambda>(_, n) nm. dn_dev n \<noteq> None \<and> cstr (dn_name n) nm \<and> length nm < 255) ns names"

text \<open>\<open>readdir\<close> until it returns -1, at most \<open>k\<close> times: the names, as strings, and the types.\<close>

fun list_dir :: "nat \<Rightarrow> u32 \<Rightarrow> kst \<Rightarrow> (kst \<times> (bytes \<times> u8) list) res" where
  "list_dir 0 dir s = Inr (s, [])"
| "list_dir (Suc k) dir s =
     bindR (vfs_readdir dir \<lparr>d_ino = 0, d_off = 0, d_reclen = 0, d_type = 0, d_name = replicate 256 0\<rparr> s)
       (\<lambda>(s, ent, r). if r \<noteq> 0 then Inr (s, [])
         else bindR (list_dir k dir s) (\<lambda>(s, es). Inr (s, (takeWhile nz (d_name ent), d_type ent) # es)))"

definition dev_dt :: "kst \<Rightarrow> devfs_node \<Rightarrow> u8" where
  "dev_dt s n = (case dn_dev n of Some d \<Rightarrow> if nz (d_flags (devs s d) AND DEV_FLG_CHR) then VFS_DT_CHR else VFS_DT_BLK | None \<Rightarrow> 0)"

text \<open>A directory of devfs that has the nodes from \<open>ns\<close> on before it.\<close>

definition dir_at :: "kst \<Rightarrow> u32 \<Rightarrow> (u32 \<times> devfs_node) list \<Rightarrow> bool" where
  "dir_at s dir ns \<longleftrightarrow> dir \<noteq> 0 \<and> (\<exists>x. files s dir = Some x \<and> f_fs x = Some Devfs \<and>
     f_flags x AND VFS_FLG_DIR \<noteq> 0 \<and> dev_priv x = first_addr ns)"

lemma node_at_append: "p \<notin> fst ` set ms \<Longrightarrow> node_at (ms @ ns) p = node_at ns p"
  by (induction ms) auto

lemma takeWhile_cstr: "0 \<notin> set s \<Longrightarrow> takeWhile nz (s @ 0 # r) = (s :: bytes)"
  by (induction s) auto

lemma list_dir_devfs:
  assumes "devfs_nodes s = ms @ ns" "distinct (map fst (ms @ ns))" "0 \<notin> fst ` set ns"
    "list_all2 (\<lambda>(_, n) nm. dn_dev n \<noteq> None \<and> cstr (dn_name n) nm \<and> length nm < 255) ns names"
    "dir_at s dir ns" "v_readdir (fss s Devfs) = Some Devfs_readdir" "length ns < k"
  shows "\<exists>s'. list_dir k dir s = Inr (s', map2 (\<lambda>(_, n) nm. (nm, dev_dt s n)) ns names)"
  using assms
proof (induction ns arbitrary: ms names s k)
  case Nil
  then obtain k' where "k = Suc k'" by (cases k) auto
  then show ?case using Nil
    by (auto simp: dir_at_def vfs_readdir_def get_file_def res_simps devfs_readdir_def first_addr_def)
next
  case (Cons n ns)
  obtain a nd where n: "n = (a, nd)" by (cases n)
  obtain k' where k: "k = Suc k'" "length ns < k'" using Cons.prems(7) by (cases k) auto
  obtain nm names' where nm: "names = nm # names'" "cstr (dn_name nd) nm" "length nm < 255"
    "list_all2 (\<lambda>(_, n) nm. dn_dev n \<noteq> None \<and> cstr (dn_name n) nm \<and> length nm < 255) ns names'"
    using Cons.prems(4) n by (auto simp: list_all2_Cons1)
  obtain d where d: "dn_dev nd = Some d" using Cons.prems(4) n by (auto simp: list_all2_Cons1)
  obtain x where x: "dir \<noteq> 0" "files s dir = Some x" "f_fs x = Some Devfs" "f_flags x AND VFS_FLG_DIR \<noteq> 0" "dev_priv x = a"
    using Cons.prems(5) n by (auto simp: dir_at_def first_addr_def)
  have a: "a \<noteq> 0" "a \<notin> fst ` set ms" using Cons.prems(2,3) n by auto
  have na: "node_at (devfs_nodes s) a = Some (nd, first_addr ns)"
    using Cons.prems(1) n node_at_append [OF a(2)] by simp
  define s1 where "s1 = put_file dir (x\<lparr>dev_priv := first_addr ns\<rparr>) s"
  have cp: "strcpy (replicate 256 0) (dn_name nd) = Inr (nm @ 0 # drop (Suc (length nm)) (replicate 256 0))"
    by (rule strcpy_cstr [OF nm(2)]) (use nm(3) in simp)
  have dirs1: "dir_at s1 dir ns" using x by (simp add: dir_at_def s1_def put_file_def)
  have "\<exists>s'. list_dir k' dir s1 = Inr (s', map2 (\<lambda>(_, n) nm. (nm, dev_dt s1 n)) ns names')"
    by (rule Cons.IH [of s1 "ms @ [n]", OF _ _ _ nm(4) dirs1 _ k(2)])
      (use Cons.prems in \<open>auto simp: s1_def put_file_def\<close>)
  moreover have "dev_dt s1 = dev_dt s" by (auto simp: dev_dt_def s1_def put_file_def fun_eq_iff split: option.splits)
  moreover have "dev_dt s nd = (if nz (d_flags (devs s d) AND DEV_FLG_CHR) then VFS_DT_CHR else VFS_DT_BLK)"
    using d by (simp add: dev_dt_def)
  ultimately show ?case
    using x na a(1) cp Cons.prems(6) d takeWhile_cstr [OF cstr_zero_notin [OF nm(2)]]
    by (auto simp: k n nm(1) vfs_readdir_def get_file_def res_simps devfs_readdir_def s1_def [symmetric] Let_def)
qed

text \<open>
  C33: opening the root of devfs and reading entries gives every device node once, in the order in
  which they were added, with its type, and then the end of the directory.
\<close>

theorem devfs_lists_all:
  assumes "nodes_ok (devfs_nodes s) names" "v_readdir (fss s Devfs) = Some Devfs_readdir"
    and "dir \<noteq> 0" "files s dir = Some x" "f_fs x = Some Devfs" "f_flags x AND VFS_FLG_DIR \<noteq> 0"
    and "length (devfs_nodes s) < k"
  shows "\<exists>s1 s2. devfs_opendir dir (0 # r) s = Inr (s1, 0) \<and>
    list_dir k dir s1 = Inr (s2, map2 (\<lambda>(_, n) nm. (nm, dev_dt s n)) (devfs_nodes s) names)"
proof -
  define s1 where "s1 = put_file dir (x\<lparr>dev_priv := first_addr (devfs_nodes s)\<rparr>) s"
  have o: "devfs_opendir dir (0 # r) s = Inr (s1, 0)"
    using assms(3,4) by (simp add: devfs_opendir_def obj_defs res_simps s1_def)
  have n: "devfs_nodes s1 = devfs_nodes s" "fss s1 = fss s" "dev_dt s1 = dev_dt s"
    by (auto simp: s1_def put_file_def dev_dt_def fun_eq_iff split: option.splits)
  have "dir_at s1 dir (devfs_nodes s)" using assms(3-6) by (simp add: dir_at_def s1_def put_file_def)
  then show ?thesis
    using o list_dir_devfs [of s1 "[]" "devfs_nodes s" names dir k] assms(1,2,7) n by (auto simp: nodes_ok_def)
qed

definition ex_devfs :: kst where
  "ex_devfs = (devfs_init ex_kst)\<lparr>devfs_nodes :=
      [(0x2000, \<lparr>dn_dev = Some Dev_null, dn_param = 0, dn_name = lit ''null''\<rparr>),
       (0x3000, \<lparr>dn_dev = Some (Dev_tty 0), dn_param = 0, dn_name = lit ''tty0''\<rparr>)],
     files := [0x1000 \<mapsto> file_zero\<lparr>f_flags := VFS_FLG_DIR, f_fs := Some Devfs\<rparr>]\<rparr>"

theorem devfs_lists_all_witness:
  "\<exists>s1 s2. devfs_opendir 0x1000 (lit '''') ex_devfs = Inr (s1, 0) \<and>
    list_dir 3 0x1000 s1 = Inr (s2, [(bts ''null'', VFS_DT_BLK), (bts ''tty0'', VFS_DT_BLK)])"
proof -
  have n: "devfs_nodes ex_devfs =
      [(0x2000, \<lparr>dn_dev = Some Dev_null, dn_param = 0, dn_name = lit ''null''\<rparr>),
       (0x3000, \<lparr>dn_dev = Some (Dev_tty 0), dn_param = 0, dn_name = lit ''tty0''\<rparr>)]"
    by (simp add: ex_devfs_def)
  have c: "cstr (lit ''null'') (bts ''null'')" "cstr (lit ''tty0'') (bts ''tty0'')" by (simp_all add: lit_def bts_def)
  have ok: "nodes_ok (devfs_nodes ex_devfs) [bts ''null'', bts ''tty0'']"
    unfolding n nodes_ok_def using c by (simp add: bts_def)
  have f: "v_readdir (fss ex_devfs Devfs) = Some Devfs_readdir"
    "files ex_devfs 0x1000 = Some (file_zero\<lparr>f_flags := VFS_FLG_DIR, f_fs := Some Devfs\<rparr>)"
    by (simp_all add: ex_devfs_def devfs_init_def vfs_init_def dev_pseudo_setup_def dev_init_def Let_def)
  have dt: "dev_dt ex_devfs \<lparr>dn_dev = Some Dev_null, dn_param = 0, dn_name = lit ''null''\<rparr> = VFS_DT_BLK"
    "dev_dt ex_devfs \<lparr>dn_dev = Some (Dev_tty 0), dn_param = 0, dn_name = lit ''tty0''\<rparr> = VFS_DT_BLK"
    by (simp_all add: dev_dt_def ex_devfs_def ex_kst_def devfs_init_def vfs_init_def dev_pseudo_setup_def dev_init_def Let_def
        DEV_FLG_CHR_def DEV_FLG_RD_def DEV_FLG_WR_def)
  have l: "lit '''' = 0 # []" by (simp add: lit_def)
  show ?thesis
    using devfs_lists_all [OF ok f(1) _ f(2), of 3 "[]"] n dt
    by (simp add: l file_zero_def VFS_FLG_DIR_def)
qed

section \<open>Opening a device by its path\<close>

lemma devfs_find_first:
  assumes "cstr path nm" "length nm < 2 ^ 31"
    "\<forall>(a, n) \<in> set ns. \<exists>t. cstr (dn_name n) t \<and> t \<noteq> nm \<and> length t < 256" "cstr (dn_name n) nm"
  shows "devfs_find (ns @ (a, n) # ms) path = Inr (Some n)"
  using assms(3)
proof (induction ns)
  case Nil
  then show ?case using strcmp_cstr [OF assms(4,1)] assms(2) by simp
next
  case (Cons x ns)
  obtain b y where x: "x = (b, y)" by (cases x)
  then obtain t where t: "cstr (dn_name y) t" "t \<noteq> nm" "length t < 256" using Cons.prems by auto
  then have "strcmp (dn_name y) path = Inr 1" using strcmp_cstr [OF t(1) assms(1)] assms(2) by simp
  then show ?case using Cons x by simp
qed

text \<open>
  With the mounts of the running kernel, opening \<open>/dev/\<close> and the name of a device gives a new
  file object, cleared except for the device, its type and the access bits of the flags.
\<close>

theorem vfs_open_device:
  assumes "mounts s = boot_mounts" "v_open (fss s Devfs) = Some Devfs_open"
    and "devfs_nodes s = ns @ (a, n) # ms" "cstr (dn_name n) nm" "comp nm" "length nm < 255" "dn_dev n = Some d"
    and "\<forall>(a, n) \<in> set ns. \<exists>t. cstr (dn_name n) t \<and> t \<noteq> nm \<and> length t < 256"
    and "cstr path (path_str [bts ''dev'', nm])"
    and "heap_alloc file_size (kheap s) = Some (h, p)" "p \<noteq> 0"
  shows "vfs_open path flags s = Inr (put_file p (file_zero\<lparr>f_fs := Some Devfs, f_dev := Some d,
      f_flags := (flags AND 3) OR push_bit 2 (if nz (d_flags (devs s d) AND DEV_FLG_CHR) then VFS_TYPE_CHR else VFS_TYPE_BLK)\<rparr>)
        (s\<lparr>kheap := h\<rparr>), p)"
proof -
  obtain us es where t: "boot_mounts = us @ es" "table_of_mounts us [bts ''/dev'', bts ''/''] es"
    using boot_table by blast
  have c: "\<forall>x \<in> set [bts ''dev'', nm]. comp x" using assms(5) by (auto simp: comp_def bts_def)
  have r: "resolve [bts ''/dev'', bts ''/''] (bts ''dev'') [nm] = Some (0, nm)"
    by (simp add: resolve_def bts_def rel_str_def)
  obtain q where q: "vfs_lookup_file path s = Inr (Some (0, Some q))" "cstr q nm"
    using lookup_simple [OF assms(9) c _ t(2), of s] r assms(1,6) t(1) by (auto simp: bts_def)
  have f: "devfs_find (devfs_nodes s) q = Inr (Some n)"
    unfolding assms(3) by (rule devfs_find_first [OF q(2) _ assms(8,4)]) (use assms(6) in simp)
  have m: "rd (mounts s) 0 = Inr (mount_zero\<lparr>m_fs := Some Devfs, m_dst := dst_array (bts ''/dev'')\<rparr>)"
    unfolding assms(1) boot_mounts_def by (simp add: res_simps)
  have fl: "(flags AND 3) AND NOT (push_bit 2 7) = flags AND 3"
    by (simp add: and.assoc)
  show ?thesis
    using assms(2,7,10,11) q(1) m f fl
    by (simp add: vfs_open_def rel_path_def kalloc_def devfs_open_def dev_open_def obj_defs res_simps Let_def file_zero_def)
qed

theorem vfs_open_device_witness:
  "\<exists>s' p. vfs_open (lit ''/dev/tty0'') 1 ex_devfs = Inr (s', p) \<and>
     (\<exists>x. files s' p = Some x \<and> f_dev x = Some (Dev_tty 0) \<and> f_flags x AND 3 = 1)"
proof -
  have e: "kheap ex_devfs = ex_kheap" "mounts ex_devfs = boot_mounts" "v_open (fss ex_devfs Devfs) = Some Devfs_open"
    "d_flags (devs ex_devfs (Dev_tty 0)) = 0"
    by (simp_all add: ex_devfs_def ex_kst_def devfs_init_def vfs_init_def dev_pseudo_setup_def dev_init_def Let_def)
  have n: "devfs_nodes ex_devfs = [(0x2000, \<lparr>dn_dev = Some Dev_null, dn_param = 0, dn_name = lit ''null''\<rparr>)] @
      (0x3000, \<lparr>dn_dev = Some (Dev_tty 0), dn_param = 0, dn_name = lit ''tty0''\<rparr>) # []"
    by (simp add: ex_devfs_def)
  obtain h p xs where h: "heap_alloc file_size ex_kheap = Some (h, p)" "p \<noteq> 0" "heap_wf h xs"
    by (rule ex_kheap_alloc [of file_size]) simp
  have c: "cstr (lit ''null'') (bts ''null'')" "cstr (lit ''tty0'') (bts ''tty0'')" "bts ''null'' \<noteq> bts ''tty0''"
    "length (bts ''null'') < 256" "comp (bts ''tty0'')" "length (bts ''tty0'') < 255"
    "cstr (lit ''/dev/tty0'') (path_str [bts ''dev'', bts ''tty0''])"
    by (auto simp: lit_def bts_def comp_def)
  have nd: "\<exists>t. cstr (lit ''null'') t \<and> t \<noteq> bts ''tty0'' \<and> length t < 256" using c(1,3,4) by blast
  show ?thesis
    using vfs_open_device [OF e(2,3) n _ c(5,6) _ _ c(7), of "Dev_tty 0" h p 1] e(1,4) h(1,2) c(2) nd
    by (auto simp: put_file_def file_zero_def VFS_TYPE_BLK_def simp del: cstr_Cons)
qed

section \<open>Reading from the ram disk through the VFS\<close>

text \<open>An unlocked file of the ram disk that is open for reading and has the bytes \<open>d\<close> left.\<close>

definition ram_file :: "kst \<Rightarrow> u32 \<Rightarrow> bytes \<Rightarrow> bool" where
  "ram_file s f d \<longleftrightarrow> file_left s f d \<and> v_read (fss s Initramfs) = Some Initramfs_read \<and>
     (\<exists>x. files s f = Some x \<and> f_flags x AND VFS_FLG_RD \<noteq> 0 \<and> file_type x = VFS_TYPE_REG \<and>
        f_fs x = Some Initramfs \<and> op_buf x = 0)"

lemma file_type_upd [simp]:
  "file_type (x\<lparr>op_buf := b, op_res := r, op_len := l, op_type := t\<rparr>) = file_type x"
  "file_type (x\<lparr>pos1 := p1, pos0 := p0\<rparr>) = file_type x" "file_type (x\<lparr>op_buf := b\<rparr>) = file_type x"
  by (simp_all add: file_type_def)

lemma put_file_simps [simp]:
  "kernel_mem (put_file f x s) = kernel_mem s" "files (put_file f x s) f = Some x" "fss (put_file f x s) = fss s"
  "put_file f y (put_file f x s) = put_file f y s" "fss (set_mem m s) = fss s"
  by (simp_all add: put_file_def kernel_mem_def set_mem_def)

lemma vfs_read_ram:
  assumes r: "ram_file s f d" and b: "kspan buf n" "buf_apart s f buf n" "n < 2 ^ 31"
    and res: "kspan res 4" "buf_apart s f res 4" "\<forall>y. in_span buf n y \<longrightarrow> \<not> in_span res 4 y"
  shows "\<exists>s'. vfs_read f buf (of_nat n) res s = Inr (s', of_nat (min n (length d))) \<and>
    holds (kernel_mem s') buf (take n d) \<and> ram_file s' f (drop n d) \<and>
    (\<forall>b k. buf_apart s f b k \<longrightarrow> buf_apart s' f b k) \<and>
    (\<forall>y. \<not> in_span buf n y \<and> \<not> in_span res 4 y \<longrightarrow> kernel_mem s' y = kernel_mem s y)"
proof -
  obtain x where x: "files s f = Some x" "f_flags x AND VFS_FLG_RD \<noteq> 0" "file_type x = VFS_TYPE_REG"
    "f_fs x = Some Initramfs" "op_buf x = 0" and fl: "file_left s f d" and v: "v_read (fss s Initramfs) = Some Initramfs_read"
    using r by (auto simp: ram_file_def)
  obtain f0: "f \<noteq> 0" and px: "pos1 x = of_nat (length d)" "d \<noteq> [] \<Longrightarrow> kspan (pos0 x) (length d)"
      "holds (kernel_mem s) (pos0 x) d" and ld: "length d < 2 ^ 31"
    using fl x(1) by (auto simp: file_left_def)
  define m0 where "m0 = store_bytes res (word_bytes 0) (kernel_mem s)"
  define x1 where "x1 = x\<lparr>op_buf := buf, op_res := res, op_len := of_nat n, op_type := f_flags x AND 3\<rparr>"
  define s1 where "s1 = put_file f x1 (set_mem m0 s)"
  have w: "vwrite32 res 0 s = Inr (set_mem m0 s)" using vwrite32_kernel [OF res(1)] by (simp add: m0_def)
  have lw: "length (word_bytes 0) = 4" by (simp add: word_bytes_def)
  have m0: "m0 y = kernel_mem s y" if "\<not> in_span res 4 y" for y
    using store_bytes_other [of res "word_bytes 0" y] res(1) that by (simp add: m0_def kspan_def lw)
  have u: "unat (of_nat (length d) :: u32) = length d" using ld by (simp add: unat_of_nat_small)
  have ap: "\<not> in_span res 4 y" if "in_span (pos0 x) (length d) y" for y
    using res(2) x(1) px(1) u that by (simp add: buf_apart_def)
  have h1: "holds m0 (pos0 x) d"
  proof (cases "d = []")
    case False
    show ?thesis by (rule holds_cong [OF px(3)]) (use m0 ap px(2) [OF False] in \<open>auto simp: kspan_def\<close>)
  qed (simp add: holds_def)
  have fl1: "file_left s1 f d" using fl x(1) px h1 by (auto simp: file_left_def s1_def x1_def)
  have x1: "pos0 x1 = pos0 x" "pos1 x1 = pos1 x" by (simp_all add: x1_def)
  have ba: "buf_apart s1 f b k = buf_apart s f b k" for b k using x(1) by (simp add: buf_apart_def s1_def x1)
  have n: "n < 2 ^ 32" using b(3) by simp
  have ba1: "buf_apart s1 f buf n" using ba b(2) by simp
  obtain x' m p0 where st: "files s1 f = Some x'" "initramfs_read f buf (of_nat n) s1 =
      Inr (put_file f (x'\<lparr>pos1 := of_nat (length (drop n d)), pos0 := p0\<rparr>) (set_mem m s1), of_nat (min n (length d)))"
    "holds m buf (take n d)" "\<forall>y. \<not> in_span buf n y \<longrightarrow> m y = kernel_mem s1 y"
    "drop n d \<noteq> [] \<longrightarrow> kspan p0 (length (drop n d))" "holds m p0 (drop n d)"
    "\<forall>y. in_span p0 (length (drop n d)) y \<longrightarrow> in_span (pos0 x') (length d) y"
    using initramfs_read_step [OF fl1 b(1) ba1 n] by (elim exE conjE) (rule that)
  have x': "x' = x1" using st(1) by (simp add: s1_def)
  define x2 where "x2 = x1\<lparr>pos1 := of_nat (length (drop n d)), pos0 := p0, op_buf := 0\<rparr>"
  define s2 where "s2 = put_file f x2 (set_mem m s1)"
  have nas: "(of_nat (min n (length d)) :: u32) \<noteq> VFS_READ_ASYNC"
  proof -
    have "unat (of_nat (min n (length d)) :: u32) = min n (length d)" using n by (simp add: unat_of_nat_small)
    then show ?thesis using b(3) by (auto simp: VFS_READ_ASYNC_def)
  qed
  have ft: "file_type x1 = VFS_TYPE_REG" "f_fs x1 = Some Initramfs" using x by (simp_all add: x1_def)
  have "read_op f x1 buf (of_nat n) s1 = Inr (put_file f (x1\<lparr>pos1 := of_nat (length (drop n d)), pos0 := p0\<rparr>) (set_mem m s1),
      of_nat (min n (length d)))"
    using ft v st(2) x' by (simp add: read_op_def s1_def)
  then have rd: "vfs_read f buf (of_nat n) res s = Inr (s2, of_nat (min n (length d)))"
    using f0 x w nas
    by (simp add: vfs_read_def get_file_def upd_file_def res_simps Let_def x1_def [symmetric] s1_def [symmetric])
      (simp add: s2_def x2_def)
  have km: "kernel_mem s2 = m" "files s2 f = Some x2" by (simp_all add: s2_def)
  have px2: "pos1 x2 = of_nat (length (drop n d))" "pos0 x2 = p0" by (simp_all add: x2_def)
  note fa = file_left_after [OF fl1 st(1,5,6,7) km(2) px2 km(1)]
  have left: "file_left s2 f (drop n d)" by (rule fa(1))
  moreover have "buf_apart s f b k \<Longrightarrow> buf_apart s2 f b k" for b k using fa(2) ba by blast
  moreover have "ram_file s2 f (drop n d)"
    using left km(2) x v by (simp add: ram_file_def s2_def s1_def) (simp add: x2_def x1_def file_type_def)
  moreover have "m y = kernel_mem s y" if "\<not> in_span buf n y" "\<not> in_span res 4 y" for y
    using st(4) m0 that by (simp add: s1_def)
  ultimately show ?thesis using rd st(3) km(1) by auto
qed

section \<open>Reading lines\<close>

lemma vwrite_kernel: "KERNEL_VIRT_BASE \<le> a \<Longrightarrow> vwrite a b s = Inr (set_mem ((kernel_mem s)(a := b)) s)"
  by (simp add: vwrite_def set_mem_def kernel_mem_def)

lemma buf_apart_set_mem [simp]: "buf_apart (set_mem m s) f b k = buf_apart s f b k"
  by (simp add: buf_apart_def)

lemma ram_file_write:
  assumes "ram_file s f d" "buf_apart s f b k" "in_span b k a"
  shows "ram_file (set_mem ((kernel_mem s)(a := v)) s) f d"
proof -
  obtain x where x: "files s f = Some x" "pos1 x = of_nat (length d)" "d \<noteq> [] \<Longrightarrow> kspan (pos0 x) (length d)"
    "holds (kernel_mem s) (pos0 x) d" "length d < 2 ^ 31"
    using assms(1) by (auto simp: ram_file_def file_left_def)
  have u: "unat (pos1 x) = length d" unfolding x(2) by (rule unat_of_nat_small) (use x(5) in simp)
  have "holds ((kernel_mem s)(a := v)) (pos0 x) d"
  proof (cases "d = []")
    case False
    show ?thesis
      by (rule holds_cong [OF x(4)]) (use assms(2,3) x(1) x(3) [OF False] u in \<open>auto simp: buf_apart_def kspan_def\<close>)
  qed (simp add: holds_def)
  then show ?thesis using assms(1) x(1) by (auto simp: ram_file_def file_left_def)
qed

text \<open>The line at the start of \<open>d\<close>, of at most \<open>k\<close> characters, and what is left after it.\<close>

definition line_of :: "nat \<Rightarrow> bytes \<Rightarrow> bytes" where
  "line_of k d = takeWhile (\<lambda>c. c \<noteq> 10) (take k d)"

definition after_line :: "nat \<Rightarrow> bytes \<Rightarrow> bytes" where
  "after_line k d = (let n = length (line_of k d) in if n < k then drop (Suc n) d else drop n d)"

lemma line_of_simps [simp]:
  "line_of 0 d = []" "line_of k [] = []" "line_of (Suc k) (c # d) = (if c = 10 then [] else c # line_of k d)"
  by (simp_all add: line_of_def)

lemma after_line_simps [simp]:
  "after_line 0 d = d" "after_line k [] = []" "after_line (Suc k) (c # d) = (if c = 10 then d else after_line k d)"
  by (simp_all add: after_line_def)

text \<open>The buffer and the two locals do not overlap each other or the file.\<close>

definition gets_frame :: "kst \<Rightarrow> u32 \<Rightarrow> u32 \<Rightarrow> nat \<Rightarrow> u32 \<Rightarrow> u32 \<Rightarrow> bool" where
  "gets_frame s f buf n cp rp \<longleftrightarrow> kspan buf n \<and> kspan cp 1 \<and> kspan rp 4 \<and>
     buf_apart s f buf n \<and> buf_apart s f cp 1 \<and> buf_apart s f rp 4 \<and>
     (\<forall>y. in_span cp 1 y \<longrightarrow> \<not> in_span rp 4 y) \<and>
     (\<forall>y. in_span buf n y \<longrightarrow> \<not> in_span rp 4 y \<and> \<not> in_span cp 1 y)"

lemma gets_loop_ram:
  assumes "ram_file s f d" "gets_frame s f buf n cp rp" "length pre + k < n" "holds (kernel_mem s) buf pre"
  shows "\<exists>s'. gets_loop k f buf (of_nat (length pre)) cp rp s =
      Inr (s', if pre = [] \<and> d = [] \<and> 0 < k then None else Some (of_nat (length (pre @ line_of k d)))) \<and>
    holds (kernel_mem s') buf (pre @ line_of k d) \<and> ram_file s' f (after_line k d) \<and> gets_frame s' f buf n cp rp"
  using assms
proof (induction k arbitrary: s d pre)
  case 0
  then show ?case by auto
next
  case (Suc k)
  let ?i = "length pre"
  have kb: "kspan buf n" using Suc.prems(2) by (simp add: gets_frame_def)
  have i0: "(of_nat ?i :: u32) = 0 \<longleftrightarrow> pre = []"
  proof -
    have "unat (of_nat ?i :: u32) = ?i" using kb Suc.prems(3) by (intro unat_of_nat_small) (auto simp: kspan_def)
    then show ?thesis by (simp only: word_unat_eq_iff unat_0 length_0_conv)
  qed
  have fr: "kspan cp 1" "buf_apart s f cp 1" "kspan rp 4" "buf_apart s f rp 4" "\<forall>y. in_span cp 1 y \<longrightarrow> \<not> in_span rp 4 y"
    using Suc.prems(2) by (auto simp: gets_frame_def)
  obtain s1 where s1: "vfs_read f cp 1 rp s = Inr (s1, of_nat (min 1 (length d)))"
    "holds (kernel_mem s1) cp (take 1 d)" "ram_file s1 f (drop 1 d)"
    "\<forall>b k. buf_apart s f b k \<longrightarrow> buf_apart s1 f b k"
    "\<forall>y. \<not> in_span cp 1 y \<and> \<not> in_span rp 4 y \<longrightarrow> kernel_mem s1 y = kernel_mem s y"
    using vfs_read_ram [OF Suc.prems(1) fr(1,2) _ fr(3-5)] by auto
  have fr1: "gets_frame s1 f buf n cp rp" using Suc.prems(2) s1(4) by (auto simp: gets_frame_def)
  have "kernel_mem s1 y = kernel_mem s y" if "in_span buf ?i y" for y
  proof -
    have "in_span buf n y" using that Suc.prems(3) by (simp add: in_span_def)
    then show ?thesis using Suc.prems(2) s1(5) by (simp add: gets_frame_def)
  qed
  then have hp: "holds (kernel_mem s1) buf pre"
    by (rule holds_cong [OF Suc.prems(4)]) (use Suc.prems(3) kb in \<open>simp_all add: kspan_def\<close>)
  show ?case
  proof (cases d)
    case Nil
    then show ?thesis using s1(1,3) i0 hp fr1 by auto
  next
    case (Cons c d')
    have "vread cp s1 = Inr c"
      using s1(2) fr(1) Cons by (simp add: vread_def holds_def kspan_def kernel_mem_def)
    then have r: "gets_loop (Suc k) f buf (of_nat ?i) cp rp s =
      (if c = 10 then Inr (s1, Some (of_nat ?i))
       else bindR (vwrite (buf + of_nat ?i) c s1) (gets_loop k f buf (of_nat ?i + 1) cp rp))"
      using s1(1) Cons by simp
    show ?thesis
    proof (cases "c = 10")
      case True
      then show ?thesis using r hp fr1 s1(3) Cons by auto
    next
      case False
      have a: "in_span buf n (buf + of_nat ?i)" "unat (buf + of_nat ?i) = unat buf + ?i"
        using unat_plus_small [of buf n ?i] kb Suc.prems(3) by (auto simp: in_span_def kspan_def)
      then have "KERNEL_VIRT_BASE \<le> buf + of_nat ?i" using kb by (auto simp: kspan_def word_le_nat_alt)
      then have w: "vwrite (buf + of_nat ?i) c s1 = Inr (set_mem ((kernel_mem s1)(buf + of_nat ?i := c)) s1)"
        by (rule vwrite_kernel)
      define s2 where "s2 = set_mem ((kernel_mem s1)(buf + of_nat ?i := c)) s1"
      have "ram_file s2 f d'"
        unfolding s2_def by (rule ram_file_write [OF _ _ a(1)]) (use s1(3) Cons fr1 in \<open>auto simp: gets_frame_def\<close>)
      moreover have "gets_frame s2 f buf n cp rp" using fr1 by (simp add: gets_frame_def s2_def)
      moreover have "length (pre @ [c]) + k < n" using Suc.prems(3) by simp
      moreover have "holds (kernel_mem s2) buf (pre @ [c])"
      proof -
        have "buf + of_nat j \<noteq> buf + of_nat ?i" if "j < ?i" for j
          using unat_plus_small [of buf n j] that a(2) kb Suc.prems(3) by (auto simp: kspan_def)
        then show ?thesis using hp by (auto simp: holds_def s2_def nth_append less_Suc_eq)
      qed
      ultimately obtain s' where s': "gets_loop k f buf (of_nat (length (pre @ [c]))) cp rp s2 =
          Inr (s', Some (of_nat (length ((pre @ [c]) @ line_of k d'))))"
        "holds (kernel_mem s') buf ((pre @ [c]) @ line_of k d')" "ram_file s' f (after_line k d')" "gets_frame s' f buf n cp rp"
        using Suc.IH [of s2 d' "pre @ [c]"] by auto
      have "gets_loop (Suc k) f buf (of_nat ?i) cp rp s = gets_loop k f buf (of_nat (length (pre @ [c]))) cp rp s2"
        using r w False by (simp add: s2_def add.commute del: gets_loop.simps)
      then show ?thesis using s' False Cons by (intro exI [of _ s']) (simp del: gets_loop.simps)
    qed
  qed
qed


definition ex_lines :: kst where
  "ex_lines = set_mem (store_bytes 0xC0200000 (bts ''ab'' @ 10 # bts ''c'') (\<lambda>_. 0))
     (ex_kst\<lparr>fss := (\<lambda>_. \<lparr>v_flags = 0, v_open = None, v_read = Some Initramfs_read, v_fact = None, v_opendir = None, v_readdir = None\<rparr>),
        files := [0x1000 \<mapsto> file_zero\<lparr>f_flags := 1, f_fs := Some Initramfs, pos0 := 0xC0200000, pos1 := 4\<rparr>]\<rparr>)"


section \<open>Completing the read of a terminal\<close>

lemma word_bytes_back:
  "(ucast (word_bytes v ! 0) :: u32) OR push_bit 8 (ucast (word_bytes v ! 1)) OR push_bit 16 (ucast (word_bytes v ! 2)) OR
     push_bit 24 (ucast (word_bytes v ! 3)) = v"
  using word_of_bytes [of v] by (simp add: word_bytes_def numeral_2_eq_2 numeral_3_eq_3 del: push_bit_of_0)

lemma vread32_holds: "kspan a 4 \<Longrightarrow> holds (kernel_mem s) a (word_bytes v) \<Longrightarrow> vread32 a s = Inr v"
  using word_bytes_back [of v] holds_mbytes [of "kernel_mem s" a "word_bytes v" 4]
  by (simp add: vread32_def vreads_kernel)

lemma vwrite32_holds:
  "kspan a 4 \<Longrightarrow> \<exists>m. vwrite32 a v s = Inr (set_mem m s) \<and> holds m a (word_bytes v)"
  using vwrite32_kernel [of a v s] store_bytes_holds [of a "word_bytes v"] by (auto simp: kspan_def)

text \<open>One byte after the other into the space of a task.\<close>

fun copy_chars :: "u32 \<Rightarrow> u32 \<Rightarrow> bytes \<Rightarrow> mm \<Rightarrow> mm res" where
  "copy_chars pd a [] m = Inr m"
| "copy_chars pd a (c # cs) m = bindR (mm_memcpy_kernel_to_user pd a [c] 1 m) (copy_chars pd (a + 1) cs)"

text \<open>
  A task \<open>t\<close> waits at the terminal for \<open>n\<close> characters into its buffer at \<open>buf\<close>; \<open>k\<close> of them have
  come, as the result cell at \<open>res\<close> says.
\<close>

definition tty_wait :: "kst \<Rightarrow> u32 \<Rightarrow> u32 \<Rightarrow> u32 \<Rightarrow> u32 \<Rightarrow> nat \<Rightarrow> nat \<Rightarrow> task \<Rightarrow> bool" where
  "tty_wait s f buf res t n k tk \<longleftrightarrow> f \<noteq> 0 \<and> t \<noteq> 0 \<and> buf \<noteq> 0 \<and> kspan res 4 \<and> n < 2 ^ 31 \<and> k < n \<and>
     tty_pending s 0 = f \<and> tasks s t = Some tk \<and> holds (kernel_mem s) res (word_bytes (of_nat k)) \<and>
     (\<exists>x. files s f = Some x \<and> op_buf x = buf \<and> op_res x = res \<and> op_len x = of_nat n \<and> f_task x = t)"

text \<open>Afterwards: the file and the terminal are free again, the task may run, the cell holds \<open>n\<close>.\<close>

definition tty_done :: "kst \<Rightarrow> u32 \<Rightarrow> u32 \<Rightarrow> u32 \<Rightarrow> nat \<Rightarrow> task \<Rightarrow> bool" where
  "tty_done s f res t n tk \<longleftrightarrow> tty_pending s 0 = 0 \<and> holds (kernel_mem s) res (word_bytes (of_nat n)) \<and>
     (\<exists>x. files s f = Some x \<and> op_buf x = 0) \<and>
     tasks s t = Some (tk\<lparr>t_flag := t_flag tk AND NOT TASK_FLG_BUSY\<rparr>)"

lemma tty_type_step:
  assumes w: "tty_wait s f buf res t n k tk"
    and c: "mm_memcpy_kernel_to_user (t_pd tk) (buf + of_nat k) [c] 1 (kmm s) = Inr m"
  shows "\<exists>s'. tty_type 0 c s = Inr s' \<and> kmm s' = m \<and>
    (if Suc k = n then tty_done s' f res t n tk else tty_wait s' f buf res t n (Suc k) tk)"
proof -
  obtain x where x: "files s f = Some x" "op_buf x = buf" "op_res x = res" "op_len x = of_nat n" "f_task x = t"
    and a: "f \<noteq> 0" "t \<noteq> 0" "buf \<noteq> 0" "kspan res 4" "n < 2 ^ 31" "k < n" "tty_pending s 0 = f" "tasks s t = Some tk"
      "holds (kernel_mem s) res (word_bytes (of_nat k))"
    using w by (auto simp: tty_wait_def)
  have res0: "res \<noteq> 0" using a(4) by (auto simp: kspan_def KERNEL_VIRT_BASE_def)
  have u: "unat (of_nat n :: u32) = n" "unat (of_nat k :: u32) = k" "unat (of_nat (Suc k) :: u32) = Suc k"
    using a(5,6) by (intro unat_of_nat_small; simp)+
  have sz: "(if 1 > op_len x then op_len x else 1) = 1" using a(6) u(1) x(4) by (auto simp: word_less_nat_alt)
  have r1: "vread32 res s = Inr (of_nat k)" by (rule vread32_holds [OF a(4,9)])
  have nm1: "(of_nat k :: u32) \<noteq> - 1"
  proof
    assume "(of_nat k :: u32) = - 1"
    then have "of_nat (Suc k) = (0 :: u32)" by simp
    then show False using u(3) by simp
  qed
  define s1 where "s1 = s\<lparr>kmm := m\<rparr>"
  have sc: "send_copy x (buf + of_nat k) [c] 1 s = Inr s1"
    using x(5) a(2,8) c by (simp add: send_copy_def get_task_def res_simps s1_def)
  have k1: "kernel_mem s1 = kernel_mem s" by (simp add: s1_def kernel_mem_def)
  have r2: "vread32 res s1 = Inr (of_nat k)" by (rule vread32_holds [OF a(4)]) (use a(9) k1 in simp)
  obtain m2 where m2: "vwrite32 res (of_nat k + 1) s1 = Inr (set_mem m2 s1)" "holds m2 res (word_bytes (of_nat k + 1))"
    using vwrite32_holds [OF a(4)] by blast
  define s2 where "s2 = set_mem m2 s1"
  have r3: "vread32 res s2 = Inr (of_nat k + 1)" by (rule vread32_holds [OF a(4)]) (use m2(2) s2_def in simp)
  have eq: "(of_nat k + 1 = (of_nat n :: u32)) \<longleftrightarrow> Suc k = n"
  proof -
    have "(of_nat k + 1 :: u32) = of_nat (Suc k)" by simp
    then show ?thesis using u(1,3) by (metis)
  qed
  have s2: "files s2 f = Some x" "tasks s2 t = Some tk" "tty_pending s2 = tty_pending s" "kmm s2 = m" "kernel_mem s2 = m2"
    using x(1) a(8) by (simp_all add: s2_def s1_def)
  have oc: "of_nat k + 1 = (of_nat (Suc k) :: u32)" by simp
  show ?thesis
  proof (cases "Suc k = n")
    case False
    have "vfs_send_read_res f [c] 1 s = Inr (s2, 0)"
      using a(1,3) x res0 r1 nm1 sz sc r2 m2(1) r3 eq False
      by (simp add: vfs_send_read_res_def get_file_def res_simps s2_def [symmetric] Let_def)
    then have "tty_type 0 c s = Inr s2"
      using a(1,3,7) x res0 by (simp add: tty_type_def get_file_def res_simps)
    then show ?thesis
      using False s2 a x m2(2) unfolding tty_wait_def oc by (intro exI [of _ s2]) auto
  next
    case True
    define s3 where "s3 = (put_file f (x\<lparr>op_buf := 0\<rparr>) s2)\<lparr>tasks := (tasks s2)(t := Some (tk\<lparr>t_flag := t_flag tk AND NOT TASK_FLG_BUSY\<rparr>))\<rparr>"
    have "vfs_send_read_res f [c] 1 s = Inr (s3, 1)"
      using a(1,2,3) x res0 r1 nm1 sz sc r2 m2(1) r3 eq True s2(1,2)
      by (simp add: vfs_send_read_res_def get_file_def res_simps s2_def [symmetric] Let_def upd_file_def
          task_nobusy_def upd_task_def get_task_def s3_def put_file_def)
    then have "tty_type 0 c s = Inr (s3\<lparr>tty_pending := (tty_pending s3)(0 := 0)\<rparr>)"
      using a(1,3,7) x res0 by (simp add: tty_type_def get_file_def res_simps)
    then show ?thesis
      using True s2 m2(2) oc
      by (simp add: tty_done_def s3_def put_file_def kernel_mem_def)
  qed
qed

text \<open>
  A task that waits for \<open>n\<close> characters at the terminal is woken by exactly the \<open>n\<close>th one: the
  characters are copied one by one to consecutive addresses of its buffer, its result cell holds
  \<open>n\<close>, and the file and the terminal are free for the next operation; until then it waits.
\<close>

theorem tty_read_completes:
  assumes "tty_wait s f buf res t n 0 tk" "copy_chars (t_pd tk) buf cs (kmm s) = Inr m" "cs \<noteq> []" "length cs \<le> n"
  shows "\<exists>s'. foldR (tty_type 0) cs s = Inr s' \<and> kmm s' = m \<and>
    (if length cs = n then tty_done s' f res t n tk else tty_wait s' f buf res t n (length cs) tk)"
proof -
  have "\<exists>s'. foldR (tty_type 0) cs s = Inr s' \<and> kmm s' = m \<and>
      (if k + length cs = n then tty_done s' f res t n tk else tty_wait s' f buf res t n (k + length cs) tk)"
    if "tty_wait s f buf res t n k tk" "copy_chars (t_pd tk) (buf + of_nat k) cs (kmm s) = Inr m" "cs \<noteq> []"
      "k + length cs \<le> n" for k s
    using that
  proof (induction cs arbitrary: k s)
    case (Cons c cs)
    obtain m1 where m1: "mm_memcpy_kernel_to_user (t_pd tk) (buf + of_nat k) [c] 1 (kmm s) = Inr m1"
      "copy_chars (t_pd tk) (buf + of_nat k + 1) cs m1 = Inr m"
      using Cons.prems(2) by (auto simp: bindR_eq_Inr)
    obtain s1 where s1: "tty_type 0 c s = Inr s1" "kmm s1 = m1"
      "if Suc k = n then tty_done s1 f res t n tk else tty_wait s1 f buf res t n (Suc k) tk"
      using tty_type_step [OF Cons.prems(1) m1(1)] by blast
    show ?case
    proof (cases "cs = []")
      case True
      then show ?thesis using s1 m1(2) by auto
    next
      case False
      then have "Suc k \<noteq> n" using Cons.prems(4) by (cases cs) auto
      then show ?thesis using Cons.IH [of s1 "Suc k"] s1 m1(2) False Cons.prems(4) by (auto simp: algebra_simps)
    qed
  qed simp
  note this [of s 0, unfolded add_0]
  then show ?thesis using assms by simp
qed

definition ex_task :: task where
  "ex_task = \<lparr>esp0 = 0, ebp0 = 0, esp3_bottom = 0, esp3_size = 0, sigeip = 0, sigesp = 0, t_flag = TASK_FLG_BUSY,
     wait_type = 0, t_pd = 0xC1000000, t_ctl = 0, t_next = 0\<rparr>"

text \<open>A task that waits for two characters at the last byte of a page.\<close>

definition ex_wait :: kst where
  "ex_wait = ex_kst\<lparr>kmm := ex_tmm, tasks := [0xC0200000 \<mapsto> ex_task], tty_pending := (\<lambda>_. 0xC0300000),
     files := [0xC0300000 \<mapsto> file_zero\<lparr>op_buf := 0x400FFF, op_res := 0xC0400000, op_len := 2, f_task := 0xC0200000\<rparr>],
     kheap := ex_kheap\<lparr>hmem := store_bytes 0xC0400000 [0, 0, 0, 0] (hmem ex_kheap)\<rparr>\<rparr>"

lemma ex_wait_chars: "\<exists>m. copy_chars 0xC1000000 0x400FFF [65, 66] ex_tmm = Inr m"
proof -
  have "copyable ex_tmm 0xC1000000 (0x400FFF + of_nat j)" if "j < 1" for j using ex_tmm_copyable that by simp
  from memcpy_to_user [OF ex_tmm_wf _ _ this, of 1 "[65]"]
  obtain r where r: "mm_memcpy_kernel_to_user 0xC1000000 0x400FFF [65] 1 ex_tmm = Inr (ex_tmm\<lparr>ram := r\<rparr>)"
    by simp
  have "copyable (ex_tmm\<lparr>ram := r\<rparr>) 0xC1000000 (0x401000 + of_nat j)" if "j < 1" for j using ex_tmm_copyable that by simp
  from memcpy_to_user [OF _ _ _ this, of 1 "[66]"] ex_tmm_wf
  have "\<exists>m. mm_memcpy_kernel_to_user 0xC1000000 0x401000 [66] 1 (ex_tmm\<lparr>ram := r\<rparr>) = Inr m"
    by simp
  then show ?thesis using r by (auto simp: bindR_def)
qed

theorem tty_read_completes_witness:
  "\<exists>s'. foldR (tty_type 0) [65, 66] ex_wait = Inr s' \<and> tty_done s' 0xC0300000 0xC0400000 0xC0200000 2 ex_task"
proof -
  obtain m where m: "copy_chars 0xC1000000 0x400FFF [65, 66] ex_tmm = Inr m" using ex_wait_chars by blast
  have h: "holds (kernel_mem ex_wait) 0xC0400000 (word_bytes (of_nat 0))"
    using store_bytes_holds [where a = "0xC0400000" and bs = "[0, 0, 0, 0]" and m = "hmem ex_kheap"]
    by (simp add: ex_wait_def kernel_mem_def word_bytes_def)
  have "tty_wait ex_wait 0xC0300000 0x400FFF 0xC0400000 0xC0200000 2 0 ex_task"
    using h by (simp add: tty_wait_def) (simp add: ex_wait_def kspan_def KERNEL_VIRT_BASE_def)
  from tty_read_completes [OF this, of "[65, 66]" m] m show ?thesis
    by (auto simp: ex_task_def ex_wait_def)
qed

end
