(* ===== verification/Tasks.thy ===== *)
theory Tasks
  imports Vfs
begin

text \<open>
  Tasks (\<open>src/src/arch/x86/task/task.c\<close>, \<open>fork.c\<close>, \<open>src/src/sys/task.c\<close>) and the loader of programs
  (\<open>src/src/sys/elf.c\<close>). The saved context of a task is an object at its \<open>esp0\<close>. The function of the
  idle task and its static objects stand at fixed addresses of the kernel's image.
\<close>

section \<open>Creating and destroying\<close>

definition ctl_zero :: task_ctl where
  "ctl_zero = \<lparr>fds = replicate 4 0, sleep_deadline = 0, c_pid = 0, pending_signal = 0, sigctx = 0\<rparr>"

definition ctx_zero :: task_context where
  "ctx_zero = \<lparr>x_ds = 0, x_es = 0, x_fs = 0, x_gs = 0, x_cr3 = 0, x_edi = 0, x_esi = 0, x_ebp = 0, x_oesp = 0,
     x_ebx = 0, x_edx = 0, x_ecx = 0, x_eax = 0, x_eip = 0, x_cs = 0, x_eflags = 0, x_esp = 0, x_ss = 0\<rparr>"

text \<open>The \<open>sizeof\<close> of the structures, and of the kernel stack of a task.\<close>

abbreviation ctl_size :: u32 where "ctl_size \<equiv> 36"
abbreviation task_size :: u32 where "task_size \<equiv> 44"
abbreviation stack_size :: u32 where "stack_size \<equiv> 76"

definition task_ctl_create :: "kst \<Rightarrow> (kst \<times> u32) res" where
  "task_ctl_create s =
     bindR (kalloc ctl_size s) (\<lambda>(s, p).
       if p = 0 then Inl NullDeref else Inr (s\<lparr>ctls := (ctls s)(p := Some ctl_zero)\<rparr>, p))"

definition task_ctl_free :: "u32 \<Rightarrow> kst \<Rightarrow> kst res" where
  "task_ctl_free p s = bindR (kfree p s) (\<lambda>s. Inr (s\<lparr>ctls := (ctls s)(p := None)\<rparr>))"

text \<open>The \<open>memset\<close> of \<open>task_create\<close> clears the size of a pointer: \<open>esp0\<close> only.\<close>

definition task_create :: "kst \<Rightarrow> (kst \<times> u32) res" where
  "task_create s =
     bindR (kalloc task_size s) (\<lambda>(s, t).
       if t = 0 then Inl NullDeref
       else
         bindR (task_ctl_create (s\<lparr>tasks := (tasks s)(t := Some ((junk_task s)\<lparr>esp0 := 0\<rparr>))\<rparr>)) (\<lambda>(s, c).
         bindR (upd_task t (\<lambda>x. x\<lparr>t_ctl := c, t_next := 0\<rparr>) s) (\<lambda>s. Inr (s, t))))"

definition close_fd :: "u32 \<Rightarrow> nat \<Rightarrow> kst \<Rightarrow> kst res" where
  "close_fd t i s =
     bindR (get_task t s) (\<lambda>x.
     bindR (get_ctl (t_ctl x) s) (\<lambda>c.
     bindR (rd (fds c) i) (\<lambda>f. if f \<noteq> 0 then vfs_close f s else Inr s)))"

definition task_destroy :: "u32 \<Rightarrow> kst \<Rightarrow> kst res" where
  "task_destroy t s =
     bindR (foldR (close_fd t) [0..<4] (mm_set (mm_kernel (kmm s)) s)) (\<lambda>s.
     bindR (get_task t s) (\<lambda>x.
     bindR (kfree (esp0 x) s) (\<lambda>s.
     bindR (mm_destroy_space (t_pd x) (kmm s)) (\<lambda>m.
     bindR (task_ctl_free (t_ctl x) (s\<lparr>kmm := m, ctxs := (ctxs s)(esp0 x := None)\<rparr>)) (\<lambda>s.
     bindR (kfree t s) (\<lambda>s. Inr (s\<lparr>tasks := (tasks s)(t := None)\<rparr>)))))))"

definition task_enable :: "u32 \<Rightarrow> kst \<Rightarrow> kst res" where
  "task_enable t s =
     bindR (get_task t s) (\<lambda>x.
     (let s = s\<lparr>last_pid := last_pid s + 1\<rparr> in
      bindR (upd_ctl (t_ctl x) (\<lambda>c. c\<lparr>c_pid := last_pid s\<rparr>) s) (\<lambda>s.
      bindR (upd_task t (\<lambda>x. x\<lparr>t_flag := 0\<rparr>) s) (\<lambda>s.
      bindR (upd_task (task_last s) (\<lambda>x. x\<lparr>t_next := t\<rparr>) s) (\<lambda>s.
      Inr (s\<lparr>task_last := t\<rparr>))))))"

section \<open>Contexts\<close>

definition X86_TASK_IDLE :: u32 where "X86_TASK_IDLE = 2"
definition X86_TASK_NOGP :: u32 where "X86_TASK_NOGP = 4"
definition X86_TASK_NOENT :: u32 where "X86_TASK_NOENT = 8"
definition X86_TASK_NOESP3 :: u32 where "X86_TASK_NOESP3 = 16"
definition X86_TASK_NOSIGCTX :: u32 where "X86_TASK_NOSIGCTX = 32"

definition clear_gp :: "task_context \<Rightarrow> task_context" where
  "clear_gp c = c\<lparr>x_edi := 0, x_esi := 0, x_ebp := 0, x_oesp := 0, x_ebx := 0, x_edx := 0, x_ecx := 0, x_eax := 0\<rparr>"

definition set_segs :: "u32 \<Rightarrow> task_context \<Rightarrow> task_context" where
  "set_segs v c = c\<lparr>x_ds := v, x_es := v, x_fs := v, x_gs := v\<rparr>"

text \<open>The parts of \<open>x86_task_set_context\<close>, in their order; each names the object at \<open>ctx\<close>.\<close>

definition ctx_stack :: "u32 \<Rightarrow> kst \<Rightarrow> (kst \<times> u32) res" where
  "ctx_stack t s =
     bindR (get_task t s) (\<lambda>x.
       if esp0 x = 0 then
         bindR (kalloc stack_size s) (\<lambda>(s, p).
         (let ebp = p + stack_size in
          assertR (ebp \<noteq> 0)
            (if p = 0 then Inl NullDeref
             else bindR (upd_task t (\<lambda>x. x\<lparr>ebp0 := ebp, esp0 := ebp - stack_size\<rparr>)
                    (s\<lparr>ctxs := (ctxs s)(p := Some ctx_zero)\<rparr>)) (\<lambda>s. Inr (s, p)))))
       else Inr (s, esp0 x))"

definition ctx_signal :: "u32 \<Rightarrow> u32 \<Rightarrow> kst \<Rightarrow> kst res" where
  "ctx_signal t flags s =
     (if \<not> nz (flags AND (X86_TASK_NOSIGCTX OR X86_TASK_IDLE)) then
        bindR (kalloc stack_size s) (\<lambda>(s, p).
        assertR (p \<noteq> 0)
          (bindR (get_task t s) (\<lambda>x.
           upd_ctl (t_ctl x) (\<lambda>c. c\<lparr>sigctx := p\<rparr>) (s\<lparr>ctxs := (ctxs s)(p := Some (junk_ctx s))\<rparr>))))
      else Inr s)"

definition ctx_space :: "u32 \<Rightarrow> u32 \<Rightarrow> kst \<Rightarrow> kst res" where
  "ctx_space t ctx s =
     bindR (get_task t s) (\<lambda>x.
       if t_pd x = 0 then
         bindR (mm_create_space (kmm s)) (\<lambda>(m, pd, cr3).
         bindR (upd_task t (\<lambda>x. x\<lparr>t_pd := pd\<rparr>) (s\<lparr>kmm := m\<rparr>)) (\<lambda>s.
           if pd = 0 then Inl NullDeref
           else
             bindR (mm_space_clone pd (mm_kernel (kmm s)) MM_FLG_CLONE_KERNEL (kmm s)) (\<lambda>m.
             upd_ctx ctx (\<lambda>c. c\<lparr>x_cr3 := cr3\<rparr>) (s\<lparr>kmm := m\<rparr>))))
       else
         bindR (mm_translate (mm_kernel (kmm s)) (t_pd x) (kmm s)) (\<lambda>(cr3, _).
         assertR (cr3 \<noteq> MM_NADDR)
           (upd_ctx ctx (\<lambda>c. if x_cr3 c = 0 then c\<lparr>x_cr3 := cr3\<rparr> else c) s)))"

definition ctx_entry :: "u32 \<Rightarrow> u32 \<Rightarrow> task_context \<Rightarrow> task_context" where
  "ctx_entry flags entry c =
     (let c = (if \<not> nz (flags AND X86_TASK_NOGP) then clear_gp c else c);
          c = (if \<not> nz (flags AND X86_TASK_NOENT)
               then c\<lparr>x_cs := (if nz (flags AND X86_TASK_IDLE) then 0x08 else 0x1B), x_eip := entry\<rparr> else c)
      in c\<lparr>x_eflags := 0x248\<rparr>)"

text \<open>
  The user stack. \<open>esp3\<close> points to words, so \<open>esp3 -= sizeof(user_stack)\<close> goes down by 32 bytes.
\<close>

definition ctx_user_stack :: "u32 \<Rightarrow> u32 \<Rightarrow> u32 \<Rightarrow> u32 \<Rightarrow> kst \<Rightarrow> kst res" where
  "ctx_user_stack t ctx arg flags s =
     (if \<not> nz (flags AND (X86_TASK_NOESP3 OR X86_TASK_IDLE)) then
        bindR (get_task t s) (\<lambda>x.
        bindR (if esp3_bottom x = 0 then
                 (let sz = (if esp3_size x = 0 then 8 else esp3_size x) in
                  bindR (mm_map_range (t_pd x) 0x80000000 sz (MM_FLG_US OR MM_FLG_WR) (kmm s)) (\<lambda>m.
                  upd_task t (\<lambda>x. x\<lparr>esp3_bottom := 0x80000000, esp3_size := sz\<rparr>) (s\<lparr>kmm := m\<rparr>)))
               else Inr s) (\<lambda>s.
        bindR (get_task t s) (\<lambda>x.
        (let esp3 = esp3_bottom x + esp3_size x * 0x1000 - 32 in
         bindR (mm_memcpy_kernel_to_user (t_pd x) esp3 (word_bytes arg @ word_bytes 0x12345678) 8 (kmm s)) (\<lambda>m.
         upd_ctx ctx (\<lambda>c. c\<lparr>x_ss := 0x23, x_esp := esp3\<rparr>) (s\<lparr>kmm := m\<rparr>))))))
      else Inr s)"

text \<open>It returns 0 whenever it returns.\<close>

definition x86_task_set_context :: "u32 \<Rightarrow> u32 \<Rightarrow> u32 \<Rightarrow> u32 \<Rightarrow> kst \<Rightarrow> kst res" where
  "x86_task_set_context t entry arg flags s =
     bindR (upd_task t (\<lambda>x. x\<lparr>sigesp := 0, sigeip := 0\<rparr>) s) (\<lambda>s.
     bindR (ctx_stack t s) (\<lambda>(s, ctx).
     bindR (ctx_signal t flags s) (\<lambda>s.
     bindR (ctx_space t ctx s) (\<lambda>s.
     bindR (upd_ctx ctx (ctx_entry flags entry) s) (\<lambda>s.
     bindR (ctx_user_stack t ctx arg flags s) (\<lambda>s.
     upd_ctx ctx (set_segs (if nz (flags AND X86_TASK_IDLE) then 0x10 else 0x23)) s))))))"

section \<open>Signals\<close>

definition signal_ctx :: "task \<Rightarrow> task_ctl \<Rightarrow> u32 \<Rightarrow> task_context \<Rightarrow> task_context" where
  "signal_ctx x c cr3 g =
     (set_segs 0x23 (clear_gp g))\<lparr>x_edx := pending_signal c, x_eflags := 0x248, x_cs := 0x1B, x_eip := sigeip x,
       x_esp := sigesp x, x_ss := 0x23, x_cr3 := cr3\<rparr>"

definition x86_task_enter_signal :: "u32 \<Rightarrow> kst \<Rightarrow> (kst \<times> u32) res" where
  "x86_task_enter_signal t s =
     assertR (t \<noteq> 0)
       (bindR (get_task t s) (\<lambda>x.
        assertR (t_ctl x \<noteq> 0)
          (bindR (get_ctl (t_ctl x) s) (\<lambda>c.
             if sigctx c \<noteq> 0 \<and> sigeip x \<noteq> 0 then
               bindR (if nz (t_flag x AND TASK_FLG_WAIT) then
                        bindR (upd_ctx (esp0 x) (\<lambda>g. g\<lparr>x_eax := - 1\<rparr>) s)
                          (upd_task t (\<lambda>x. x\<lparr>t_flag := t_flag x AND NOT TASK_FLG_WAIT\<rparr>))
                      else Inr s) (\<lambda>s.
               bindR (get_ctx (ebp0 x - stack_size) s) (\<lambda>own.
               bindR (upd_ctx (sigctx c) (signal_ctx x c (x_cr3 own)) s) (\<lambda>s.
               bindR (upd_task t (\<lambda>x. x\<lparr>esp0 := sigctx c\<rparr>) s) (\<lambda>s. Inr (s, 0)))))
             else Inr (s, - 1)))))"

definition x86_task_exit_signal :: "u32 \<Rightarrow> kst \<Rightarrow> (kst \<times> u32) res" where
  "x86_task_exit_signal t s =
     assertR (t \<noteq> 0)
       (bindR (get_task t s) (\<lambda>x.
        assertR (t_ctl x \<noteq> 0)
          (bindR (get_ctl (t_ctl x) s) (\<lambda>c.
           assertR (sigctx c \<noteq> 0)
             (bindR (upd_task t (\<lambda>x. x\<lparr>esp0 := ebp0 x - stack_size\<rparr>) s) (\<lambda>s. Inr (s, 0)))))))"

section \<open>The scheduler\<close>

text \<open>The static objects of the idle task, and its function, by their addresses in the image.\<close>

definition x86_task_idle :: u32 where "x86_task_idle = 0xC0140000"
definition x86_task_idle_stack :: u32 where "x86_task_idle_stack = 0xC0141000"
definition x86_task_idle_func :: u32 where "x86_task_idle_func = 0xC0100100"

definition idle_object :: "kst \<Rightarrow> task" where
  "idle_object s = \<lparr>esp0 = x86_task_idle_stack, ebp0 = x86_task_idle_stack + stack_size, esp3_bottom = 0, esp3_size = 0,
     sigeip = 0, sigesp = 0, t_flag = 0, wait_type = 0, t_pd = mm_kernel (kmm s), t_ctl = 0, t_next = 0\<rparr>"

definition x86_task_init :: "kst \<Rightarrow> kst res" where
  "x86_task_init s =
     bindR (x86_task_set_context x86_task_idle x86_task_idle_func 0 (X86_TASK_IDLE OR X86_TASK_NOESP3)
              (s\<lparr>tasks := (tasks s)(x86_task_idle := Some (idle_object s)),
                 ctxs := (ctxs s)(x86_task_idle_stack := Some ctx_zero)\<rparr>)) (\<lambda>s.
     Inr (s\<lparr>task_current := x86_task_idle, task_first := x86_task_idle, task_last := x86_task_idle\<rparr>))"

text \<open>A stopped task leaves the list; what is only printed about it is left out.\<close>

definition reap :: "u32 \<Rightarrow> task \<Rightarrow> u32 \<Rightarrow> kst \<Rightarrow> kst res" where
  "reap t x tp s =
     assertR (tp \<noteq> 0)
       (bindR (upd_task tp (\<lambda>y. y\<lparr>t_next := t_next x\<rparr>) s) (\<lambda>s.
        let s = (if t = task_last s then s\<lparr>task_last := tp\<rparr> else s) in
        bindR (get_ctl (t_ctl x) s) (\<lambda>c.
          if c_pid c = 1 then Inl Panic else task_destroy t s)))"

definition wake :: "u32 \<Rightarrow> task \<Rightarrow> kst \<Rightarrow> kst res" where
  "wake t x s =
     (let clear = upd_task t (\<lambda>x. x\<lparr>t_flag := t_flag x AND NOT TASK_FLG_WAIT\<rparr>) in
      if nz (t_flag x AND TASK_FLG_WAIT) then
        if wait_type x = TASK_WAIT_SLEEP then
          bindR (get_ctl (t_ctl x) s) (\<lambda>c. if systime s \<ge> sleep_deadline c then clear s else Inr s)
        else if wait_type x = TASK_WAIT_PID then
          bindR (get_ctl (t_ctl x) s) (\<lambda>c.
          bindR (task_by_pid (ucast (sleep_deadline c)) s) (\<lambda>t2.
            if t2 = 0 then bindR (upd_ctl (t_ctl x) (\<lambda>c. c\<lparr>sleep_deadline := 0\<rparr>) s) clear else Inr s))
        else Inr s
      else Inr s)"

text \<open>
  The first loop of \<open>x86_task_switch\<close>. After a stopped task has been destroyed the loop reads its
  \<open>next\<close>: a use of freed memory.
\<close>

partial_function (option) update_loop :: "u32 \<Rightarrow> u32 \<Rightarrow> kst \<Rightarrow> kst res option" where
  "update_loop t tp s =
     (if t = 0 then Some (Inr s)
      else case get_task t s of
        Inl e \<Rightarrow> Some (Inl e)
      | Inr x \<Rightarrow>
          if t = x86_task_idle then update_loop (t_next x) t s
          else if nz (t_flag x AND TASK_FLG_STOP) then
            (case reap t x tp s of
               Inl e \<Rightarrow> Some (Inl e)
             | Inr s \<Rightarrow> (case get_task t s of
                   Inl e \<Rightarrow> Some (Inl e)
                 | Inr x \<Rightarrow> update_loop (t_next x) tp s))
          else
            (case wake t x s of
               Inl e \<Rightarrow> Some (Inl e)
             | Inr s \<Rightarrow> update_loop (t_next x) t s))"

declare update_loop.simps [code]

definition blocked :: "task \<Rightarrow> bool" where
  "blocked x \<longleftrightarrow> nz (t_flag x AND TASK_FLG_WAIT) \<or> nz (t_flag x AND TASK_FLG_BUSY)"

partial_function (option) pick_loop :: "u32 \<Rightarrow> u32 \<Rightarrow> kst \<Rightarrow> u32 res option" where
  "pick_loop from cur s =
     (case get_task cur s of
        Inl e \<Rightarrow> Some (Inl e)
      | Inr x \<Rightarrow>
          (let n = (if t_next x = 0 then task_first s else t_next x) in
           case get_task n s of
             Inl e \<Rightarrow> Some (Inl e)
           | Inr y \<Rightarrow>
               if blocked y then (if n = from then Some (Inr n) else pick_loop from n s)
               else Some (Inr n)))"

declare pick_loop.simps [code]

text \<open>The second half of \<open>x86_task_switch\<close>: the choice of the next task.\<close>

definition sched_pick :: "kst \<Rightarrow> kst res" where
  "sched_pick s =
     (let fr = task_current s in
      bindR (upd_task fr (\<lambda>x. x\<lparr>t_flag := t_flag x AND NOT TASK_FLG_RUNNING\<rparr>) s) (\<lambda>s.
      bindR (endless (pick_loop fr fr s)) (\<lambda>n.
      bindR (get_task n s) (\<lambda>y.
      let n = (if n = fr \<and> blocked y then x86_task_idle else n) in
      upd_task n (\<lambda>x. x\<lparr>t_flag := t_flag x OR TASK_FLG_RUNNING\<rparr>) (s\<lparr>task_current := n\<rparr>)))))"

definition x86_task_switch :: "kst \<Rightarrow> kst res" where
  "x86_task_switch s =
     (let s = mm_set (mm_kernel (kmm s)) s in
      if tasking_entry s then Inr (s\<lparr>tasking_entry := False\<rparr>)
      else bindR (endless (update_loop (task_first s) 0 s)) sched_pick)"

section \<open>Loading a program\<close>

definition SHT_PROGBITS :: u32 where "SHT_PROGBITS = 1"
definition SHT_NOBITS :: u32 where "SHT_NOBITS = 8"
definition SHF_ALLOC :: u32 where "SHF_ALLOC = 2"

definition load16 :: "mem \<Rightarrow> u32 \<Rightarrow> u32" where
  "load16 m a = ucast (m a) OR push_bit 8 (ucast (m (a + 1)))"

text \<open>The fields of the headers that the loader reads.\<close>

record elf_hdr =
  e_ident :: bytes
  e_entry :: u32
  e_shoff :: u32
  e_shnum :: u32

definition elf_hdr_at :: "mem \<Rightarrow> u32 \<Rightarrow> elf_hdr" where
  "elf_hdr_at m a = \<lparr>e_ident = mbytes m a 16, e_entry = load32 m (a + 24), e_shoff = load32 m (a + 32), e_shnum = load16 m (a + 48)\<rparr>"

record elf_shdr =
  sh_type :: u32
  sh_flags :: u32
  sh_addr :: u32
  sh_offset :: u32
  sh_size :: u32

definition elf_shdr_at :: "mem \<Rightarrow> u32 \<Rightarrow> elf_shdr" where
  "elf_shdr_at m a = \<lparr>sh_type = load32 m (a + 4), sh_flags = load32 m (a + 8), sh_addr = load32 m (a + 12),
     sh_offset = load32 m (a + 16), sh_size = load32 m (a + 20)\<rparr>"

text \<open>One section: pages for it, and its bytes. The name of a section is only printed.\<close>

definition elf_section :: "u32 \<Rightarrow> u32 \<Rightarrow> u32 \<Rightarrow> nat \<Rightarrow> kst \<Rightarrow> kst res" where
  "elf_section dst src shoff i s =
     (let sh = elf_shdr_at (kernel_mem s) (src + shoff + of_nat i * 40) in
      if (sh_type sh = SHT_PROGBITS \<or> sh_type sh = SHT_NOBITS) \<and> nz (sh_flags sh AND SHF_ALLOC) then
        (let page_start = sh_addr sh AND - 0x1000;
             page_end = MM_ALIGN_UP (sh_addr sh + sh_size sh) 0x1000;
             page_count = (page_end - page_start) div 0x1000 in
         bindR (mm_map_range dst page_start page_count (MM_FLG_WR OR MM_FLG_US OR MM_FLG_MERGE) (kmm s)) (\<lambda>m.
         let s = s\<lparr>kmm := m\<rparr> in
           if sh_type sh = SHT_PROGBITS then
             bindR (mm_memcpy_kernel_to_user dst (sh_addr sh)
                      (mbytes (kernel_mem s) (src + sh_offset sh) (unat (sh_size sh))) (sh_size sh) (kmm s)) (\<lambda>m.
             Inr (s\<lparr>kmm := m\<rparr>))
           else Inr s))
      else Inr s)"

definition elf_load :: "u32 \<Rightarrow> u32 \<Rightarrow> kst \<Rightarrow> (kst \<times> u32) res" where
  "elf_load dst src s =
     (let ehdr = elf_hdr_at (kernel_mem s) src in
      bindR (strncmp (e_ident ehdr) (127 # lit ''ELF'') 4) (\<lambda>c.
        if c \<noteq> 0 then Inr (s, - 1)
        else
          bindR (foldR (elf_section dst src (e_shoff ehdr)) [0..<unat (e_shnum ehdr)] s) (\<lambda>s.
          Inr (s, e_entry ehdr))))"

section \<open>fork and exec\<close>

definition ENOENT :: u32 where "ENOENT = 2"

text \<open>The register \<open>cr3\<close> holds the entry 0 of the directory that \<open>mm_set\<close> loaded.\<close>

definition in_kernel_space :: "kst \<Rightarrow> bool" where
  "in_kernel_space s \<longleftrightarrow> tab (kmm s) (cur_pd s) 0 = mm_kernel (kmm s) - KERNEL_VIRT_BASE"

text \<open>A descriptor of the terminal for a new task.\<close>

definition open_tty :: "u32 \<Rightarrow> nat \<Rightarrow> u32 \<Rightarrow> kst \<Rightarrow> kst res" where
  "open_tty t i flag s =
     bindR (vfs_open (lit ''/dev/tty0'') flag s) (\<lambda>(s, f).
     assertR (f \<noteq> 0)
       (bindR (upd_file f (\<lambda>x. x\<lparr>f_task := t\<rparr>) s) (\<lambda>s.
        bindR (get_task t s) (\<lambda>x.
        upd_ctl (t_ctl x) (\<lambda>c. c\<lparr>fds := (fds c)[i := f]\<rparr>) s))))"

definition task_fork :: "u32 \<Rightarrow> kst \<Rightarrow> (kst \<times> u32) res" where
  "task_fork src s =
     assertR (in_kernel_space s)
       (bindR (get_task src s) (\<lambda>x.
        assertR (t_pd x \<noteq> 0)
          (bindR (mm_create_space (kmm s)) (\<lambda>(m, pd, phys).
           assertR (pd \<noteq> 0)
             (bindR (mm_space_fork pd (t_pd x) (MM_FLG_CLONE_KERNEL OR MM_FLG_CLONE_USER) m) (\<lambda>m.
              bindR (task_create (s\<lparr>kmm := m\<rparr>)) (\<lambda>(s, t).
              bindR (upd_task t (\<lambda>y. y\<lparr>t_pd := pd\<rparr>) s) (\<lambda>s.
              bindR (get_task src s) (\<lambda>x.
              assertR (esp0 x \<noteq> 0)
                (bindR (kalloc stack_size s) (\<lambda>(s, c).
                 assertR (c \<noteq> 0)
                   (bindR (upd_task t (\<lambda>y. y\<lparr>esp0 := c, ebp0 := c + stack_size, esp3_bottom := 0x80000000, esp3_size := 4\<rparr>)
                      (s\<lparr>ctxs := (ctxs s)(c := Some (junk_ctx s))\<rparr>)) (\<lambda>s.
                    bindR (open_tty t 0 VFS_FLG_WR s) (\<lambda>s.
                    bindR (open_tty t 1 VFS_FLG_RD s) (\<lambda>s.
                    bindR (get_ctx (esp0 x) s) (\<lambda>g.
                    bindR (upd_task t (\<lambda>y. y\<lparr>t_flag := 0\<rparr>) s) (\<lambda>s.
                    bindR (upd_ctx c (\<lambda>_. g\<lparr>x_eax := 0, x_cr3 := phys\<rparr>) s) (\<lambda>s.
                    bindR (task_enable t s) (\<lambda>s. Inr (s, t))))))))))))))))))))"

definition task_execve :: "u32 \<Rightarrow> bytes \<Rightarrow> u32 \<Rightarrow> u32 \<Rightarrow> kst \<Rightarrow> (kst \<times> u32) res" where
  "task_execve t path argp envp s =
     assertR (argp = 0 \<and> envp = 0) (assertR (in_kernel_space s)
       (bindR (get_task t s) (\<lambda>x.
        assertR (esp0 x \<noteq> 0) (assertR (t_pd x \<noteq> 0)
          (bindR (vfs_getm path s) (\<lambda>file_mem.
             if file_mem = MM_NADDR then Inr (s, - ENOENT)
             else
               bindR (elf_load (t_pd x) file_mem s) (\<lambda>(s, entry).
               assertR (entry \<noteq> MM_NADDR)
                 (bindR (upd_ctx (esp0 x) clear_gp s) (\<lambda>s.
                  bindR (x86_task_set_context t entry 0 0 s) (\<lambda>s. Inr (s, 0)))))))))))"

definition task_fexecve :: "bytes \<Rightarrow> kst \<Rightarrow> (kst \<times> u32) res" where
  "task_fexecve path s =
     assertR (in_kernel_space s)
       (bindR (vfs_getm path s) (\<lambda>file_mem.
        assertR (file_mem \<noteq> MM_NADDR)
          (bindR (mm_create_space (kmm s)) (\<lambda>(m, pd, _).
           assertR (pd \<noteq> 0)
             (bindR (mm_space_clone pd (mm_kernel m) MM_FLG_CLONE_KERNEL m) (\<lambda>m.
              bindR (elf_load pd file_mem (s\<lparr>kmm := m\<rparr>)) (\<lambda>(s, entry).
              assertR (entry \<noteq> MM_NADDR)
                (bindR (task_create s) (\<lambda>(s, t).
                 bindR (upd_task t (\<lambda>x. x\<lparr>t_pd := pd, esp3_bottom := 0, esp3_size := 4\<rparr>) s) (\<lambda>s.
                 bindR (open_tty t 0 VFS_FLG_WR s) (\<lambda>s.
                 bindR (open_tty t 1 VFS_FLG_RD s) (\<lambda>s.
                 bindR (x86_task_set_context t entry 0 0 s) (\<lambda>s.
                 bindR (task_enable t s) (\<lambda>s. Inr (s, t)))))))))))))))"

end
