(* ===== verification/Sched.thy ===== *)
theory Sched
  imports Tasks
begin

text \<open>
  The scheduler (\<open>x86_task_switch\<close>) as a round robin over the list of tasks: what one switch does,
  the invariant of the list that every event keeps, and the bound on the wait of a ready task.
\<close>

section \<open>The list of tasks\<close>

fun task_path :: "(u32 \<Rightarrow> task option) \<Rightarrow> u32 \<Rightarrow> u32 list \<Rightarrow> bool" where
  "task_path f p [] \<longleftrightarrow> p = 0"
| "task_path f p (t # us) \<longleftrightarrow> p = t \<and> t \<noteq> 0 \<and> (\<exists>x. f t = Some x \<and> task_path f (t_next x) us)"

text \<open>The state as far as the flags of the tasks are concerned.\<close>

definition has_flag :: "u32 \<Rightarrow> task \<Rightarrow> bool" where
  "has_flag b x \<longleftrightarrow> nz (t_flag x AND b)"

definition sched_wf :: "kst \<Rightarrow> u32 list \<Rightarrow> bool" where
  "sched_wf s us \<longleftrightarrow> task_path (tasks s) (task_first s) us \<and> distinct us \<and> us \<noteq> [] \<and>
     hd us = x86_task_idle \<and> last us = task_last s \<and> task_current s \<in> set us \<and>
     (\<forall>t \<in> set us. \<forall>x. tasks s t = Some x \<longrightarrow>
        (if t = x86_task_idle then t_ctl x = 0 \<and> \<not> blocked x \<and> \<not> has_flag TASK_FLG_STOP x
         else t_ctl x \<noteq> 0 \<and> ctls s (t_ctl x) \<noteq> None) \<and>
        (has_flag TASK_FLG_RUNNING x \<longrightarrow> t = task_current s)) \<and>
     inj_on (\<lambda>t. map_option t_ctl (tasks s t)) (set us)"

text \<open>A waiting task is due when its time has come or when the task it waits for is gone.\<close>

definition pid_is :: "kst \<Rightarrow> u32 \<Rightarrow> task \<Rightarrow> bool" where
  "pid_is s p x \<longleftrightarrow> (if t_ctl x \<noteq> 0 then map_option c_pid (ctls s (t_ctl x)) = Some p else p = 0)"

definition pid_alive :: "kst \<Rightarrow> u32 list \<Rightarrow> u32 \<Rightarrow> bool" where
  "pid_alive s us p \<longleftrightarrow> (\<exists>t \<in> set us. \<exists>x. tasks s t = Some x \<and> pid_is s p x)"

definition due :: "kst \<Rightarrow> u32 list \<Rightarrow> task \<Rightarrow> bool" where
  "due s us x \<longleftrightarrow> (case ctls s (t_ctl x) of None \<Rightarrow> False
     | Some c \<Rightarrow> wait_type x = TASK_WAIT_SLEEP \<and> sleep_deadline c \<le> systime s \<or>
                 wait_type x = TASK_WAIT_PID \<and> \<not> pid_alive s us (ucast (sleep_deadline c)))"

definition woken :: "kst \<Rightarrow> u32 list \<Rightarrow> task \<Rightarrow> task" where
  "woken s us x = (if has_flag TASK_FLG_WAIT x \<and> due s us x then x\<lparr>t_flag := t_flag x AND NOT TASK_FLG_WAIT\<rparr> else x)"

definition ready :: "kst \<Rightarrow> u32 list \<Rightarrow> u32 \<Rightarrow> bool" where
  "ready s us t \<longleftrightarrow> (\<exists>x. tasks s t = Some x \<and>
     (t = x86_task_idle \<or> \<not> has_flag TASK_FLG_BUSY x \<and> (has_flag TASK_FLG_WAIT x \<longrightarrow> due s us x)))"

lemma wait_types: "TASK_WAIT_SLEEP \<noteq> TASK_WAIT_PID" "TASK_WAIT_PID \<noteq> TASK_WAIT_SLEEP"
  by (simp_all add: TASK_WAIT_SLEEP_def TASK_WAIT_PID_def)

lemma flag_values:
  "TASK_FLG_RUNNING = 2 ^ 0" "TASK_FLG_STOP = 2 ^ 1" "TASK_FLG_WAIT = 2 ^ 2" "TASK_FLG_BUSY = 2 ^ 3"
  by (simp_all add: TASK_FLG_RUNNING_def TASK_FLG_STOP_def TASK_FLG_WAIT_def TASK_FLG_BUSY_def)

lemma has_flag_bit:
  "has_flag TASK_FLG_RUNNING x \<longleftrightarrow> bit (t_flag x) 0" "has_flag TASK_FLG_STOP x \<longleftrightarrow> bit (t_flag x) 1"
  "has_flag TASK_FLG_WAIT x \<longleftrightarrow> bit (t_flag x) 2" "has_flag TASK_FLG_BUSY x \<longleftrightarrow> bit (t_flag x) 3"
  "blocked x \<longleftrightarrow> bit (t_flag x) 2 \<or> bit (t_flag x) 3"
  unfolding has_flag_def blocked_def flag_values by (simp_all only: and_exp_eq_0_iff_not_bit not_not)

lemma flag_bits:
  "bit (f OR TASK_FLG_RUNNING) n \<longleftrightarrow> bit f n \<or> n = 0" "bit (f AND NOT TASK_FLG_RUNNING) n \<longleftrightarrow> bit f n \<and> n \<noteq> 0"
  "bit (f AND NOT TASK_FLG_WAIT) n \<longleftrightarrow> bit f n \<and> n \<noteq> 2" "bit (f OR TASK_FLG_BUSY) n \<longleftrightarrow> bit f n \<or> n = 3"
  "bit (f AND NOT TASK_FLG_BUSY) n \<longleftrightarrow> bit f n \<and> n \<noteq> 3" "bit (f OR TASK_FLG_WAIT) n \<longleftrightarrow> bit f n \<or> n = 2"
  "bit (f OR TASK_FLG_STOP) n \<longleftrightarrow> bit f n \<or> n = 1"
  unfolding flag_values using bit_imp_le_length [of f n]
  by (auto simp: bit_simps simp del: power_numeral power_0)

section \<open>Walking the list\<close>

lemma task_path_nth:
  "task_path f p us \<Longrightarrow> i < length us \<Longrightarrow> us ! i \<noteq> 0 \<and>
     (\<exists>x. f (us ! i) = Some x \<and> t_next x = (if Suc i < length us then us ! Suc i else 0))"
proof (induction us arbitrary: p i)
  case (Cons t us)
  then obtain x where x: "f t = Some x" "task_path f (t_next x) us" "t \<noteq> 0" by auto
  show ?case
  proof (cases i)
    case 0
    then show ?thesis using x by (cases us) auto
  next
    case (Suc j)
    then show ?thesis using Cons.IH [OF x(2), of j] Cons.prems by auto
  qed
qed simp

lemma task_path_mem: "task_path f p us \<Longrightarrow> t \<in> set us \<Longrightarrow> t \<noteq> 0 \<and> (\<exists>x. f t = Some x)"
  by (metis in_set_conv_nth task_path_nth)

lemma task_path_cong:
  "(\<And>t. t \<in> set us \<Longrightarrow> map_option t_next (f t) = map_option t_next (g t)) \<Longrightarrow> task_path f p us = task_path g p us"
proof (induction us arbitrary: p)
  case (Cons t us)
  have "map_option t_next (f t) = map_option t_next (g t)" using Cons.prems by simp
  moreover have "task_path f q us = task_path g q us" for q using Cons by simp
  ultimately show ?case by (cases "f t"; cases "g t") auto
qed simp

lemma pid_loop_path:
  assumes "task_path (tasks s) q us"
    and "\<And>t x. t \<in> set us \<Longrightarrow> tasks s t = Some x \<Longrightarrow> t_ctl x \<noteq> 0 \<Longrightarrow> ctls s (t_ctl x) \<noteq> None"
  shows "\<exists>r. pid_loop s p q = Some (Inr r) \<and> (r = 0 \<longleftrightarrow> \<not> pid_alive s us p)"
  using assms
proof (induction us arbitrary: q)
  case Nil
  then show ?case by (subst pid_loop.simps) (simp add: pid_alive_def)
next
  case (Cons t us)
  then obtain x where x: "tasks s t = Some x" "task_path (tasks s) (t_next x) us" "t \<noteq> 0" "q = t" by auto
  have IH: "\<exists>r. pid_loop s p (t_next x) = Some (Inr r) \<and> (r = 0 \<longleftrightarrow> \<not> pid_alive s us p)"
    by (rule Cons.IH [OF x(2)]) (use Cons.prems(2) in \<open>meson list.set_intros(2)\<close>)
  have step: "pid_alive s (t # us) p \<longleftrightarrow> pid_is s p x \<or> pid_alive s us p"
    using x(1) by (auto simp: pid_alive_def)
  have l: "pid_loop s p q = (if pid_is s p x then Some (Inr t) else pid_loop s p (t_next x))"
  proof (cases "t_ctl x = 0")
    case True
    then show ?thesis using x by (subst pid_loop.simps) (simp add: get_task_def obj_def pid_is_def)
  next
    case False
    then obtain c where c: "ctls s (t_ctl x) = Some c" using Cons.prems(2) [of t x] x by auto
    then show ?thesis using x False
      by (subst pid_loop.simps) (simp add: get_task_def get_ctl_def obj_def pid_is_def)
  qed
  show ?case using IH x(3) unfolding l step by auto
qed

section \<open>Waking\<close>

text \<open>What waking may change in a control structure: the deadline only.\<close>

definition ctl_frame :: "task_ctl \<Rightarrow> task_ctl" where "ctl_frame c = c\<lparr>sleep_deadline := 0\<rparr>"

definition ctls_like :: "(u32 \<Rightarrow> task_ctl option) \<Rightarrow> (u32 \<Rightarrow> task_ctl option) \<Rightarrow> bool" where
  "ctls_like g h \<longleftrightarrow> (\<forall>a. map_option ctl_frame (g a) = map_option ctl_frame (h a))"

lemma ctls_like_refl [simp]: "ctls_like g g"
  by (simp add: ctls_like_def)

lemma ctls_like_trans: "ctls_like g h \<Longrightarrow> ctls_like h k \<Longrightarrow> ctls_like g k"
  by (simp add: ctls_like_def)

lemma ctls_like_pid: "ctls_like g h \<Longrightarrow> map_option c_pid (g a) = map_option c_pid (h a)"
proof -
  assume "ctls_like g h"
  then have "map_option c_pid (map_option ctl_frame (g a)) = map_option c_pid (map_option ctl_frame (h a))"
    by (simp add: ctls_like_def)
  then show ?thesis by (simp add: option.map_comp comp_def ctl_frame_def)
qed

lemma ctls_like_None: "ctls_like g h \<Longrightarrow> g a = None \<longleftrightarrow> h a = None"
  by (metis ctls_like_def map_option_is_None)

lemma pid_alive_like:
  assumes "ctls_like (ctls s') (ctls s)" "\<And>t. t \<in> set us \<Longrightarrow> map_option t_ctl (tasks s' t) = map_option t_ctl (tasks s t)"
  shows "pid_alive s' us p = pid_alive s us p"
proof -
  have "(\<exists>x. tasks s' t = Some x \<and> pid_is s' p x) \<longleftrightarrow> (\<exists>x. tasks s t = Some x \<and> pid_is s p x)" if "t \<in> set us" for t
    using assms(2) [OF that] ctls_like_pid [OF assms(1)]
    by (cases "tasks s' t"; cases "tasks s t") (auto simp: pid_is_def)
  then show ?thesis by (auto simp: pid_alive_def)
qed

lemma woken_simps [simp]: "t_ctl (woken s us x) = t_ctl x" "t_next (woken s us x) = t_next x"
  by (simp_all add: woken_def)

lemma wake_ok:
  assumes x: "tasks s t = Some x" "t \<noteq> 0" and c: "t_ctl x \<noteq> 0" "ctls s (t_ctl x) \<noteq> None"
    and pids: "\<And>p. \<exists>r. task_by_pid p s = Inr r \<and> (r = 0 \<longleftrightarrow> \<not> pid_alive s us p)"
  shows "\<exists>g. wake t x s = Inr (s\<lparr>tasks := (tasks s)(t := Some (woken s us x)), ctls := g\<rparr>) \<and>
    ctls_like g (ctls s) \<and> (\<forall>a. a \<noteq> t_ctl x \<longrightarrow> g a = ctls s a)"
proof -
  obtain k where k: "ctls s (t_ctl x) = Some k" using c(2) by auto
  have same: "s = s\<lparr>tasks := (tasks s)(t := Some x), ctls := ctls s\<rparr>" using x(1) by (simp add: fun_upd_idem)
  have clear: "upd_task t (\<lambda>x. x\<lparr>t_flag := t_flag x AND NOT TASK_FLG_WAIT\<rparr>) s' =
      Inr (s'\<lparr>tasks := (tasks s)(t := Some (x\<lparr>t_flag := t_flag x AND NOT TASK_FLG_WAIT\<rparr>))\<rparr>)" if "tasks s' = tasks s" for s'
    using x that by (simp add: upd_task_def get_task_def obj_def)
  obtain r where r: "task_by_pid (ucast (sleep_deadline k)) s = Inr r" "r = 0 \<longleftrightarrow> \<not> pid_alive s us (ucast (sleep_deadline k))"
    using pids by blast
  let ?g = "(ctls s)(t_ctl x := Some (k\<lparr>sleep_deadline := 0\<rparr>))"
  have g: "ctls_like ?g (ctls s)" using k by (simp add: ctls_like_def ctl_frame_def)
  consider (none) "\<not> has_flag TASK_FLG_WAIT x \<or> \<not> due s us x"
    | (sleep) "has_flag TASK_FLG_WAIT x" "due s us x" "wait_type x = TASK_WAIT_SLEEP"
    | (pid) "has_flag TASK_FLG_WAIT x" "due s us x" "wait_type x = TASK_WAIT_PID"
    using k by (auto simp: due_def)
  then show ?thesis
  proof cases
    case none
    then have "wake t x s = Inr s" using k c r wait_types
      by (auto simp: wake_def Let_def has_flag_def due_def get_ctl_def obj_def)
    moreover have "woken s us x = x" using none by (auto simp: woken_def)
    ultimately show ?thesis using same by (intro exI [of _ "ctls s"]) simp
  next
    case sleep
    then have "wake t x s = Inr (s\<lparr>tasks := (tasks s)(t := Some (woken s us x)), ctls := ctls s\<rparr>)"
      using k c wait_types clear [of s] by (auto simp: wake_def Let_def has_flag_def due_def get_ctl_def obj_def woken_def)
    then show ?thesis by (intro exI [of _ "ctls s"]) simp
  next
    case pid
    then have "wake t x s = Inr (s\<lparr>tasks := (tasks s)(t := Some (woken s us x)), ctls := ?g\<rparr>)"
      using k c r wait_types clear [of "s\<lparr>ctls := ?g\<rparr>"]
      by (auto simp: wake_def Let_def has_flag_def due_def get_ctl_def upd_ctl_def obj_def woken_def)
    then show ?thesis using g by (intro exI [of _ ?g]) simp
  qed
qed

section \<open>The first loop\<close>

text \<open>The tasks after the loop has passed over \<open>vs\<close>.\<close>

definition passed :: "kst \<Rightarrow> u32 list \<Rightarrow> u32 list \<Rightarrow> u32 \<Rightarrow> task option" where
  "passed s us vs t = (if t \<in> set vs \<and> t \<noteq> x86_task_idle then map_option (woken s us) (tasks s t) else tasks s t)"

definition list_ok :: "kst \<Rightarrow> u32 list \<Rightarrow> bool" where
  "list_ok s us \<longleftrightarrow> task_path (tasks s) (task_first s) us \<and>
     (\<forall>t \<in> set us. \<forall>x. tasks s t = Some x \<longrightarrow>
        (if t = x86_task_idle then t_ctl x = 0
         else t_ctl x \<noteq> 0 \<and> ctls s (t_ctl x) \<noteq> None \<and> \<not> has_flag TASK_FLG_STOP x)) \<and>
     inj_on (\<lambda>t. map_option t_ctl (tasks s t)) (set us)"

lemma list_ok_ctl:
  "list_ok s us \<Longrightarrow> t \<in> set us \<Longrightarrow> tasks s t = Some x \<Longrightarrow> t_ctl x \<noteq> 0 \<Longrightarrow> ctls s (t_ctl x) \<noteq> None"
  by (auto simp: list_ok_def split: if_splits)

lemma update_loop_ok:
  assumes "task_path (tasks s) p vs" "list_ok s us" "set vs \<subseteq> set us" "distinct vs"
  shows "\<exists>g. update_loop p tp s = Some (Inr (s\<lparr>tasks := passed s us vs, ctls := g\<rparr>)) \<and> ctls_like g (ctls s)"
  using assms
proof (induction vs arbitrary: p tp s)
  case Nil
  then have "update_loop p tp s = Some (Inr s)" by (subst update_loop.simps) simp
  moreover have "passed s us [] = tasks s" by (simp add: passed_def fun_eq_iff)
  ultimately show ?case by (intro exI [of _ "ctls s"]) simp
next
  case (Cons t vs)
  obtain x where x: "p = t" "t \<noteq> 0" "tasks s t = Some x" "task_path (tasks s) (t_next x) vs"
    using Cons.prems(1) by auto
  have t: "t \<in> set us" "t \<notin> set vs" "set vs \<subseteq> set us" "distinct vs" using Cons.prems(3,4) by auto
  have first: "task_path (tasks s) (task_first s) us" and inj: "inj_on (\<lambda>t. map_option t_ctl (tasks s t)) (set us)"
    using Cons.prems(2) by (simp_all add: list_ok_def)
  show ?case
  proof (cases "t = x86_task_idle")
    case True
    have "update_loop p tp s = update_loop (t_next x) t s"
      using x True by (subst update_loop.simps) (simp add: get_task_def obj_def)
    moreover have "passed s us (t # vs) = passed s us vs" using True by (auto simp: passed_def fun_eq_iff)
    ultimately show ?thesis using Cons.IH [OF x(4) Cons.prems(2) t(3,4)] by simp
  next
    case False
    have okt: "t_ctl x \<noteq> 0" "ctls s (t_ctl x) \<noteq> None" "\<not> has_flag TASK_FLG_STOP x"
      using Cons.prems(2) t(1) x(3) False by (auto simp: list_ok_def)
    have pids: "\<exists>r. task_by_pid p s = Inr r \<and> (r = 0 \<longleftrightarrow> \<not> pid_alive s us p)" for p
    proof -
      have "\<exists>r. pid_loop s p (task_first s) = Some (Inr r) \<and> (r = 0 \<longleftrightarrow> \<not> pid_alive s us p)"
        by (rule pid_loop_path [OF first]) (rule list_ok_ctl [OF Cons.prems(2)])
      then show ?thesis by (auto simp: task_by_pid_def)
    qed
    obtain g1 where g1: "wake t x s = Inr (s\<lparr>tasks := (tasks s)(t := Some (woken s us x)), ctls := g1\<rparr>)"
      "ctls_like g1 (ctls s)" "\<And>a. a \<noteq> t_ctl x \<Longrightarrow> g1 a = ctls s a"
      using wake_ok [OF x(3,2) okt(1,2) pids] by blast
    define s1 where "s1 = s\<lparr>tasks := (tasks s)(t := Some (woken s us x)), ctls := g1\<rparr>"
    have u: "update_loop p tp s = update_loop (t_next x) t s1"
      using x False okt g1(1) by (subst update_loop.simps) (simp add: get_task_def obj_def has_flag_def s1_def)
    have nx: "map_option t_next (tasks s1 v) = map_option t_next (tasks s v)"
      and ct: "map_option t_ctl (tasks s1 v) = map_option t_ctl (tasks s v)" for v
      using x(3) by (simp_all add: s1_def)
    have path: "task_path (tasks s1) q ws = task_path (tasks s) q ws" for q ws
      by (rule task_path_cong) (rule nx)
    have p1: "task_path (tasks s1) (t_next x) vs" using x(4) path by simp
    have flag: "\<not> has_flag TASK_FLG_STOP (woken s us x)"
      using okt(3) by (auto simp: woken_def has_flag_bit flag_bits)
    have ok1: "list_ok s1 us"
      unfolding list_ok_def
    proof (intro conjI ballI allI impI)
      show "task_path (tasks s1) (task_first s1) us" using first path by (simp add: s1_def)
      show "inj_on (\<lambda>t. map_option t_ctl (tasks s1 t)) (set us)" using inj by (simp add: ct)
      fix v y assume v: "v \<in> set us" "tasks s1 v = Some y"
      show "if v = x86_task_idle then t_ctl y = 0 else t_ctl y \<noteq> 0 \<and> ctls s1 (t_ctl y) \<noteq> None \<and> \<not> has_flag TASK_FLG_STOP y"
      proof (cases "v = t")
        case True
        then show ?thesis using v False okt flag ctls_like_None [OF g1(2)] by (simp add: s1_def) force
      next
        case ne: False
        then have "tasks s v = Some y" using v by (simp add: s1_def)
        then show ?thesis using v Cons.prems(2) ctls_like_None [OF g1(2)] by (auto simp: list_ok_def s1_def)
      qed
    qed
    obtain g where g: "update_loop (t_next x) t s1 = Some (Inr (s1\<lparr>tasks := passed s1 us vs, ctls := g\<rparr>))" "ctls_like g (ctls s1)"
      using Cons.IH [OF p1 ok1 t(3,4)] by blast
    have al: "pid_alive s1 us q = pid_alive s us q" for q
      by (rule pid_alive_like) (use g1(2) ct in \<open>auto simp: s1_def\<close>)
    have wk: "woken s1 us y = woken s us y" if y: "v \<in> set vs" "tasks s v = Some y" for v y
    proof -
      have "t_ctl y \<noteq> t_ctl x"
        using inj_onD [OF inj, of v t] y x(3) t by auto
      then have "ctls s1 (t_ctl y) = ctls s (t_ctl y)" by (simp add: s1_def g1(3))
      moreover have "systime s1 = systime s" by (simp add: s1_def)
      ultimately have "due s1 us y = due s us y" by (simp add: due_def al split: option.splits)
      then show ?thesis by (simp add: woken_def)
    qed
    have "passed s1 us vs = passed s us (t # vs)"
    proof
      fix v
      show "passed s1 us vs v = passed s us (t # vs) v"
        using x(3) False t(2) wk [of v] by (cases "tasks s v") (auto simp: passed_def s1_def)
    qed
    then show ?thesis using u g ctls_like_trans [OF g(2)] g1(2) by (intro exI [of _ g]) (simp add: s1_def)
  qed
qed

section \<open>The second loop\<close>

definition succ_of :: "kst \<Rightarrow> u32 \<Rightarrow> u32" where
  "succ_of s t = (let n = t_next (the (tasks s t)) in if n = 0 then task_first s else n)"

definition task_blocked :: "kst \<Rightarrow> u32 \<Rightarrow> bool" where
  "task_blocked s t \<longleftrightarrow> blocked (the (tasks s t))"

fun succ_chain :: "kst \<Rightarrow> u32 \<Rightarrow> u32 list \<Rightarrow> bool" where
  "succ_chain s t [] \<longleftrightarrow> True"
| "succ_chain s t (n # ns) \<longleftrightarrow> n \<noteq> 0 \<and> tasks s n \<noteq> None \<and> succ_of s t = n \<and> succ_chain s n ns"

lemma pick_loop_chain:
  assumes "succ_chain s cur ns" "cur \<noteq> 0" "tasks s cur \<noteq> None" "find (\<lambda>t. \<not> task_blocked s t) ns = Some n"
    "fr \<in> set ns \<longrightarrow> fr = last ns" "distinct ns"
  shows "pick_loop fr cur s = Some (Inr n)"
  using assms
proof (induction ns arbitrary: cur)
  case (Cons m ns)
  obtain x y where xy: "tasks s cur = Some x" "tasks s m = Some y" using Cons.prems by auto
  have m: "m \<noteq> 0" "succ_of s cur = m" "succ_chain s m ns" using Cons.prems(1) by auto
  have l: "pick_loop fr cur s = (if blocked y then (if m = fr then Some (Inr m) else pick_loop fr m s) else Some (Inr m))"
    using m xy Cons.prems(2)
    by (subst pick_loop.simps) (auto simp: get_task_def obj_def succ_of_def Let_def)
  show ?case
  proof (cases "blocked y")
    case False
    then show ?thesis using l xy Cons.prems(4) by (simp add: task_blocked_def)
  next
    case True
    then have f: "find (\<lambda>t. \<not> task_blocked s t) ns = Some n" using Cons.prems(4) xy by (simp add: task_blocked_def)
    then have ne: "ns \<noteq> []" by auto
    then have fr: "fr \<in> set ns \<longrightarrow> fr = last ns" "m \<noteq> fr" using Cons.prems(5,6) by auto
    then show ?thesis using l True Cons.IH [OF m(3,1) _ f] xy Cons.prems(6) by simp
  qed
qed simp

lemma succ_of_nth:
  assumes "task_path (tasks s) (task_first s) us" "i < length us"
  shows "succ_of s (us ! i) = us ! (Suc i mod length us)"
proof -
  have f: "task_first s = us ! 0" using assms by (cases us) auto
  from task_path_nth [OF assms] obtain x where x: "tasks s (us ! i) = Some x"
    "t_next x = (if Suc i < length us then us ! Suc i else 0)" by blast
  show ?thesis
  proof (cases "Suc i < length us")
    case True
    then have "us ! Suc i \<noteq> 0" using task_path_nth [OF assms(1)] by blast
    then show ?thesis using x True by (simp add: succ_of_def)
  next
    case False
    then have "Suc i = length us" using assms(2) by simp
    then show ?thesis using x f by (simp add: succ_of_def)
  qed
qed

lemma succ_chain_nth:
  "succ_chain s t ns \<longleftrightarrow> (\<forall>j < length ns. ns ! j \<noteq> 0 \<and> tasks s (ns ! j) \<noteq> None \<and> succ_of s ((t # ns) ! j) = ns ! j)"
proof (induction ns arbitrary: t)
  case (Cons n ns)
  show ?case unfolding succ_chain.simps Cons.IH by (auto simp: less_Suc_eq_0_disj nth_Cons split: nat.splits)
qed simp

lemma rotate_chain:
  assumes p: "task_path (tasks s) (task_first s) us" and i: "i < length us"
  shows "succ_chain s (us ! i) (rotate (Suc i) us)" "last (rotate (Suc i) us) = us ! i"
proof -
  let ?n = "length us"
  have r: "rotate (Suc i) us ! j = us ! ((Suc i + j) mod ?n)" if "j < ?n" for j
    using that by (simp add: nth_rotate add.commute del: rotate_Suc)
  have r': "((us ! i) # rotate (Suc i) us) ! j = us ! ((i + j) mod ?n)" if "j < ?n" for j
    using that i r [of "j - 1"] by (cases j) auto
  show "succ_chain s (us ! i) (rotate (Suc i) us)"
    unfolding succ_chain_nth
  proof (intro allI impI)
    fix j assume "j < length (rotate (Suc i) us)"
    then have j: "j < ?n" by simp
    have "0 < ?n" using i by linarith
    then have m: "(i + j) mod ?n < ?n" "(Suc i + j) mod ?n < ?n" by (blast intro: mod_less_divisor)+
    have "Suc ((i + j) mod ?n) mod ?n = (Suc i + j) mod ?n" by (simp add: mod_Suc_eq)
    then have "succ_of s (us ! ((i + j) mod ?n)) = us ! ((Suc i + j) mod ?n)"
      using succ_of_nth [OF p m(1)] by simp
    then show "rotate (Suc i) us ! j \<noteq> 0 \<and> tasks s (rotate (Suc i) us ! j) \<noteq> None \<and>
        succ_of s ((us ! i # rotate (Suc i) us) ! j) = rotate (Suc i) us ! j"
      using task_path_nth [OF p m(2)] r [OF j] r' [OF j] by auto
  qed
  have ne: "us \<noteq> []" using i by auto
  then have "last (rotate (Suc i) us) = rotate (Suc i) us ! (?n - 1)" by (simp add: last_conv_nth)
  also have "\<dots> = us ! ((Suc i + (?n - 1)) mod ?n)" by (rule r) (use i in simp)
  also have "Suc i + (?n - 1) = i + ?n" using i by simp
  also have "(i + ?n) mod ?n = i" using i by simp
  finally show "last (rotate (Suc i) us) = us ! i" .
qed

text \<open>The flags after the choice of \<open>n\<close>.\<close>

definition run_flags :: "u32 \<Rightarrow> u32 \<Rightarrow> kst \<Rightarrow> u32 \<Rightarrow> task option" where
  "run_flags fr n s t = map_option (\<lambda>x. x\<lparr>t_flag :=
     (let f = (if t = fr then t_flag x AND NOT TASK_FLG_RUNNING else t_flag x) in
      if t = n then f OR TASK_FLG_RUNNING else f)\<rparr>) (tasks s t)"

lemma sched_pick_ok:
  assumes p: "task_path (tasks s) (task_first s) us" and d: "distinct us" and i: "i < length us" "task_current s = us ! i"
    and idle: "x86_task_idle \<in> set us" "\<not> task_blocked s x86_task_idle"
  shows "\<exists>n. find (\<lambda>t. \<not> task_blocked s t) (rotate (Suc i) us) = Some n \<and> n \<in> set us \<and>
    sched_pick s = Inr (s\<lparr>tasks := run_flags (us ! i) n s, task_current := n\<rparr>)"
proof -
  let ?fr = "us ! i"
  obtain x where x: "tasks s ?fr = Some x" "?fr \<noteq> 0" using task_path_nth [OF p i(1)] by blast
  define s2 where "s2 = s\<lparr>tasks := (tasks s)(?fr := Some (x\<lparr>t_flag := t_flag x AND NOT TASK_FLG_RUNNING\<rparr>))\<rparr>"
  have u: "upd_task ?fr (\<lambda>x. x\<lparr>t_flag := t_flag x AND NOT TASK_FLG_RUNNING\<rparr>) s = Inr s2"
    using x by (simp add: upd_task_def get_task_def obj_def s2_def)
  have nx: "map_option t_next (tasks s2 v) = map_option t_next (tasks s v)" for v using x by (simp add: s2_def)
  have bl: "task_blocked s2 v = task_blocked s v" for v
    using x by (simp add: task_blocked_def s2_def has_flag_bit flag_bits)
  have p2: "task_path (tasks s2) (task_first s2) us"
    using p task_path_cong [of us "tasks s2" "tasks s"] nx by (simp add: s2_def)
  have "\<exists>v \<in> set (rotate (Suc i) us). \<not> task_blocked s v" using idle by auto
  then obtain n where n: "find (\<lambda>t. \<not> task_blocked s t) (rotate (Suc i) us) = Some n"
    by (cases "find (\<lambda>t. \<not> task_blocked s t) (rotate (Suc i) us)") (auto simp: find_None_iff simp del: rotate_Suc)
  then have nu: "n \<in> set us" "\<not> task_blocked s n"
    by (auto simp: find_Some_iff simp del: rotate_Suc) (metis nth_mem set_rotate length_rotate)
  have pl: "pick_loop ?fr ?fr s2 = Some (Inr n)"
  proof (rule pick_loop_chain)
    show "succ_chain s2 ?fr (rotate (Suc i) us)" by (rule rotate_chain(1) [OF p2 i(1)])
    show "find (\<lambda>t. \<not> task_blocked s2 t) (rotate (Suc i) us) = Some n" using n by (simp only: bl)
    show "?fr \<in> set (rotate (Suc i) us) \<longrightarrow> ?fr = last (rotate (Suc i) us)" using rotate_chain(2) [OF p i(1)] by simp
    show "distinct (rotate (Suc i) us)" using d by (simp only: distinct_rotate)
  qed (use x in \<open>simp_all add: s2_def\<close>)
  obtain y where y: "tasks s2 n = Some y" "n \<noteq> 0" using task_path_mem [OF p2 nu(1)] by blast
  have yb: "\<not> blocked y" using nu(2) y bl [of n] by (simp add: task_blocked_def)
  have "(tasks s2)(n := Some (y\<lparr>t_flag := t_flag y OR TASK_FLG_RUNNING\<rparr>)) = run_flags ?fr n s"
  proof
    fix t
    show "((tasks s2)(n := Some (y\<lparr>t_flag := t_flag y OR TASK_FLG_RUNNING\<rparr>))) t = run_flags ?fr n s t"
      using x(1) y(1) by (cases "tasks s t") (auto simp: run_flags_def s2_def split: if_splits)
  qed
  moreover have "sched_pick s = Inr (s2\<lparr>task_current := n, tasks := (tasks s2)(n := Some (y\<lparr>t_flag := t_flag y OR TASK_FLG_RUNNING\<rparr>))\<rparr>)"
    using i(2) u pl y yb
    by (simp add: sched_pick_def Let_def get_task_def upd_task_def obj_def)
  ultimately have "sched_pick s = Inr (s\<lparr>tasks := run_flags ?fr n s, task_current := n\<rparr>)"
    by (simp add: s2_def)
  then show ?thesis using n nu(1) by blast
qed

section \<open>One switch\<close>

text \<open>What a switch does to a task: it wakes it when it is due, and the flag \<open>RUNNING\<close> follows the choice.\<close>

definition after_switch :: "kst \<Rightarrow> u32 list \<Rightarrow> u32 \<Rightarrow> u32 \<Rightarrow> task \<Rightarrow> task" where
  "after_switch s us n t x =
     (let x = (if t = x86_task_idle then x else woken s us x);
          f = (if t = task_current s then t_flag x AND NOT TASK_FLG_RUNNING else t_flag x)
      in x\<lparr>t_flag := (if t = n then f OR TASK_FLG_RUNNING else f)\<rparr>)"

definition switched :: "kst \<Rightarrow> u32 list \<Rightarrow> u32 \<Rightarrow> kst \<Rightarrow> bool" where
  "switched s us n s' \<longleftrightarrow> task_current s' = n \<and> task_first s' = task_first s \<and> task_last s' = task_last s \<and>
     systime s' = systime s \<and> tasking_entry s' = tasking_entry s \<and> ctls_like (ctls s') (ctls s) \<and>
     (\<forall>t \<in> set us. tasks s' t = map_option (after_switch s us n t) (tasks s t))"

definition none_stopped :: "kst \<Rightarrow> u32 list \<Rightarrow> bool" where
  "none_stopped s us \<longleftrightarrow> (\<forall>t \<in> set us. \<forall>x. tasks s t = Some x \<longrightarrow> \<not> has_flag TASK_FLG_STOP x)"

lemma sched_wf_list_ok: "sched_wf s us \<Longrightarrow> none_stopped s us \<Longrightarrow> list_ok s us"
  unfolding sched_wf_def list_ok_def none_stopped_def by (auto split: if_splits)

lemma sched_wf_task:
  assumes "sched_wf s us" "t \<in> set us" "tasks s t = Some x"
  shows "if t = x86_task_idle then t_ctl x = 0 \<and> \<not> blocked x \<and> \<not> has_flag TASK_FLG_STOP x
    else t_ctl x \<noteq> 0 \<and> ctls s (t_ctl x) \<noteq> None" "has_flag TASK_FLG_RUNNING x \<Longrightarrow> t = task_current s"
proof -
  from assms(1) have "\<forall>t \<in> set us. \<forall>x. tasks s t = Some x \<longrightarrow>
        (if t = x86_task_idle then t_ctl x = 0 \<and> \<not> blocked x \<and> \<not> has_flag TASK_FLG_STOP x
         else t_ctl x \<noteq> 0 \<and> ctls s (t_ctl x) \<noteq> None) \<and>
        (has_flag TASK_FLG_RUNNING x \<longrightarrow> t = task_current s)"
    unfolding sched_wf_def by (elim conjE)
  then show "if t = x86_task_idle then t_ctl x = 0 \<and> \<not> blocked x \<and> \<not> has_flag TASK_FLG_STOP x
      else t_ctl x \<noteq> 0 \<and> ctls s (t_ctl x) \<noteq> None" "has_flag TASK_FLG_RUNNING x \<Longrightarrow> t = task_current s"
    using assms(2,3) by blast+
qed

lemma sched_wf_mem: "sched_wf s us \<Longrightarrow> t \<in> set us \<Longrightarrow> t \<noteq> 0 \<and> (\<exists>x. tasks s t = Some x)"
  using task_path_mem [of "tasks s" "task_first s" us t] by (simp add: sched_wf_def)

lemma ready_unblocked:
  assumes "sched_wf s us" "t \<in> set us"
  shows "ready s us t \<longleftrightarrow> \<not> blocked (if t = x86_task_idle then the (tasks s t) else woken s us (the (tasks s t)))"
proof -
  obtain x where x: "tasks s t = Some x" using sched_wf_mem [OF assms] by blast
  have "t = x86_task_idle \<Longrightarrow> \<not> blocked x" using assms x by (auto simp: sched_wf_def)
  then show ?thesis using x
    by (auto simp: ready_def woken_def has_flag_bit flag_bits)
qed

lemma switch_ok:
  assumes wf: "sched_wf s us" and st: "none_stopped s us" and te: "\<not> tasking_entry s" and i: "i < length us" "task_current s = us ! i"
  shows "\<exists>n s'. find (ready s us) (rotate (Suc i) us) = Some n \<and> n \<in> set us \<and>
    x86_task_switch s = Inr s' \<and> switched s us n s'"
proof -
  define s0 where "s0 = mm_set (mm_kernel (kmm s)) s"
  have s0: "tasks s0 = tasks s" "ctls s0 = ctls s" "task_first s0 = task_first s" "task_last s0 = task_last s"
    "task_current s0 = task_current s" "systime s0 = systime s" "tasking_entry s0 = tasking_entry s"
    by (simp_all add: s0_def mm_set_def)
  have wk: "woken s0 us = woken s us"
  proof -
    have "pid_alive s0 us p = pid_alive s us p" for p by (simp add: pid_alive_def pid_is_def s0)
    then have "due s0 us x = due s us x" for x by (simp add: due_def s0 split: option.splits)
    then show ?thesis by (simp add: woken_def fun_eq_iff)
  qed
  have lo: "list_ok s us" by (rule sched_wf_list_ok [OF wf st])
  then have lo0: "list_ok s0 us" by (simp add: list_ok_def s0)
  have p: "task_path (tasks s0) (task_first s0) us" and d: "distinct us" using wf by (simp_all add: sched_wf_def s0)
  obtain g where g: "update_loop (task_first s0) 0 s0 = Some (Inr (s0\<lparr>tasks := passed s0 us us, ctls := g\<rparr>))" "ctls_like g (ctls s0)"
    using update_loop_ok [OF p lo0 order_refl d] by blast
  define s1 where "s1 = s0\<lparr>tasks := passed s0 us us, ctls := g\<rparr>"
  have s1: "task_first s1 = task_first s" "task_current s1 = us ! i" by (simp_all add: s1_def s0 i)
  have t1: "tasks s1 v = (if v \<in> set us \<and> v \<noteq> x86_task_idle then map_option (woken s us) (tasks s v) else tasks s v)" for v
    by (simp add: s1_def passed_def wk s0)
  have "map_option t_next (tasks s1 v) = map_option t_next (tasks s v)" for v
    by (cases "tasks s v") (auto simp: t1)
  then have p1: "task_path (tasks s1) (task_first s1) us"
    using p task_path_cong [of us "tasks s1" "tasks s0"] by (simp add: s1 s0)
  have idle: "x86_task_idle \<in> set us" using wf by (metis hd_in_set sched_wf_def)
  have bl: "task_blocked s1 v \<longleftrightarrow> \<not> ready s us v" if "v \<in> set us" for v
    using ready_unblocked [OF wf that] that sched_wf_mem [OF wf that] by (auto simp: task_blocked_def t1)
  have "\<not> task_blocked s1 x86_task_idle"
    using bl [OF idle] sched_wf_mem [OF wf idle] by (auto simp: ready_def)
  from sched_pick_ok [OF p1 d i(1) s1(2) idle this] obtain n where
    n: "find (\<lambda>t. \<not> task_blocked s1 t) (rotate (Suc i) us) = Some n" "n \<in> set us"
      "sched_pick s1 = Inr (s1\<lparr>tasks := run_flags (us ! i) n s1, task_current := n\<rparr>)" by blast
  have "find (ready s us) (rotate (Suc i) us) = find (\<lambda>t. \<not> task_blocked s1 t) (rotate (Suc i) us)"
    by (rule find_cong) (use bl in auto)
  moreover have "x86_task_switch s = Inr (s1\<lparr>tasks := run_flags (us ! i) n s1, task_current := n\<rparr>)"
    using te g(1) n(3) by (simp add: x86_task_switch_def Let_def s0_def [symmetric] s1_def [symmetric] s0)
  moreover have "switched s us n (s1\<lparr>tasks := run_flags (us ! i) n s1, task_current := n\<rparr>)"
    unfolding switched_def
    using g(2) by (auto simp: s1_def s0 passed_def wk run_flags_def after_switch_def i Let_def option.map_comp comp_def intro!: map_option_cong)
  ultimately show ?thesis using n by auto
qed

lemma after_switch_simps [simp]:
  "t_ctl (after_switch s us n t x) = t_ctl x" "t_next (after_switch s us n t x) = t_next x"
  by (simp_all add: after_switch_def Let_def)

lemma after_switch_bits:
  "bit (t_flag (after_switch s us n t x)) m \<longleftrightarrow>
     (if m = 0 then t = n \<or> (t \<noteq> task_current s \<and> bit (t_flag x) 0)
      else if m = 2 \<and> t \<noteq> x86_task_idle then bit (t_flag (woken s us x)) 2
      else bit (t_flag x) m)"
  by (auto simp: after_switch_def Let_def woken_def flag_bits)

lemma switched_wf:
  assumes wf: "sched_wf s us" and sw: "switched s us n s'" and n: "n \<in> set us"
  shows "sched_wf s' us"
proof -
  have t: "tasks s' v = map_option (after_switch s us n v) (tasks s v)" if "v \<in> set us" for v
    using sw that by (simp add: switched_def)
  have like: "ctls_like (ctls s') (ctls s)" using sw by (simp add: switched_def)
  have "task_path (tasks s') p us = task_path (tasks s) p us" for p
    by (rule task_path_cong) (simp add: t option.map_comp comp_def)
  moreover have "inj_on (\<lambda>t. map_option t_ctl (tasks s' t)) (set us) = inj_on (\<lambda>t. map_option t_ctl (tasks s t)) (set us)"
    by (rule inj_on_cong) (simp add: t option.map_comp comp_def)
  moreover have "(if v = x86_task_idle then t_ctl y = 0 \<and> \<not> blocked y \<and> \<not> has_flag TASK_FLG_STOP y
      else t_ctl y \<noteq> 0 \<and> ctls s' (t_ctl y) \<noteq> None) \<and> (has_flag TASK_FLG_RUNNING y \<longrightarrow> v = n)"
    if v: "v \<in> set us" "tasks s' v = Some y" for v y
  proof -
    obtain x where x: "tasks s v = Some x" "y = after_switch s us n v x" using v t [OF v(1)] by auto
    have o: "if v = x86_task_idle then t_ctl x = 0 \<and> \<not> blocked x \<and> \<not> has_flag TASK_FLG_STOP x
        else t_ctl x \<noteq> 0 \<and> ctls s (t_ctl x) \<noteq> None" "has_flag TASK_FLG_RUNNING x \<longrightarrow> v = task_current s"
      using sched_wf_task [OF wf v(1) x(1)] by blast+
    show ?thesis using o x(2) ctls_like_None [OF like, of "t_ctl x"]
      by (auto simp: has_flag_bit after_switch_bits)
  qed
  ultimately show ?thesis using wf sw n by (simp add: sched_wf_def switched_def)
qed

lemma switched_flags:
  assumes "switched s us n s'" "v \<in> set us" "tasks s' v = Some y"
  obtains x where "tasks s v = Some x" "bit (t_flag y) 1 = bit (t_flag x) 1" "bit (t_flag y) 3 = bit (t_flag x) 3"
    "bit (t_flag y) 2 \<longrightarrow> bit (t_flag x) 2" "bit (t_flag y) 0 \<longleftrightarrow> v = n \<or> v \<noteq> task_current s \<and> bit (t_flag x) 0"
  using assms by (auto simp: switched_def after_switch_bits woken_def flag_bits split: if_splits)

text \<open>The invariant of the running system: the list is well-formed, no task in it is stopped.\<close>

definition sched_inv :: "kst \<Rightarrow> u32 list \<Rightarrow> bool" where
  "sched_inv s us \<longleftrightarrow> sched_wf s us \<and> \<not> tasking_entry s \<and> none_stopped s us"

lemma switch_inv:
  assumes "sched_inv s us"
  shows "\<exists>i n s'. i < length us \<and> task_current s = us ! i \<and> find (ready s us) (rotate (Suc i) us) = Some n \<and> n \<in> set us \<and>
    x86_task_switch s = Inr s' \<and> switched s us n s' \<and> sched_inv s' us"
proof -
  have wf: "sched_wf s us" and te: "\<not> tasking_entry s" and st: "none_stopped s us" using assms by (simp_all add: sched_inv_def)
  obtain i where i: "i < length us" "task_current s = us ! i"
    using wf by (metis in_set_conv_nth sched_wf_def)
  obtain n s' where n: "find (ready s us) (rotate (Suc i) us) = Some n" "n \<in> set us"
    "x86_task_switch s = Inr s'" "switched s us n s'"
    using switch_ok [OF wf st te i] by blast
  have "sched_inv s' us"
    unfolding sched_inv_def
  proof (intro conjI)
    show "sched_wf s' us" by (rule switched_wf [OF wf n(4,2)])
    show "\<not> tasking_entry s'" using n(4) te by (simp add: switched_def)
    show "none_stopped s' us"
      unfolding none_stopped_def has_flag_bit using switched_flags [OF n(4)] st
      by (metis none_stopped_def has_flag_bit(2))
  qed
  then show ?thesis using n i by blast
qed

text \<open>
  C3: a switch in a well-formed system without stopped tasks always returns. It wakes exactly the
  tasks whose time has come or whose awaited task is gone, and gives the processor to the first
  ready task after the current one in the order of the list, going around, the current one last; the
  flag \<open>RUNNING\<close> is then set on that task and on no other, and the list stays well-formed.
\<close>

theorem sched_round_robin:
  assumes "sched_wf s us" "\<not> tasking_entry s" "none_stopped s us" "i < length us" "task_current s = us ! i"
  shows "\<exists>s'. x86_task_switch s = Inr s' \<and> sched_wf s' us \<and>
    find (ready s us) (rotate (Suc i) us) = Some (task_current s') \<and>
    (\<forall>t \<in> set us. \<forall>x. tasks s t = Some x \<longrightarrow> tasks s' t = Some (after_switch s us (task_current s') t x)) \<and>
    (\<forall>t \<in> set us. \<forall>x. tasks s' t = Some x \<longrightarrow> (has_flag TASK_FLG_RUNNING x \<longleftrightarrow> t = task_current s'))"
proof -
  obtain n s' where n: "find (ready s us) (rotate (Suc i) us) = Some n" "n \<in> set us"
    "x86_task_switch s = Inr s'" "switched s us n s'"
    using switch_ok [OF assms(1,3,2,4,5)] by blast
  have wf': "sched_wf s' us" by (rule switched_wf [OF assms(1) n(4,2)])
  have cur: "task_current s' = n" using n(4) by (simp add: switched_def)
  have "has_flag TASK_FLG_RUNNING x \<longleftrightarrow> t = n" if "t \<in> set us" "tasks s' t = Some x" for t x
    using cur switched_flags [OF n(4) that] sched_wf_task(2) [OF wf' that] unfolding has_flag_bit by metis
  then show ?thesis using n wf' cur by (auto simp: switched_def)
qed

end
