(* ===== verification/Syscall.thy ===== *)
theory Syscall
  imports Tasks
begin

text \<open>
  The system calls (\<open>src/src/arch/x86/syscall.c\<close>, \<open>src/include/uapi/syscall.h\<close>). The saved registers of the
  caller are the context object at the address \<open>regs\<close>. The one register that a driver writes later
  through a pointer, \<open>eax\<close> during a read that has not completed, is the memory word at
  \<open>regs + 48\<close>. The kernel's static and local buffers lie at fixed addresses or are lists of bytes.
\<close>

section \<open>Numbers\<close>

definition SYSCALL_NR_EXIT :: u32 where "SYSCALL_NR_EXIT = 0x01"
definition SYSCALL_NR_FORK :: u32 where "SYSCALL_NR_FORK = 0x02"
definition SYSCALL_NR_READ :: u32 where "SYSCALL_NR_READ = 0x03"
definition SYSCALL_NR_WRITE :: u32 where "SYSCALL_NR_WRITE = 0x04"
definition SYSCALL_NR_OPEN :: u32 where "SYSCALL_NR_OPEN = 0x05"
definition SYSCALL_NR_CLOSE :: u32 where "SYSCALL_NR_CLOSE = 0x06"
definition SYSCALL_NR_WAITPID :: u32 where "SYSCALL_NR_WAITPID = 0x07"
definition SYSCALL_NR_EXECVE :: u32 where "SYSCALL_NR_EXECVE = 0x0B"
definition SYSCALL_NRX_FEXECVE :: u32 where "SYSCALL_NRX_FEXECVE = 0x11"
definition SYSCALL_NR_GETPID :: u32 where "SYSCALL_NR_GETPID = 0x14"
definition SYSCALL_NR_KILL :: u32 where "SYSCALL_NR_KILL = 0x25"
definition SYSCALL_NR_NANOSLEEP :: u32 where "SYSCALL_NR_NANOSLEEP = 0xA2"
definition SYSCALL_NRX_SIGNAL :: u32 where "SYSCALL_NRX_SIGNAL = 0x30"
definition SYSCALL_NRX_SIGRETURN :: u32 where "SYSCALL_NRX_SIGRETURN = 0x77"

lemmas syscall_numbers = SYSCALL_NR_EXIT_def SYSCALL_NR_FORK_def SYSCALL_NR_READ_def SYSCALL_NR_WRITE_def
  SYSCALL_NR_OPEN_def SYSCALL_NR_CLOSE_def SYSCALL_NR_WAITPID_def SYSCALL_NR_EXECVE_def SYSCALL_NRX_FEXECVE_def
  SYSCALL_NR_GETPID_def SYSCALL_NR_KILL_def SYSCALL_NR_NANOSLEEP_def SYSCALL_NRX_SIGNAL_def SYSCALL_NRX_SIGRETURN_def

definition EBADF :: u32 where "EBADF = 9"
definition ENFILE :: u32 where "ENFILE = 23"

section \<open>Reading and writing\<close>

definition cur_task :: "kst \<Rightarrow> task res" where
  "cur_task s = get_task (task_current s) s"

definition cur_ctl :: "kst \<Rightarrow> task_ctl res" where
  "cur_ctl s = bindR (cur_task s) (\<lambda>x. get_ctl (t_ctl x) s)"

definition upd_cur_ctl :: "(task_ctl \<Rightarrow> task_ctl) \<Rightarrow> kst \<Rightarrow> kst res" where
  "upd_cur_ctl g s = bindR (cur_task s) (\<lambda>x. upd_ctl (t_ctl x) g s)"

definition sys_exit :: "kst \<Rightarrow> kst res" where
  "sys_exit s = upd_task (task_current s) (\<lambda>x. x\<lparr>t_flag := t_flag x OR TASK_FLG_STOP\<rparr>) s"

text \<open>The directory entry on the stack of \<open>sys_read\<close>: what it holds before, and its bytes.\<close>

definition junk_dirent :: "kst \<Rightarrow> vfs_dirent" where
  "junk_dirent s = (let m = (\<lambda>a. junk_mem s (unat a)) in
     \<lparr>d_ino = load32 m 0, d_off = load32 m 4, d_reclen = ucast (load16 m 8), d_type = m 10,
      d_name = map (\<lambda>i. junk_mem s (11 + i)) [0..<256]\<rparr>)"

definition dirent_bytes :: "kst \<Rightarrow> vfs_dirent \<Rightarrow> bytes" where
  "dirent_bytes s d = word_bytes (d_ino d) @ word_bytes (d_off d) @
     [ucast (d_reclen d), ucast (drop_bit 8 (d_reclen d)), d_type d] @ d_name d @ [junk_mem s 267]"

abbreviation dirent_size :: u32 where "dirent_size \<equiv> 268"

definition sys_read :: "u32 \<Rightarrow> u32 \<Rightarrow> u32 \<Rightarrow> u32 \<Rightarrow> kst \<Rightarrow> (kst \<times> u32) res" where
  "sys_read fd buf len ret s =
     (if \<not> fd < 4 then Inr (s, - 1)
      else
        bindR (cur_ctl s) (\<lambda>c.
        bindR (rd (fds c) (unat fd)) (\<lambda>fp.
          if fp = 0 then Inr (s, - 1)
          else
            bindR (get_file fp s) (\<lambda>x.
              if nz (f_flags x AND VFS_FLG_DIR) then
                assertR (len = dirent_size)
                  (bindR (vfs_readdir fp (junk_dirent s) s) (\<lambda>(s, ent, r).
                   bindR (if 0 \<le>s r then
                            bindR (cur_task s) (\<lambda>t.
                            bindR (mm_memcpy_kernel_to_user (t_pd t) buf (dirent_bytes s ent) dirent_size (kmm s)) (\<lambda>m.
                            Inr (s\<lparr>kmm := m\<rparr>)))
                          else Inr s) (\<lambda>s. Inr (s, r))))
              else
                assertR (ret \<noteq> 0)
                  (bindR (vwrite32 ret 0 s) (vfs_read fp buf len ret))))))"

text \<open>The static buffer of \<open>sys_write\<close>.\<close>

definition tmp_buf :: u32 where "tmp_buf = 0xC0142000"

text \<open>
  The loop: the source address \<open>buf\<close> is the same in every round.
\<close>

function write_loop :: "u32 \<Rightarrow> u32 \<Rightarrow> u32 \<Rightarrow> u32 \<Rightarrow> kst \<Rightarrow> (kst \<times> u32) res" where
  "write_loop fp buf left written s =
     (if left = 0 then Inr (s, written)
      else
        (let n = (if left > 512 then 512 else left) in
         bindR (cur_task s) (\<lambda>t.
         bindR (mm_memcpy_user_to_kernel (t_pd t) buf n (kmm s)) (\<lambda>(m, bs).
         bindR (vwrites tmp_buf bs (s\<lparr>kmm := m\<rparr>)) (\<lambda>s.
         bindR (vfs_write fp tmp_buf n s) (\<lambda>(s, res).
           if res \<noteq> n then Inr (s, if written = 0 then res else written)
           else write_loop fp buf (left - n) (written + res) s))))))"
  by pat_completeness auto

termination
  by (relation "measure (\<lambda>(fp, buf, left, written, s). unat left)")
    (auto simp: word_less_nat_alt unat_sub word_le_nat_alt unat_gt_0)

declare write_loop.simps [simp del]

definition sys_write :: "u32 \<Rightarrow> u32 \<Rightarrow> u32 \<Rightarrow> kst \<Rightarrow> (kst \<times> u32) res" where
  "sys_write fd buf len s =
     (if \<not> fd < 4 then Inr (s, - 1)
      else
        bindR (cur_ctl s) (\<lambda>c.
        bindR (rd (fds c) (unat fd)) (\<lambda>fp.
          if fp = 0 then Inr (s, - 1) else write_loop fp buf len 0 s)))"

section \<open>Files\<close>

fun free_fd_loop :: "nat list \<Rightarrow> u32 list \<Rightarrow> nat option res" where
  "free_fd_loop [] fs = Inr None"
| "free_fd_loop (i # is) fs = bindR (rd fs i) (\<lambda>f. if f = 0 then Inr (Some i) else free_fd_loop is fs)"

text \<open>A path copied into a local array of 256 bytes.\<close>

definition path_array :: "bytes \<Rightarrow> kst \<Rightarrow> bytes" where
  "path_array out s = out @ drop (length out) (junk 256 s)"

definition user_path :: "u32 \<Rightarrow> kst \<Rightarrow> (kst \<times> bytes \<times> u32) res" where
  "user_path p s =
     bindR (cur_task s) (\<lambda>t.
     bindR (mm_strncpy_user_to_kernel (t_pd t) p 256 (kmm s)) (\<lambda>(m, out, n).
     Inr (s\<lparr>kmm := m\<rparr>, path_array out s, n)))"

definition sys_open :: "u32 \<Rightarrow> u32 \<Rightarrow> u32 \<Rightarrow> kst \<Rightarrow> (kst \<times> u32) res" where
  "sys_open path flags mode s =
     bindR (cur_ctl s) (\<lambda>c.
     bindR (free_fd_loop [0..<4] (fds c)) (\<lambda>free.
       case free of None \<Rightarrow> Inr (s, - ENFILE)
       | Some i \<Rightarrow>
           bindR (user_path path s) (\<lambda>(s, path, n).
           assertR (0 <s n)
             (let vfsm = (if nz (mode AND 1) then VFS_FLG_RD else 0) OR (if nz (mode AND 2) then VFS_FLG_WR else 0) in
              bindR (if nz (flags AND VFS_FLG_DIR) then vfs_opendir path s else vfs_open path vfsm s) (\<lambda>(s, f).
                if f = 0 then Inr (s, - ENOENT)
                else bindR (upd_cur_ctl (\<lambda>c. c\<lparr>fds := (fds c)[i := f]\<rparr>) s) (\<lambda>s. Inr (s, of_nat i)))))))"

definition sys_close :: "u32 \<Rightarrow> kst \<Rightarrow> (kst \<times> u32) res" where
  "sys_close fd s =
     (if \<not> fd < 4 then Inr (s, - EBADF)
      else
        bindR (cur_ctl s) (\<lambda>c.
        bindR (rd (fds c) (unat fd)) (\<lambda>f.
          if f \<noteq> 0 then
            bindR (vfs_close f s) (\<lambda>s.
            bindR (upd_cur_ctl (\<lambda>c. c\<lparr>fds := (fds c)[unat fd := 0]\<rparr>) s) (\<lambda>s. Inr (s, 0)))
          else Inr (s, 0))))"

section \<open>Tasks\<close>

definition sys_fork :: "kst \<Rightarrow> (kst \<times> u32) res" where
  "sys_fork s =
     bindR (task_fork (task_current s) s) (\<lambda>(s, t).
       if t \<noteq> 0 then bindR (get_task t s) (\<lambda>x. bindR (get_ctl (t_ctl x) s) (\<lambda>c. Inr (s, c_pid c)))
       else Inr (s, - 1))"

definition sys_waitpid :: "u32 \<Rightarrow> u32 \<Rightarrow> kst \<Rightarrow> (kst \<times> u32) res" where
  "sys_waitpid pid wstatus s =
     assertR (wstatus = 0)
       (bindR (upd_task (task_current s) (\<lambda>x. x\<lparr>t_flag := TASK_FLG_WAIT, wait_type := TASK_WAIT_PID\<rparr>) s) (\<lambda>s.
        bindR (upd_cur_ctl (\<lambda>c. c\<lparr>sleep_deadline := scast pid\<rparr>) s) (\<lambda>s.
        bindR (x86_task_switch s) (\<lambda>s. Inr (s, 0)))))"

definition sys_execve :: "u32 \<Rightarrow> u32 \<Rightarrow> u32 \<Rightarrow> kst \<Rightarrow> (kst \<times> u32) res" where
  "sys_execve path argp envp s =
     assertR (argp = 0 \<or> envp = 0)
       (bindR (user_path path s) (\<lambda>(s, path, _). task_execve (task_current s) path argp envp s))"

definition sys_fexecve :: "u32 \<Rightarrow> u32 \<Rightarrow> u32 \<Rightarrow> kst \<Rightarrow> (kst \<times> u32) res" where
  "sys_fexecve path argp envp s =
     assertR (argp = 0 \<or> envp = 0)
       (bindR (user_path path s) (\<lambda>(s, path, _).
        bindR (task_fexecve path s) (\<lambda>(s, t). Inr (s, if t \<noteq> 0 then 0 else - 1))))"

definition le_word :: "bytes \<Rightarrow> u64" where
  "le_word bs = foldr (\<lambda>b w. push_bit 8 w OR ucast b) bs 0"

definition timespec_of :: "bytes \<Rightarrow> timespec" where
  "timespec_of bs = \<lparr>tv_sec = le_word (take 8 bs), tv_nsec = le_word (take 8 (drop 8 bs))\<rparr>"

definition sys_nanosleep :: "u32 \<Rightarrow> kst \<Rightarrow> (kst \<times> u32) res" where
  "sys_nanosleep ts_user s =
     bindR (cur_task s) (\<lambda>t.
     bindR (mm_memcpy_user_to_kernel (t_pd t) ts_user 16 (kmm s)) (\<lambda>(m, bs).
     (let ts = timespec_of bs; s = s\<lparr>kmm := m\<rparr> in
      if tv_sec ts \<noteq> 0 \<or> tv_nsec ts \<noteq> 0 then
        bindR (task_set_sleep (task_current s) ts s) (\<lambda>s.
        bindR (upd_task (task_current s) (\<lambda>x. x\<lparr>t_flag := t_flag x OR TASK_FLG_WAIT, wait_type := TASK_WAIT_SLEEP\<rparr>) s) (\<lambda>s.
        bindR (upd_ctx (esp0 t) (\<lambda>g. g\<lparr>x_eax := 0\<rparr>) s) (\<lambda>s.
        bindR (x86_task_switch s) (\<lambda>s. Inr (s, 0)))))
      else Inr (s, 0))))"

definition sys_kill :: "u32 \<Rightarrow> u32 \<Rightarrow> kst \<Rightarrow> (kst \<times> u32) res" where
  "sys_kill pid sig s =
     assertR (pid \<noteq> 0)
       (bindR (task_by_pid pid s) (\<lambda>t.
          if t \<noteq> 0 then
            bindR (get_task t s) (\<lambda>x.
            assertR (t_ctl x \<noteq> 0)
              (bindR (upd_ctl (t_ctl x) (\<lambda>c. c\<lparr>pending_signal := sig\<rparr>) s) (\<lambda>s.
               bindR (x86_task_enter_signal t s) (\<lambda>(s, _). Inr (s, 0)))))
          else Inr (s, - 1)))"

text \<open>The current task with a control structure that has a signal context.\<close>

definition has_sigctx :: "kst \<Rightarrow> task_ctl res" where
  "has_sigctx s =
     assertR (task_current s \<noteq> 0)
       (bindR (cur_task s) (\<lambda>x. assertR (t_ctl x \<noteq> 0)
         (bindR (get_ctl (t_ctl x) s) (\<lambda>c. assertR (sigctx c \<noteq> 0) (Inr c)))))"

definition sys_signal :: "u32 \<Rightarrow> u32 \<Rightarrow> kst \<Rightarrow> (kst \<times> u32) res" where
  "sys_signal signum sighandler s =
     assertR (signum = 0)
       (bindR (has_sigctx s) (\<lambda>_.
        bindR (upd_task (task_current s) (\<lambda>x. x\<lparr>sigeip := sighandler, sigesp := 0x80001000\<rparr>) s) (\<lambda>s. Inr (s, 0))))"

definition sys_sigreturn :: "kst \<Rightarrow> (kst \<times> u32) res" where
  "sys_sigreturn s =
     bindR (has_sigctx s) (\<lambda>c.
     assertR (pending_signal c \<noteq> 0)
       (bindR (upd_cur_ctl (\<lambda>c. c\<lparr>pending_signal := 0\<rparr>) s) (\<lambda>s.
        bindR (x86_task_exit_signal (task_current s) s) (\<lambda>(s, _). Inr (s, 0)))))"

section \<open>The handler\<close>

definition set_eax :: "u32 \<Rightarrow> kst \<times> u32 \<Rightarrow> kst res" where
  "set_eax regs = (\<lambda>(s, v). upd_ctx regs (\<lambda>g. g\<lparr>x_eax := v\<rparr>) s)"

definition x86_syscall :: "u32 \<Rightarrow> kst \<Rightarrow> kst res" where
  "x86_syscall regs s =
     (let s = mm_set (mm_kernel (kmm s)) s in
      bindR (get_ctx regs s) (\<lambda>g.
      let nr = x_eax g; b = x_ebx g; c = x_ecx g; d = x_edx g; ret = set_eax regs in
        if nr = SYSCALL_NR_EXIT then
          bindR (upd_ctx regs (\<lambda>g. g\<lparr>x_ebx := b AND 0xFF\<rparr>) s) (\<lambda>s. bindR (sys_exit s) x86_task_switch)
        else if nr = SYSCALL_NR_FORK then bindR (sys_fork s) ret
        else if nr = SYSCALL_NR_OPEN then bindR (sys_open b c d s) ret
        else if nr = SYSCALL_NR_CLOSE then bindR (sys_close b s) (\<lambda>(s, _). Inr s)
        else if nr = SYSCALL_NR_READ then
          bindR (cur_task s) (\<lambda>t.
          bindR (sys_read b c d (regs + 48) (mm_set (t_pd t) s)) (\<lambda>(s, res).
            if res = VFS_READ_ASYNC then bindR (task_busy (task_current s) s) x86_task_switch
            else ret (s, res)))
        else if nr = SYSCALL_NR_WRITE then bindR (sys_write b c d s) ret
        else if nr = SYSCALL_NR_WAITPID then bindR (sys_waitpid b c s) ret
        else if nr = SYSCALL_NR_EXECVE then bindR (sys_execve b c d s) ret
        else if nr = SYSCALL_NRX_FEXECVE then bindR (sys_fexecve b c d s) ret
        else if nr = SYSCALL_NR_GETPID then
          bindR (cur_task s) (\<lambda>t. assertR (t_ctl t \<noteq> 0)
            (bindR (get_ctl (t_ctl t) s) (\<lambda>k. ret (s, c_pid k))))
        else if nr = SYSCALL_NR_NANOSLEEP then bindR (sys_nanosleep b s) ret
        else if nr = SYSCALL_NR_KILL then bindR (sys_kill b c s) ret
        else if nr = SYSCALL_NRX_SIGNAL then bindR (sys_signal b c s) ret
        else if nr = SYSCALL_NRX_SIGRETURN then bindR (sys_sigreturn s) ret
        else Inl Panic))"

end
