(* ===== verification/SchedInv.thy ===== *)
theory SchedInv
  imports Sched Syscall
begin

text \<open>
  The running system as a step relation: the timer and the system calls by which tasks go to sleep,
  wait, block and are woken. The invariant of the scheduler holds in every state that the steps
  reach, and a task that can run gets the processor after a bounded number of switches.
\<close>

section \<open>A bounded wait\<close>

definition timer_tick :: "u64 \<Rightarrow> kst \<Rightarrow> kst res" where
  "timer_tick d s = x86_task_switch (s\<lparr>systime := systime s + d\<rparr>)"

definition runnable :: "kst \<Rightarrow> u32 \<Rightarrow> bool" where
  "runnable s t \<longleftrightarrow> (\<exists>x. tasks s t = Some x \<and> \<not> blocked x)"

lemma sched_inv_time [simp]: "sched_inv (s\<lparr>systime := v\<rparr>) us = sched_inv s us"
  by (simp add: sched_inv_def sched_wf_def none_stopped_def)

lemma runnable_ready: "runnable s t \<Longrightarrow> ready (s\<lparr>systime := v\<rparr>) us t"
  by (auto simp: runnable_def ready_def has_flag_bit)

lemma tick_inv:
  assumes inv: "sched_inv s us" and i: "i < length us" "task_current s = us ! i"
  shows "\<exists>n s'. timer_tick d s = Inr s' \<and> sched_inv s' us \<and> task_current s' = n \<and>
    find (ready (s\<lparr>systime := systime s + d\<rparr>) us) (rotate (Suc i) us) = Some n \<and>
    (\<forall>t \<in> set us. runnable s t \<longrightarrow> runnable s' t)"
proof -
  let ?s = "s\<lparr>systime := systime s + d\<rparr>"
  obtain j n s' where n: "j < length us" "task_current ?s = us ! j" "find (ready ?s us) (rotate (Suc j) us) = Some n"
    "x86_task_switch ?s = Inr s'" "switched ?s us n s'" "sched_inv s' us"
    using switch_inv [of ?s us] inv by auto
  have "distinct us" using inv by (simp add: sched_inv_def sched_wf_def)
  then have "j = i" using n(1,2) i by (simp add: nth_eq_iff_index_eq)
  moreover have "runnable s' t" if "t \<in> set us" "runnable s t" for t
    using that n(5) by (auto simp: runnable_def switched_def has_flag_bit after_switch_bits woken_def flag_bits)
  ultimately show ?thesis using n by (auto simp: timer_tick_def switched_def)
qed

lemma wait_bound:
  assumes "sched_inv s us" "i < length us" "task_current s = us ! i" "k < length us" "rotate (Suc i) us ! k = t"
    "runnable s t" "length ds = Suc k"
  shows "\<exists>j \<le> k. \<exists>s'. foldR timer_tick (take (Suc j) ds) s = Inr s' \<and> task_current s' = t \<and> sched_inv s' us"
  using assms
proof (induction k arbitrary: s i ds rule: less_induct)
  case (less k)
  obtain d es where ds: "ds = d # es" "length es = k" using less.prems(7) by (cases ds) auto
  let ?n = "length us" and ?r = "rotate (Suc i) us"
  have tu: "t \<in> set us" using less.prems(4,5) by (metis length_rotate nth_mem set_rotate)
  obtain n s' where n: "timer_tick d s = Inr s'" "sched_inv s' us" "task_current s' = n"
    "find (ready (s\<lparr>systime := systime s + d\<rparr>) us) ?r = Some n" "\<forall>t \<in> set us. runnable s t \<longrightarrow> runnable s' t"
    using tick_inv [OF less.prems(1-3), of d] by blast
  obtain m where m: "m < ?n" "n = ?r ! m" "\<forall>j < m. \<not> ready (s\<lparr>systime := systime s + d\<rparr>) us (?r ! j)"
    using n(4) unfolding find_Some_iff by auto
  have "\<not> k < m" using m(3) runnable_ready [OF less.prems(6)] less.prems(5) by auto
  then consider "m = k" | "m < k" by linarith
  then show ?case
  proof cases
    case 1
    then show ?thesis using n m less.prems(5) ds by (intro exI [of _ 0]) simp
  next
    case 2
    define i' where "i' = (Suc i + m) mod ?n"
    have i': "i' < ?n" using less.prems(2) unfolding i'_def by (intro mod_less_divisor) linarith
    have cur: "task_current s' = us ! i'"
      using n(3) m(1,2) by (simp add: nth_rotate i'_def add.commute del: rotate_Suc)
    have k': "k - Suc m < k" "k - Suc m < ?n" using 2 less.prems(4) by auto
    have "rotate (Suc i') us ! (k - Suc m) = us ! ((Suc i' + (k - Suc m)) mod ?n)"
      using k' by (simp add: nth_rotate add.commute del: rotate_Suc)
    also have "(Suc i' + (k - Suc m)) mod ?n = (Suc i + k) mod ?n"
    proof -
      have "Suc i' + (k - Suc m) = i' + (k - m)" using 2 by simp
      then have "(Suc i' + (k - Suc m)) mod ?n = ((Suc i + m) mod ?n + (k - m)) mod ?n" by (simp only: i'_def)
      also have "\<dots> = (Suc i + m + (k - m)) mod ?n" by (rule mod_add_left_eq)
      finally show ?thesis using 2 by simp
    qed
    also have "us ! ((Suc i + k) mod ?n) = t"
      using less.prems(4,5) by (simp add: nth_rotate add.commute del: rotate_Suc)
    finally have "rotate (Suc i') us ! (k - Suc m) = t" .
    from less.IH [OF k'(1) n(2) i' cur k'(2) this, of "take (Suc (k - Suc m)) es"] n(5) tu less.prems(6) ds(2) 2
    obtain j s2 where "j \<le> k - Suc m" "foldR timer_tick (take (Suc j) (take (Suc (k - Suc m)) es)) s' = Inr s2"
      "task_current s2 = t" "sched_inv s2 us" by auto
    then show ?thesis using n(1) ds 2 by (intro exI [of _ "Suc j"]) (auto simp: min_def split: if_splits)
  qed
qed

text \<open>
  C6: no ready task starves: whatever the clock does, a task of the list that neither waits nor is
  busy is given the processor after at most as many timer interrupts as there are tasks.
\<close>

theorem sched_bounded_wait:
  assumes "sched_inv s us" "t \<in> set us" "runnable s t" "length ds = length us"
  shows "\<exists>j < length us. \<exists>s'. foldR timer_tick (take (Suc j) ds) s = Inr s' \<and> task_current s' = t"
proof -
  obtain i where i: "i < length us" "task_current s = us ! i"
    using assms(1) by (metis in_set_conv_nth sched_inv_def sched_wf_def)
  obtain k where k: "k < length us" "rotate (Suc i) us ! k = t"
    using assms(2) by (metis in_set_conv_nth length_rotate set_rotate)
  from wait_bound [OF assms(1) i k assms(3), of "take (Suc k) ds"] k(1) assms(4)
  obtain j s' where "j \<le> k" "foldR timer_tick (take (Suc j) (take (Suc k) ds)) s = Inr s'" "task_current s' = t" by auto
  moreover have "take (Suc j) (take (Suc k) ds) = take (Suc j) ds" using \<open>j \<le> k\<close> by (simp add: min_def)
  ultimately show ?thesis using k(1) by (metis le_less_trans)
qed

section \<open>The steps\<close>

inductive sched_step :: "kst \<Rightarrow> kst \<Rightarrow> bool" where
  timer: "timer_tick d s = Inr s' \<Longrightarrow> sched_step s s'"
| sleep: "task_current s \<noteq> x86_task_idle \<Longrightarrow> sys_nanosleep p s = Inr (s', r) \<Longrightarrow> sched_step s s'"
| waitpid: "task_current s \<noteq> x86_task_idle \<Longrightarrow> sys_waitpid pid st s = Inr (s', r) \<Longrightarrow> sched_step s s'"
| block: "task_current s \<noteq> x86_task_idle \<Longrightarrow> task_busy (task_current s) s = Inr s1 \<Longrightarrow> x86_task_switch s1 = Inr s' \<Longrightarrow>
    sched_step s s'"
| unblock: "task_nobusy t s = Inr s' \<Longrightarrow> sched_step s s'"
| kill: "sys_kill pid sig s = Inr (s', r) \<Longrightarrow> sched_step s s'"
| handler: "sys_signal n h s = Inr (s', r) \<Longrightarrow> sched_step s s'"
| sigret: "sys_sigreturn s = Inr (s', r) \<Longrightarrow> sched_step s s'"

inductive_cases sched_stepE: "sched_step s s'"

text \<open>
  Most operations change a task or a control structure without touching what the invariant speaks of.
\<close>

definition sched_sim :: "u32 list \<Rightarrow> kst \<Rightarrow> kst \<Rightarrow> bool" where
  "sched_sim us s s' \<longleftrightarrow> task_first s' = task_first s \<and> task_last s' = task_last s \<and> task_current s' = task_current s \<and>
     tasking_entry s' = tasking_entry s \<and> (\<forall>a. ctls s a \<noteq> None \<longrightarrow> ctls s' a \<noteq> None) \<and>
     (\<forall>t \<in> set us. \<forall>x. tasks s t = Some x \<longrightarrow> (\<exists>y. tasks s' t = Some y \<and> t_ctl y = t_ctl x \<and> t_next y = t_next x \<and>
        (has_flag TASK_FLG_STOP y \<longrightarrow> has_flag TASK_FLG_STOP x) \<and> (has_flag TASK_FLG_RUNNING y \<longrightarrow> has_flag TASK_FLG_RUNNING x) \<and>
        (t = x86_task_idle \<longrightarrow> blocked y \<longrightarrow> blocked x)))"

lemma sched_sim_inv:
  assumes inv: "sched_inv s us" and sim: "sched_sim us s s'"
  shows "sched_inv s' us"
proof -
  have wf: "sched_wf s us" using inv by (simp add: sched_inv_def)
  have ex: "\<exists>x y. tasks s t = Some x \<and> tasks s' t = Some y \<and> t_ctl y = t_ctl x \<and> t_next y = t_next x \<and>
      (has_flag TASK_FLG_STOP y \<longrightarrow> has_flag TASK_FLG_STOP x) \<and> (has_flag TASK_FLG_RUNNING y \<longrightarrow> has_flag TASK_FLG_RUNNING x) \<and>
      (t = x86_task_idle \<longrightarrow> blocked y \<longrightarrow> blocked x)" if "t \<in> set us" for t
    using sched_wf_mem [OF wf that] sim that by (auto simp: sched_sim_def)
  have nx: "map_option t_next (tasks s' t) = map_option t_next (tasks s t)"
    and ct: "map_option t_ctl (tasks s' t) = map_option t_ctl (tasks s t)" if "t \<in> set us" for t
    using ex [OF that] by auto
  have "task_path (tasks s') p us = task_path (tasks s) p us" for p by (rule task_path_cong) (rule nx)
  moreover have "inj_on (\<lambda>t. map_option t_ctl (tasks s' t)) (set us) = inj_on (\<lambda>t. map_option t_ctl (tasks s t)) (set us)"
    by (rule inj_on_cong) (rule ct)
  moreover have "(if t = x86_task_idle then t_ctl y = 0 \<and> \<not> blocked y \<and> \<not> has_flag TASK_FLG_STOP y
      else t_ctl y \<noteq> 0 \<and> ctls s' (t_ctl y) \<noteq> None) \<and> (has_flag TASK_FLG_RUNNING y \<longrightarrow> t = task_current s')"
    if t: "t \<in> set us" "tasks s' t = Some y" for t y
  proof -
    obtain x where x: "tasks s t = Some x" "t_ctl y = t_ctl x"
      "has_flag TASK_FLG_STOP y \<longrightarrow> has_flag TASK_FLG_STOP x" "has_flag TASK_FLG_RUNNING y \<longrightarrow> has_flag TASK_FLG_RUNNING x"
      "t = x86_task_idle \<longrightarrow> blocked y \<longrightarrow> blocked x" using ex [OF t(1)] t(2) by auto
    have c: "ctls s (t_ctl x) \<noteq> None \<longrightarrow> ctls s' (t_ctl x) \<noteq> None" "task_current s' = task_current s"
      using sim by (simp_all add: sched_sim_def)
    show ?thesis using sched_wf_task [OF wf t(1) x(1)] x(2-5) c by (auto split: if_splits)
  qed
  moreover have "none_stopped s' us"
    using ex inv unfolding none_stopped_def sched_inv_def by (metis option.inject)
  ultimately show ?thesis
    using inv sim by (simp add: sched_inv_def sched_wf_def sched_sim_def)
qed

lemma sched_sim_refl [simp]: "sched_sim us s s"
  by (simp add: sched_sim_def)

lemma sched_sim_trans:
  assumes "sched_sim us s s'" "sched_sim us s' s2"
  shows "sched_sim us s s2"
  unfolding sched_sim_def
proof (intro conjI ballI allI impI)
  fix t x assume t: "t \<in> set us" "tasks s t = Some x"
  obtain y where y: "tasks s' t = Some y" "t_ctl y = t_ctl x \<and> t_next y = t_next x \<and>
      (has_flag TASK_FLG_STOP y \<longrightarrow> has_flag TASK_FLG_STOP x) \<and> (has_flag TASK_FLG_RUNNING y \<longrightarrow> has_flag TASK_FLG_RUNNING x) \<and>
      (t = x86_task_idle \<longrightarrow> blocked y \<longrightarrow> blocked x)" using assms(1) t unfolding sched_sim_def by blast
  obtain z where "tasks s2 t = Some z" "t_ctl z = t_ctl y \<and> t_next z = t_next y \<and>
      (has_flag TASK_FLG_STOP z \<longrightarrow> has_flag TASK_FLG_STOP y) \<and> (has_flag TASK_FLG_RUNNING z \<longrightarrow> has_flag TASK_FLG_RUNNING y) \<and>
      (t = x86_task_idle \<longrightarrow> blocked z \<longrightarrow> blocked y)" using assms(2) t(1) y(1) unfolding sched_sim_def by blast
  then show "\<exists>y. tasks s2 t = Some y \<and> t_ctl y = t_ctl x \<and> t_next y = t_next x \<and>
      (has_flag TASK_FLG_STOP y \<longrightarrow> has_flag TASK_FLG_STOP x) \<and> (has_flag TASK_FLG_RUNNING y \<longrightarrow> has_flag TASK_FLG_RUNNING x) \<and>
      (t = x86_task_idle \<longrightarrow> blocked y \<longrightarrow> blocked x)" using y(2) by auto
qed (use assms in \<open>auto simp: sched_sim_def\<close>)

lemma sim_upd_task:
  assumes "upd_task t g s = Inr s'"
    and "\<And>x. tasks s t = Some x \<Longrightarrow> t_ctl (g x) = t_ctl x \<and> t_next (g x) = t_next x \<and>
      (has_flag TASK_FLG_STOP (g x) \<longrightarrow> has_flag TASK_FLG_STOP x) \<and> (has_flag TASK_FLG_RUNNING (g x) \<longrightarrow> has_flag TASK_FLG_RUNNING x) \<and>
      (t = x86_task_idle \<longrightarrow> blocked (g x) \<longrightarrow> blocked x)"
  shows "sched_sim us s s'"
  using assms by (auto simp: upd_task_def get_task_def bindR_eq_Inr obj_eq_Inr sched_sim_def)

lemma sim_upd_ctl: "upd_ctl p g s = Inr s' \<Longrightarrow> sched_sim us s s'"
  by (auto simp: upd_ctl_def get_ctl_def bindR_eq_Inr obj_eq_Inr sched_sim_def)

lemma sim_upd_ctx: "upd_ctx p g s = Inr s' \<Longrightarrow> sched_sim us s s'"
  by (auto simp: upd_ctx_def get_ctx_def bindR_eq_Inr obj_eq_Inr sched_sim_def)

lemma sim_kmm: "sched_sim us s (s\<lparr>kmm := m\<rparr>)"
  by (simp add: sched_sim_def)

lemma sim_switch: "sched_inv s us \<Longrightarrow> sched_sim us s s1 \<Longrightarrow> x86_task_switch s1 = Inr s' \<Longrightarrow> sched_inv s' us"
  using switch_inv [OF sched_sim_inv] by fastforce

lemma sim_nanosleep:
  assumes inv: "sched_inv s us" and idle: "task_current s \<noteq> x86_task_idle" and r: "sys_nanosleep p s = Inr (s', r)"
  shows "sched_inv s' us"
proof -
  obtain t m bs where t: "cur_task s = Inr t" "mm_memcpy_user_to_kernel (t_pd t) p 16 (kmm s) = Inr (m, bs)"
    using r by (auto simp: sys_nanosleep_def bindR_eq_Inr)
  define s1 where "s1 = s\<lparr>kmm := m\<rparr>"
  have k: "sched_sim us s s1" by (simp add: s1_def sim_kmm)
  show ?thesis
  proof (cases "tv_sec (timespec_of bs) \<noteq> 0 \<or> tv_nsec (timespec_of bs) \<noteq> 0")
    case False
    then have "s' = s1" using r t by (simp add: sys_nanosleep_def s1_def)
    then show ?thesis using sched_sim_inv [OF inv k] by simp
  next
    case True
    then obtain s2 s3 s4 where
      s2: "task_set_sleep (task_current s1) (timespec_of bs) s1 = Inr s2" and
      s3: "upd_task (task_current s2) (\<lambda>x. x\<lparr>t_flag := t_flag x OR TASK_FLG_WAIT, wait_type := TASK_WAIT_SLEEP\<rparr>) s2 = Inr s3" and
      s4: "upd_ctx (esp0 t) (\<lambda>g. g\<lparr>x_eax := 0\<rparr>) s3 = Inr s4" and sw: "x86_task_switch s4 = Inr s'"
      using r t by (auto simp: sys_nanosleep_def bindR_eq_Inr s1_def [symmetric] Let_def)
    have "sched_sim us s1 s2" using s2 by (auto simp: task_set_sleep_def bindR_eq_Inr intro: sim_upd_ctl)
    moreover have "task_current s2 \<noteq> x86_task_idle" using idle calculation k by (simp add: sched_sim_def)
    then have "sched_sim us s2 s3"
      by (intro sim_upd_task [OF s3]) (auto simp: has_flag_bit flag_bits)
    ultimately have "sched_sim us s s4"
      using k sim_upd_ctx [OF s4] sched_sim_trans by blast
    then show ?thesis by (rule sim_switch [OF inv _ sw])
  qed
qed

lemma sim_waitpid:
  assumes inv: "sched_inv s us" and idle: "task_current s \<noteq> x86_task_idle" and r: "sys_waitpid pid st s = Inr (s', r)"
  shows "sched_inv s' us"
proof -
  obtain s1 s2 where s1: "upd_task (task_current s) (\<lambda>x. x\<lparr>t_flag := TASK_FLG_WAIT, wait_type := TASK_WAIT_PID\<rparr>) s = Inr s1"
    and s2: "upd_cur_ctl (\<lambda>c. c\<lparr>sleep_deadline := scast pid\<rparr>) s1 = Inr s2" and sw: "x86_task_switch s2 = Inr s'"
    using r by (auto simp: sys_waitpid_def bindR_eq_Inr assertR_def split: if_splits)
  have "sched_sim us s s1"
    by (rule sim_upd_task [OF s1]) (use idle in \<open>auto simp: has_flag_bit TASK_FLG_WAIT_def\<close>)
  moreover have "sched_sim us s1 s2" using s2 by (auto simp: upd_cur_ctl_def bindR_eq_Inr intro: sim_upd_ctl)
  ultimately have "sched_sim us s s2" by (rule sched_sim_trans)
  then show ?thesis by (rule sim_switch [OF inv _ sw])
qed

lemma sim_kill:
  assumes r: "sys_kill pid sig s = Inr (s', r)"
  shows "sched_sim us s s'"
proof -
  obtain t where t: "task_by_pid pid s = Inr t" using r by (auto simp: sys_kill_def bindR_eq_Inr assertR_def split: if_splits)
  show ?thesis
  proof (cases "t = 0")
    case True
    then show ?thesis using r t by (auto simp: sys_kill_def assertR_def split: if_splits)
  next
    case False
    then obtain x s1 r' where s1: "get_task t s = Inr x" "upd_ctl (t_ctl x) (\<lambda>c. c\<lparr>pending_signal := sig\<rparr>) s = Inr s1"
      "x86_task_enter_signal t s1 = Inr (s', r')"
      using r t by (auto simp: sys_kill_def bindR_eq_Inr assertR_def split: if_splits)
    have a: "sched_sim us s s1" by (rule sim_upd_ctl [OF s1(2)])
    have f: "sched_sim us q q'" if "upd_task t (\<lambda>x. x\<lparr>t_flag := t_flag x AND NOT TASK_FLG_WAIT\<rparr>) q = Inr q'" for q q'
      by (rule sim_upd_task [OF that]) (auto simp: has_flag_bit flag_bits)
    have e: "sched_sim us q q'" if "upd_task t (\<lambda>x. x\<lparr>esp0 := v\<rparr>) q = Inr q'" for q q' v
      by (rule sim_upd_task [OF that]) (auto simp: has_flag_def blocked_def)
    have "sched_sim us s1 s'"
      using s1(3) unfolding x86_task_enter_signal_def
      by (auto simp: bindR_eq_Inr assertR_def split: if_splits
          intro!: sched_sim_refl dest!: sim_upd_ctx [where us = us] f e intro: sched_sim_trans)
    then show ?thesis using a sched_sim_trans by blast
  qed
qed

lemma sched_step_inv: "sched_step s s' \<Longrightarrow> sched_inv s us \<Longrightarrow> sched_inv s' us"
proof (elim sched_stepE)
  fix d assume "sched_inv s us" "timer_tick d s = Inr s'"
  then show ?thesis
    using switch_inv [of "s\<lparr>systime := systime s + d\<rparr>" us] by (auto simp: timer_tick_def)
next
  fix s1 assume a: "sched_inv s us" "task_current s \<noteq> x86_task_idle" "task_busy (task_current s) s = Inr s1" "x86_task_switch s1 = Inr s'"
  have "sched_sim us s s1"
    by (rule sim_upd_task [OF a(3) [unfolded task_busy_def]]) (use a(2) in \<open>auto simp: has_flag_bit flag_bits\<close>)
  then show ?thesis using sim_switch [OF a(1) _ a(4)] by blast
next
  fix t assume a: "sched_inv s us" "task_nobusy t s = Inr s'"
  have "sched_sim us s s'"
    by (rule sim_upd_task [OF a(2) [unfolded task_nobusy_def]]) (auto simp: has_flag_bit flag_bits)
  then show ?thesis using sched_sim_inv [OF a(1)] by blast
next
  fix n h r assume a: "sched_inv s us" "sys_signal n h s = Inr (s', r)"
  then obtain v where u: "upd_task (task_current s) (\<lambda>x. x\<lparr>sigeip := h, sigesp := 0x80001000\<rparr>) s = Inr s'"
    by (auto simp: sys_signal_def bindR_eq_Inr assertR_def split: if_splits)
  have "sched_sim us s s'" by (rule sim_upd_task [OF u]) (auto simp: has_flag_def blocked_def)
  then show ?thesis using sched_sim_inv [OF a(1)] by blast
next
  fix r assume a: "sched_inv s us" "sys_sigreturn s = Inr (s', r)"
  then obtain s1 r' where s1: "upd_cur_ctl (\<lambda>c. c\<lparr>pending_signal := 0\<rparr>) s = Inr s1"
    "x86_task_exit_signal (task_current s1) s1 = Inr (s', r')"
    by (auto simp: sys_sigreturn_def bindR_eq_Inr assertR_def split: if_splits)
  have "sched_sim us s s1" using s1(1) by (auto simp: upd_cur_ctl_def bindR_eq_Inr intro: sim_upd_ctl)
  moreover have e: "sched_sim us q q'" if "upd_task t (\<lambda>x. x\<lparr>esp0 := ebp0 x - v\<rparr>) q = Inr q'" for q q' v t
    by (rule sim_upd_task [OF that]) (auto simp: has_flag_def blocked_def)
  have "sched_sim us s1 s'"
    using s1(2) by (auto simp: x86_task_exit_signal_def bindR_eq_Inr assertR_def split: if_splits dest!: e)
  ultimately show ?thesis using sched_sim_inv [OF a(1)] sched_sim_trans by blast
qed (blast intro: sim_nanosleep sim_waitpid sched_sim_inv sim_kill)+

text \<open>
  C7: in every state that the running system reaches by timer interrupts, sleeping, waiting,
  blocking, waking and signals, the list of tasks is well-formed, no task but the current one has
  the flag \<open>RUNNING\<close>, and the next timer interrupt returns: the scheduler never gets stuck.
\<close>

theorem sched_reachable_safe:
  assumes "sched_step\<^sup>*\<^sup>* s s'" "sched_inv s us"
  shows "sched_wf s' us \<and> (\<forall>t \<in> set us. \<forall>x. tasks s' t = Some x \<longrightarrow> has_flag TASK_FLG_RUNNING x \<longrightarrow> t = task_current s') \<and>
    (\<forall>d. \<exists>s2. timer_tick d s' = Inr s2 \<and> sched_step s' s2)"
proof -
  have inv: "sched_inv s' us" using assms by (induction rule: rtranclp_induct) (auto intro: sched_step_inv)
  then have wf: "sched_wf s' us" by (simp add: sched_inv_def)
  have "\<exists>s2. timer_tick d s' = Inr s2" for d
    using switch_inv [of "s'\<lparr>systime := systime s' + d\<rparr>" us] inv by (auto simp: timer_tick_def)
  then show ?thesis using wf sched_wf_task(2) [OF wf] sched_step.timer by blast
qed

section \<open>A stopped task\<close>

lemma task_destroy_gone: "task_destroy t s = Inr s' \<Longrightarrow> tasks s' t = None"
  by (auto simp: task_destroy_def bindR_eq_Inr)

lemma wake_tasks: "wake t x s = Inr s' \<Longrightarrow> \<forall>v. v \<noteq> t \<longrightarrow> tasks s' v = tasks s v"
  by (auto simp: wake_def Let_def upd_task_def upd_ctl_def bindR_eq_Inr split: if_splits)

lemma update_loop_stopped:
  assumes "task_path (tasks s) p vs" "distinct vs"
    "\<exists>t \<in> set vs. t \<noteq> x86_task_idle \<and> (\<exists>x. tasks s t = Some x \<and> has_flag TASK_FLG_STOP x)"
  shows "update_loop p tp s \<noteq> Some (Inr s')"
  using assms
proof (induction vs arbitrary: p tp s)
  case (Cons t vs)
  obtain x where x: "p = t" "t \<noteq> 0" "tasks s t = Some x" "task_path (tasks s) (t_next x) vs" using Cons.prems(1) by auto
  have l: "update_loop p tp s =
      (if t = x86_task_idle then update_loop (t_next x) t s
       else if has_flag TASK_FLG_STOP x then
         (case reap t x tp s of Inl e \<Rightarrow> Some (Inl e)
          | Inr s \<Rightarrow> (case get_task t s of Inl e \<Rightarrow> Some (Inl e) | Inr x \<Rightarrow> update_loop (t_next x) tp s))
       else (case wake t x s of Inl e \<Rightarrow> Some (Inl e) | Inr s \<Rightarrow> update_loop (t_next x) t s))"
    unfolding x(1) using x(2,3) by (subst update_loop.simps) (simp add: get_task_def obj_def has_flag_def)
  show ?case
  proof (cases "t \<noteq> x86_task_idle \<and> has_flag TASK_FLG_STOP x")
    case True
    have "get_task t s2 = Inl UseAfterFree" if "reap t x tp s = Inr s2" for s2
      using that x(2) task_destroy_gone [of t _ s2]
      by (auto simp: reap_def bindR_eq_Inr assertR_def Let_def get_task_def obj_def split: if_splits)
    then show ?thesis using True l by (auto split: sum.splits)
  next
    case False
    then have tl: "\<exists>t \<in> set vs. t \<noteq> x86_task_idle \<and> (\<exists>x. tasks s t = Some x \<and> has_flag TASK_FLG_STOP x)"
      using Cons.prems(3) x(3) by auto
    have "update_loop (t_next x) t s2 \<noteq> Some (Inr s')" if s2: "\<forall>v. v \<noteq> t \<longrightarrow> tasks s2 v = tasks s v" for s2
    proof (rule Cons.IH)
      have nt: "t \<notin> set vs" "distinct vs" using Cons.prems(2) by auto
      show "distinct vs" by (rule nt(2))
      show "task_path (tasks s2) (t_next x) vs"
        using x(4) task_path_cong [of vs "tasks s2" "tasks s"] s2 nt(1) by force
      show "\<exists>t \<in> set vs. t \<noteq> x86_task_idle \<and> (\<exists>x. tasks s2 t = Some x \<and> has_flag TASK_FLG_STOP x)"
        using tl s2 nt(1) by metis
    qed
    then show ?thesis using False l wake_tasks [of t x s] by (auto split: sum.splits)
  qed
qed simp

text \<open>A switch away from a current task that has been stopped cannot return.\<close>

lemma stopped_switch_faults:
  assumes "sched_inv s us" "task_current s \<noteq> x86_task_idle" "tasks s (task_current s) = Some x"
    "tasks s1 = (tasks s)(task_current s := Some (x\<lparr>t_flag := t_flag x OR TASK_FLG_STOP\<rparr>))" "task_first s1 = task_first s" "\<not> tasking_entry s1"
  shows "\<exists>e. x86_task_switch s1 = Inl e"
proof -
  have wf: "sched_wf s us" using assms(1) by (simp add: sched_inv_def)
  then have cur: "task_current s \<in> set us" by (simp add: sched_wf_def)
  define s2 where "s2 = mm_set (mm_kernel (kmm s1)) s1"
  have s2: "tasks s2 = tasks s1" "task_first s2 = task_first s" "\<not> tasking_entry s2"
    using assms(5,6) by (simp_all add: s2_def mm_set_def)
  have "task_path (tasks s2) (task_first s2) us"
  proof -
    have "map_option t_next (tasks s2 v) = map_option t_next (tasks s v)" for v using assms(3) by (simp add: s2(1) assms(4))
    then have "task_path (tasks s2) p us = task_path (tasks s) p us" for p by (intro task_path_cong)
    then show ?thesis using wf by (simp add: s2(2) sched_wf_def)
  qed
  moreover have "distinct us" using wf by (simp add: sched_wf_def)
  moreover have "\<exists>t \<in> set us. t \<noteq> x86_task_idle \<and> (\<exists>x. tasks s2 t = Some x \<and> has_flag TASK_FLG_STOP x)"
  proof -
    have "has_flag TASK_FLG_STOP (x\<lparr>t_flag := t_flag x OR TASK_FLG_STOP\<rparr>)" by (simp add: has_flag_bit flag_bits)
    moreover have "tasks s2 (task_current s) = Some (x\<lparr>t_flag := t_flag x OR TASK_FLG_STOP\<rparr>)" by (simp add: s2 assms(4))
    ultimately show ?thesis using cur assms(2) by blast
  qed
  ultimately have "update_loop (task_first s2) 0 s2 \<noteq> Some (Inr s')" for s' by (rule update_loop_stopped)
  then have "\<exists>e. endless (update_loop (task_first s2) 0 s2) = Inl e"
    by (cases "update_loop (task_first s2) 0 s2") (auto split: sum.splits, metis sum.exhaust_sel)
  then show ?thesis using s2(3) by (auto simp: x86_task_switch_def Let_def s2_def [symmetric])
qed

lemma sched_inv_current:
  assumes "sched_inv s us"
  shows "\<exists>x. tasks s (task_current s) = Some x \<and> task_current s \<noteq> 0"
proof -
  have wf: "sched_wf s us" using assms by (simp add: sched_inv_def)
  moreover from wf have "task_current s \<in> set us" by (simp add: sched_wf_def)
  ultimately show ?thesis using sched_wf_mem by blast
qed


section \<open>A concrete system\<close>

definition ex_tk :: "u32 \<Rightarrow> u32 \<Rightarrow> u32 \<Rightarrow> u32 \<Rightarrow> task" where
  "ex_tk fl wt c nx = \<lparr>esp0 = 0, ebp0 = 0, esp3_bottom = 0, esp3_size = 0, sigeip = 0, sigesp = 0, t_flag = fl,
     wait_type = wt, t_pd = 0, t_ctl = c, t_next = nx\<rparr>"

definition ex_ctl :: "u64 \<Rightarrow> u32 \<Rightarrow> task_ctl" where
  "ex_ctl d p = ctl_zero\<lparr>sleep_deadline := d, c_pid := p\<rparr>"

text \<open>The first task runs, the second sleeps until 20, the third can run; it is 10.\<close>

definition ex_sched :: kst where
  "ex_sched = ex_kst\<lparr>tasks := [x86_task_idle \<mapsto> ex_tk 0 0 0 0xC0200000, 0xC0200000 \<mapsto> ex_tk 1 0 0xC0201000 0xC0200100,
       0xC0200100 \<mapsto> ex_tk 4 1 0xC0201100 0xC0200200, 0xC0200200 \<mapsto> ex_tk 0 0 0xC0201200 0],
     ctls := [0xC0201000 \<mapsto> ex_ctl 0 1, 0xC0201100 \<mapsto> ex_ctl 20 2, 0xC0201200 \<mapsto> ex_ctl 0 3],
     task_current := 0xC0200000, task_first := x86_task_idle, task_last := 0xC0200200, tasking_entry := False,
     systime := 10\<rparr>"

abbreviation ex_us :: "u32 list" where "ex_us \<equiv> [x86_task_idle, 0xC0200000, 0xC0200100, 0xC0200200]"

lemma ex_sched_inv: "sched_inv ex_sched ex_us"
  unfolding sched_inv_def sched_wf_def none_stopped_def
  by (simp add: ex_sched_def x86_task_idle_def ex_tk_def has_flag_bit inj_on_def)

theorem sched_round_robin_witness:
  "\<exists>s'. x86_task_switch ex_sched = Inr s' \<and> task_current s' = 0xC0200200"
proof -
  have inv: "sched_wf ex_sched ex_us" "\<not> tasking_entry ex_sched" "none_stopped ex_sched ex_us"
    using ex_sched_inv by (simp_all add: sched_inv_def)
  have cur: "task_current ex_sched = ex_us ! 1" by (simp add: ex_sched_def)
  have "\<not> ready ex_sched ex_us 0xC0200100"
    by (simp add: ready_def due_def ex_sched_def ex_tk_def ex_ctl_def has_flag_bit x86_task_idle_def
        TASK_WAIT_SLEEP_def TASK_WAIT_PID_def)
  moreover have "ready ex_sched ex_us 0xC0200200"
    by (simp add: ready_def ex_sched_def ex_tk_def has_flag_bit x86_task_idle_def)
  ultimately have "find (ready ex_sched ex_us) (rotate (Suc 1) ex_us) = Some 0xC0200200" by simp
  then show ?thesis using sched_round_robin [OF inv _ cur] by auto
qed

theorem sched_bounded_wait_witness:
  "\<exists>j < length ex_us. \<exists>s'. foldR timer_tick (take (Suc j) [1, 0, 5, 2]) ex_sched = Inr s' \<and> task_current s' = 0xC0200200"
proof -
  have "runnable ex_sched 0xC0200200"
    by (simp add: runnable_def ex_sched_def ex_tk_def has_flag_bit x86_task_idle_def)
  moreover have "length ex_us = 4" by simp
  ultimately show ?thesis using sched_bounded_wait [OF ex_sched_inv, of "0xC0200200" "[1, 0, 5, 2]"] by simp
qed

theorem sched_reachable_safe_witness:
  "\<exists>s' s2. sched_step ex_sched s' \<and> sched_wf s' ex_us \<and> timer_tick 7 s' = Inr s2"
proof -
  obtain s' where s': "sched_step ex_sched s'"
    using tick_inv [OF ex_sched_inv, of 1 3] sched_step.timer by (force simp: ex_sched_def)
  then have "sched_step\<^sup>*\<^sup>* ex_sched s'" by blast
  from sched_reachable_safe [OF this ex_sched_inv] s' show ?thesis by blast
qed


end
