(* ===== verification/SyscallProps.thy ===== *)
theory SyscallProps
  imports SchedInv UserCopy
begin

text \<open>
  What the system calls on descriptors do: the table of descriptors, and the bytes that a write to
  the terminal sends.
\<close>

section \<open>Writing to the terminal\<close>

text \<open>The current task \<open>t\<close> has the file \<open>f\<close>, a writable terminal that shows on the console.\<close>

definition tty_open :: "kst \<Rightarrow> task \<Rightarrow> u32 \<Rightarrow> nat \<Rightarrow> bool" where
  "tty_open s t f i \<longleftrightarrow> task_current s \<noteq> 0 \<and> tasks s (task_current s) = Some t \<and> f \<noteq> 0 \<and>
     (\<exists>y. files s f = Some y \<and> nz (f_flags y AND VFS_FLG_WR) \<and> file_type y = VFS_TYPE_CHR \<and> f_dev y = Some (Dev_tty i)) \<and>
     d_write (devs s (Dev_tty i)) = Some Drv_tty \<and> ttyparam s i = 0"

definition user_bytes :: "kst \<Rightarrow> task \<Rightarrow> u32 \<Rightarrow> nat \<Rightarrow> bytes" where
  "user_bytes s t p n = map (\<lambda>j. ram (kmm s) (phys_of (kmm s) (t_pd t) (p + of_nat j))) [0..<n]"

definition user_buf :: "kst \<Rightarrow> task \<Rightarrow> u32 \<Rightarrow> nat \<Rightarrow> bool" where
  "user_buf s t p n \<longleftrightarrow> space_wf (kmm s) (mm_kernel (kmm s)) \<and> unat p + n + 4096 \<le> 2 ^ 32 \<and>
     (\<forall>j < n. copyable (kmm s) (t_pd t) (p + of_nat j))"

text \<open>What the terminal shows after \<open>n\<close> bytes: rounds of 512 bytes, each from the start of the buffer.\<close>

fun shown :: "bytes \<Rightarrow> nat \<Rightarrow> bytes" where
  "shown bs n = (if n \<le> 512 then take n bs else take 512 bs @ shown bs (n - 512))"

declare shown.simps [simp del]

lemma foldR_tty:
  assumes "ttyparam s i = 0" "\<And>j. j < length bs \<Longrightarrow> vread (a + of_nat (k + j)) s = Inr (bs ! j)"
    and vr: "\<And>j x y. vread (a + of_nat j) (s\<lparr>com_out := x, con_out := y\<rparr>) = vread (a + of_nat j) s"
  shows "foldR (\<lambda>j s. bindR (vread (a + of_nat j) s) (\<lambda>c. Inr (tty_write_char i c s))) [k..<k + length bs] s =
    Inr (s\<lparr>com_out := com_out s @ bs, con_out := con_out s @ bs\<rparr>)"
  using assms
proof (induction bs arbitrary: k s)
  case (Cons b bs)
  have "TTY_FLG_SER \<noteq> 0" by (simp add: TTY_FLG_SER_def)
  then have w: "tty_write_char i b s = s\<lparr>com_out := com_out s @ [b], con_out := con_out s @ [b]\<rparr>" (is "_ = ?s")
    using Cons.prems(1) by (simp add: tty_write_char_def)
  have v: "vread (a + of_nat k) s = Inr b" using Cons.prems(2) [of 0] by simp
  have "foldR (\<lambda>j s. bindR (vread (a + of_nat j) s) (\<lambda>c. Inr (tty_write_char i c s))) [Suc k..<Suc k + length bs] ?s =
      Inr (?s\<lparr>com_out := com_out ?s @ bs, con_out := con_out ?s @ bs\<rparr>)"
  proof (rule Cons.IH)
    fix j assume "j < length bs"
    then show "vread (a + of_nat (Suc k + j)) ?s = Inr (bs ! j)"
      using Cons.prems(2) [of "Suc j"] Cons.prems(3) [of "Suc k + j"] by simp
  qed (use Cons.prems(1,3) in simp_all)
  moreover have "[k..<k + length (b # bs)] = k # [Suc k..<Suc k + length bs]" by (simp add: upt_conv_Cons del: upt_Suc)
  ultimately show ?case using v w by simp
qed simp

lemma tty_write_ok:
  assumes "ttyparam s i = 0" "kspan a (length bs)" "holds (kernel_mem s) a bs" "length bs < 2 ^ 32"
  shows "tty_write i a (of_nat (length bs)) s = Inr (s\<lparr>com_out := com_out s @ bs, con_out := con_out s @ bs\<rparr>, of_nat (length bs))"
proof -
  have hi: "KERNEL_VIRT_BASE \<le> a + of_nat j" if "j < length bs" for j
  proof -
    have "unat (a + of_nat j) = unat a + j" using that assms(2) by (simp add: kspan_def unat_word_ariths unat_of_nat)
    then show ?thesis using assms(2) by (auto simp: kspan_def word_le_nat_alt)
  qed
  have n: "unat (of_nat (length bs) :: u32) = length bs" using assms(4) by (intro unat_of_nat_small) simp
  have "foldR (\<lambda>j s. bindR (vread (a + of_nat j) s) (\<lambda>c. Inr (tty_write_char i c s))) [0..<0 + length bs] s =
    Inr (s\<lparr>com_out := com_out s @ bs, con_out := con_out s @ bs\<rparr>)"
  proof (rule foldR_tty [OF assms(1)])
    show "vread (a + of_nat (0 + j)) s = Inr (bs ! j)" if "j < length bs" for j
      using hi [OF that] that assms(3) by (simp add: vread_def holds_def kernel_mem_def)
  qed (auto simp: vread_def bindR_def split: sum.splits)
  then show ?thesis by (simp add: tty_write_def n)
qed

lemma tmp_buf_span: "n \<le> 512 \<Longrightarrow> kspan tmp_buf n"
  by (simp add: kspan_def tmp_buf_def KERNEL_VIRT_BASE_def)

lemma write_round:
  assumes o: "tty_open s t f i" and u: "user_buf s t p n" and n: "0 < n" "n \<le> 512"
  defines "bs \<equiv> user_bytes s t p n"
  obtains s' where "mm_memcpy_user_to_kernel (t_pd t) p (of_nat n) (kmm s) = Inr (kmm s, bs)"
    "bindR (vwrites tmp_buf bs s) (\<lambda>s. vfs_write f tmp_buf (of_nat n) s) = Inr (s', of_nat n)"
    "tty_open s' t f i" "kmm s' = kmm s" "com_out s' = com_out s @ bs" "con_out s' = con_out s @ bs"
proof -
  have lb: "length bs = n" by (simp add: bs_def user_bytes_def)
  obtain y where y: "files s f = Some y" "nz (f_flags y AND VFS_FLG_WR)" "file_type y = VFS_TYPE_CHR" "f_dev y = Some (Dev_tty i)"
    and d: "d_write (devs s (Dev_tty i)) = Some Drv_tty" "ttyparam s i = 0" "f \<noteq> 0"
    using o by (auto simp: tty_open_def)
  define s1 where "s1 = set_mem (store_bytes tmp_buf bs (kernel_mem s)) s"
  have w: "vwrites tmp_buf bs s = Inr s1"
    unfolding s1_def by (rule vwrites_kernel) (use n lb tmp_buf_span in simp)
  have s1: "files s1 = files s" "devs s1 = devs s" "ttyparam s1 = ttyparam s" "com_out s1 = com_out s" "con_out s1 = con_out s"
    "tasks s1 = tasks s" "task_current s1 = task_current s" "kmm s1 = kmm s"
    by (simp_all add: s1_def set_mem_def)
  have "holds (kernel_mem s1) tmp_buf bs"
    using n lb store_bytes_holds [of tmp_buf bs "kernel_mem s"] by (simp add: s1_def tmp_buf_def)
  then have tw: "tty_write i tmp_buf (of_nat n) s1 = Inr (s1\<lparr>com_out := com_out s @ bs, con_out := con_out s @ bs\<rparr>, of_nat n)"
    using tty_write_ok [of s1 i tmp_buf bs] d(2) n lb tmp_buf_span by (simp add: s1)
  have ty: "VFS_TYPE_CHR \<noteq> VFS_TYPE_REG" by (simp add: VFS_TYPE_CHR_def VFS_TYPE_REG_def)
  have "vfs_write f tmp_buf (of_nat n) s1 = Inr (s1\<lparr>com_out := com_out s @ bs, con_out := con_out s @ bs\<rparr>, of_nat n)"
    using y d tw ty by (simp add: vfs_write_def get_file_def obj_def s1 tty_no_def)
  then have v: "bindR (vwrites tmp_buf bs s) (\<lambda>s. vfs_write f tmp_buf (of_nat n) s) =
      Inr (s1\<lparr>com_out := com_out s @ bs, con_out := con_out s @ bs\<rparr>, of_nat n)" using w by simp
  have "mm_memcpy_user_to_kernel (t_pd t) p (of_nat n) (kmm s) = Inr (kmm s, bs)"
    unfolding bs_def user_bytes_def using memcpy_from_user [of "kmm s" p n "t_pd t"] u n by (simp add: user_buf_def)
  moreover have "tty_open (s1\<lparr>com_out := com_out s @ bs, con_out := con_out s @ bs\<rparr>) t f i"
    using o by (simp add: tty_open_def s1)
  ultimately show ?thesis using that [OF _ v] by (simp add: s1)
qed

lemma user_buf_less: "user_buf s t p n \<Longrightarrow> m \<le> n \<Longrightarrow> user_buf s t p m"
  by (auto simp: user_buf_def)

lemma take_user_bytes: "m \<le> n \<Longrightarrow> take m (user_bytes s t p n) = user_bytes s t p m"
  by (simp add: user_bytes_def take_map take_upt)

lemma write_loop_ok:
  assumes "tty_open s t f i" "user_buf s t p (min n 512)" "n + w < 2 ^ 32"
  shows "\<exists>s'. write_loop f p (of_nat n) (of_nat w) s = Inr (s', of_nat (n + w)) \<and> kmm s' = kmm s \<and>
    com_out s' = com_out s @ shown (user_bytes s t p (min n 512)) n \<and> con_out s' = con_out s @ shown (user_bytes s t p (min n 512)) n"
  using assms
proof (induction n arbitrary: s w rule: less_induct)
  case (less n)
  have un: "unat (of_nat n :: u32) = n" using less.prems(3) by (intro unat_of_nat_small) simp
  have cur: "cur_task s = Inr t" using less.prems(1) by (auto simp: cur_task_def get_task_def tty_open_def obj_def)
  show ?case
  proof (cases "n = 0")
    case True
    then show ?thesis by (subst write_loop.simps) (simp add: shown.simps)
  next
    case False
    let ?m = "min n 512" and ?bs = "user_bytes s t p (min n 512)"
    have m: "(if (of_nat n :: u32) > 512 then 512 else of_nat n) = (of_nat ?m :: u32)"
      using un by (auto simp: word_less_nat_alt min_def)
    have nz: "(of_nat n :: u32) \<noteq> 0" using un False by auto
    obtain s1 where s1: "mm_memcpy_user_to_kernel (t_pd t) p (of_nat ?m) (kmm s) = Inr (kmm s, ?bs)"
      "bindR (vwrites tmp_buf ?bs s) (\<lambda>s. vfs_write f tmp_buf (of_nat ?m) s) = Inr (s1, of_nat ?m)"
      "tty_open s1 t f i" "kmm s1 = kmm s" "com_out s1 = com_out s @ ?bs" "con_out s1 = con_out s @ ?bs"
      using write_round [OF less.prems(1,2)] False by auto
    have lm: "(of_nat n :: u32) - of_nat ?m = of_nat (n - ?m)" "(of_nat w :: u32) + of_nat ?m = of_nat (?m + w)"
      by (simp_all add: of_nat_diff)
    have l: "write_loop f p (of_nat n) (of_nat w) s = write_loop f p (of_nat (n - ?m)) (of_nat (?m + w)) s1"
    proof -
      obtain s0 where s0: "vwrites tmp_buf ?bs s = Inr s0" "vfs_write f tmp_buf (of_nat ?m) s0 = Inr (s1, of_nat ?m)"
        using s1(2) by (auto simp: bindR_eq_Inr)
      have "write_loop f p (of_nat n) (of_nat w) s =
          write_loop f p (of_nat n - of_nat ?m) (of_nat w + of_nat ?m) s1"
        by (subst write_loop.simps) (simp add: nz m cur s1(1) s0 Let_def del: of_nat_diff)
      then show ?thesis by (simp only: lm)
    qed
    have ub: "user_bytes s1 t p k = user_bytes s t p k" for k by (simp add: user_bytes_def s1(4))
    have "user_buf s1 t p (min (n - ?m) 512)"
      using user_buf_less [OF less.prems(2), of "min (n - ?m) 512"] s1(4) by (simp add: user_buf_def)
    from less.IH [OF _ s1(3) this, of "?m + w"] less.prems(3) False
    obtain s2 where s2: "write_loop f p (of_nat (n - ?m)) (of_nat (?m + w)) s1 = Inr (s2, of_nat (n - ?m + (?m + w)))"
      "kmm s2 = kmm s1" "com_out s2 = com_out s1 @ shown (user_bytes s1 t p (min (n - ?m) 512)) (n - ?m)"
      "con_out s2 = con_out s1 @ shown (user_bytes s1 t p (min (n - ?m) 512)) (n - ?m)" by auto
    have sh: "shown ?bs n = ?bs @ shown (user_bytes s t p (min (n - ?m) 512)) (n - ?m)"
    proof (cases "n \<le> 512")
      case True
      then show ?thesis by (simp add: shown.simps [of _ n] shown.simps [of _ 0] user_bytes_def)
    next
      case False
      have eq: "shown (user_bytes s t p (min k 512)) k = shown (user_bytes s t p 512) k" for k
        by (cases "k \<le> 512") (simp_all add: shown.simps [of _ k] take_user_bytes min_def)
      show ?thesis using False eq [of "n - 512"] by (simp add: shown.simps [of _ n] user_bytes_def)
    qed
    have "n - ?m + (?m + w) = n + w" by simp
    then show ?thesis using l s2 s1(4-6) ub sh by simp
  qed
qed


section \<open>The table of descriptors\<close>

definition keeps_tasks :: "kst \<Rightarrow> kst \<Rightarrow> bool" where
  "keeps_tasks s s' \<longleftrightarrow> tasks s' = tasks s \<and> ctls s' = ctls s \<and> task_current s' = task_current s"

lemma keeps_refl: "keeps_tasks s s"
  by (simp add: keeps_tasks_def)

lemma keeps_trans: "keeps_tasks s s' \<Longrightarrow> keeps_tasks s' s2 \<Longrightarrow> keeps_tasks s s2"
  by (simp add: keeps_tasks_def)

lemma keeps_kalloc: "kalloc n s = Inr (s', p) \<Longrightarrow> keeps_tasks s s'"
  by (auto simp: kalloc_def keeps_tasks_def split: option.splits)

lemma keeps_kfree: "kfree p s = Inr s' \<Longrightarrow> keeps_tasks s s'"
  by (auto simp: kfree_def keeps_tasks_def bindR_eq_Inr)

lemma keeps_put_file: "keeps_tasks s (put_file p f s)"
  by (simp add: keeps_tasks_def put_file_def)

lemma keeps_upd_file: "upd_file f g s = Inr s' \<Longrightarrow> keeps_tasks s s'"
  by (auto simp: upd_file_def bindR_eq_Inr keeps_put_file)

lemma keeps_dev_open: "dev_open d f flags s = Inr (s', r) \<Longrightarrow> keeps_tasks s s'"
  by (cases d) (auto simp: dev_open_def bindR_eq_Inr Let_def dest!: keeps_upd_file intro: keeps_trans)

lemma keeps_call_open:
  assumes "call_open opn f path flags s = Inr (s', r)"
  shows "keeps_tasks s s'"
proof (cases opn)
  case Devfs_open
  then obtain x where x: "devfs_find (devfs_nodes s) path = Inr x" using assms by (auto simp: devfs_open_def bindR_eq_Inr)
  show ?thesis using assms x Devfs_open
    by (cases x) (auto simp: devfs_open_def keeps_refl intro: keeps_dev_open)
next
  case Initramfs_open
  then show ?thesis using assms
    by (auto simp: initramfs_open_def bindR_eq_Inr keeps_refl intro: keeps_upd_file split: if_splits)
next
  case Procfs_open
  then obtain m where m: "pid_path path = Inr m" using assms by (auto simp: procfs_open_def bindR_eq_Inr)
  show ?thesis
  proof (cases m)
    case False
    then obtain x where x: "procfs_find (procfs_nodes s) path = Inr x"
      using assms Procfs_open m by (auto simp: procfs_open_def bindR_eq_Inr)
    show ?thesis using assms x m Procfs_open False
      by (cases x) (auto simp: procfs_open_def bindR_eq_Inr keeps_refl intro: keeps_upd_file)
  qed (use assms Procfs_open m in \<open>simp add: procfs_open_def keeps_refl\<close>)
qed

lemma keeps_call_opendir:
  assumes "call_opendir opn mnt d path s = Inr (s', r)"
  shows "keeps_tasks s s'"
proof (cases opn)
  case Initramfs_opendir
  then show ?thesis using assms
    by (cases "m_srcdev mnt") (auto simp: initramfs_opendir_def bindR_eq_Inr assertR_def intro: keeps_upd_file split: if_splits)
qed (use assms in \<open>auto simp: devfs_opendir_def procfs_opendir_def bindR_eq_Inr keeps_refl intro: keeps_upd_file split: if_splits\<close>)

lemma keeps_vfs_open:
  assumes "vfs_open path flags s = Inr (s', r)"
  shows "keeps_tasks s s'"
proof -
  obtain l where l: "vfs_lookup_file path s = Inr l" using assms by (auto simp: vfs_open_def bindR_eq_Inr)
  show ?thesis
  proof (cases l)
    case None
    then show ?thesis using assms l by (simp add: vfs_open_def keeps_refl)
  next
    case (Some a)
    then obtain i rel where [simp]: "l = Some (i, rel)" by (cases a) auto
    obtain m where m: "rd (mounts s) i = Inr m" using assms l by (auto simp: vfs_open_def bindR_eq_Inr)
    obtain fs where fs: "m_fs m = Some fs" using assms l m by (cases "m_fs m") (auto simp: vfs_open_def)
    obtain opn where opn: "v_open (fss s fs) = Some opn" using assms l m fs by (cases "v_open (fss s fs)") (auto simp: vfs_open_def)
    obtain s1 p where k: "kalloc file_size s = Inr (s1, p)" "p \<noteq> 0"
      using assms l m fs opn by (auto simp: vfs_open_def bindR_eq_Inr split: if_splits)
    obtain d q s2 c where c: "call_open opn p q flags (put_file p d s1) = Inr (s2, c)"
      "(if c \<noteq> 0 then bindR (kfree p s2) (\<lambda>s. Inr (s\<lparr>files := (files s)(p := None)\<rparr>, 0)) else Inr (s2, p)) = Inr (s', r)"
      using assms l m fs opn k by (auto simp: vfs_open_def bindR_eq_Inr Let_def)
    have "keeps_tasks s s2"
      using keeps_kalloc [OF k(1)] keeps_put_file keeps_call_open [OF c(1)] keeps_trans by blast
    moreover have "keeps_tasks s2 s'"
      using c(2) keeps_kfree [of p s2] by (auto simp: bindR_eq_Inr keeps_tasks_def split: if_splits)
    ultimately show ?thesis by (rule keeps_trans)
  qed
qed

lemma keeps_vfs_opendir:
  assumes "vfs_opendir path s = Inr (s', r)"
  shows "keeps_tasks s s'"
proof -
  obtain l where l: "vfs_lookup_file path s = Inr l" using assms by (auto simp: vfs_opendir_def bindR_eq_Inr)
  show ?thesis
  proof (cases l)
    case None
    then show ?thesis using assms l by (simp add: vfs_opendir_def keeps_refl)
  next
    case (Some a)
    then obtain i rel where [simp]: "l = Some (i, rel)" by (cases a) auto
    obtain m where m: "rd (mounts s) i = Inr m" using assms l by (auto simp: vfs_opendir_def bindR_eq_Inr)
    obtain fs where fs: "m_fs m = Some fs" using assms l m by (cases "m_fs m") (auto simp: vfs_opendir_def)
    obtain opn where opn: "v_opendir (fss s fs) = Some opn" using assms l m fs by (cases "v_opendir (fss s fs)") (auto simp: vfs_opendir_def)
    obtain s1 p where k: "kalloc file_size s = Inr (s1, p)" "p \<noteq> 0"
      using assms l m fs opn by (auto simp: vfs_opendir_def bindR_eq_Inr split: if_splits)
    obtain d q s2 c where c: "call_opendir opn m p q (put_file p d s1) = Inr (s2, c)"
      "(if c \<noteq> 0 then bindR (kfree p s2) (\<lambda>s. Inr (s\<lparr>files := (files s)(p := None)\<rparr>, 0)) else Inr (s2, p)) = Inr (s', r)"
      using assms l m fs opn k by (auto simp: vfs_opendir_def bindR_eq_Inr Let_def)
    have "keeps_tasks s s2"
      using keeps_kalloc [OF k(1)] keeps_put_file keeps_call_opendir [OF c(1)] keeps_trans by blast
    moreover have "keeps_tasks s2 s'"
      using c(2) keeps_kfree [of p s2] by (auto simp: bindR_eq_Inr keeps_tasks_def split: if_splits)
    ultimately show ?thesis by (rule keeps_trans)
  qed
qed

lemma free_fd_loop_cases:
  assumes "free_fd_loop [k..<n] fs = Inr r" "n \<le> length fs"
  shows "case r of None \<Rightarrow> (\<forall>j. k \<le> j \<and> j < n \<longrightarrow> fs ! j \<noteq> 0)
    | Some i \<Rightarrow> k \<le> i \<and> i < n \<and> fs ! i = 0 \<and> (\<forall>j. k \<le> j \<and> j < i \<longrightarrow> fs ! j \<noteq> 0)"
  using assms
proof (induction "n - k" arbitrary: k)
  case 0
  then have "[k..<n] = []" "n \<le> k" by simp_all
  then show ?case using 0 by auto
next
  case (Suc m)
  then have k: "k < n" "[k..<n] = k # [Suc k..<n]" by (simp_all add: upt_conv_Cons)
  show ?case
  proof (cases "fs ! k = 0")
    case True
    then show ?thesis using Suc.prems k by (auto simp: rd_def)
  next
    case False
    then have "free_fd_loop [Suc k..<n] fs = Inr r" using Suc.prems k by (simp add: rd_def)
    moreover have "m = n - Suc k" using Suc.hyps(2) by simp
    ultimately have IH: "case r of None \<Rightarrow> (\<forall>j. Suc k \<le> j \<and> j < n \<longrightarrow> fs ! j \<noteq> 0)
        | Some i \<Rightarrow> Suc k \<le> i \<and> i < n \<and> fs ! i = 0 \<and> (\<forall>j. Suc k \<le> j \<and> j < i \<longrightarrow> fs ! j \<noteq> 0)"
      using Suc.hyps(1) Suc.prems(2) by blast
    have "fs ! j \<noteq> 0" if "k \<le> j" "Suc k \<le> j \<longrightarrow> fs ! j \<noteq> 0" for j
      using that False by (cases "j = k") auto
    then show ?thesis using IH by (cases r) auto
  qed
qed

text \<open>
  C19: opening a file gives the least free descriptor. It changes no other descriptor; with all four in use
  it is refused with \<open>-ENFILE\<close> without any effect, and when the path cannot be opened the table stays
  as it was.
\<close>

theorem sys_open_descriptor:
  assumes "sys_open path flags mode s = Inr (s', r)" "cur_ctl s = Inr c" "length (fds c) = 4"
  shows "(r = - ENFILE \<and> s' = s \<and> (\<forall>j < 4. fds c ! j \<noteq> 0)) \<or>
    (r = - ENOENT \<and> cur_ctl s' = Inr c \<and> (\<exists>j < 4. fds c ! j = 0)) \<or>
    (\<exists>i < 4. \<exists>f c'. r = of_nat i \<and> fds c ! i = 0 \<and> (\<forall>j < i. fds c ! j \<noteq> 0) \<and> f \<noteq> 0 \<and>
       cur_ctl s' = Inr c' \<and> fds c' = (fds c)[i := f])"
proof -
  obtain free where free: "free_fd_loop [0..<4] (fds c) = Inr free"
    using assms(1,2) by (auto simp: sys_open_def bindR_eq_Inr)
  note fc = free_fd_loop_cases [OF free, unfolded assms(3), OF order_refl]
  show "(r = - ENFILE \<and> s' = s \<and> (\<forall>j < 4. fds c ! j \<noteq> 0)) \<or>
    (r = - ENOENT \<and> cur_ctl s' = Inr c \<and> (\<exists>j < 4. fds c ! j = 0)) \<or>
    (\<exists>i < 4. \<exists>f c'. r = of_nat i \<and> fds c ! i = 0 \<and> (\<forall>j < i. fds c ! j \<noteq> 0) \<and> f \<noteq> 0 \<and>
       cur_ctl s' = Inr c' \<and> fds c' = (fds c)[i := f])"
  proof (cases free)
    case None
    then show ?thesis using assms(1,2) free fc by (simp add: sys_open_def)
  next
    case (Some i)
    then have i: "i < 4" "fds c ! i = 0" "\<forall>j < i. fds c ! j \<noteq> 0" using fc by auto
    obtain s1 p1 n where p: "user_path path s = Inr (s1, p1, n)"
      using assms(1,2) free Some by (auto simp: sys_open_def bindR_eq_Inr)
    have n: "0 <s n" using assms(1,2) free Some p by (cases "0 <s n") (simp_all add: sys_open_def assertR_def)
    let ?op = "if nz (flags AND VFS_FLG_DIR) then vfs_opendir p1 s1
      else vfs_open p1 ((if nz (mode AND 1) then VFS_FLG_RD else 0) OR (if nz (mode AND 2) then VFS_FLG_WR else 0)) s1"
    have "bindR ?op (\<lambda>(s, f). if f = 0 then Inr (s, - ENOENT)
        else bindR (upd_cur_ctl (\<lambda>c. c\<lparr>fds := (fds c)[i := f]\<rparr>) s) (\<lambda>s. Inr (s, of_nat i))) = Inr (s', r)"
      using assms(1,2) free Some p n by (simp add: sys_open_def assertR_def Let_def)
    then obtain s3 f where f: "?op = Inr (s3, f)"
      and r: "(if f = 0 then Inr (s3, - ENOENT)
               else bindR (upd_cur_ctl (\<lambda>c. c\<lparr>fds := (fds c)[i := f]\<rparr>) s3) (\<lambda>s. Inr (s, of_nat i))) = Inr (s', r)"
      by (cases ?op) (auto split: prod.splits)
    have "keeps_tasks s s1" using p by (auto simp: user_path_def bindR_eq_Inr keeps_tasks_def)
    moreover have "keeps_tasks s1 s3" using f keeps_vfs_open keeps_vfs_opendir by (auto split: if_splits)
    ultimately have "keeps_tasks s s3" by (rule keeps_trans)
    then have c3: "cur_ctl s3 = Inr c" using assms(2) by (simp add: keeps_tasks_def cur_ctl_def cur_task_def get_task_def get_ctl_def)
    show ?thesis
    proof (cases "f = 0")
      case True
      then show ?thesis using r c3 i by auto
    next
      case False
      then obtain t where t: "cur_task s3 = Inr t" "upd_ctl (t_ctl t) (\<lambda>c. c\<lparr>fds := (fds c)[i := f]\<rparr>) s3 = Inr s'" "r = of_nat i"
        using r by (auto simp: upd_cur_ctl_def bindR_eq_Inr)
      then have "cur_ctl s' = Inr (c\<lparr>fds := (fds c)[i := f]\<rparr>)"
        using c3 by (auto simp: cur_ctl_def cur_task_def upd_ctl_def get_task_def get_ctl_def bindR_eq_Inr obj_eq_Inr)
      then show ?thesis using i t(3) False by auto
    qed
  qed
qed

section \<open>Concrete calls\<close>

definition ex_wctl :: task_ctl where "ex_wctl = ctl_zero\<lparr>fds := [0xC0300000, 0xC0300200, 0xC0300400, 0xC0300600]\<rparr>"

text \<open>A task whose four descriptors are in use, the first of them a terminal.\<close>

definition ex_call :: kst where
  "ex_call = ex_kst\<lparr>kmm := ex_tmm\<lparr>ram := (\<lambda>a. if a = 0x3000FFF then 72 else 105)\<rparr>, task_current := 0xC0200000,
     tasks := [0xC0200000 \<mapsto> (ex_tk 1 0 0xC0201000 0)\<lparr>t_pd := 0xC1000000\<rparr>], ctls := [0xC0201000 \<mapsto> ex_wctl],
     files := [0xC0300000 \<mapsto> file_zero\<lparr>f_flags := 10, f_dev := Some (Dev_tty 0)\<rparr>],
     devs := (\<lambda>_. \<lparr>d_flags = 5, d_read = Some Drv_tty, d_write = Some Drv_tty\<rparr>)\<rparr>"


theorem sys_open_descriptor_witness:
  "sys_open 0x400000 0 1 ex_call = Inr (ex_call, - ENFILE) \<and> 0 \<notin> set (fds ex_wctl)"
proof -
  have c: "cur_ctl ex_call = Inr ex_wctl"
    by (simp add: cur_ctl_def cur_task_def get_task_def get_ctl_def obj_def ex_call_def ex_tk_def)
  have o: "sys_open 0x400000 0 1 ex_call = Inr (ex_call, - ENFILE)"
    by (simp add: sys_open_def c upt_conv_Cons rd_def) (simp add: ex_wctl_def)
  have l: "length (fds ex_wctl) = 4" by (simp add: ex_wctl_def)
  have n: "\<not> (\<exists>j < 4. fds ex_wctl ! j = 0)" 
  proof -
    have "\<forall>f \<in> set (fds ex_wctl). f \<noteq> 0" by (simp add: ex_wctl_def)
    then show ?thesis using l by (metis nth_mem)
  qed
  have "\<forall>j < 4. fds ex_wctl ! j \<noteq> 0" using sys_open_descriptor [OF o c l] n by blast
  then have "0 \<notin> set (fds ex_wctl)" using l by (metis in_set_conv_nth)
  then show ?thesis using o by blast
qed

end
