(* ===== verification/Rtl8139.thy ===== *)
theory Rtl8139
  imports CString
begin

text \<open>
  The transmit side of the RTL8139 driver (\<open>dev/pci/net/rtl8139.c\<close>): four transmit buffers used in
  turn, one of them being sent at a time. The card starts a transmission when the length is written
  to the status register of a buffer; \<open>wire\<close> is the list of the frames whose transmission was
  started. The lemmas show that the four buffers and the status bits implement a queue of frames.
\<close>

section \<open>State\<close>

record rtl_regs =
  rg_idr :: bytes
  rg_tsd :: "u32 list"
  rg_tsad :: "u32 list"
  rg_rbstart :: u32
  rg_cr :: u8
  rg_cbr :: u16
  rg_imr :: u16
  rg_isr :: u16
  rg_rcr :: u32
  rg_config1 :: u8

text \<open>The static \<open>struct rtl8139\<close> without its device part, and the two static buffers.\<close>

record rtl8139 =
  iobase :: u32
  membase :: u32
  cbr_prev :: u16
  int_no :: u8
  tx_reg_num :: u8
  rtl_status :: u8
  buflen :: "u32 list"
  rregs :: rtl_regs
  rtl8139_recv_buf :: bytes
  rtl8139_txbuf :: bytes
  wire :: "bytes list"

definition RTL8139_ISR_ROK :: u16 where "RTL8139_ISR_ROK = 1"
definition RTL8139_ISR_RER :: u16 where "RTL8139_ISR_RER = 2"
definition RTL8139_ISR_TOK :: u16 where "RTL8139_ISR_TOK = 4"
definition RTL8139_ISR_TER :: u16 where "RTL8139_ISR_TER = 8"
definition RTL8139_CR_TE :: u8 where "RTL8139_CR_TE = 4"
definition RTL8139_CR_RE :: u8 where "RTL8139_CR_RE = 8"
definition RTL8139_STATUS_TXOP :: u8 where "RTL8139_STATUS_TXOP = 0x80"

lemmas rtl_consts = RTL8139_ISR_ROK_def RTL8139_ISR_RER_def RTL8139_ISR_TOK_def RTL8139_ISR_TER_def
  RTL8139_CR_TE_def RTL8139_CR_RE_def RTL8139_STATUS_TXOP_def

section \<open>Registers with effects\<close>

text \<open>
  Writing a length to \<open>tsd[i]\<close> starts the transmission of that many bytes of the buffer whose address
  \<open>tsad[i]\<close> holds: the i-th kilobyte of \<open>rtl8139_txbuf\<close>. The interrupt status register clears the
  bits that are written as ones.
\<close>

definition write_tsd :: "nat \<Rightarrow> u32 \<Rightarrow> rtl8139 \<Rightarrow> rtl8139 res" where
  "write_tsd i len r =
     bindR (wr (rg_tsd (rregs r)) i len) (\<lambda>tsd.
     Inr (r\<lparr>rregs := (rregs r)\<lparr>rg_tsd := tsd\<rparr>,
            wire := wire r @ [take (unat len) (drop (1024 * i) (rtl8139_txbuf r))]\<rparr>))"

definition write_isr :: "u16 \<Rightarrow> rtl8139 \<Rightarrow> rtl8139" where
  "write_isr v r = r\<lparr>rregs := (rregs r)\<lparr>rg_isr := rg_isr (rregs r) AND NOT v\<rparr>\<rparr>"

lemma write_isr_simps [simp]:
  "rtl_status (write_isr v r) = rtl_status r" "tx_reg_num (write_isr v r) = tx_reg_num r" "buflen (write_isr v r) = buflen r"
  "rtl8139_txbuf (write_isr v r) = rtl8139_txbuf r" "wire (write_isr v r) = wire r"
  "rg_tsd (rregs (write_isr v r)) = rg_tsd (rregs r)"
  by (simp_all add: write_isr_def)

section \<open>Transmission\<close>

text \<open>The loop of \<open>rtl8139_alloc_txbuf\<close> with \<open>d\<close> rounds left; \<open>None\<close> is the result -1.\<close>

fun txbuf_loop :: "nat \<Rightarrow> u32 \<Rightarrow> rtl8139 \<Rightarrow> rtl8139 \<times> u32 option" where
  "txbuf_loop 0 i r = (r, None)"
| "txbuf_loop (Suc d) i r =
     (if nz (rtl_status r AND push_bit (unat i) 1) then txbuf_loop d ((i + 1) AND 3) r
      else (r\<lparr>rtl_status := rtl_status r OR push_bit (unat i) 1\<rparr>, Some i))"

definition rtl8139_alloc_txbuf :: "rtl8139 \<Rightarrow> rtl8139 \<times> u32 option" where
  "rtl8139_alloc_txbuf r = txbuf_loop 4 (ucast (tx_reg_num r)) r"

definition rtl8139_tx_sched :: "rtl8139 \<Rightarrow> rtl8139 res" where
  "rtl8139_tx_sched r =
     (if \<not> nz (rtl_status r AND RTL8139_STATUS_TXOP) then
        assertR (nz (rtl_status r AND push_bit (unat (tx_reg_num r)) 1))
          (bindR (rd (buflen r) (unat (tx_reg_num r))) (\<lambda>len.
           bindR (write_tsd (unat (tx_reg_num r)) len r) (\<lambda>r.
           Inr (r\<lparr>tx_reg_num := (tx_reg_num r + 1) AND 3, rtl_status := rtl_status r OR RTL8139_STATUS_TXOP\<rparr>))))
      else Inr r)"

text \<open>\<open>rtl8139_tx\<close> for the card's own device. The result is 0 or -1.\<close>

definition rtl8139_tx :: "bytes \<Rightarrow> u32 \<Rightarrow> rtl8139 \<Rightarrow> (rtl8139 \<times> u32) res" where
  "rtl8139_tx buf sz r =
     (if sz > 1024 then Inr (r, - 1)
      else case rtl8139_alloc_txbuf r of
        (r, None) \<Rightarrow> Inr (r, - 1)
      | (r, Some i) \<Rightarrow>
          (let r = r\<lparr>rtl_status := rtl_status r OR push_bit (unat i) 1\<rparr> in
           bindR (wr (buflen r) (unat i) (sz AND 0x0FFF)) (\<lambda>bl.
           bindR (at_off (\<lambda>p. memcpy p buf sz) (rtl8139_txbuf r) (1024 * unat i)) (\<lambda>tb.
           (let r = r\<lparr>buflen := bl, rtl8139_txbuf := tb\<rparr> in
            bindR (if ucast (tx_reg_num r) = i then rtl8139_tx_sched r else Inr r) (\<lambda>r. Inr (r, 0)))))))"

text \<open>The branch of \<open>rtl8139_irq_handler\<close> for a finished transmission.\<close>

definition rtl8139_tx_done :: "rtl8139 \<Rightarrow> rtl8139 res" where
  "rtl8139_tx_done r =
     (let txop = unat ((tx_reg_num r - 1) AND 3) in
      assertR (nz (rtl_status r AND push_bit txop 1))
        (let r = r\<lparr>rtl_status := rtl_status r AND NOT (push_bit txop 1 OR RTL8139_STATUS_TXOP)\<rparr>;
             r = write_isr (rg_isr (rregs r) OR RTL8139_ISR_TOK) r
         in if nz (rtl_status r AND push_bit (unat (tx_reg_num r)) 1) then rtl8139_tx_sched r else Inr r))"

section \<open>The queue of frames\<close>

text \<open>
  The buffer of the \<open>k\<close>-th frame in the queue, counted from the buffer \<open>h\<close> of the first, and the
  status byte for \<open>n\<close> frames.
\<close>

definition slot :: "nat \<Rightarrow> nat \<Rightarrow> nat" where
  "slot h k = (h + k) mod 4"

definition slot_bits :: "nat \<Rightarrow> nat \<Rightarrow> u8" where
  "slot_bits h n = (if n = 0 then 0 else fold (\<lambda>k w. w OR push_bit (slot h k) 1) [0..<n] RTL8139_STATUS_TXOP)"

definition tx_frame :: "rtl8139 \<Rightarrow> nat \<Rightarrow> bytes" where
  "tx_frame r i = take (unat (buflen r ! i)) (drop (1024 * i) (rtl8139_txbuf r))"

text \<open>
  The card holds the frames \<open>q\<close>, the first of which is being sent; \<open>done\<close> are the frames sent before.
\<close>

definition tx_rel :: "rtl8139 \<Rightarrow> bytes list \<Rightarrow> bytes list \<Rightarrow> bool" where
  "tx_rel r done q \<longleftrightarrow> length q \<le> 4 \<and> length (buflen r) = 4 \<and> length (rg_tsd (rregs r)) = 4 \<and>
     length (rtl8139_txbuf r) = 4096 \<and> wire r = done @ take 1 q \<and>
     (\<exists>h < 4. rtl_status r = slot_bits h (length q) \<and>
        unat (tx_reg_num r) = (if q = [] then h else slot h 1) \<and>
        (\<forall>k < length q. tx_frame r (slot h k) = q ! k \<and> unat (buflen r ! slot h k) \<le> 1024))"

lemma less_4: "h < (4 :: nat) \<Longrightarrow> h = 0 \<or> h = 1 \<or> h = 2 \<or> h = 3"
  by arith

lemma slot_bits_cases:
  "slot_bits h 0 = 0" "slot_bits h 1 = RTL8139_STATUS_TXOP OR push_bit (slot h 0) 1"
  "0 < n \<Longrightarrow> slot_bits h (Suc n) = slot_bits h n OR push_bit (slot h n) 1"
  by (simp_all add: slot_bits_def)

text \<open>The search as a function of the status byte alone, evaluated for every position and length.\<close>

fun free_slot :: "nat \<Rightarrow> u32 \<Rightarrow> u8 \<Rightarrow> u32 option" where
  "free_slot 0 i w = None"
| "free_slot (Suc d) i w = (if nz (w AND push_bit (unat i) 1) then free_slot d ((i + 1) AND 3) w else Some i)"

lemma txbuf_loop_free_slot:
  "txbuf_loop d i r = (case free_slot d i (rtl_status r) of None \<Rightarrow> (r, None)
     | Some j \<Rightarrow> (r\<lparr>rtl_status := rtl_status r OR push_bit (unat j) 1\<rparr>, Some j))"
  by (induction d i r rule: txbuf_loop.induct) simp_all

definition slot_table :: "nat \<Rightarrow> nat \<Rightarrow> bool" where
  "slot_table h n \<longleftrightarrow>
     free_slot 4 (of_nat (if n = 0 then h else slot h 1)) (slot_bits h n) = (if n = 4 then None else Some (of_nat (slot h n))) \<and>
     (nz (slot_bits h n AND RTL8139_STATUS_TXOP) \<longleftrightarrow> 0 < n) \<and>
     (n = 0 \<longrightarrow> push_bit h 1 AND RTL8139_STATUS_TXOP = 0 \<and> slot_bits h 1 = push_bit h 1 OR RTL8139_STATUS_TXOP) \<and>
     (0 < n \<longrightarrow> nz (slot_bits h n AND push_bit h 1) \<and>
        (let w = slot_bits h n AND NOT (push_bit h 1 OR RTL8139_STATUS_TXOP) in
         (nz (w AND push_bit (slot h 1) 1) \<longleftrightarrow> 1 < n) \<and> w AND RTL8139_STATUS_TXOP = 0 \<and>
         (if n = 1 then w = 0 else w OR RTL8139_STATUS_TXOP = slot_bits (slot h 1) (n - 1)))) \<and>
     (of_nat (slot h 1) - 1) AND 3 = (of_nat h :: u8) \<and> (of_nat h + 1) AND 3 = (of_nat (slot h 1) :: u8)"

lemma slot_table_all: "list_all (\<lambda>h. list_all (slot_table h) [0, 1, 2, 3, 4]) [0, 1, 2, 3]"
  by code_simp

lemma slot_table:
  assumes "h < 4" "n \<le> 4"
  shows "slot_table h n"
proof -
  have "h \<in> set [0, 1, 2, 3]" "n \<in> set [0, 1, 2, 3, 4]" using assms by auto
  then show ?thesis using slot_table_all by (simp only: list_all_iff)
qed

lemma slot_facts:
  assumes "h < 4" "n \<le> 4"
  shows "free_slot 4 (of_nat (if n = 0 then h else slot h 1)) (slot_bits h n) = (if n = 4 then None else Some (of_nat (slot h n)))"
    "nz (slot_bits h n AND RTL8139_STATUS_TXOP) \<longleftrightarrow> 0 < n"
    "n = 0 \<Longrightarrow> push_bit h 1 AND RTL8139_STATUS_TXOP = 0" "n = 0 \<Longrightarrow> slot_bits h 1 = push_bit h 1 OR RTL8139_STATUS_TXOP"
    "0 < n \<Longrightarrow> nz (slot_bits h n AND push_bit h 1)"
    "0 < n \<Longrightarrow> nz ((slot_bits h n AND NOT (push_bit h 1 OR RTL8139_STATUS_TXOP)) AND push_bit (slot h 1) 1) \<longleftrightarrow> 1 < n"
    "0 < n \<Longrightarrow> (slot_bits h n AND NOT (push_bit h 1 OR RTL8139_STATUS_TXOP)) AND RTL8139_STATUS_TXOP = 0"
    "n = 1 \<Longrightarrow> slot_bits h n AND NOT (push_bit h 1 OR RTL8139_STATUS_TXOP) = 0"
    "1 < n \<Longrightarrow> slot_bits h n AND NOT (push_bit h 1 OR RTL8139_STATUS_TXOP) OR RTL8139_STATUS_TXOP = slot_bits (slot h 1) (n - 1)"
    "(of_nat (slot h 1) - 1) AND 3 = (of_nat h :: u8)" "(of_nat h + 1) AND 3 = (of_nat (slot h 1) :: u8)"
  using slot_table [OF assms] unfolding slot_table_def Let_def by (simp_all only: simp_thms if_True if_False split: if_splits)

lemma chunk_front: "a + n \<le> length xs \<Longrightarrow> take n (drop a (xs @ ys)) = take n (drop a xs)"
  by simp

lemma chunk_back: "length xs \<le> a \<Longrightarrow> drop a (xs @ ys) = drop (a - length xs) ys"
  by simp

lemma chunk_other:
  assumes "i < 4" "j < 4" "i \<noteq> j" "n \<le> 1024" "length p \<le> 1024" "length B = 4096"
  shows "take n (drop (1024 * j) (take (1024 * i) B @ p @ drop (1024 * i + length p) B)) = take n (drop (1024 * j) B)"
proof (cases "j < i")
  case True
  then have l: "1024 * j + n \<le> 1024 * i" "1024 * i \<le> length B" using assms by arith+
  then have "take n (drop (1024 * j) (take (1024 * i) B)) = take n (drop (1024 * j) B)"
    by (simp add: drop_take)
  then show ?thesis using l by (subst chunk_front) simp_all
next
  case False
  then have l: "1024 * i + length p \<le> 1024 * j" "1024 * i \<le> length B" using assms by arith+
  have "drop (1024 * j) ((take (1024 * i) B @ p) @ drop (1024 * i + length p) B) = drop (1024 * j) B"
    using l by (subst chunk_back) simp_all
  then show ?thesis by simp
qed

lemma chunk_same:
  "1024 * i \<le> length B \<Longrightarrow> take (length p) (drop (1024 * i) (take (1024 * i) B @ p @ drop k B)) = p"
  by simp

lemma slot_less [simp]: "slot h k < 4"
  by (simp add: slot_def)

lemma slot_unat [simp]: "unat (of_nat (slot h k) :: u8) = slot h k"
  by (rule unat_of_nat_small) (rule order_less_trans [OF slot_less], simp)

lemma slot_0: "h < 4 \<Longrightarrow> slot h 0 = h"
  by (simp add: slot_def)

lemma slot_inj: "h < 4 \<Longrightarrow> j < 4 \<Longrightarrow> k < 4 \<Longrightarrow> slot h j = slot h k \<longleftrightarrow> j = k"
  by (drule less_4)+ (elim disjE, simp_all add: slot_def)

lemma slot_slot: "slot (slot h (Suc 0)) k = slot h (Suc k)"
  by (simp add: slot_def mod_simps)

lemma tx_refused:
  assumes "tx_rel r done q" "1024 < sz \<or> length q = 4"
  shows "rtl8139_tx p sz r = Inr (r, - 1)"
proof (cases "sz > 1024")
  case False
  then have l: "length q = 4" using assms(2) by simp
  obtain h where h: "h < 4" "rtl_status r = slot_bits h 4" "unat (tx_reg_num r) = slot h 1"
    using assms(1) l unfolding tx_rel_def by (auto split: if_splits)
  have "ucast (tx_reg_num r) = (of_nat (slot h 1) :: u32)" by (metis h(3) of_nat_unat)
  then have "rtl8139_alloc_txbuf r = (r, None)"
    using slot_facts(1) [OF h(1), of 4] h(2) by (simp add: rtl8139_alloc_txbuf_def txbuf_loop_free_slot)
  then show ?thesis using False by (simp add: rtl8139_tx_def)
qed (simp add: rtl8139_tx_def)


text \<open>A frame written into the buffer after the last one of the queue leaves the others alone.\<close>

lemma tx_frame_store:
  assumes "h < 4" "n < 4" "length (buflen r) = 4" "length (rtl8139_txbuf r) = 4096" "length p \<le> 1024"
    "\<forall>k < n. tx_frame r (slot h k) = q ! k \<and> unat (buflen r ! slot h k) \<le> 1024" "unat (b :: u32) = length p" "length q = n"
    "buflen r' = (buflen r)[slot h n := b]"
    "rtl8139_txbuf r' = take (1024 * slot h n) (rtl8139_txbuf r) @ p @ drop (1024 * slot h n + length p) (rtl8139_txbuf r)"
  shows "\<forall>k < Suc n. tx_frame r' (slot h k) = (q @ [p]) ! k \<and> unat (buflen r' ! slot h k) \<le> 1024"
proof (intro allI impI)
  fix k assume k: "k < Suc n"
  show "tx_frame r' (slot h k) = (q @ [p]) ! k \<and> unat (buflen r' ! slot h k) \<le> 1024"
  proof (cases "k = n")
    case True
    have "1024 * slot h n \<le> length (rtl8139_txbuf r)" using slot_less [of h n, THEN less_imp_le] assms(4) by simp
    moreover have "(q @ [p]) ! n = p" using assms(8) by (simp add: nth_append)
    ultimately show ?thesis using True assms(3,5,7,9,10) by (simp add: tx_frame_def)
  next
    case False
    then have kn: "k < n" "slot h n \<noteq> slot h k" using k slot_inj [of h n k] assms(1,2) by auto
    then have "unat (buflen r ! slot h k) \<le> 1024" "tx_frame r (slot h k) = q ! k" using assms(6) by auto
    then show ?thesis
      using kn assms(3-5,8-10) chunk_other [of "slot h n" "slot h k" "unat (buflen r ! slot h k)" p "rtl8139_txbuf r"]
      by (simp add: tx_frame_def nth_append)
  qed
qed

lemma tx_accepted:
  assumes rel: "tx_rel r done q" and sz: "unat sz = length p" "\<not> 1024 < sz" "length q \<noteq> 4"
  shows "\<exists>r'. rtl8139_tx p sz r = Inr (r', 0) \<and> tx_rel r' done (q @ [p])"
proof -
  obtain h where h: "h < 4" "rtl_status r = slot_bits h (length q)"
      "unat (tx_reg_num r) = (if q = [] then h else slot h 1)"
      "\<forall>k < length q. tx_frame r (slot h k) = q ! k \<and> unat (buflen r ! slot h k) \<le> 1024"
    and l: "length q < 4" "length (buflen r) = 4" "length (rg_tsd (rregs r)) = 4" "length (rtl8139_txbuf r) = 4096"
      "wire r = done @ take 1 q"
    using rel sz(3) unfolding tx_rel_def by auto
  let ?n = "length q" and ?i = "slot h (length q)"
  have p: "length p \<le> 1024" using sz by (simp add: word_less_nat_alt)
  have b: "sz AND 0x0FFF = sz"
  proof -
    have "0x0FFF = (mask 12 :: u32)" by (simp add: mask_eq_exp_minus_1)
    moreover have "sz < 2 ^ 12" using sz by (simp add: word_less_nat_alt)
    ultimately show ?thesis using less_mask_eq [of sz 12] by simp
  qed
  have u: "unat (tx_reg_num r) = (if ?n = 0 then h else slot h 1)" using h(3) by simp
  have reg: "ucast (tx_reg_num r) = (of_nat (if ?n = 0 then h else slot h 1) :: u32)"
    "tx_reg_num r = of_nat (if ?n = 0 then h else slot h 1)" by (simp_all only: u [symmetric] of_nat_unat ucast_id)
  have n4: "?n \<le> 4" using l(1) by simp
  note T = slot_facts [of h ?n, OF h(1) n4]
  have i: "unat (of_nat ?i :: u32) = ?i" "unat (of_nat ?i :: u8) = ?i" "?i \<le> 4"
    by (simp_all add: unat_of_nat_small order_less_trans [OF slot_less] less_imp_le)
  have alloc: "rtl8139_alloc_txbuf r = (r\<lparr>rtl_status := slot_bits h ?n OR push_bit ?i 1\<rparr>, Some (of_nat ?i))"
    using T(1) l(1) reg(1) h(2) i(1) by (simp add: rtl8139_alloc_txbuf_def txbuf_loop_free_slot)
  define r1 where "r1 = r\<lparr>rtl_status := slot_bits h ?n OR push_bit ?i 1, buflen := (buflen r)[?i := sz],
     rtl8139_txbuf := take (1024 * ?i) (rtl8139_txbuf r) @ p @ drop (1024 * ?i + length p) (rtl8139_txbuf r)\<rparr>"
  have "?i \<le> 3" using slot_less [of h ?n] by linarith
  have m: "memcpy (drop (1024 * ?i) (rtl8139_txbuf r)) p sz = Inr (p @ drop (1024 * ?i + length p) (rtl8139_txbuf r))"
    using sz p l(4) \<open>?i \<le> 3\<close> by (subst memcpy_ok) (auto simp: add.commute)
  have e: "rtl8139_tx p sz r = bindR (if ucast (tx_reg_num r) = (of_nat ?i :: u32) then rtl8139_tx_sched r1 else Inr r1) (\<lambda>r. Inr (r, 0))"
    using sz p l(2,4) i by (simp add: rtl8139_tx_def alloc b wr_def at_off_def m r1_def)
  have lB: "length (rtl8139_txbuf r1) = 4096" using p l(4) \<open>?i \<le> 3\<close> by (simp add: r1_def)
  have fr: "\<forall>k < Suc ?n. tx_frame r1 (slot h k) = (q @ [p]) ! k \<and> unat (buflen r1 ! slot h k) \<le> 1024"
    by (rule tx_frame_store [OF h(1) l(1,2,4) p h(4) sz(1) refl]) (simp_all add: r1_def)
  show ?thesis
  proof (cases "q = []")
    case True
    then have ii: "?i = h" "tx_reg_num r = of_nat h" using h reg by (simp_all add: slot_0)
    define r2 where "r2 = r1\<lparr>rregs := (rregs r1)\<lparr>rg_tsd := (rg_tsd (rregs r1))[h := sz]\<rparr>, wire := done @ [p],
       tx_reg_num := of_nat (slot h 1), rtl_status := slot_bits h 1\<rparr>"
    have f: "take (unat sz) (drop (1024 * h) (rtl8139_txbuf r1)) = p"
      using fr True ii(1) h(1) l(2) sz(1) by (simp add: tx_frame_def slot_0 r1_def)
    have "rtl8139_tx_sched r1 = Inr r2"
      using T(3,4,11) True ii h(1) l f i
      by (simp add: rtl8139_tx_sched_def write_tsd_def rd_def wr_def r1_def r2_def slot_bits_cases(1))
    moreover have "tx_rel r2 done (q @ [p])"
      unfolding tx_rel_def using True fr h(1) l i ii lB
      by (auto simp: r2_def r1_def slot_0 tx_frame_def word_less_nat_alt unat_of_nat_small intro!: exI [of _ h])
    ultimately show ?thesis using e ii reg(1) True by auto
  next
    case False
    have st: "rtl_status r1 = slot_bits h (Suc ?n)" using False by (simp add: r1_def slot_bits_cases)
    then have "nz (rtl_status r1 AND RTL8139_STATUS_TXOP)"
      using slot_facts(2) [of h "Suc ?n"] h(1) l(1) by simp
    then have "rtl8139_tx_sched r1 = Inr r1" by (simp add: rtl8139_tx_sched_def)
    moreover have "tx_rel r1 done (q @ [p])"
      unfolding tx_rel_def using False fr h(1) l h(3) st lB
      by (auto simp: r1_def less_imp_le Suc_le_eq intro!: exI [of _ h])
    ultimately show ?thesis using e by auto
  qed
qed


lemma tx_complete:
  assumes rel: "tx_rel r done (p # q)"
  shows "\<exists>r'. rtl8139_tx_done r = Inr r' \<and> tx_rel r' (done @ [p]) q"
proof -
  let ?n = "Suc (length q)"
  obtain h where h: "h < 4" "rtl_status r = slot_bits h ?n" "unat (tx_reg_num r) = slot h 1"
      "\<forall>k < ?n. tx_frame r (slot h k) = (p # q) ! k \<and> unat (buflen r ! slot h k) \<le> 1024"
    and l: "?n \<le> 4" "length (buflen r) = 4" "length (rg_tsd (rregs r)) = 4" "length (rtl8139_txbuf r) = 4096"
      "wire r = done @ [p]"
    using rel unfolding tx_rel_def by auto
  note T = slot_facts [of h ?n, OF h(1) l(1)]
  have reg: "tx_reg_num r = of_nat (slot h 1)" by (simp only: h(3) [symmetric] of_nat_unat ucast_id)
  have u: "unat (of_nat h :: u8) = h" using h(1) by (simp add: unat_of_nat_small)
  define w where "w = slot_bits h ?n AND NOT (push_bit h 1 OR RTL8139_STATUS_TXOP)"
  define r1 where "r1 = write_isr (rg_isr (rregs r) OR RTL8139_ISR_TOK) (r\<lparr>rtl_status := w\<rparr>)"
  have r1: "rtl_status r1 = w" "tx_reg_num r1 = of_nat (slot h 1)" "buflen r1 = buflen r" "rtl8139_txbuf r1 = rtl8139_txbuf r"
    "wire r1 = wire r" "rg_tsd (rregs r1) = rg_tsd (rregs r)"
    by (simp_all add: r1_def write_isr_def reg)
  have d: "rtl8139_tx_done r = (if nz (w AND push_bit (slot h 1) 1) then rtl8139_tx_sched r1 else Inr r1)"
    using T(5,10) h(2,3) reg u by (simp add: rtl8139_tx_done_def w_def r1_def Let_def)
  have fr: "\<forall>k < length q. tx_frame r1 (slot (slot h 1) k) = q ! k \<and> unat (buflen r1 ! slot (slot h 1) k) \<le> 1024"
    using h(4) r1 by (auto simp: slot_slot tx_frame_def)
  show ?thesis
  proof (cases "q = []")
    case True
    then have "w = 0" using T(8) by (simp add: w_def)
    then have "rtl8139_tx_done r = Inr r1" using d by simp
    moreover have "tx_rel r1 (done @ [p]) q"
      unfolding tx_rel_def using True r1 l \<open>w = 0\<close> slot_less [of h 1]
      by (auto simp: slot_bits_cases word_less_nat_alt unat_of_nat_small intro!: exI [of _ "slot h 1"])
    ultimately show ?thesis by blast
  next
    case False
    then obtain p2 q2 where q: "q = p2 # q2" by (cases q) auto
    then have n: "1 < ?n" by simp
    have w: "nz (w AND push_bit (slot h 1) 1)" "w AND RTL8139_STATUS_TXOP = 0" "w OR RTL8139_STATUS_TXOP = slot_bits (slot h 1) (length q)"
      using T(6,7,9) n by (simp_all add: w_def)
    have s: "unat (of_nat (slot h 1) :: u8) = slot h 1" "slot h 1 < 4"
      using slot_less [of h 1] by (simp_all add: unat_of_nat_small)
    have f: "take (unat (buflen r ! slot h 1)) (drop (1024 * slot h 1) (rtl8139_txbuf r)) = p2"
      using h(4) q by (force simp: tx_frame_def)
    define r2 where "r2 = r1\<lparr>rregs := (rregs r1)\<lparr>rg_tsd := (rg_tsd (rregs r1))[slot h 1 := buflen r ! slot h 1]\<rparr>, wire := done @ [p, p2],
       tx_reg_num := of_nat (slot (slot h 1) 1), rtl_status := slot_bits (slot h 1) (length q)\<rparr>"
    have "rtl8139_tx_sched r1 = Inr r2"
      using w r1 l s f slot_facts(11) [of "slot h 1" 0]
      by (simp add: rtl8139_tx_sched_def write_tsd_def rd_def wr_def r2_def)
    then have "rtl8139_tx_done r = Inr r2" using d w(1) by simp
    moreover have "tx_rel r2 (done @ [p]) q"
      unfolding tx_rel_def using fr q r1 l s slot_less [of "slot h 1" 1]
      by (auto simp: r2_def tx_frame_def word_less_nat_alt unat_of_nat_small intro!: exI [of _ "slot h 1"])
    ultimately show ?thesis by blast
  qed
qed


section \<open>The interface of a transmitter\<close>

text \<open>
  What the network code asks of a card: frames that it takes are sent once each, in order, one at a
  time; a frame that is too long, or comes when \<open>cap\<close> frames are under way, is refused with -1. The
  specification is a queue together with the list of the frames sent, \<open>fifo_step\<close>.
\<close>

datatype tx_ev = Tx_req bytes | Tx_done

fun fifo_step :: "nat \<Rightarrow> nat \<Rightarrow> tx_ev \<Rightarrow> bytes list \<times> bytes list \<Rightarrow> (bytes list \<times> bytes list) \<times> u32 list" where
  "fifo_step lim cap (Tx_req p) (d, q) =
     (if length p \<le> lim \<and> length q < cap then ((d, q @ [p]), [0]) else ((d, q), [- 1]))"
| "fifo_step lim cap Tx_done (d, []) = ((d, []), [])"
| "fifo_step lim cap Tx_done (d, p # q) = ((d @ [p], q), [])"

fun fifo_run :: "nat \<Rightarrow> nat \<Rightarrow> tx_ev list \<Rightarrow> bytes list \<times> bytes list \<Rightarrow> (bytes list \<times> bytes list) \<times> u32 list" where
  "fifo_run lim cap [] a = (a, [])"
| "fifo_run lim cap (e # es) a =
     (case fifo_step lim cap e a of (a, rs) \<Rightarrow> case fifo_run lim cap es a of (a, rs') \<Rightarrow> (a, rs @ rs'))"

text \<open>The same events at a card: a transmission can only finish while one is under way.\<close>

fun card_run :: "(bytes \<Rightarrow> 's \<Rightarrow> ('s \<times> u32) res) \<Rightarrow> ('s \<Rightarrow> bool) \<Rightarrow> ('s \<Rightarrow> 's res) \<Rightarrow> tx_ev list \<Rightarrow> 's \<Rightarrow> ('s \<times> u32 list) res" where
  "card_run send busy fin [] s = Inr (s, [])"
| "card_run send busy fin (Tx_req p # es) s =
     bindR (send p s) (\<lambda>(s, r). bindR (card_run send busy fin es s) (\<lambda>(s, rs). Inr (s, r # rs)))"
| "card_run send busy fin (Tx_done # es) s =
     (if busy s then bindR (fin s) (card_run send busy fin es) else card_run send busy fin es s)"

locale transmitter =
  fixes rel :: "'s \<Rightarrow> bytes list \<Rightarrow> bytes list \<Rightarrow> bool"
    and send :: "bytes \<Rightarrow> 's \<Rightarrow> ('s \<times> u32) res"
    and busy :: "'s \<Rightarrow> bool"
    and fin :: "'s \<Rightarrow> 's res"
    and lim :: nat
    and cap :: nat
  assumes send_taken: "rel s d q \<Longrightarrow> length p \<le> lim \<Longrightarrow> length q < cap \<Longrightarrow> \<exists>s'. send p s = Inr (s', 0) \<and> rel s' d (q @ [p])"
    and send_refused: "rel s d q \<Longrightarrow> length p < 2 ^ 32 \<Longrightarrow> \<not> (length p \<le> lim \<and> length q < cap) \<Longrightarrow> send p s = Inr (s, - 1)"
    and fin_next: "rel s d (p # q) \<Longrightarrow> \<exists>s'. fin s = Inr s' \<and> rel s' (d @ [p]) q"
    and busy_iff: "rel s d q \<Longrightarrow> busy s \<longleftrightarrow> q \<noteq> []"
begin

lemma run_refines:
  assumes "rel s d q" "\<forall>p. Tx_req p \<in> set es \<longrightarrow> length p < 2 ^ 32"
  shows "\<exists>s' d' q' rs. card_run send busy fin es s = Inr (s', rs) \<and> fifo_run lim cap es (d, q) = ((d', q'), rs) \<and> rel s' d' q'"
  using assms
proof (induction es arbitrary: s d q)
  case (Cons e es)
  show ?case
  proof (cases e)
    case (Tx_req p)
    show ?thesis
    proof (cases "length p \<le> lim \<and> length q < cap")
      case True
      then obtain s1 where s1: "send p s = Inr (s1, 0)" "rel s1 d (q @ [p])" using send_taken Cons.prems(1) by blast
      then obtain s' d' q' rs where "card_run send busy fin es s1 = Inr (s', rs)"
        "fifo_run lim cap es (d, q @ [p]) = ((d', q'), rs)" "rel s' d' q'"
        using Cons.IH [of s1 d "q @ [p]"] Cons.prems(2) by auto
      then show ?thesis using Tx_req True s1 by simp
    next
      case False
      then have "send p s = Inr (s, - 1)" using send_refused Cons.prems Tx_req by auto
      moreover obtain s' d' q' rs where "card_run send busy fin es s = Inr (s', rs)"
        "fifo_run lim cap es (d, q) = ((d', q'), rs)" "rel s' d' q'"
        using Cons.IH [of s d q] Cons.prems by auto
      ultimately show ?thesis using Tx_req False by auto
    qed
  next
    case Tx_done
    show ?thesis
    proof (cases q)
      case Nil
      then have "\<not> busy s" using busy_iff Cons.prems(1) by blast
      then show ?thesis using Cons.IH [of s d q] Cons.prems Tx_done Nil by auto
    next
      case (Cons p q1)
      then obtain s1 where s1: "fin s = Inr s1" "rel s1 (d @ [p]) q1" using fin_next Cons.prems(1) by blast
      moreover have "busy s" using busy_iff Cons.prems(1) Cons by blast
      ultimately show ?thesis using Cons.IH [of s1 "d @ [p]" q1] Cons.prems(2) Tx_done Cons by auto
    qed
  qed
qed simp

text \<open>Once no more frames come, \<open>cap\<close> finished transmissions bring everything taken onto the wire.\<close>

lemma drained: "length q \<le> n \<Longrightarrow> fst (fifo_run lim cap (replicate n Tx_done) (d, q)) = (d @ q, [])"
proof (induction n arbitrary: d q)
  case (Suc n)
  then show ?case by (cases q) (auto split: prod.split simp: prod_eq_iff)
qed simp

end

definition rtl_send :: "bytes \<Rightarrow> rtl8139 \<Rightarrow> (rtl8139 \<times> u32) res" where
  "rtl_send p r = rtl8139_tx p (of_nat (length p)) r"

definition rtl_busy :: "rtl8139 \<Rightarrow> bool" where
  "rtl_busy r \<longleftrightarrow> nz (rtl_status r AND RTL8139_STATUS_TXOP)"

interpretation rtl: transmitter tx_rel rtl_send rtl_busy rtl8139_tx_done 1024 4
proof
  fix s d q p
  show "\<exists>s'. rtl_send p s = Inr (s', 0) \<and> tx_rel s' d (q @ [p])" if "tx_rel s d q" "length p \<le> 1024" "length q < 4"
    unfolding rtl_send_def using that
    by (intro tx_accepted) (auto simp: word_less_nat_alt unat_of_nat_small)
  show "rtl_send p s = Inr (s, - 1)" if "tx_rel s d q" "length p < 2 ^ 32" "\<not> (length p \<le> 1024 \<and> length q < 4)"
  proof -
    have "length q \<le> 4" using that(1) by (simp add: tx_rel_def)
    then have "1024 < (of_nat (length p) :: u32) \<or> length q = 4"
      using that(2,3) by (auto simp: word_less_nat_alt unat_of_nat_small)
    then show ?thesis unfolding rtl_send_def by (rule tx_refused [OF that(1)])
  qed
  show "\<exists>s'. rtl8139_tx_done s = Inr s' \<and> tx_rel s' (d @ [p]) q" if "tx_rel s d (p # q)"
    by (rule tx_complete [OF that])
  show "rtl_busy s \<longleftrightarrow> q \<noteq> []" if rel: "tx_rel s d q"
  proof -
    obtain h where "h < 4" "length q \<le> 4" "rtl_status s = slot_bits h (length q)" using rel unfolding tx_rel_def by blast
    then show ?thesis using slot_facts(2) [of h "length q"] by (simp add: rtl_busy_def)
  qed
qed

text \<open>The frames that were taken, read off the results of the requests.\<close>

fun taken :: "tx_ev list \<Rightarrow> u32 list \<Rightarrow> bytes list" where
  "taken (Tx_req p # es) (r # rs) = (if r = 0 then p # taken es rs else taken es rs)"
| "taken (Tx_done # es) rs = taken es rs"
| "taken _ _ = []"

lemma fifo_taken: "fifo_run lim cap es (d, q) = ((d', q'), rs) \<Longrightarrow> d' @ q' = d @ q @ taken es rs"
proof (induction es arbitrary: d q rs)
  case (Cons e es)
  then show ?case
    by (cases e; cases q) (fastforce split: prod.splits if_splits)+
qed simp

text \<open>
  C5: the four transmit buffers and the status bits of the card implement a queue. Whatever frames
  are handed to \<open>rtl8139_tx\<close> and whenever transmissions finish, no assertion fails, a request is
  answered as the queue of at most four frames of at most 1024 bytes says, and the frames started are
  those taken, each once, in order and unchanged, one at a time.
\<close>

theorem rtl8139_fifo:
  assumes "tx_rel r d q" "\<forall>p. Tx_req p \<in> set es \<longrightarrow> length p < 2 ^ 32"
  shows "\<exists>r' d' q' rs. card_run rtl_send rtl_busy rtl8139_tx_done es r = Inr (r', rs) \<and>
    fifo_run 1024 4 es (d, q) = ((d', q'), rs) \<and> d' @ q' = d @ q @ taken es rs \<and>
    length q' \<le> 4 \<and> wire r' = d' @ take 1 q' \<and> tx_rel r' d' q'"
proof -
  obtain r' d' q' rs where x: "card_run rtl_send rtl_busy rtl8139_tx_done es r = Inr (r', rs)"
    "fifo_run 1024 4 es (d, q) = ((d', q'), rs)" "tx_rel r' d' q'"
    using rtl.run_refines [OF assms] by blast
  then show ?thesis using fifo_taken [OF x(2)] by (auto simp: tx_rel_def)
qed

definition rtl_zero :: rtl8139 where
  "rtl_zero = \<lparr>iobase = 0, membase = 0, cbr_prev = 0, int_no = 0, tx_reg_num = 0, rtl_status = 0, buflen = replicate 4 0,
     rregs = \<lparr>rg_idr = replicate 6 0, rg_tsd = replicate 4 0, rg_tsad = replicate 4 0, rg_rbstart = 0, rg_cr = 0, rg_cbr = 0,
       rg_imr = 0, rg_isr = 0, rg_rcr = 0, rg_config1 = 0\<rparr>,
     rtl8139_recv_buf = replicate 8208 0, rtl8139_txbuf = replicate 4096 0, wire = []\<rparr>"

lemma rtl_zero_rel: "tx_rel rtl_zero [] []"
  by (auto simp: tx_rel_def rtl_zero_def slot_bits_cases intro!: exI [of _ 0])

theorem rtl8139_fifo_witness:
  "\<exists>r'. card_run rtl_send rtl_busy rtl8139_tx_done [Tx_req [1, 2], Tx_req [3], Tx_done, Tx_req [4], Tx_req [5], Tx_req [6], Tx_req [7]]
     rtl_zero = Inr (r', [0, 0, 0, 0, 0, - 1]) \<and> wire r' = [[1, 2], [3]]"
  using rtl8139_fifo [OF rtl_zero_rel, of "[Tx_req [1, 2], Tx_req [3], Tx_done, Tx_req [4], Tx_req [5], Tx_req [6], Tx_req [7]]"]
  by auto

end
