(* ===== verification/Net.thy ===== *)
theory Net
  imports Rtl8139 Vfs
begin

text \<open>
  The network code: the interface and route tables of \<open>dev/net.c\<close>, the address text of
  \<open>net/inet.c\<close>, ARP (\<open>net/arp.c\<close>) over Ethernet frames (\<open>net/eth\<close>), and the receive side and the
  interrupt of the RTL8139 driver. Packets are lists of bytes; the packed structures in them are
  records with a parser and a printer. What is only printed is left out.
\<close>

section \<open>net/inet.c\<close>

definition inet_htons :: "u16 \<Rightarrow> u16" where
  "inet_htons x = push_bit 8 (x AND 0xFF) OR (drop_bit 8 x AND 0xFF)"

fun ntoa_loop :: "nat list \<Rightarrow> u32 \<Rightarrow> bytes \<Rightarrow> u32 \<Rightarrow> bytes res" where
  "ntoa_loop [] a out l = Inr out"
| "ntoa_loop (i # is) a out l =
     bindR (at_off (\<lambda>p. debug_ds (ucast (drop_bit (i * 8) a AND 0xFF)) p False False) out (unat l)) (\<lambda>out.
     bindR (strlen out) (\<lambda>l.
       if i \<noteq> 3 then
         bindR (wr out (unat l) (ch (CHR ''.''))) (\<lambda>out.
         bindR (wr out (unat (l + 1)) 0) (\<lambda>out. ntoa_loop is a out (l + 1)))
       else ntoa_loop is a out l))"

definition inet_ntoa :: "bytes \<Rightarrow> u32 \<Rightarrow> bytes res" where
  "inet_ntoa out a = ntoa_loop [0, 1, 2, 3] a out 0"

fun aton_loop :: "nat list \<Rightarrow> bytes \<Rightarrow> u32 \<Rightarrow> u32 res" where
  "aton_loop [] p r = Inr r"
| "aton_loop (i # is) p r =
     bindR (atoi p) (\<lambda>n.
     bindR (if i \<noteq> 3 then bindR (strchr p (ch (CHR ''.''))) (\<lambda>q. case q of None \<Rightarrow> Inl AssertFail | Some q \<Rightarrow> Inr (tl q))
            else Inr p) (\<lambda>p.
     aton_loop is p (r OR push_bit (8 * i) (ucast (ucast n :: u8)))))"

definition inet_aton :: "bytes \<Rightarrow> u32 res" where
  "inet_aton p = aton_loop [0, 1, 2, 3] p 0"

section \<open>Frames\<close>

definition ETH_TYPE_INET :: u16 where "ETH_TYPE_INET = 0x0800"
definition ETH_TYPE_ARP :: u16 where "ETH_TYPE_ARP = 0x0806"
definition ARP_WHO_HAS :: u16 where "ARP_WHO_HAS = 1"
definition ARP_RESPONSE :: u16 where "ARP_RESPONSE = 2"

record eth_hdr =
  dst_mac :: bytes
  src_mac :: bytes
  eth_type :: u16

record arp_msg =
  htype :: u16
  ptype :: u16
  hlen :: u8
  plen :: u8
  oper :: u16
  sha :: bytes
  spa :: u32
  tha :: bytes
  tpa :: u32

text \<open>The packed structures in memory, little-endian.\<close>

definition le16 :: "bytes \<Rightarrow> u16" where
  "le16 b = ucast (b ! 0) OR push_bit 8 (ucast (b ! 1))"

definition le32 :: "bytes \<Rightarrow> u32" where
  "le32 b = ucast (b ! 0) OR push_bit 8 (ucast (b ! 1)) OR push_bit 16 (ucast (b ! 2)) OR push_bit 24 (ucast (b ! 3))"

definition half_bytes :: "u16 \<Rightarrow> bytes" where
  "half_bytes v = [ucast v, ucast (drop_bit 8 v)]"

definition eth_of :: "bytes \<Rightarrow> eth_hdr res" where
  "eth_of b = (if length b < 14 then Inl OutOfBounds
     else Inr \<lparr>dst_mac = take 6 b, src_mac = take 6 (drop 6 b), eth_type = le16 (drop 12 b)\<rparr>)"

definition eth_bytes :: "eth_hdr \<Rightarrow> bytes" where
  "eth_bytes e = dst_mac e @ src_mac e @ half_bytes (eth_type e)"

definition arp_of :: "bytes \<Rightarrow> arp_msg res" where
  "arp_of b = (if length b < 28 then Inl OutOfBounds
     else Inr \<lparr>htype = le16 b, ptype = le16 (drop 2 b), hlen = b ! 4, plen = b ! 5, oper = le16 (drop 6 b),
       sha = take 6 (drop 8 b), spa = le32 (drop 14 b), tha = take 6 (drop 18 b), tpa = le32 (drop 24 b)\<rparr>)"

definition arp_bytes :: "arp_msg \<Rightarrow> bytes" where
  "arp_bytes m = half_bytes (htype m) @ half_bytes (ptype m) @ [hlen m, plen m] @ half_bytes (oper m) @
     sha m @ word_bytes (spa m) @ tha m @ word_bytes (tpa m)"

section \<open>The tables of dev/net.c\<close>

definition NETDEV_FLG_ETH :: u32 where "NETDEV_FLG_ETH = 1"
definition NET_ARP_WAITING :: u32 where "NET_ARP_WAITING = 0x40000000"

text \<open>The only transmit function a device is ever given is \<open>rtl8139_tx\<close>.\<close>

datatype netdev_tx_func = Rtl8139_tx

record net_inaddr_spec =
  ia_flags :: u32
  ia_addr :: u32

record net_inaddr_route_spec =
  rt_flags :: u32
  rt_addr :: u32
  rt_dev :: u32
  rt_dst :: u32
  dst_hwaddr :: bytes

record net_priv =
  np_flags :: u32
  inaddrs :: "net_inaddr_spec list"

record netdev =
  nd_name :: bytes
  nd_flags :: u32
  nd_mac :: bytes
  nd_priv :: "nat option"
  nd_tx :: "netdev_tx_func option"

record net =
  netdevs :: "u32 \<Rightarrow> netdev option"
  s_eth_last :: u32
  s_dev_last :: nat
  s_devices :: "u32 list"
  s_dev_privs :: "net_priv list"
  s_routes :: "net_inaddr_route_spec list"
  nic :: rtl8139

text \<open>The address of the static \<open>struct rtl8139\<close>, whose first member is its device.\<close>

definition rtl8139_dev :: u32 where "rtl8139_dev = 0xC0108000"

definition get_dev :: "u32 \<Rightarrow> net \<Rightarrow> netdev res" where
  "get_dev d n = obj (netdevs n) d"

definition put_dev :: "u32 \<Rightarrow> netdev \<Rightarrow> net \<Rightarrow> net" where
  "put_dev d x n = n\<lparr>netdevs := (netdevs n)(d := Some x)\<rparr>"

definition ia_zero :: net_inaddr_spec where "ia_zero = \<lparr>ia_flags = 0, ia_addr = 0\<rparr>"

definition route_zero :: net_inaddr_route_spec where
  "route_zero = \<lparr>rt_flags = 0, rt_addr = 0, rt_dev = 0, rt_dst = 0, dst_hwaddr = replicate 6 0\<rparr>"

text \<open>The mask is an \<open>int8_t\<close>.\<close>

definition net_inaddr_mask :: "u8 \<Rightarrow> u32 res" where
  "net_inaddr_mask m =
     (if m = 0 then Inr 0 else if m = 8 then Inr 0xFF else if m = 16 then Inr 0xFFFF
      else if m = 24 then Inr 0xFFFFFF else if m = 32 then Inr 0xFFFFFFFF else Inl Panic)"

definition NET_SAME_SUBNET :: "u8 \<Rightarrow> u32 \<Rightarrow> u32 \<Rightarrow> bool res" where
  "NET_SAME_SUBNET m a b = bindR (net_inaddr_mask m) (\<lambda>w. Inr (a AND w = b AND w))"

fun iface_loop :: "u32 list \<Rightarrow> bytes \<Rightarrow> net \<Rightarrow> u32 res" where
  "iface_loop [] name n = Inr 0"
| "iface_loop (d # ds) name n =
     (if d = 0 then Inr 0
      else bindR (get_dev d n) (\<lambda>x. bindR (strcmp name (nd_name x)) (\<lambda>c.
        if c = 0 then Inr d else iface_loop ds name n)))"

definition net_find_iface :: "bytes \<Rightarrow> net \<Rightarrow> u32 res" where
  "net_find_iface name n = iface_loop (s_devices n) name n"

fun priv_loop :: "net_priv list \<Rightarrow> nat \<Rightarrow> nat option" where
  "priv_loop [] i = None"
| "priv_loop (p # ps) i = (if nz (np_flags p AND 0x80000000) then priv_loop ps (Suc i) else Some i)"

definition net_priv_alloc :: "net \<Rightarrow> net \<times> nat option" where
  "net_priv_alloc n =
     (case priv_loop (s_dev_privs n) 0 of None \<Rightarrow> (n, None)
      | Some i \<Rightarrow> (n\<lparr>s_dev_privs := (s_dev_privs n)[i := (s_dev_privs n ! i)\<lparr>np_flags := np_flags (s_dev_privs n ! i) OR 0x80000000\<rparr>]\<rparr>, Some i))"

definition net_priv_reset :: "nat \<Rightarrow> net \<Rightarrow> net res" where
  "net_priv_reset i n =
     bindR (rd (s_dev_privs n) i) (\<lambda>p. Inr (n\<lparr>s_dev_privs := (s_dev_privs n)[i := p\<lparr>inaddrs := replicate 4 ia_zero\<rparr>]\<rparr>))"

definition net_init :: "net \<Rightarrow> net" where
  "net_init n = n\<lparr>s_routes := replicate 32 route_zero\<rparr>"

definition net_register :: "u32 \<Rightarrow> net \<Rightarrow> net res" where
  "net_register d n =
     bindR (get_dev d n) (\<lambda>x.
     assertR (nz (nd_flags x AND NETDEV_FLG_ETH))
      (bindR (memcpy (nd_name x) (lit ''eth'') 3) (\<lambda>nm.
       bindR (wr nm 3 (ucast (s_eth_last n + 48))) (\<lambda>nm.
       bindR (wr nm 4 0) (\<lambda>nm.
       (case net_priv_alloc (n\<lparr>s_eth_last := s_eth_last n + 1\<rparr>) of
          (n, None) \<Rightarrow> Inl AssertFail
        | (n, Some i) \<Rightarrow>
            bindR (net_priv_reset i (put_dev d (x\<lparr>nd_name := nm, nd_priv := Some i\<rparr>) n)) (\<lambda>n.
            bindR (wr (s_devices n) (s_dev_last n) d) (\<lambda>ds.
            Inr (n\<lparr>s_devices := ds, s_dev_last := Suc (s_dev_last n)\<rparr>)))))))))"

text \<open>The address structure of a device; a null pointer fails the assertion.\<close>

definition dev_inaddrs :: "netdev \<Rightarrow> net \<Rightarrow> net_inaddr_spec list res" where
  "dev_inaddrs x n = (case nd_priv x of None \<Rightarrow> Inl AssertFail
     | Some i \<Rightarrow> bindR (rd (s_dev_privs n) i) (\<lambda>p. Inr (inaddrs p)))"

definition set_inaddr :: "netdev \<Rightarrow> nat \<Rightarrow> net_inaddr_spec \<Rightarrow> net \<Rightarrow> net" where
  "set_inaddr x j ia n = (case nd_priv x of None \<Rightarrow> n
     | Some i \<Rightarrow> n\<lparr>s_dev_privs := (s_dev_privs n)[i := (s_dev_privs n ! i)\<lparr>inaddrs := (inaddrs (s_dev_privs n ! i))[j := ia]\<rparr>]\<rparr>)"

fun inaddr_loop :: "net_inaddr_spec list \<Rightarrow> nat \<Rightarrow> nat option" where
  "inaddr_loop [] i = None"
| "inaddr_loop (x # xs) i = (if \<not> nz (ia_addr x) \<and> \<not> nz (ia_flags x) then Some i else inaddr_loop xs (Suc i))"

definition net_inaddr_add :: "u32 \<Rightarrow> u32 \<Rightarrow> u32 \<Rightarrow> net \<Rightarrow> net res" where
  "net_inaddr_add d addr flags n =
     assertR (d \<noteq> 0)
      (bindR (get_dev d n) (\<lambda>x.
       bindR (dev_inaddrs x n) (\<lambda>ias.
       case inaddr_loop (take 4 ias) 0 of None \<Rightarrow> Inl Panic
       | Some j \<Rightarrow> Inr (set_inaddr x j \<lparr>ia_flags = flags OR 0x80000000, ia_addr = addr\<rparr> n))))"

definition net_inaddr_from :: "u32 \<Rightarrow> net \<Rightarrow> u32 res" where
  "net_inaddr_from d n =
     assertR (d \<noteq> 0)
      (bindR (get_dev d n) (\<lambda>x. bindR (dev_inaddrs x n) (\<lambda>ias. bindR (rd ias 0) (\<lambda>ia.
       assertR (nz (ia_flags ia)) (Inr (ia_addr ia))))))"

fun free_route :: "net_inaddr_route_spec list \<Rightarrow> nat \<Rightarrow> nat option" where
  "free_route [] i = None"
| "free_route (r # rs) i = (if nz (rt_flags r) then free_route rs (Suc i) else Some i)"

definition net_route_add :: "u32 \<Rightarrow> u32 \<Rightarrow> u32 \<Rightarrow> u32 \<Rightarrow> net \<Rightarrow> net res" where
  "net_route_add addr via d flags n =
     assertR (d \<noteq> 0) (assertR (flags AND 7 = 0)
       (case free_route (s_routes n) 0 of None \<Rightarrow> Inl Panic
        | Some i \<Rightarrow> Inr (n\<lparr>s_routes := (s_routes n)[i := (s_routes n ! i)\<lparr>rt_flags := flags OR 0x80000000, rt_addr := addr,
             rt_dev := d, rt_dst := via\<rparr>]\<rparr>)))"

text \<open>The loop of \<open>net_route_resolve\<close> stops at the first unused route.\<close>

fun resolve_loop :: "net_inaddr_route_spec list \<Rightarrow> nat \<Rightarrow> u32 \<Rightarrow> u32 \<Rightarrow> nat option" where
  "resolve_loop [] i d a = None"
| "resolve_loop (r # rs) i d a =
     (if \<not> nz (rt_flags r) then None
      else if rt_dev r = d \<and> rt_dst r = a then Some i
      else resolve_loop rs (Suc i) d a)"

definition net_route_resolve :: "u32 \<Rightarrow> u32 \<Rightarrow> bytes \<Rightarrow> net \<Rightarrow> net res" where
  "net_route_resolve d a hw n =
     assertR (d \<noteq> 0)
       (case resolve_loop (s_routes n) 0 d a of None \<Rightarrow> Inl Panic
        | Some i \<Rightarrow> bindR (memcpy (dst_hwaddr (s_routes n ! i)) hw 6) (\<lambda>h.
            Inr (n\<lparr>s_routes := (s_routes n)[i := (s_routes n ! i)\<lparr>dst_hwaddr := h\<rparr>]\<rparr>)))"

section \<open>Sending and receiving\<close>

definition net_send_from :: "u32 \<Rightarrow> bytes \<Rightarrow> u32 \<Rightarrow> net \<Rightarrow> (net \<times> u32) res" where
  "net_send_from d buf len n =
     assertR (d \<noteq> 0)
      (bindR (get_dev d n) (\<lambda>x.
       case nd_tx x of None \<Rightarrow> Inl AssertFail
       | Some Rtl8139_tx \<Rightarrow>
           assertR (d = rtl8139_dev) (bindR (rtl8139_tx buf len (nic n)) (\<lambda>(c, r). Inr (n\<lparr>nic := c\<rparr>, r)))))"

section \<open>net/arp.c\<close>

definition arp_reply_frame :: "bytes \<Rightarrow> arp_msg \<Rightarrow> bytes" where
  "arp_reply_frame mac ask =
     eth_bytes \<lparr>dst_mac = sha ask, src_mac = mac, eth_type = inet_htons ETH_TYPE_ARP\<rparr> @
     arp_bytes \<lparr>htype = htype ask, ptype = ptype ask, hlen = hlen ask, plen = plen ask, oper = inet_htons ARP_RESPONSE,
       sha = mac, spa = tpa ask, tha = sha ask, tpa = spa ask\<rparr>"

definition arp_reply :: "u32 \<Rightarrow> arp_msg \<Rightarrow> net \<Rightarrow> net res" where
  "arp_reply d ask n =
     bindR (get_dev d n) (\<lambda>x.
     bindR (net_send_from d (arp_reply_frame (nd_mac x) ask) 42 n) (\<lambda>(n, r). assertR (r = 0) (Inr n)))"

definition arp_handle_packet :: "u32 \<Rightarrow> arp_msg \<Rightarrow> net \<Rightarrow> net res" where
  "arp_handle_packet d msg n =
     (let op = inet_htons (oper msg) in
      if op = ARP_WHO_HAS then arp_reply d msg n
      else if op = ARP_RESPONSE then
        bindR (get_dev d n) (\<lambda>x.
          if nz (nd_flags x AND NET_ARP_WAITING) then net_route_resolve d (spa msg) (sha msg) n else Inr n)
      else Inr n)"

definition arp_request_frame :: "bytes \<Rightarrow> u32 \<Rightarrow> u32 \<Rightarrow> bytes" where
  "arp_request_frame mac inaddr src =
     eth_bytes \<lparr>dst_mac = replicate 6 0xFF, src_mac = mac, eth_type = inet_htons ETH_TYPE_ARP\<rparr> @
     arp_bytes \<lparr>htype = inet_htons 1, ptype = inet_htons ETH_TYPE_INET, hlen = 6, plen = 4, oper = inet_htons ARP_WHO_HAS,
       sha = mac, spa = src, tha = replicate 6 0, tpa = inaddr\<rparr>"

definition arp_request_in_hwaddr :: "u32 \<Rightarrow> u32 \<Rightarrow> u32 \<Rightarrow> net \<Rightarrow> net res" where
  "arp_request_in_hwaddr d inaddr src n =
     assertR (d \<noteq> 0)
      (bindR (get_dev d n) (\<lambda>x.
       let n = put_dev d (x\<lparr>nd_flags := nd_flags x OR NET_ARP_WAITING\<rparr>) n in
       bindR (net_send_from d (arp_request_frame (nd_mac x) inaddr src) 42 n) (\<lambda>(n, r). assertR (r = 0) (Inr n))))"

definition net_handle_packet :: "u32 \<Rightarrow> bytes \<Rightarrow> net \<Rightarrow> net res" where
  "net_handle_packet d buf n =
     bindR (eth_of buf) (\<lambda>eth.
       if inet_htons (eth_type eth) = ETH_TYPE_ARP then
         bindR (arp_of (drop 14 buf)) (\<lambda>msg. arp_handle_packet d msg n)
       else Inr n)"

section \<open>Configuration of the routes\<close>

text \<open>The inner loop of \<open>net_post_config\<close>: the first address of the device in the subnet of the gateway.\<close>

fun post_inner :: "net_inaddr_spec list \<Rightarrow> u32 \<Rightarrow> u32 \<Rightarrow> net \<Rightarrow> net res" where
  "post_inner [] d dst n = Inr n"
| "post_inner (ia # ias) d dst n =
     (if \<not> nz (ia_flags ia) then Inr n
      else bindR (NET_SAME_SUBNET (ucast (ia_flags ia AND 0xFF)) (ia_addr ia) dst) (\<lambda>same.
        if same then arp_request_in_hwaddr d dst (ia_addr ia) n else post_inner ias d dst n))"

fun post_loop :: "net_inaddr_route_spec list \<Rightarrow> net \<Rightarrow> net res" where
  "post_loop [] n = Inr n"
| "post_loop (r # rs) n =
     (if \<not> nz (rt_flags r) then Inr n
      else assertR (rt_dev r \<noteq> 0)
       (bindR (get_dev (rt_dev r) n) (\<lambda>x. bindR (dev_inaddrs x n) (\<lambda>ias.
        bindR (post_inner (take 4 ias) (rt_dev r) (rt_dst r) n) (post_loop rs)))))"

definition net_post_config :: "net \<Rightarrow> net res" where
  "net_post_config n = post_loop (s_routes n) n"

section \<open>net_load_config\<close>

text \<open>
  The locals of \<open>net_load_config\<close> that live from one line to the next, and the network state.
\<close>

record cfg =
  buf0 :: bytes
  curr_iface :: u32
  c_inaddr :: u32
  c_mask :: u8
  c_inaddr1 :: u32
  c_net :: net

text \<open>The pointer difference \<open>q - p\<close> of two pointers into the same array.\<close>

definition ptr_diff :: "bytes \<Rightarrow> bytes \<Rightarrow> nat" where
  "ptr_diff q p = length p - length q"

text \<open>\<open>strncpy(buf0, src, k); buf0[k] = 0\<close>\<close>

definition copy_buf0 :: "bytes \<Rightarrow> nat \<Rightarrow> cfg \<Rightarrow> cfg res" where
  "copy_buf0 src k c =
     bindR (strncpy (buf0 c) src (of_nat k)) (\<lambda>b. bindR (wr b k 0) (\<lambda>b. Inr (c\<lparr>buf0 := b\<rparr>)))"

definition cfg_section :: "bytes \<Rightarrow> cfg \<Rightarrow> cfg res" where
  "cfg_section line c =
     bindR (strchr line (ch (CHR '']''))) (\<lambda>e. case e of None \<Rightarrow> Inl AssertFail
     | Some e \<Rightarrow>
         bindR (copy_buf0 (tl line) (ptr_diff e line - 1) c) (\<lambda>c.
         bindR (net_find_iface (buf0 c) (c_net c)) (\<lambda>d. Inr (c\<lparr>curr_iface := d\<rparr>))))"

definition cfg_inet :: "bytes \<Rightarrow> cfg \<Rightarrow> cfg res" where
  "cfg_inet e c =
     bindR (strchr e (ch (CHR ''/''))) (\<lambda>p.
     bindR (case p of
         Some p \<Rightarrow> bindR (atoi (tl p)) (\<lambda>m. copy_buf0 e (ptr_diff p e) (c\<lparr>c_mask := ucast m\<rparr>))
       | None \<Rightarrow> bindR (strcpy (buf0 c) e) (\<lambda>b. Inr (c\<lparr>buf0 := b\<rparr>))) (\<lambda>c.
     bindR (inet_aton (buf0 c)) (\<lambda>a.
     assertR (nz a)
       (bindR (net_inaddr_add (curr_iface c) a (ucast (c_mask c)) (c_net c)) (\<lambda>n.
        Inr (c\<lparr>c_inaddr := a, c_net := n\<rparr>))))))"

definition cfg_route :: "bytes \<Rightarrow> cfg \<Rightarrow> cfg res" where
  "cfg_route e c =
     bindR (strchr e (ch (CHR ''/''))) (\<lambda>p.
     bindR (strchr e (ch (CHR '' ''))) (\<lambda>n. case n of None \<Rightarrow> Inl AssertFail
     | Some n \<Rightarrow>
         bindR (case p of
             Some p \<Rightarrow> bindR (atoi (tl p)) (\<lambda>m. copy_buf0 e (ptr_diff p e) (c\<lparr>c_mask := ucast m\<rparr>))
           | None \<Rightarrow> copy_buf0 e (ptr_diff n e) c) (\<lambda>c.
         bindR (inet_aton (buf0 c)) (\<lambda>a.
         assertR (nz a)
          (bindR (inet_aton (tl n)) (\<lambda>b.
           assertR (nz b)
            (bindR (net_route_add a b (curr_iface c) (ucast (c_mask c)) (c_net c)) (\<lambda>t.
             Inr (c\<lparr>c_inaddr := a, c_inaddr1 := b, c_net := t\<rparr>)))))))))"

definition config_line :: "bytes \<Rightarrow> cfg \<Rightarrow> cfg res" where
  "config_line line c =
     bindR (deref line) (\<lambda>x.
     if x = ch (CHR ''['') then cfg_section line c
     else bindR (strncmp line (lit ''inet='') 5) (\<lambda>i.
       if i = 0 then (if curr_iface c \<noteq> 0 then cfg_inet (drop 5 line) c else Inr c)
       else bindR (strncmp line (lit ''route '') 6) (\<lambda>r.
         if r = 0 then (if curr_iface c \<noteq> 0 then cfg_route (drop 6 line) c else Inr c)
         else Inr c)))"

text \<open>
  The reading loop; \<open>lb\<close> is the address of \<open>linebuf\<close>, \<open>cp\<close> and \<open>rp\<close> those of the locals of \<open>vfs_gets\<close>.
\<close>

partial_function (option) config_loop :: "u32 \<Rightarrow> u32 \<Rightarrow> u32 \<Rightarrow> u32 \<Rightarrow> cfg \<Rightarrow> kst \<Rightarrow> (kst \<times> cfg) res option" where
  "config_loop f lb cp rp c s =
     (case vfs_gets f lb 128 cp rp s of
        Inl e \<Rightarrow> Some (Inl e)
      | Inr (s, r) \<Rightarrow>
          if sint r > 0 then
            (case bindR (vreads lb 128 s) (\<lambda>line. config_line line c) of
               Inl e \<Rightarrow> Some (Inl e)
             | Inr c \<Rightarrow> config_loop f lb cp rp c s)
          else Some (Inr (s, c)))"

declare config_loop.simps [code]

definition net_load_config :: "bytes \<Rightarrow> u32 \<Rightarrow> u32 \<Rightarrow> u32 \<Rightarrow> kst \<times> net \<Rightarrow> ((kst \<times> net) \<times> u32) res" where
  "net_load_config path lb cp rp sn =
     bindR (vfs_open path VFS_FLG_RD (fst sn)) (\<lambda>(s, f).
       if f = 0 then Inr ((s, snd sn), - 1)
       else bindR (endless (config_loop f lb cp rp
               \<lparr>buf0 = junk 64 s, curr_iface = 0, c_inaddr = 0, c_mask = 0, c_inaddr1 = 0, c_net = snd sn\<rparr> s)) (\<lambda>(s, c).
            bindR (vfs_close f s) (\<lambda>s. Inr ((s, c_net c), 0))))"

section \<open>Receiving\<close>

text \<open>\<open>rtl8139_recv\<close>: what the card has written since the last time, behind the 4 bytes of its own header.\<close>

definition recv_size :: "rtl8139 \<Rightarrow> u16" where
  "recv_size r = (if rg_cbr (rregs r) \<ge> cbr_prev r then rg_cbr (rregs r) - cbr_prev r else rg_cbr (rregs r))"

definition rtl8139_recv :: "net \<Rightarrow> net res" where
  "rtl8139_recv n =
     bindR (if recv_size (nic n) \<ge> 4 then
              net_handle_packet rtl8139_dev (drop (unat (cbr_prev (nic n)) + 4) (rtl8139_recv_buf (nic n))) n
            else Inr n) (\<lambda>n.
     Inr (n\<lparr>nic := (nic n)\<lparr>cbr_prev := rg_cbr (rregs (nic n))\<rparr>\<rparr>))"

definition rtl8139_irq_handler :: "net \<Rightarrow> (net \<times> u32) res" where
  "rtl8139_irq_handler n =
     (let isr = rg_isr (rregs (nic n)) in
      if nz (isr AND RTL8139_ISR_ROK) then
        bindR (rtl8139_recv (n\<lparr>nic := write_isr (isr OR RTL8139_ISR_ROK) (nic n)\<rparr>)) (\<lambda>n. Inr (n, 0))
      else if nz (isr AND RTL8139_ISR_TOK) then
        bindR (rtl8139_tx_done (nic n)) (\<lambda>c. Inr (n\<lparr>nic := c\<rparr>, 0))
      else if nz (isr AND RTL8139_ISR_RER) then
        Inr (n\<lparr>nic := write_isr (isr OR RTL8139_ISR_RER) (nic n)\<rparr>, 0)
      else Inr (n, - 1))"

end
