(* ===== verification/NetProps.thy ===== *)
theory NetProps
  imports Net
begin

text \<open>
  What the network code guarantees: the text form of addresses is inverted by its parser, lines of the
  configuration file fill the tables, ARP requests are answered, and the answers resolve the routes.
\<close>

section \<open>Addresses as text\<close>

definition octet :: "u32 \<Rightarrow> nat \<Rightarrow> nat" where
  "octet a i = unat (drop_bit (i * 8) a AND 0xFF)"

abbreviation dot :: u8 where "dot \<equiv> 46"

definition ip_str :: "u32 \<Rightarrow> bytes" where
  "ip_str a = dec_str (octet a 0) @ dot # dec_str (octet a 1) @ dot # dec_str (octet a 2) @ dot # dec_str (octet a 3)"

lemma octet_less: "octet a i < 256"
proof -
  have "unat (drop_bit (i * 8) a AND 0xFF) \<le> unat (0xFF :: u32)" by (metis word_and_le1 word_le_nat_alt)
  then show ?thesis by (simp add: octet_def)
qed

lemma octet_digits: "length (dec_str (octet a i)) \<le> 3"
  using dec_str_length [of "octet a i" 3] octet_less [of a i] by simp

lemma dec_str_no_zero: "0 \<notin> set (dec_str n)"
  using dec_str_digits by fastforce

lemma dec_str_no_sep: "\<not> is_digit c \<Longrightarrow> c \<notin> set (dec_str n)"
  using dec_str_digits by blast

lemma not_digit_seps: "\<not> is_digit 46" "\<not> is_digit 47" "\<not> is_digit 32" "\<not> is_digit 0" "\<not> is_digit 93"
  by (simp_all add: is_digit_def)

lemma ds_octet:
  assumes "4 \<le> length r"
  shows "debug_ds (ucast (drop_bit (i * 8) a AND 0xFF)) r False False =
    Inr (dec_str (octet a i) @ 0 # drop (Suc (length (dec_str (octet a i)))) r)"
proof -
  have u: "unat (ucast (drop_bit (i * 8) a AND 0xFF) :: u64) = octet a i"
    by (simp add: octet_def unat_ucast_up)
  have s: "sgn_str (ds_magnitude (ucast (drop_bit (i * 8) a AND 0xFF)) False False) = dec_str (octet a i)"
    by (simp add: sgn_str_unsigned u)
  have "length (dec_str (octet a i)) < length r" using octet_digits [of a i] assms by simp
  then show ?thesis using debug_ds_ok [of "ucast (drop_bit (i * 8) a AND 0xFF)" False False r] s by simp
qed

lemma strlen_prefix: "0 \<notin> set s \<Longrightarrow> strlen (s @ 0 # r) = Inr (of_nat (length s))"
  using strlen_cstr [OF cstr_append] by simp

lemma ntoa_step:
  assumes "0 \<notin> set s" "5 \<le> length r" "length s < 100" "i \<noteq> 3"
  shows "ntoa_loop (i # is) a (s @ r) (of_nat (length s)) =
    ntoa_loop is a ((s @ dec_str (octet a i) @ [dot]) @ 0 # drop (length (dec_str (octet a i)) + 2) r)
      (of_nat (length (s @ dec_str (octet a i) @ [dot])))"
proof -
  let ?d = "dec_str (octet a i)"
  have d: "length ?d \<le> 3" by (rule octet_digits)
  have n: "unat (of_nat n :: u32) = n" "unat (of_nat n + 1 :: u32) = Suc n" if "n < 200" for n
  proof -
    show "unat (of_nat n :: u32) = n" using that by (simp add: unat_of_nat_small)
    have "of_nat n + 1 = (of_nat (Suc n) :: u32)" by simp
    moreover have "unat (of_nat (Suc n) :: u32) = Suc n" using that by (intro unat_of_nat_small) simp
    ultimately show "unat (of_nat n + 1 :: u32) = Suc n" by (simp add: add.commute)
  qed
  have u: "unat (of_nat (length s) :: u32) = length s" "unat (of_nat (length s + length ?d) :: u32) = length s + length ?d"
    "unat (of_nat (length s + length ?d) + 1 :: u32) = Suc (length s + length ?d)"
    using n [of "length s"] n [of "length s + length ?d"] assms(3) d by (simp_all del: of_nat_add)
  obtain x r' where r: "drop (Suc (length ?d)) r = x # r'" using assms(2) d
    by (metis Suc_le_eq drop_eq_Nil list.exhaust not_less_eq_eq numeral_eq_Suc le_trans Suc_le_mono pred_numeral_simps(3) eval_nat_numeral(2,3) semiring_norm(26,27))
  then have r2: "drop (length ?d + 2) r = r'" by (metis add_2_eq_Suc' drop_Suc list.sel(3) tl_drop)
  have ds: "debug_ds (ucast (drop_bit (i * 8) a AND 0xFF)) r False False = Inr (?d @ 0 # x # r')"
    using ds_octet [of r i a] assms(2) r by simp
  have sl: "strlen (s @ ?d @ 0 # x # r') = Inr (of_nat (length s + length ?d))"
    using strlen_prefix [of "s @ ?d" "x # r'"] assms(1) dec_str_no_zero by simp
  show ?thesis
    using assms(4) u ds sl
    by (simp del: of_nat_add add: at_off_def wr_def nth_append list_update_append r2 r2 [simplified] add.commute add.left_commute)
qed


lemma ntoa_next:
  assumes "0 \<notin> set s" "length s < 100" "i \<noteq> 3" "s' = s @ dec_str (octet a i) @ [dot]" "m + 4 \<le> length r" "4 \<le> m"
  obtains r' where "ntoa_loop (i # is) a (s @ r) (of_nat (length s)) = ntoa_loop is a (s' @ r') (of_nat (length s'))"
    "m \<le> length r'"
proof
  have "5 \<le> length r" using assms(5,6) by linarith
  then show "ntoa_loop (i # is) a (s @ r) (of_nat (length s)) =
      ntoa_loop is a (s' @ 0 # drop (length (dec_str (octet a i)) + 2) r) (of_nat (length s'))"
    using ntoa_step [OF assms(1) _ assms(2,3)] assms(4) by simp
  show "m \<le> length (0 # drop (length (dec_str (octet a i)) + 2) r)"
    using assms(5,6) octet_digits [of a i] by simp
qed

lemma ntoa_text:
  assumes "16 \<le> length out"
  shows "\<exists>r. inet_ntoa out a = Inr (ip_str a @ 0 # r)"
proof -
  define s1 where "s1 = dec_str (octet a 0) @ [dot]"
  define s2 where "s2 = s1 @ dec_str (octet a 1) @ [dot]"
  define s3 where "s3 = s2 @ dec_str (octet a 2) @ [dot]"
  have s: "0 \<notin> set s1" "0 \<notin> set s2" "0 \<notin> set s3" using dec_str_no_zero by (simp_all add: s1_def s2_def s3_def)
  have ls: "length s1 \<le> 4" "length s2 \<le> 8" "length s3 \<le> 12"
    using octet_digits [of a 0] octet_digits [of a 1] octet_digits [of a 2] by (simp_all add: s1_def s2_def s3_def)
  obtain r1 where r1: "ntoa_loop [0, 1, 2, 3] a out 0 = ntoa_loop [1, 2, 3] a (s1 @ r1) (of_nat (length s1))" "12 \<le> length r1"
    by (rule ntoa_next [of "[]" 0 s1 a 12 out "[1, 2, 3]"]) (use assms s1_def in auto)
  obtain r2 where r2: "ntoa_loop [1, 2, 3] a (s1 @ r1) (of_nat (length s1)) = ntoa_loop [2, 3] a (s2 @ r2) (of_nat (length s2))"
    "8 \<le> length r2"
    by (rule ntoa_next [of s1 1 s2 a 8 r1 "[2, 3]"]) (use r1(2) s ls s2_def in auto)
  obtain r3 where r3: "ntoa_loop [2, 3] a (s2 @ r2) (of_nat (length s2)) = ntoa_loop [3] a (s3 @ r3) (of_nat (length s3))"
    "4 \<le> length r3"
    by (rule ntoa_next [of s2 2 s3 a 4 r2 "[3]"]) (use r2(2) s ls s3_def in auto)
  let ?d = "dec_str (octet a 3)"
  have "unat (of_nat (length s3) :: u32) = length s3" using ls by (simp add: unat_of_nat_small)
  moreover have "strlen (s3 @ ?d @ 0 # drop (Suc (length ?d)) r3) = Inr (of_nat (length s3 + length ?d))"
    using strlen_prefix [of "s3 @ ?d"] s(3) dec_str_no_zero by simp
  ultimately have "ntoa_loop [3] a (s3 @ r3) (of_nat (length s3)) = Inr (s3 @ ?d @ 0 # drop (Suc (length ?d)) r3)"
    using ds_octet [OF r3(2), of 3 a] by (simp del: of_nat_add add: at_off_def)
  then show ?thesis using r1 r2 r3 by (simp add: inet_ntoa_def ip_str_def s1_def s2_def s3_def)
qed

section \<open>Words as bytes\<close>

lemma low_byte_mask: "ucast (x AND mask 8 :: u32) = (ucast x :: u8)"
  by (rule bit_word_eqI) (auto simp: bit_simps)

lemma low_byte: "ucast (x AND 0xFF :: u32) = (ucast x :: u8)"
proof -
  have "(0xFF :: u32) = mask 8" by (simp add: mask_eq_exp_minus_1)
  then show ?thesis using low_byte_mask [of x] by simp
qed

lemma le32_word_bytes: "le32 (word_bytes v @ r) = v"
  by (simp add: le32_def word_bytes_def word_of_bytes)

lemma le16_half_bytes: "le16 (half_bytes v @ r) = v"
proof -
  have "ucast (ucast v :: u8) OR push_bit 8 (ucast (ucast (drop_bit 8 v) :: u8)) = v"
    by (rule bit_word_eqI) (auto simp: bit_simps)
  then show ?thesis by (simp add: le16_def half_bytes_def)
qed

section \<open>Parsing addresses\<close>

lemma atoi_loop_sep:
  "\<forall>c\<in>set s. nz c \<and> is_digit c \<Longrightarrow> \<not> is_digit x \<Longrightarrow>
   atoi_loop (s @ x # p) r = Inr (foldl (\<lambda>r c. r * 10 + (ucast c - 48)) r s)"
  by (induction s arbitrary: r) auto

lemma atoi_sep: "\<not> is_digit x \<Longrightarrow> atoi (dec_str n @ x # p) = Inr (of_nat n)"
  by (simp add: atoi_def atoi_loop_sep dec_str_digits foldl_conv_foldr foldr_dec_rev dec_str_def split: if_splits)

lemma strchr_sep: "0 \<notin> set s \<Longrightarrow> c \<notin> set s \<Longrightarrow> nz c \<Longrightarrow> strchr (s @ c # p) c = Inr (Some (c # p))"
  by (induction s) auto

lemma aton_ip:
  assumes "\<not> is_digit x"
  shows "inet_aton (ip_str a @ x # p) = Inr a"
proof -
  have o: "of_nat (octet a i) = drop_bit (i * 8) a AND 0xFF" for i by (simp add: octet_def)
  have st: "strchr (dec_str n @ dot # q) dot = Inr (Some (dot # q))" for n q
    by (rule strchr_sep) (simp_all add: dec_str_no_zero dec_str_no_sep not_digit_seps)
  have at: "atoi (dec_str (octet a i) @ y # q) = Inr (drop_bit (i * 8) a AND 0xFF)" if "\<not> is_digit y" for i y q
    using atoi_sep [OF that] o by simp
  have "inet_aton (ip_str a @ x # p) = Inr (ucast (ucast (a AND 0xFF) :: u8) OR push_bit 8 (ucast (ucast (drop_bit 8 a AND 0xFF) :: u8)) OR
      push_bit 16 (ucast (ucast (drop_bit 16 a AND 0xFF) :: u8)) OR push_bit 24 (ucast (ucast (drop_bit 24 a AND 0xFF) :: u8)))"
    unfolding inet_aton_def ip_str_def using st at [OF not_digit_seps(1)] at [OF assms]
    by (simp add: or.assoc)
  also have "\<dots> = Inr a" by (simp only: low_byte word_of_bytes)
  finally show ?thesis .
qed

text \<open>
  C37: every IPv4 address comes back from its text: \<open>inet_ntoa\<close> writes the dotted decimal form into a
  buffer of 16 bytes and \<open>inet_aton\<close> reads it back.
\<close>

theorem inet_ntoa_aton:
  assumes "16 \<le> length out"
  shows "\<exists>buf. inet_ntoa out a = Inr buf \<and> cstr buf (ip_str a) \<and> inet_aton buf = Inr a"
proof -
  obtain r where r: "inet_ntoa out a = Inr (ip_str a @ 0 # r)" using ntoa_text [OF assms] by blast
  moreover have "cstr (ip_str a @ 0 # r) (ip_str a)"
    by (rule cstr_append) (simp add: ip_str_def dec_str_no_zero)
  moreover have "inet_aton (ip_str a @ 0 # r) = Inr a" by (rule aton_ip [OF not_digit_seps(4)])
  ultimately show ?thesis by blast
qed

theorem inet_ntoa_aton_witness:
  "\<exists>buf. inet_ntoa (replicate 16 0) 0x0201A8C0 = Inr buf \<and> inet_aton buf = Inr 0x0201A8C0"
  using inet_ntoa_aton [of "replicate 16 0" "0x0201A8C0"] by auto


section \<open>Frames and their bytes\<close>

definition eth_ok :: "eth_hdr \<Rightarrow> bool" where
  "eth_ok e \<longleftrightarrow> length (dst_mac e) = 6 \<and> length (src_mac e) = 6"

definition arp_ok :: "arp_msg \<Rightarrow> bool" where
  "arp_ok m \<longleftrightarrow> length (sha m) = 6 \<and> length (tha m) = 6"

lemma half_len [simp]: "length (half_bytes v) = 2"
  by (simp add: half_bytes_def)

lemma eth_of_bytes: "eth_ok e \<Longrightarrow> eth_of (eth_bytes e @ r) = Inr e"
  by (simp add: eth_ok_def eth_of_def eth_bytes_def le16_half_bytes)

lemma eth_bytes_len: "eth_ok e \<Longrightarrow> length (eth_bytes e) = 14"
  by (simp add: eth_ok_def eth_bytes_def)

lemma arp_bytes_len: "arp_ok m \<Longrightarrow> length (arp_bytes m) = 28"
  by (simp add: arp_ok_def arp_bytes_def)

lemma arp_of_bytes:
  assumes "arp_ok m"
  shows "arp_of (arp_bytes m @ r) = Inr m"
proof -
  have l: "\<not> length (arp_bytes m @ r) < 28" using arp_bytes_len [OF assms] by simp
  have d: "drop 2 (arp_bytes m @ r) = half_bytes (ptype m) @ [hlen m, plen m] @ half_bytes (oper m) @
       sha m @ word_bytes (spa m) @ tha m @ word_bytes (tpa m) @ r"
    "drop 6 (arp_bytes m @ r) = half_bytes (oper m) @ sha m @ word_bytes (spa m) @ tha m @ word_bytes (tpa m) @ r"
    "drop 8 (arp_bytes m @ r) = sha m @ word_bytes (spa m) @ tha m @ word_bytes (tpa m) @ r"
    "drop 14 (arp_bytes m @ r) = word_bytes (spa m) @ tha m @ word_bytes (tpa m) @ r"
    "drop 18 (arp_bytes m @ r) = tha m @ word_bytes (tpa m) @ r"
    "drop 24 (arp_bytes m @ r) = word_bytes (tpa m) @ r"
    using assms by (simp_all add: arp_ok_def arp_bytes_def)
  have n: "(arp_bytes m @ r) ! 4 = hlen m" "(arp_bytes m @ r) ! 5 = plen m"
    using assms by (simp_all add: arp_ok_def arp_bytes_def nth_append)
  have h: "le16 (arp_bytes m @ r) = htype m" by (simp add: arp_bytes_def le16_half_bytes)
  show ?thesis
    unfolding arp_of_def using l assms by (simp only: d n h if_False le16_half_bytes le32_word_bytes) (simp add: arp_ok_def)
qed

lemma htons_htons: "inet_htons (inet_htons x) = x"
proof -
  have "(0xFF :: u16) = mask 8" by (simp add: mask_eq_exp_minus_1)
  then have "inet_htons y = push_bit 8 (y AND mask 8) OR (drop_bit 8 y AND mask 8)" for y by (simp add: inet_htons_def)
  then show ?thesis by (simp only:) (rule bit_word_eqI, auto simp: bit_simps)
qed

section \<open>ARP\<close>

text \<open>The card's device is registered with its transmit function and the address \<open>mac\<close>.\<close>

definition nic_up :: "net \<Rightarrow> bytes \<Rightarrow> bool" where
  "nic_up n mac \<longleftrightarrow> length mac = 6 \<and>
     (\<exists>x. netdevs n rtl8139_dev = Some x \<and> nd_tx x = Some Rtl8139_tx \<and> nd_mac x = mac)"

lemma dev_nz: "rtl8139_dev \<noteq> 0"
  by (simp add: rtl8139_dev_def)

lemma nic_up_dev: "nic_up n mac \<Longrightarrow> \<exists>x. get_dev rtl8139_dev n = Inr x \<and> nd_tx x = Some Rtl8139_tx \<and> nd_mac x = mac"
  by (auto simp: nic_up_def get_dev_def obj_eq_Inr dev_nz)

text \<open>A frame of 42 bytes sent on the device joins the queue of the card, or is refused when four are under way.\<close>

lemma net_send_queued:
  assumes "nic_up n mac" "tx_rel (nic n) d q" "length f = 42"
  shows "\<exists>c. net_send_from rtl8139_dev f 42 n = (if length q < 4 then Inr (n\<lparr>nic := c\<rparr>, 0) else Inr (n, - 1)) \<and>
    (length q < 4 \<longrightarrow> tx_rel c d (q @ [f]))"
proof -
  obtain x where x: "get_dev rtl8139_dev n = Inr x" "nd_tx x = Some Rtl8139_tx" using nic_up_dev [OF assms(1)] by blast
  have q: "length q \<le> 4" using assms(2) by (simp add: tx_rel_def)
  show ?thesis
  proof (cases "length q < 4")
    case True
    then obtain c where "rtl8139_tx f 42 (nic n) = Inr (c, 0)" "tx_rel c d (q @ [f])"
      using tx_accepted [OF assms(2), of 42 f] assms(3) by auto
    then show ?thesis using True x by (auto simp: net_send_from_def dev_nz)
  next
    case False
    then have "rtl8139_tx f 42 (nic n) = Inr (nic n, - 1)" using tx_refused [OF assms(2)] q by simp
    then show ?thesis using False x by (auto simp: net_send_from_def dev_nz)
  qed
qed

definition arp_reply_msg :: "bytes \<Rightarrow> arp_msg \<Rightarrow> arp_msg" where
  "arp_reply_msg mac ask = \<lparr>htype = htype ask, ptype = ptype ask, hlen = hlen ask, plen = plen ask, oper = inet_htons ARP_RESPONSE,
     sha = mac, spa = tpa ask, tha = sha ask, tpa = spa ask\<rparr>"

lemma arp_reply_frame:
  "arp_reply_frame mac ask = eth_bytes \<lparr>dst_mac = sha ask, src_mac = mac, eth_type = inet_htons ETH_TYPE_ARP\<rparr> @
     arp_bytes (arp_reply_msg mac ask)"
  by (simp add: arp_reply_frame_def arp_reply_msg_def)

text \<open>An Ethernet frame that carries the ARP message \<open>m\<close>, with whatever follows it.\<close>

definition arp_frame :: "eth_hdr \<Rightarrow> arp_msg \<Rightarrow> bytes \<Rightarrow> bytes" where
  "arp_frame e m r = eth_bytes e @ arp_bytes m @ r"

definition arp_frame_ok :: "eth_hdr \<Rightarrow> arp_msg \<Rightarrow> bool" where
  "arp_frame_ok e m \<longleftrightarrow> eth_ok e \<and> arp_ok m \<and> eth_type e = inet_htons ETH_TYPE_ARP"

lemma handle_arp: "arp_frame_ok e m \<Longrightarrow> net_handle_packet d (arp_frame e m r) n = arp_handle_packet d m n"
  by (simp add: net_handle_packet_def arp_frame_def arp_frame_ok_def eth_of_bytes arp_of_bytes eth_bytes_len htons_htons)

lemma arp_reply_sent:
  assumes "nic_up n mac" "tx_rel (nic n) d q" "arp_frame_ok e m" "oper m = inet_htons ARP_WHO_HAS"
  shows "\<exists>c. net_handle_packet rtl8139_dev (arp_frame e m r) n = (if length q < 4 then Inr (n\<lparr>nic := c\<rparr>) else Inl AssertFail) \<and>
    (length q < 4 \<longrightarrow> tx_rel c d (q @ [arp_reply_frame mac m]))"
proof -
  obtain x where x: "get_dev rtl8139_dev n = Inr x" "nd_tx x = Some Rtl8139_tx" "nd_mac x = mac"
    using nic_up_dev [OF assms(1)] by blast
  have "length (arp_reply_frame mac m) = 42"
    using assms(1,3) by (simp add: arp_reply_frame arp_reply_msg_def nic_up_def arp_frame_ok_def arp_ok_def eth_ok_def eth_bytes_len arp_bytes_len)
  then obtain c where c: "net_send_from rtl8139_dev (arp_reply_frame mac m) 42 n = (if length q < 4 then Inr (n\<lparr>nic := c\<rparr>, 0) else Inr (n, - 1))"
    "length q < 4 \<longrightarrow> tx_rel c d (q @ [arp_reply_frame mac m])"
    using net_send_queued [OF assms(1,2)] by blast
  have "net_handle_packet rtl8139_dev (arp_frame e m r) n = arp_reply rtl8139_dev m n"
    using handle_arp [OF assms(3)] assms(4) by (simp add: arp_handle_packet_def htons_htons)
  also have "\<dots> = (if length q < 4 then Inr (n\<lparr>nic := c\<rparr>) else Inl AssertFail)"
    using x c(1) by (simp add: arp_reply_def)
  finally show ?thesis using c(2) by blast
qed


text \<open>The first route whose gateway is \<open>ip\<close> is the \<open>i\<close>-th, and no unused route stands before it.\<close>

definition route_to :: "net \<Rightarrow> nat \<Rightarrow> u32 \<Rightarrow> bool" where
  "route_to n i ip \<longleftrightarrow> i < length (s_routes n) \<and> (\<forall>j \<le> i. nz (rt_flags (s_routes n ! j))) \<and>
     rt_dev (s_routes n ! i) = rtl8139_dev \<and> rt_dst (s_routes n ! i) = ip \<and> length (dst_hwaddr (s_routes n ! i)) = 6 \<and>
     (\<forall>j < i. \<not> (rt_dev (s_routes n ! j) = rtl8139_dev \<and> rt_dst (s_routes n ! j) = ip))"

lemma resolve_loop_at:
  "i < length rs \<Longrightarrow> \<forall>j \<le> i. nz (rt_flags (rs ! j)) \<Longrightarrow> rt_dev (rs ! i) = d \<Longrightarrow> rt_dst (rs ! i) = a \<Longrightarrow>
   \<forall>j < i. \<not> (rt_dev (rs ! j) = d \<and> rt_dst (rs ! j) = a) \<Longrightarrow> resolve_loop rs k d a = Some (k + i)"
proof (induction rs arbitrary: i k)
  case (Cons r rs)
  show ?case
  proof (cases i)
    case 0
    then show ?thesis using Cons.prems by auto
  next
    case (Suc j)
    have "\<forall>l \<le> j. nz (rt_flags (rs ! l))" using Cons.prems(2) Suc by (metis Suc_le_mono nth_Cons_Suc)
    moreover have "\<forall>l < j. \<not> (rt_dev (rs ! l) = d \<and> rt_dst (rs ! l) = a)" using Cons.prems(5) Suc by (metis Suc_less_eq nth_Cons_Suc)
    moreover have "nz (rt_flags r)" "\<not> (rt_dev r = d \<and> rt_dst r = a)" using Cons.prems(2,5) Suc by (auto dest: spec [of _ 0])
    ultimately show ?thesis using Cons.IH [of j "Suc k"] Cons.prems Suc by auto
  qed
qed simp

lemma resolve_loop_none:
  "(\<forall>r \<in> set rs. \<not> (rt_dev r = d \<and> rt_dst r = a)) \<Longrightarrow> resolve_loop rs k d a = None"
  by (induction rs arbitrary: k) auto

lemma arp_response_resolves:
  assumes "nic_up n mac" "netdevs n rtl8139_dev = Some x" "nz (nd_flags x AND NET_ARP_WAITING)" "route_to n i (spa m)"
    "arp_frame_ok e m" "oper m = inet_htons ARP_RESPONSE"
  shows "net_handle_packet rtl8139_dev (arp_frame e m r) n =
    Inr (n\<lparr>s_routes := (s_routes n)[i := (s_routes n ! i)\<lparr>dst_hwaddr := sha m\<rparr>]\<rparr>)"
proof -
  have g: "get_dev rtl8139_dev n = Inr x" using assms(2) by (simp add: get_dev_def obj_eq_Inr dev_nz)
  have "resolve_loop (s_routes n) 0 rtl8139_dev (spa m) = Some i"
    using resolve_loop_at [of i "s_routes n" rtl8139_dev "spa m" 0] assms(4) by (simp add: route_to_def)
  moreover have "memcpy (dst_hwaddr (s_routes n ! i)) (sha m) 6 = Inr (sha m)"
    using assms(4,5) by (simp add: memcpy_ok route_to_def arp_frame_ok_def arp_ok_def)
  ultimately show ?thesis
    using handle_arp [OF assms(5)] assms(3,6) g
    by (simp add: arp_handle_packet_def htons_htons ARP_WHO_HAS_def ARP_RESPONSE_def net_route_resolve_def dev_nz)
qed

definition arp_request_msg :: "bytes \<Rightarrow> u32 \<Rightarrow> u32 \<Rightarrow> arp_msg" where
  "arp_request_msg mac inaddr src = \<lparr>htype = inet_htons 1, ptype = inet_htons ETH_TYPE_INET, hlen = 6, plen = 4,
     oper = inet_htons ARP_WHO_HAS, sha = mac, spa = src, tha = replicate 6 0, tpa = inaddr\<rparr>"

lemma arp_request_frame:
  "arp_request_frame mac a src =
     arp_frame \<lparr>dst_mac = replicate 6 0xFF, src_mac = mac, eth_type = inet_htons ETH_TYPE_ARP\<rparr> (arp_request_msg mac a src) []"
  by (simp add: arp_request_frame_def arp_request_msg_def arp_frame_def)

lemma arp_frame_len: "arp_frame_ok e m \<Longrightarrow> length (arp_frame e m r) = 42 + length r"
  by (simp add: arp_frame_def arp_frame_ok_def eth_bytes_len arp_bytes_len)

lemma arp_request_sent:
  assumes "nic_up n mac" "netdevs n rtl8139_dev = Some x" "tx_rel (nic n) d q"
  shows "\<exists>c. arp_request_in_hwaddr rtl8139_dev a src n =
      (if length q < 4 then Inr (put_dev rtl8139_dev (x\<lparr>nd_flags := nd_flags x OR NET_ARP_WAITING\<rparr>) n\<lparr>nic := c\<rparr>) else Inl AssertFail) \<and>
    (length q < 4 \<longrightarrow> tx_rel c d (q @ [arp_request_frame mac a src]))"
proof -
  have x: "get_dev rtl8139_dev n = Inr x" "nd_mac x = mac" "length mac = 6"
    using assms(1,2) by (auto simp: get_dev_def obj_eq_Inr dev_nz nic_up_def)
  define n1 where "n1 = put_dev rtl8139_dev (x\<lparr>nd_flags := nd_flags x OR NET_ARP_WAITING\<rparr>) n"
  have n1: "nic_up n1 mac" "tx_rel (nic n1) d q"
    using assms by (auto simp: n1_def nic_up_def put_dev_def)
  have "length (arp_request_frame mac a src) = 42"
    using x(3) by (simp add: arp_request_frame arp_frame_len arp_frame_ok_def arp_ok_def eth_ok_def arp_request_msg_def)
  then obtain c where c: "net_send_from rtl8139_dev (arp_request_frame mac a src) 42 n1 = (if length q < 4 then Inr (n1\<lparr>nic := c\<rparr>, 0) else Inr (n1, - 1))"
    "length q < 4 \<longrightarrow> tx_rel c d (q @ [arp_request_frame mac a src])"
    using net_send_queued [OF n1] by blast
  then show ?thesis using x by (auto simp: arp_request_in_hwaddr_def dev_nz Let_def n1_def [symmetric])
qed

text \<open>
  C14: the address of a gateway is found by one exchange. The request of one kernel, handled by another,
  makes it queue an answer; that answer, handled by the first kernel, enters the hardware address of the
  second into the first route to the gateway and changes nothing else.
\<close>

theorem arp_handshake:
  assumes "nic_up a maca" "tx_rel (nic a) da qa" "length qa < 4" "route_to a i ip"
    "nic_up b macb" "tx_rel (nic b) db qb" "length qb < 4"
  shows "\<exists>a' b' req ans. arp_request_in_hwaddr rtl8139_dev ip src a = Inr a' \<and> tx_rel (nic a') da (qa @ [req]) \<and>
    net_handle_packet rtl8139_dev req b = Inr b' \<and> tx_rel (nic b') db (qb @ [ans]) \<and>
    (\<forall>c. net_handle_packet rtl8139_dev ans (a'\<lparr>nic := c\<rparr>) =
      Inr (a'\<lparr>nic := c, s_routes := (s_routes a)[i := (s_routes a ! i)\<lparr>dst_hwaddr := macb\<rparr>]\<rparr>))"
proof -
  obtain x where x: "netdevs a rtl8139_dev = Some x" using assms(1) by (auto simp: nic_up_def)
  let ?m = "arp_request_msg maca ip src" and ?x = "x\<lparr>nd_flags := nd_flags x OR NET_ARP_WAITING\<rparr>"
  let ?e = "\<lparr>dst_mac = replicate 6 0xFF, src_mac = maca, eth_type = inet_htons ETH_TYPE_ARP\<rparr>"
  let ?r = "arp_reply_msg macb ?m" and ?f = "\<lparr>dst_mac = maca, src_mac = macb, eth_type = inet_htons ETH_TYPE_ARP\<rparr>"
  have l: "length maca = 6" "length macb = 6" using assms(1,5) by (simp_all add: nic_up_def)
  obtain c where c: "arp_request_in_hwaddr rtl8139_dev ip src a = Inr (put_dev rtl8139_dev ?x a\<lparr>nic := c\<rparr>)"
    "tx_rel c da (qa @ [arp_frame ?e ?m []])"
    using arp_request_sent [OF assms(1) x assms(2)] assms(3) by (auto simp: arp_request_frame)
  have "arp_frame_ok ?e ?m" "oper ?m = inet_htons ARP_WHO_HAS" using l by (simp_all add: arp_frame_ok_def eth_ok_def arp_ok_def arp_request_msg_def)
  then obtain cb where cb: "net_handle_packet rtl8139_dev (arp_frame ?e ?m []) b = Inr (b\<lparr>nic := cb\<rparr>)"
    "tx_rel cb db (qb @ [arp_reply_frame macb ?m])"
    using arp_reply_sent [OF assms(5,6), of ?e ?m "[]"] assms(7) by auto
  have f: "arp_reply_frame macb ?m = arp_frame ?f ?r []"
    by (simp add: arp_reply_frame arp_frame_def arp_request_msg_def)
  have "net_handle_packet rtl8139_dev (arp_frame ?f ?r []) (put_dev rtl8139_dev ?x a\<lparr>nic := c'\<rparr>) =
     Inr (put_dev rtl8139_dev ?x a\<lparr>nic := c', s_routes := (s_routes a)[i := (s_routes a ! i)\<lparr>dst_hwaddr := macb\<rparr>]\<rparr>)" for c'
  proof -
    let ?n = "put_dev rtl8139_dev ?x a\<lparr>nic := c'\<rparr>"
    have "nic_up ?n maca" "netdevs ?n rtl8139_dev = Some ?x" using assms(1) x by (auto simp: nic_up_def put_dev_def)
    moreover have "nz (nd_flags ?x AND NET_ARP_WAITING)"
    proof -
      have "(w OR c) AND c = c" for w c :: u32 by (rule bit_word_eqI) (auto simp: bit_simps)
      then show ?thesis by (simp add: NET_ARP_WAITING_def)
    qed
    moreover have "route_to ?n i (spa ?r)" using assms(4) by (simp add: route_to_def put_dev_def arp_reply_msg_def arp_request_msg_def)
    moreover have "arp_frame_ok ?f ?r" "oper ?r = inet_htons ARP_RESPONSE" "sha ?r = macb"
      using l by (simp_all add: arp_frame_ok_def eth_ok_def arp_ok_def arp_reply_msg_def arp_request_msg_def)
    ultimately show ?thesis using arp_response_resolves [of ?n maca ?x i ?r ?f "[]"] by (simp add: put_dev_def)
  qed
  then show ?thesis using c cb f by force
qed


section \<open>Two ways to stop the kernel from the network\<close>

text \<open>
  C38: a host on the network can stop the kernel. A request that arrives while four frames wait to be
  sent fails the assertion of \<open>arp_reply\<close>, and once the kernel has asked for a gateway, an answer
  from any other address is a panic.
\<close>

theorem arp_stops_kernel:
  assumes "nic_up n mac" "netdevs n rtl8139_dev = Some x" "tx_rel (nic n) d q" "arp_frame_ok e m"
  shows "(oper m = inet_htons ARP_WHO_HAS \<and> length q = 4 \<longrightarrow> net_handle_packet rtl8139_dev (arp_frame e m r) n = Inl AssertFail) \<and>
    (oper m = inet_htons ARP_RESPONSE \<and> nz (nd_flags x AND NET_ARP_WAITING) \<and> (\<forall>t \<in> set (s_routes n). rt_dst t \<noteq> spa m) \<longrightarrow>
      net_handle_packet rtl8139_dev (arp_frame e m r) n = Inl Panic)"
proof (intro conjI impI)
  assume a: "oper m = inet_htons ARP_WHO_HAS \<and> length q = 4"
  then show "net_handle_packet rtl8139_dev (arp_frame e m r) n = Inl AssertFail"
    using arp_reply_sent [OF assms(1,3,4), of r] by auto
next
  assume a: "oper m = inet_htons ARP_RESPONSE \<and> nz (nd_flags x AND NET_ARP_WAITING) \<and> (\<forall>t \<in> set (s_routes n). rt_dst t \<noteq> spa m)"
  have g: "get_dev rtl8139_dev n = Inr x" using assms(2) by (simp add: get_dev_def obj_eq_Inr dev_nz)
  have "resolve_loop (s_routes n) 0 rtl8139_dev (spa m) = None" using a by (intro resolve_loop_none) blast
  then show "net_handle_packet rtl8139_dev (arp_frame e m r) n = Inl Panic"
    using handle_arp [OF assms(4)] a g
    by (simp add: arp_handle_packet_def htons_htons ARP_WHO_HAS_def ARP_RESPONSE_def net_route_resolve_def dev_nz)
qed

section \<open>The configuration file\<close>

lemma copy_buf0_ok:
  assumes "0 \<notin> set s" "length s < length (buf0 c)" "length (buf0 c) < 2 ^ 31"
  shows "copy_buf0 (s @ y # r) (length s) c = Inr (c\<lparr>buf0 := s @ 0 # drop (Suc (length s)) (buf0 c)\<rparr>)"
proof -
  have "strncpy (buf0 c) (s @ y # r) (of_nat (length s)) = Inr (s @ drop (length s) (buf0 c))"
    unfolding strncpy_def using strncpy_loop_exact [of s "buf0 c" 0 y r] assms by simp
  moreover have "drop (length s) (buf0 c) = buf0 c ! length s # drop (Suc (length s)) (buf0 c)"
    using assms(2) by (rule Cons_nth_drop_Suc [symmetric])
  ultimately show ?thesis using assms(2) by (simp add: copy_buf0_def wr_def list_update_append)
qed

definition has_iface :: "net \<Rightarrow> bytes \<Rightarrow> u32 \<Rightarrow> bool" where
  "has_iface n name d \<longleftrightarrow> (\<exists>ds1 ds2. s_devices n = ds1 @ d # ds2 \<and> d \<noteq> 0 \<and> (\<exists>x. netdevs n d = Some x \<and> cstr (nd_name x) name) \<and>
     (\<forall>e \<in> set ds1. e \<noteq> 0 \<and> (\<exists>x t. netdevs n e = Some x \<and> cstr (nd_name x) t \<and> t \<noteq> name \<and> length t < 12)))"

lemma find_iface:
  assumes "has_iface n name d" "cstr b name" "length name < 64"
  shows "net_find_iface b n = Inr d"
proof -
  have "d \<noteq> 0 \<Longrightarrow> netdevs n d = Some x \<Longrightarrow> cstr (nd_name x) name \<Longrightarrow>
     \<forall>e \<in> set ds1. e \<noteq> 0 \<and> (\<exists>x t. netdevs n e = Some x \<and> cstr (nd_name x) t \<and> t \<noteq> name \<and> length t < 12) \<Longrightarrow>
     iface_loop (ds1 @ d # ds2) b n = Inr d" for x ds1 ds2
  proof (induction ds1)
    case Nil
    then show ?case using assms(2,3) by (simp add: get_dev_def obj_some strcmp_cstr)
  next
    case (Cons e ds1)
    then obtain y t where "e \<noteq> 0" "netdevs n e = Some y" "cstr (nd_name y) t" "t \<noteq> name" "length t < 12" by auto
    moreover have "iface_loop (ds1 @ d # ds2) b n = Inr d" using Cons by auto
    ultimately show ?case using assms(2,3) by (simp add: get_dev_def obj_some strcmp_cstr)
  qed
  then show ?thesis using assms(1) unfolding has_iface_def net_find_iface_def by auto
qed

text \<open>The three kinds of lines, followed by whatever is in the buffer.\<close>

definition section_line :: "bytes \<Rightarrow> bytes \<Rightarrow> bytes" where
  "section_line name r = 91 # name @ 93 # r"

definition inet_line :: "u32 \<Rightarrow> nat \<Rightarrow> bytes \<Rightarrow> bytes" where
  "inet_line a m r = map of_char ''inet='' @ ip_str a @ 47 # dec_str m @ 0 # r"

definition route_line :: "u32 \<Rightarrow> nat \<Rightarrow> u32 \<Rightarrow> bytes \<Rightarrow> bytes" where
  "route_line a m g r = map of_char ''route '' @ ip_str a @ 47 # dec_str m @ 32 # ip_str g @ 0 # r"

lemma section_line_ok:
  assumes "has_iface (c_net c) name d" "0 \<notin> set name" "93 \<notin> set name" "length name < 64" "length (buf0 c) = 64"
  shows "\<exists>b. config_line (section_line name r) c = Inr (c\<lparr>buf0 := b, curr_iface := d\<rparr>) \<and> length b = 64"
proof -
  let ?b = "name @ 0 # drop (Suc (length name)) (buf0 c)"
  have "strchr ((91 # name) @ 93 # r) 93 = Inr (Some (93 # r))" using assms(2,3) by (intro strchr_sep) auto
  then have "config_line (section_line name r) c = bindR (copy_buf0 (name @ 93 # r) (length name) c) (\<lambda>c.
      bindR (net_find_iface (buf0 c) (c_net c)) (\<lambda>d. Inr (c\<lparr>curr_iface := d\<rparr>)))"
    by (simp add: config_line_def section_line_def cfg_section_def ptr_diff_def)
  also have "\<dots> = Inr (c\<lparr>buf0 := ?b, curr_iface := d\<rparr>)"
    using assms find_iface [OF assms(1) cstr_append [OF assms(2)] assms(4)] by (simp add: copy_buf0_ok)
  finally show ?thesis using assms(4,5) by (intro exI [of _ ?b]) simp
qed


lemma ip_str_chars: "c \<in> set (ip_str a) \<Longrightarrow> is_digit c \<or> c = dot"
  using dec_str_digits by (auto simp: ip_str_def)

lemma ip_str_no: "\<not> is_digit c \<Longrightarrow> c \<noteq> dot \<Longrightarrow> c \<notin> set (ip_str a)"
  using ip_str_chars by blast

lemma ip_str_length: "length (ip_str a) \<le> 15"
  using octet_digits [of a 0] octet_digits [of a 1] octet_digits [of a 2] octet_digits [of a 3] by (simp add: ip_str_def)

lemma line_seps: "\<not> is_digit 47" "\<not> is_digit 32" "\<not> is_digit 0" "0 \<notin> set (ip_str a)" "47 \<notin> set (ip_str a)" "32 \<notin> set (ip_str a)"
  using ip_str_no not_digit_seps by auto

text \<open>The address in \<open>buf0\<close> after the copy up to the slash, and the mask.\<close>

lemma slash_part:
  assumes "length (buf0 c) = 64"
  shows "copy_buf0 (ip_str a @ 47 # r) (length (ip_str a)) c = Inr (c\<lparr>buf0 := ip_str a @ 0 # drop (Suc (length (ip_str a))) (buf0 c)\<rparr>)"
    "strchr (ip_str a @ 47 # r) 47 = Inr (Some (47 # r))"
    "inet_aton (ip_str a @ 0 # r) = Inr a"
proof -
  show "copy_buf0 (ip_str a @ 47 # r) (length (ip_str a)) c = Inr (c\<lparr>buf0 := ip_str a @ 0 # drop (Suc (length (ip_str a))) (buf0 c)\<rparr>)"
    using assms line_seps(4) [of a] ip_str_length [of a] by (intro copy_buf0_ok) auto
  show "strchr (ip_str a @ 47 # r) 47 = Inr (Some (47 # r))" by (rule strchr_sep) (simp_all add: line_seps)
  show "inet_aton (ip_str a @ 0 # r) = Inr a" by (rule aton_ip [OF line_seps(3)])
qed

lemma inet_line_ok:
  assumes "length (buf0 c) = 64" "curr_iface c \<noteq> 0" "a \<noteq> 0" "m < 256"
    "net_inaddr_add (curr_iface c) a (of_nat m) (c_net c) = Inr n"
  shows "\<exists>b. config_line (inet_line a m r) c = Inr (c\<lparr>buf0 := b, c_mask := of_nat m, c_inaddr := a, c_net := n\<rparr>) \<and> length b = 64"
proof -
  let ?b = "ip_str a @ 0 # drop (Suc (length (ip_str a))) (buf0 c)"
  have m: "ucast (of_nat m :: u32) = (of_nat m :: u8)" "ucast (of_nat m :: u8) = (of_nat m :: u32)"
    using assms(4) by (simp_all add: unsigned_of_nat take_bit_nat_eq_self)
  have at: "atoi (dec_str m @ 0 # r) = Inr (of_nat m)" by (rule atoi_sep [OF line_seps(3)])
  have "config_line (inet_line a m r) c = cfg_inet (ip_str a @ 47 # dec_str m @ 0 # r) c"
  proof -
    obtain x xs where "ip_str a @ 47 # dec_str m @ 0 # r = x # xs" by (cases "ip_str a @ 47 # dec_str m @ 0 # r") auto
    then show ?thesis using assms(2) by (simp add: config_line_def inet_line_def strncmp_def strncmp_end_def lit_def)
  qed
  also have "\<dots> = Inr (c\<lparr>buf0 := ?b, c_mask := of_nat m, c_inaddr := a, c_net := n\<rparr>)"
    using slash_part [of c a] slash_part(1) [of "c\<lparr>c_mask := of_nat m\<rparr>" a] assms m at
    by (simp add: cfg_inet_def ptr_diff_def)
  finally show ?thesis using assms(1) ip_str_length [of a] by (intro exI [of _ ?b]) simp
qed


lemma route_line_ok:
  assumes "length (buf0 c) = 64" "curr_iface c \<noteq> 0" "a \<noteq> 0" "g \<noteq> 0" "m < 256"
    "net_route_add a g (curr_iface c) (of_nat m) (c_net c) = Inr n"
  shows "\<exists>b. config_line (route_line a m g r) c = Inr (c\<lparr>buf0 := b, c_mask := of_nat m, c_inaddr := a, c_inaddr1 := g, c_net := n\<rparr>) \<and>
    length b = 64"
proof -
  let ?b = "ip_str a @ 0 # drop (Suc (length (ip_str a))) (buf0 c)"
  let ?t = "32 # ip_str g @ 0 # r"
  have m: "ucast (of_nat m :: u32) = (of_nat m :: u8)" "ucast (of_nat m :: u8) = (of_nat m :: u32)"
    using assms(5) by (simp_all add: unsigned_of_nat take_bit_nat_eq_self)
  have at: "atoi (dec_str m @ ?t) = Inr (of_nat m)" by (rule atoi_sep [OF line_seps(2)])
  have sp: "strchr ((ip_str a @ 47 # dec_str m) @ ?t) 32 = Inr (Some ?t)"
    by (rule strchr_sep) (simp_all add: line_seps dec_str_no_zero dec_str_no_sep)
  have "config_line (route_line a m g r) c = cfg_route (ip_str a @ 47 # dec_str m @ ?t) c"
  proof -
    obtain x xs where "ip_str a @ 47 # dec_str m @ ?t = x # xs" by (cases "ip_str a @ 47 # dec_str m @ ?t") auto
    then show ?thesis using assms(2) by (simp add: config_line_def route_line_def strncmp_def strncmp_end_def lit_def)
  qed
  also have "\<dots> = Inr (c\<lparr>buf0 := ?b, c_mask := of_nat m, c_inaddr := a, c_inaddr1 := g, c_net := n\<rparr>)"
    using slash_part [of c a] slash_part(1) [of "c\<lparr>c_mask := of_nat m\<rparr>" a] slash_part(3) [OF assms(1), of g] assms m at sp
    by (simp add: cfg_route_def ptr_diff_def)
  finally show ?thesis using assms(1) ip_str_length [of a] by (intro exI [of _ ?b]) simp
qed


text \<open>
  C17: the configuration file fills the tables. The section line of a registered interface, a line with
  an address and its mask and a line with a route through a gateway enter the address into the first free
  slot of that interface and the route into the first free entry, whatever the buffers held before.
\<close>

theorem config_fills_tables:
  assumes "has_iface n name d" "0 \<notin> set name" "93 \<notin> set name" "length name < 64"
    "netdevs n d = Some x" "nd_priv x = Some i" "i < length (s_dev_privs n)" "inaddr_loop (take 4 (inaddrs (s_dev_privs n ! i))) 0 = Some j"
    "free_route (s_routes n) 0 = Some k" "a \<noteq> 0" "b \<noteq> 0" "g \<noteq> 0" "ma < 256" "mb < 256" "8 dvd mb" "length (buf0 c) = 64" "c_net c = n"
  shows "\<exists>c'. foldR config_line [section_line name r1, inet_line a ma r2, route_line b mb g r3] c = Inr c' \<and>
    c_net c' = (set_inaddr x j \<lparr>ia_flags = of_nat ma OR 0x80000000, ia_addr = a\<rparr> n)
      \<lparr>s_routes := (s_routes n)[k := (s_routes n ! k)\<lparr>rt_flags := of_nat mb OR 0x80000000, rt_addr := b, rt_dev := d, rt_dst := g\<rparr>]\<rparr>"
proof -
  have d: "d \<noteq> 0" using assms(1) by (auto simp: has_iface_def)
  let ?n1 = "set_inaddr x j \<lparr>ia_flags = of_nat ma OR 0x80000000, ia_addr = a\<rparr> n"
  let ?n2 = "?n1\<lparr>s_routes := (s_routes n)[k := (s_routes n ! k)\<lparr>rt_flags := of_nat mb OR 0x80000000, rt_addr := b, rt_dev := d, rt_dst := g\<rparr>]\<rparr>"
  have r: "s_routes ?n1 = s_routes n" by (simp add: set_inaddr_def split: option.splits)
  obtain c1 where c1: "config_line (section_line name r1) c = Inr c1" "length (buf0 c1) = 64" "curr_iface c1 = d" "c_net c1 = n"
    using section_line_ok [of c name d r1] assms(1-4,16,17) by auto
  have add: "net_inaddr_add d a (of_nat ma) n = Inr ?n1"
    using assms(5-8) d by (simp add: net_inaddr_add_def get_dev_def obj_some dev_inaddrs_def rd_def)
  obtain c2 where c2: "config_line (inet_line a ma r2) c1 = Inr c2" "length (buf0 c2) = 64" "curr_iface c2 = d" "c_net c2 = ?n1"
    using inet_line_ok [of c1 a ma ?n1 r2] c1 d assms(10,13) add by auto
  have "(of_nat mb :: u32) AND 7 = 0"
  proof -
    have "of_nat mb AND 7 = (take_bit 3 (of_nat mb) :: u32)" by (simp add: take_bit_eq_mask mask_eq_exp_minus_1)
    also have "\<dots> = of_nat (take_bit 3 mb)" by (simp add: take_bit_of_nat)
    finally show ?thesis using assms(15) by (simp add: take_bit_eq_mod)
  qed
  then have route: "net_route_add b g d (of_nat mb) ?n1 = Inr ?n2"
    using assms(9) d r by (simp add: net_route_add_def)
  obtain c3 where "config_line (route_line b mb g r3) c2 = Inr c3" "c_net c3 = ?n2"
    using route_line_ok [of c2 b g mb ?n2 r3] c2 d assms(11,12,14) route by auto
  then show ?thesis using c1(1) c2(1) by auto
qed


section \<open>A lost interrupt\<close>

text \<open>Sending and handling a packet never finish a transmission and leave the interrupt status alone.\<close>

lemma tx_func_only [simp]: "y = Rtl8139_tx"
  by (cases y) simp

lemma tx_keeps_isr:
  assumes "rtl8139_tx p sz r = Inr (r', v)"
  shows "rg_isr (rregs r') = rg_isr (rregs r) \<and> recv_size r' = recv_size r"
proof -
  have l: "rregs (fst (txbuf_loop k i r)) = rregs r \<and> cbr_prev (fst (txbuf_loop k i r)) = cbr_prev r" for k i r
    by (induction k i r rule: txbuf_loop.induct) simp_all
  have s: "rg_isr (rregs r2) = rg_isr (rregs r1) \<and> rg_cbr (rregs r2) = rg_cbr (rregs r1) \<and> cbr_prev r2 = cbr_prev r1" if "rtl8139_tx_sched r1 = Inr r2" for r1 r2
    using that by (auto simp: rtl8139_tx_sched_def write_tsd_def res_conv split: if_splits)
  show ?thesis
    using assms l [of 4 "ucast (tx_reg_num r)" r]
    by (auto simp: rtl8139_tx_def rtl8139_alloc_txbuf_def Let_def res_conv recv_size_def split: if_splits prod.splits option.splits dest!: s)
qed

lemma send_keeps:
  assumes "net_send_from d f sz n = Inr (n', v)" "tx_rel (nic n) dn q" "unat sz = length f"
  shows "(\<exists>more. tx_rel (nic n') dn (q @ more)) \<and> rg_isr (rregs (nic n')) = rg_isr (rregs (nic n))"
proof -
  obtain c where c: "rtl8139_tx f sz (nic n) = Inr (c, v)" "n' = n\<lparr>nic := c\<rparr>"
    using assms(1) by (auto simp: net_send_from_def res_conv split: option.splits netdev_tx_func.splits)
  have "\<exists>more. tx_rel c dn (q @ more)"
  proof (cases "1024 < sz \<or> length q = 4")
    case True
    then show ?thesis using tx_refused [OF assms(2) True, of f] c(1) assms(2) by (intro exI [of _ "[]"]) auto
  next
    case False
    then show ?thesis using tx_accepted [OF assms(2,3)] c(1) by auto
  qed
  then show ?thesis using c tx_keeps_isr [OF c(1)] by simp
qed

lemma packet_keeps:
  assumes "net_handle_packet d f n = Inr n'" "tx_rel (nic n) dn q" "netdevs n d = Some x" "length (nd_mac x) = 6"
  shows "(\<exists>more. tx_rel (nic n') dn (q @ more)) \<and> rg_isr (rregs (nic n')) = rg_isr (rregs (nic n))"
proof -
  obtain e where e: "eth_of f = Inr e" using assms(1) by (auto simp: net_handle_packet_def res_conv)
  show ?thesis
  proof (cases "inet_htons (eth_type e) = ETH_TYPE_ARP")
    case False
    then show ?thesis using e assms(1,2) by (auto simp: net_handle_packet_def intro: exI [of _ "[]"])
  next
    case True
    then obtain m where m: "arp_of (drop 14 f) = Inr m" "arp_handle_packet d m n = Inr n'"
      using e assms(1) by (auto simp: net_handle_packet_def res_conv)
    then have s: "length (sha m) = 6" by (auto simp: arp_of_def split: if_splits)
    consider "inet_htons (oper m) = ARP_WHO_HAS" "arp_reply d m n = Inr n'" | "nic n' = nic n"
      using m(2) by (auto simp: arp_handle_packet_def Let_def res_conv net_route_resolve_def split: if_splits option.splits)
    then show ?thesis
    proof cases
      case 1
      then obtain v where "net_send_from d (arp_reply_frame (nd_mac x) m) 42 n = Inr (n', v)"
        using assms(3) by (auto simp: arp_reply_def res_conv get_dev_def obj_eq_Inr)
      moreover have "unat (42 :: u32) = length (arp_reply_frame (nd_mac x) m)"
        using assms(4) s by (simp add: arp_reply_frame arp_reply_msg_def eth_bytes_len arp_bytes_len eth_ok_def arp_ok_def)
      ultimately show ?thesis using send_keeps assms(2) by blast
    next
      case 2
      then show ?thesis using assms(2) by (auto intro: exI [of _ "[]"])
    qed
  qed
qed

text \<open>
  When a frame arrives in the moment in which a transmission finishes, both bits of the interrupt
  status are set; the handler takes the branch for the frame and its write of the status clears both. The
  finished transmission is never noticed: the card stays busy with the same frames, and whatever is sent
  afterwards waits behind them.
\<close>

theorem irq_loses_done:
  assumes "tx_rel (nic n) dn (f # q)" "nz (rg_isr (rregs (nic n)) AND RTL8139_ISR_ROK)" "nz (rg_isr (rregs (nic n)) AND RTL8139_ISR_TOK)"
    "netdevs n rtl8139_dev = Some x" "length (nd_mac x) = 6" "rtl8139_irq_handler n = Inr (n', r)"
  shows "\<exists>more. tx_rel (nic n') dn (f # q @ more) \<and> rg_isr (rregs (nic n')) AND RTL8139_ISR_TOK = 0"
proof -
  let ?isr = "rg_isr (rregs (nic n))"
  let ?n = "n\<lparr>nic := write_isr (?isr OR RTL8139_ISR_ROK) (nic n)\<rparr>"
  have w: "?isr AND NOT (?isr OR v) = 0" for v by (rule bit_word_eqI) (auto simp: bit_simps)
  have i: "rg_isr (rregs (nic ?n)) = 0" using w by (simp add: write_isr_def)
  have t: "tx_rel (nic ?n) dn (f # q)" using assms(1) by (auto simp: tx_rel_def tx_frame_def)
  obtain n1 where n1: "(if recv_size (nic ?n) \<ge> 4 then
        net_handle_packet rtl8139_dev (drop (unat (cbr_prev (nic ?n)) + 4) (rtl8139_recv_buf (nic ?n))) ?n else Inr ?n) = Inr n1"
    "n' = n1\<lparr>nic := (nic n1)\<lparr>cbr_prev := rg_cbr (rregs (nic n1))\<rparr>\<rparr>"
    using assms(2,6) by (auto simp: rtl8139_irq_handler_def rtl8139_recv_def Let_def res_conv)
  have "(\<exists>more. tx_rel (nic n1) dn (f # q @ more)) \<and> rg_isr (rregs (nic n1)) = 0"
  proof (cases "recv_size (nic ?n) \<ge> 4")
    case True
    then have "net_handle_packet rtl8139_dev (drop (unat (cbr_prev (nic ?n)) + 4) (rtl8139_recv_buf (nic ?n))) ?n = Inr n1"
      using n1(1) by simp
    from packet_keeps [OF this t, of x] show ?thesis using assms(4,5) i by auto
  next
    case False
    then show ?thesis using n1(1) t i by (auto intro: exI [of _ "[]"])
  qed
  then show ?thesis using n1(2) by (auto simp: tx_rel_def tx_frame_def)
qed


section \<open>A concrete kernel\<close>

definition ex_dev :: "bytes \<Rightarrow> u32 \<Rightarrow> netdev" where
  "ex_dev mac fl = \<lparr>nd_name = lit ''eth0'' @ replicate 7 0, nd_flags = fl, nd_mac = mac, nd_priv = Some 0, nd_tx = Some Rtl8139_tx\<rparr>"

definition ex_net :: "bytes \<Rightarrow> u32 \<Rightarrow> net_inaddr_route_spec list \<Rightarrow> rtl8139 \<Rightarrow> net" where
  "ex_net mac fl rs c = \<lparr>netdevs = [rtl8139_dev \<mapsto> ex_dev mac fl], s_eth_last = 1, s_dev_last = 1,
     s_devices = rtl8139_dev # replicate 7 0,
     s_dev_privs = \<lparr>np_flags = 0x80000000, inaddrs = replicate 4 ia_zero\<rparr> # replicate 7 \<lparr>np_flags = 0, inaddrs = replicate 4 ia_zero\<rparr>,
     s_routes = rs, nic = c\<rparr>"

definition ex_route :: net_inaddr_route_spec where
  "ex_route = \<lparr>rt_flags = 0x80000018, rt_addr = 0x0001A8C0, rt_dev = rtl8139_dev, rt_dst = 0x0101A8C0, dst_hwaddr = replicate 6 0\<rparr>"

lemma ex_net_up: "length mac = 6 \<Longrightarrow> nic_up (ex_net mac fl rs c) mac"
  by (simp add: nic_up_def ex_net_def ex_dev_def)

theorem arp_handshake_witness:
  "\<exists>a' ans c'. arp_request_in_hwaddr rtl8139_dev 0x0101A8C0 0x0201A8C0 (ex_net [1, 2, 3, 4, 5, 6] 1 [ex_route] rtl_zero) = Inr a' \<and>
    net_handle_packet rtl8139_dev ans a' = Inr c' \<and> dst_hwaddr (s_routes c' ! 0) = [9, 8, 7, 6, 5, 4]"
proof -
  let ?a = "ex_net [1, 2, 3, 4, 5, 6] 1 [ex_route] rtl_zero" and ?b = "ex_net [9, 8, 7, 6, 5, 4] 1 [] rtl_zero"
  have t: "tx_rel (nic (ex_net m f rs rtl_zero)) [] []" for m f rs using rtl_zero_rel by (simp add: ex_net_def)
  have r: "route_to ?a 0 0x0101A8C0" by (simp add: route_to_def ex_net_def ex_route_def)
  obtain a' b' req ans where x: "arp_request_in_hwaddr rtl8139_dev 0x0101A8C0 0x0201A8C0 ?a = Inr a'"
    "\<And>c. net_handle_packet rtl8139_dev ans (a'\<lparr>nic := c\<rparr>) =
       Inr (a'\<lparr>nic := c, s_routes := (s_routes ?a)[0 := (s_routes ?a ! 0)\<lparr>dst_hwaddr := [9, 8, 7, 6, 5, 4]\<rparr>]\<rparr>)"
    using arp_handshake [OF ex_net_up t _ r ex_net_up t, of "[9, 8, 7, 6, 5, 4]" "0x0201A8C0" 1 "[]"] by auto
  have "a'\<lparr>nic := nic a'\<rparr> = a'" by simp
  then have "net_handle_packet rtl8139_dev ans a' =
      Inr (a'\<lparr>s_routes := (s_routes ?a)[0 := (s_routes ?a ! 0)\<lparr>dst_hwaddr := [9, 8, 7, 6, 5, 4]\<rparr>]\<rparr>)"
    using x(2) [of "nic a'"] by simp
  moreover have "dst_hwaddr (s_routes (a'\<lparr>s_routes := (s_routes ?a)[0 := (s_routes ?a ! 0)\<lparr>dst_hwaddr := [9, 8, 7, 6, 5, 4]\<rparr>]\<rparr>) ! 0) = [9, 8, 7, 6, 5, 4]"
    by (simp add: ex_net_def)
  ultimately show ?thesis using x(1) by blast
qed

theorem arp_stops_kernel_witness:
  "net_handle_packet rtl8139_dev (arp_reply_frame [9, 8, 7, 6, 5, 4] (arp_request_msg [1, 2, 3, 4, 5, 6] 0x0505A8C0 0x0201A8C0))
     (ex_net [1, 2, 3, 4, 5, 6] 0x40000001 [ex_route] rtl_zero) = Inl Panic"
proof -
  let ?m = "arp_reply_msg [9, 8, 7, 6, 5, 4] (arp_request_msg [1, 2, 3, 4, 5, 6] 0x0505A8C0 0x0201A8C0)"
  let ?e = "\<lparr>dst_mac = [1, 2, 3, 4, 5, 6], src_mac = [9, 8, 7, 6, 5, 4], eth_type = inet_htons ETH_TYPE_ARP\<rparr>"
  let ?n = "ex_net [1, 2, 3, 4, 5, 6] 0x40000001 [ex_route] rtl_zero"
  have f: "arp_reply_frame [9, 8, 7, 6, 5, 4] (arp_request_msg [1, 2, 3, 4, 5, 6] 0x0505A8C0 0x0201A8C0) = arp_frame ?e ?m []"
    by (simp add: arp_reply_frame arp_frame_def arp_request_msg_def)
  have n: "netdevs ?n rtl8139_dev = Some (ex_dev [1, 2, 3, 4, 5, 6] 0x40000001)" "tx_rel (nic ?n) [] []"
    using rtl_zero_rel by (simp_all add: ex_net_def)
  have k: "arp_frame_ok ?e ?m"
    by (simp add: arp_frame_ok_def eth_ok_def arp_ok_def arp_reply_msg_def arp_request_msg_def)
  have "oper ?m = inet_htons ARP_RESPONSE" "nz (nd_flags (ex_dev [1, 2, 3, 4, 5, 6] 0x40000001) AND NET_ARP_WAITING)"
    "\<forall>t \<in> set (s_routes ?n). rt_dst t \<noteq> spa ?m"
    by (simp_all add: ex_dev_def NET_ARP_WAITING_def ex_net_def ex_route_def arp_reply_msg_def arp_request_msg_def)
  then show ?thesis using arp_stops_kernel [OF ex_net_up n k, of "[]"] f by simp
qed

theorem config_fills_tables_witness:
  "\<exists>c'. foldR config_line [section_line (map of_char ''eth0'') [0], inet_line 0x0201A8C0 24 [], route_line 0x0001A8C0 24 0x0101A8C0 []]
     \<lparr>buf0 = replicate 64 0, curr_iface = 0, c_inaddr = 0, c_mask = 0, c_inaddr1 = 0,
      c_net = ex_net [1, 2, 3, 4, 5, 6] 1 (replicate 32 route_zero) rtl_zero\<rparr> = Inr c' \<and> rt_dst (s_routes (c_net c') ! 0) = 0x0101A8C0"
proof -
  let ?n = "ex_net [1, 2, 3, 4, 5, 6] 1 (replicate 32 route_zero) rtl_zero"
  have i: "has_iface ?n (map of_char ''eth0'') rtl8139_dev"
    unfolding has_iface_def
    by (rule exI [of _ "[]"], rule exI [of _ "replicate 7 0"]) (auto simp: ex_net_def ex_dev_def lit_def dev_nz)
  have p: "netdevs ?n rtl8139_dev = Some (ex_dev [1, 2, 3, 4, 5, 6] 1)" "nd_priv (ex_dev [1, 2, 3, 4, 5, 6] 1) = Some 0"
    "0 < length (s_dev_privs ?n)" "inaddr_loop (take 4 (inaddrs (s_dev_privs ?n ! 0))) 0 = Some 0" "free_route (s_routes ?n) 0 = Some 0"
  proof -
    have "replicate 4 ia_zero = ia_zero # replicate 3 ia_zero" "replicate 32 route_zero = route_zero # replicate 31 route_zero"
      by (simp_all flip: replicate_Suc)
    then show "inaddr_loop (take 4 (inaddrs (s_dev_privs ?n ! 0))) 0 = Some 0" "free_route (s_routes ?n) 0 = Some 0"
      by (simp_all add: ex_net_def ia_zero_def route_zero_def)
  qed (simp_all add: ex_net_def ex_dev_def)
  let ?c = "\<lparr>buf0 = replicate 64 0, curr_iface = 0, c_inaddr = 0, c_mask = 0, c_inaddr1 = 0, c_net = ?n\<rparr>"
  let ?r = "(s_routes ?n ! 0)\<lparr>rt_flags := of_nat 24 OR 0x80000000, rt_addr := 0x0001A8C0, rt_dev := rtl8139_dev, rt_dst := 0x0101A8C0\<rparr>"
  let ?l = "[section_line (map of_char ''eth0'') [0], inet_line 0x0201A8C0 24 [], route_line 0x0001A8C0 24 0x0101A8C0 []]"
  have "0 \<notin> set (map of_char ''eth0'' :: bytes)" "93 \<notin> set (map of_char ''eth0'' :: bytes)" "length (map of_char ''eth0'' :: bytes) < 64"
    "length (buf0 ?c) = 64" by simp_all
  moreover have "0x0201A8C0 \<noteq> (0 :: u32)" "0x0001A8C0 \<noteq> (0 :: u32)" "0x0101A8C0 \<noteq> (0 :: u32)" "24 < (256 :: nat)" "8 dvd (24 :: nat)" by simp_all
  ultimately obtain c' where c': "foldR config_line ?l ?c = Inr c'" "s_routes (c_net c') = (s_routes ?n)[0 := ?r]"
    using config_fills_tables [OF i, of "ex_dev [1, 2, 3, 4, 5, 6] 1" 0 0 0 "0x0201A8C0" "0x0001A8C0" "0x0101A8C0" 24 24 ?c "[0]" "[]" "[]"] p
    by (auto simp del: of_nat_numeral list_update_code)
  have "s_routes ?n \<noteq> []" by (simp add: ex_net_def)
  then have "rt_dst (s_routes (c_net c') ! 0) = 0x0101A8C0" using c'(2) by simp
  then show ?thesis using c'(1) by blast
qed

definition ex_busy :: rtl8139 where
  "ex_busy = (case rtl_send [7] rtl_zero of Inr (c, _) \<Rightarrow> c\<lparr>rregs := (rregs c)\<lparr>rg_isr := 5\<rparr>\<rparr> | Inl _ \<Rightarrow> rtl_zero)"

lemma ex_busy: "tx_rel ex_busy [] [[7]]" "rg_isr (rregs ex_busy) = 5" "recv_size ex_busy = 0"
proof -
  obtain c where c: "rtl_send [7] rtl_zero = Inr (c, 0)" "tx_rel c [] [[7]]"
    using rtl.send_taken [OF rtl_zero_rel, of "[7]"] by auto
  then show "tx_rel ex_busy [] [[7]]" "rg_isr (rregs ex_busy) = 5" by (auto simp: ex_busy_def tx_rel_def tx_frame_def)
  have "recv_size c = 0" using tx_keeps_isr c(1) by (fastforce simp: rtl_send_def recv_size_def rtl_zero_def)
  then show "recv_size ex_busy = 0" using c(1) by (simp add: ex_busy_def recv_size_def split: if_splits)
qed

theorem irq_loses_done_witness:
  "\<exists>n' more. rtl8139_irq_handler (ex_net [1, 2, 3, 4, 5, 6] 1 [] ex_busy) = Inr (n', 0) \<and> tx_rel (nic n') [] ([7] # more) \<and>
    rg_isr (rregs (nic n')) = 0"
proof -
  let ?n = "ex_net [1, 2, 3, 4, 5, 6] 1 [] ex_busy"
  have r: "recv_size (ex_busy\<lparr>rregs := (rregs ex_busy)\<lparr>rg_isr := v\<rparr>\<rparr>) = 0" for v
    using ex_busy(3) by (simp add: recv_size_def split: if_splits)
  have b: "nz (rg_isr (rregs (nic ?n)) AND RTL8139_ISR_ROK)" "nz (rg_isr (rregs (nic ?n)) AND RTL8139_ISR_TOK)"
    by (simp_all add: ex_net_def ex_busy rtl_consts)
  obtain n' where n': "rtl8139_irq_handler ?n = Inr (n', 0)" "rg_isr (rregs (nic n')) = 0"
    using r ex_busy(2) by (simp add: rtl8139_irq_handler_def rtl8139_recv_def ex_net_def rtl_consts write_isr_def)
  have t: "tx_rel (nic ?n) [] ([7] # [])" "netdevs ?n rtl8139_dev = Some (ex_dev [1, 2, 3, 4, 5, 6] 1)" "length (nd_mac (ex_dev [1, 2, 3, 4, 5, 6] 1)) = 6"
    by (simp_all add: ex_net_def ex_busy(1) ex_dev_def)
  show ?thesis using irq_loses_done [OF t(1) b t(2,3) n'(1)] n' by auto
qed

end
