(* ===== verification/UsrFmt.thy ===== *)
theory UsrFmt
  imports DebugFmt
begin

text \<open>
  The formatted output of the user library: \<open>vsnprintf\<close> and its helpers
  (\<open>usr/lib/posix/vsnprintf.c\<close>). A reference semantics of format strings is given beside it: the
  lemmas show that the two agree on every text that fits into the buffer, and what happens at the
  edge of the buffer.
\<close>

section \<open>Numbers\<close>

text \<open>The number routines of the kernel's debug output, which also return the length.\<close>

definition vsnprintf_ds :: "u64 \<Rightarrow> bytes \<Rightarrow> bool \<Rightarrow> bool \<Rightarrow> (bytes \<times> nat) res" where
  "vsnprintf_ds x res s sz =
     (if x = 0 then bindR (wr res 0 48) (\<lambda>res. bindR (wr res 1 0) (\<lambda>res. Inr (res, 1)))
      else (case ds_magnitude x s sz of (v, neg) \<Rightarrow>
        bindR (ds_digits v res 0) (\<lambda>(res, c).
        bindR (if neg then wr res c 45 else Inr res) (\<lambda>res.
        let c = (if neg then Suc c else c) in
        bindR (wr res c 0) (\<lambda>res. bindR (rev_loop res 0 (c - 1)) (\<lambda>res. Inr (res, c)))))))"

definition vsnprintf_xs :: "u64 \<Rightarrow> bytes \<Rightarrow> bytes \<Rightarrow> (bytes \<times> nat) res" where
  "vsnprintf_xs v res cset =
     (if v = 0 then bindR (wr res 0 48) (\<lambda>res. bindR (wr res 1 0) (\<lambda>res. Inr (res, 1)))
      else bindR (xs_digits v cset res 0) (\<lambda>(res, c).
        bindR (wr res c 0) (\<lambda>res. bindR (rev_loop res 0 (c - 1)) (\<lambda>res. Inr (res, c)))))"

section \<open>Output into the buffer\<close>

text \<open>The buffer and the position; a step also says whether it went to \<open>__end\<close>.\<close>

record vout =
  vbuf :: bytes
  vpos :: u32

definition vs_putc :: "u32 \<Rightarrow> u8 \<Rightarrow> vout \<Rightarrow> (vout \<times> bool) res" where
  "vs_putc len c s =
     (if vpos s = len - 1 then Inr (s, True)
      else bindR (wr (vbuf s) (unat (vpos s)) c) (\<lambda>b. Inr (\<lparr>vbuf = b, vpos = vpos s + 1\<rparr>, False)))"

definition vs_pad :: "u32 \<Rightarrow> u8 \<Rightarrow> u32 \<Rightarrow> vout \<Rightarrow> (vout \<times> bool) res" where
  "vs_pad len padc padd s =
     (if vpos s + padd < len + 1 then
        bindR (at_off (\<lambda>b. memset b padc padd) (vbuf s) (unat (vpos s))) (\<lambda>b. Inr (\<lparr>vbuf = b, vpos = vpos s + padd\<rparr>, False))
      else
        bindR (at_off (\<lambda>b. memset b padc (len - 1 - vpos s)) (vbuf s) (unat (vpos s))) (\<lambda>b. Inr (\<lparr>vbuf = b, vpos = len - 1\<rparr>, True)))"

definition vs_str :: "u32 \<Rightarrow> bytes \<Rightarrow> u32 \<Rightarrow> vout \<Rightarrow> (vout \<times> bool) res" where
  "vs_str len str l s =
     (if vpos s + l < len + 1 then
        bindR (at_off (\<lambda>b. strncpy b str l) (vbuf s) (unat (vpos s))) (\<lambda>b. Inr (\<lparr>vbuf = b, vpos = vpos s + l\<rparr>, False))
      else
        bindR (at_off (\<lambda>b. strncpy b str (len - 1 - vpos s)) (vbuf s) (unat (vpos s))) (\<lambda>b. Inr (\<lparr>vbuf = b, vpos = len - 1\<rparr>, True)))"

text \<open>A step is skipped once one before it went to \<open>__end\<close>.\<close>

definition then_vs :: "(vout \<Rightarrow> (vout \<times> bool) res) \<Rightarrow> (vout \<Rightarrow> (vout \<times> bool) res) \<Rightarrow> vout \<Rightarrow> (vout \<times> bool) res" where
  "then_vs f g s = bindR (f s) (\<lambda>(s, stop). if stop then Inr (s, True) else g s)"

definition vs_puts :: "u32 \<Rightarrow> bytes \<Rightarrow> u32 \<Rightarrow> int \<Rightarrow> u8 \<Rightarrow> vout \<Rightarrow> (vout \<times> bool) res" where
  "vs_puts len str l padn padc =
     (if padn \<ge> 0 then
        then_vs (if uint l < padn then vs_pad len padc (of_int padn - l) else (\<lambda>s. Inr (s, False))) (vs_str len str l)
      else
        then_vs (vs_str len str l) (if uint l < - padn then vs_pad len padc (of_int (- padn) - l) else (\<lambda>s. Inr (s, False))))"

section \<open>The format\<close>

fun vs_width :: "bytes \<Rightarrow> int \<Rightarrow> (int \<times> bytes) res" where
  "vs_width [] n = Inl OutOfBounds"
| "vs_width (c # f) n = (if is_digit c then vs_width f (n * 10 + (sint c - 48)) else Inr (n, c # f))"

text \<open>The flags and the width after \<open>%\<close>, up to the conversion character.\<close>

definition vs_parse :: "bytes \<Rightarrow> (int \<times> u8 \<times> bytes) res" where
  "vs_parse f =
     bindR (deref f) (\<lambda>c.
     bindR (if c = 48 then Inr (48, tl f) else Inr (32, f)) (\<lambda>(padc, f).
     bindR (deref f) (\<lambda>c.
     bindR (if c = 45 then Inr (- 1, tl f) else Inr (1, f)) (\<lambda>(pads, f).
     bindR (vs_width f 0) (\<lambda>(n, f). Inr (n * pads, padc, f))))))"

text \<open>The conversion; \<open>cb\<close> is the uninitialised \<open>cbuf\<close>.\<close>

definition vs_conv :: "u32 \<Rightarrow> bytes \<Rightarrow> u8 \<Rightarrow> int \<Rightarrow> u8 \<Rightarrow> va_list \<Rightarrow> vout \<Rightarrow> (va_list \<times> vout \<times> bool) res" where
  "vs_conv len cb c padn padc args s =
    (if c = ch CHR ''l'' then Inl AssertFail
     else if c = ch CHR ''s'' then
       bindR (vastr args) (\<lambda>(v, args).
       bindR (case v of
           Some str \<Rightarrow> bindR (usr_strlen str) (\<lambda>l. vs_puts len str l padn padc s)
         | None \<Rightarrow> vs_puts len (lit ''(null)'') 6 padn padc s) (\<lambda>r. Inr (args, r)))
     else if c = ch CHR ''p'' then
       bindR (va32 args) (\<lambda>(v, args).
       bindR (then_vs (then_vs (vs_putc len 48) (vs_putc len (ch CHR ''x''))) (\<lambda>s.
         bindR (vsnprintf_xs (ucast v) cb debug_xs_set0) (\<lambda>(b, l). vs_puts len b (of_nat l) 8 48 s)) s) (\<lambda>r. Inr (args, r)))
     else if c = ch CHR ''i'' \<or> c = ch CHR ''d'' then
       bindR (va32 args) (\<lambda>(v, args).
       bindR (vsnprintf_ds (scast v) cb True True) (\<lambda>(b, l). bindR (vs_puts len b (of_nat l) padn padc s) (\<lambda>r. Inr (args, r))))
     else if c = ch CHR ''u'' then
       bindR (va32 args) (\<lambda>(v, args).
       bindR (vsnprintf_ds (ucast v) cb False True) (\<lambda>(b, l). bindR (vs_puts len b (of_nat l) padn padc s) (\<lambda>r. Inr (args, r))))
     else if c = ch CHR ''x'' then
       bindR (va32 args) (\<lambda>(v, args).
       bindR (vsnprintf_xs (ucast v) cb debug_xs_set0) (\<lambda>(b, l). bindR (vs_puts len b (of_nat l) padn padc s) (\<lambda>r. Inr (args, r))))
     else if c = ch CHR ''X'' then
       bindR (va32 args) (\<lambda>(v, args).
       bindR (vsnprintf_xs (ucast v) cb debug_xs_set1) (\<lambda>(b, l). bindR (vs_puts len b (of_nat l) padn padc s) (\<lambda>r. Inr (args, r))))
     else if c = ch CHR ''c'' then
       bindR (va32 args) (\<lambda>(v, args). bindR (vs_putc len (ucast v) s) (\<lambda>r. Inr (args, r)))
     else bindR (then_vs (vs_putc len 37) (vs_putc len c) s) (\<lambda>r. Inr (args, r)))"

lemma vs_width_length: "vs_width f n = Inr (m, g) \<Longrightarrow> length g \<le> length f"
  by (induction f n rule: vs_width.induct) (auto split: if_splits)

lemma vs_parse_length: "vs_parse f = Inr (n, c, g) \<Longrightarrow> length g \<le> length f"
  by (force simp: vs_parse_def bindR_eq_Inr split: if_splits dest: vs_width_length)

function vs_loop :: "u32 \<Rightarrow> bytes \<Rightarrow> bytes \<Rightarrow> va_list \<Rightarrow> vout \<Rightarrow> vout res" where
  "vs_loop len cb fmt args s =
     bindR (deref fmt) (\<lambda>c.
       if c = 0 then Inr s
       else if c = 37 then
         bindR (vs_parse (tl fmt)) (\<lambda>(padn, padc, f).
         bindR (deref f) (\<lambda>c.
         bindR (vs_conv len cb c padn padc args s) (\<lambda>(args, s, stop).
           if stop then Inr s else vs_loop len cb (tl f) args s)))
       else
         bindR (vs_putc len c s) (\<lambda>(s, stop). if stop then Inr s else vs_loop len cb (tl fmt) args s))"
  by pat_completeness auto
termination
  by (relation "measure (\<lambda>(_, _, fmt, _, _). length fmt)")
    (auto simp: deref_def split: list.splits dest!: vs_parse_length)

declare vs_loop.simps [simp del]

text \<open>The result is the buffer and the length returned.\<close>

definition vsnprintf :: "bytes \<Rightarrow> bytes \<Rightarrow> u32 \<Rightarrow> bytes \<Rightarrow> va_list \<Rightarrow> (bytes \<times> u32) res" where
  "vsnprintf cb buf len fmt args =
     bindR (vs_loop len cb fmt args \<lparr>vbuf = buf, vpos = 0\<rparr>) (\<lambda>s.
     bindR (wr (vbuf s) (unat (vpos s)) 0) (\<lambda>b. Inr (b, vpos s)))"


section \<open>Reference semantics of a format\<close>

text \<open>
  A format is a list of plain characters and of conversions with their flags \<open>0\<close> and \<open>-\<close>, their width
  (0 for none) and their letter. \<open>vspec_text\<close> is the text that a conversion stands for.
\<close>

datatype vspec = Plain u8 | Conv bool bool nat u8

fun vspec_str :: "vspec \<Rightarrow> bytes" where
  "vspec_str (Plain c) = [c]"
| "vspec_str (Conv z m w c) = 37 # (if z then [48] else []) @ (if m then [45] else []) @ (if w = 0 then [] else dec_str w) @ [c]"

fun vspec_ok :: "vspec \<Rightarrow> bool" where
  "vspec_ok (Plain c) \<longleftrightarrow> c \<noteq> 0 \<and> c \<noteq> 37"
| "vspec_ok (Conv z m w c) \<longleftrightarrow> w < 2 ^ 31 \<and> c \<in> set (map of_char ''spiduxXc'')"

definition pad_text :: "int \<Rightarrow> u8 \<Rightarrow> bytes \<Rightarrow> bytes" where
  "pad_text n c t = (if n \<ge> 0 then replicate (nat n - length t) c @ t else t @ replicate (nat (- n) - length t) c)"

definition conv_width :: "bool \<Rightarrow> nat \<Rightarrow> int" where
  "conv_width m w = (if m then - int w else int w)"

definition conv_pad :: "bool \<Rightarrow> u8" where
  "conv_pad z = (if z then 48 else 32)"

text \<open>The text of a value, before padding.\<close>

fun arg_text :: "u8 \<Rightarrow> vararg \<Rightarrow> bytes option" where
  "arg_text c (VA32 v) =
     (if c = ch CHR ''i'' \<or> c = ch CHR ''d'' then Some (int_str (sint v))
      else if c = ch CHR ''u'' then Some (dec_str (unat v))
      else if c = ch CHR ''x'' then Some (hex_str debug_xs_set0 (unat v))
      else if c = ch CHR ''X'' then Some (hex_str debug_xs_set1 (unat v))
      else None)"
| "arg_text c (VAStr None) = (if c = ch CHR ''s'' then Some (map of_char ''(null)'') else None)"
| "arg_text c (VAStr (Some p)) = (if c = ch CHR ''s'' \<and> 0 \<in> set p then Some (takeWhile (\<lambda>x. x \<noteq> 0) p) else None)"
| "arg_text c (VA64 v) = None"

fun vspec_text :: "vspec \<Rightarrow> va_list \<Rightarrow> (bytes \<times> va_list) option" where
  "vspec_text (Plain c) as = Some ([c], as)"
| "vspec_text (Conv z m w c) [] = None"
| "vspec_text (Conv z m w c) (a # as) =
     (if c = ch CHR ''p'' then
        (case a of VA32 v \<Rightarrow> Some (map of_char ''0x'' @ pad_text 8 48 (hex_str debug_xs_set0 (unat v)), as) | _ \<Rightarrow> None)
      else if c = ch CHR ''c'' then (case a of VA32 v \<Rightarrow> Some ([ucast v], as) | _ \<Rightarrow> None)
      else (case arg_text c a of None \<Rightarrow> None | Some t \<Rightarrow> Some (pad_text (conv_width m w) (conv_pad z) t, as)))"

fun fmt_text :: "vspec list \<Rightarrow> va_list \<Rightarrow> bytes option" where
  "fmt_text [] as = Some []"
| "fmt_text (x # xs) as = (case vspec_text x as of None \<Rightarrow> None
     | Some (t, as) \<Rightarrow> (case fmt_text xs as of None \<Rightarrow> None | Some u \<Rightarrow> Some (t @ u)))"

section \<open>What the steps put out\<close>

text \<open>The state after the text \<open>t\<close> has been put into \<open>buf\<close>, and a step that puts out \<open>u\<close> if there is room.\<close>

definition vst :: "bytes \<Rightarrow> bytes \<Rightarrow> vout" where
  "vst buf t = \<lparr>vbuf = t @ drop (length t) buf, vpos = of_nat (length t)\<rparr>"

definition emits :: "bytes \<Rightarrow> u32 \<Rightarrow> (vout \<Rightarrow> (vout \<times> bool) res) \<Rightarrow> bytes \<Rightarrow> bool" where
  "emits buf len f u \<longleftrightarrow> (\<forall>t. length t + length u < unat len \<longrightarrow> f (vst buf t) = Inr (vst buf (t @ u), False))"

definition buf_ok :: "bytes \<Rightarrow> u32 \<Rightarrow> bool" where
  "buf_ok buf len \<longleftrightarrow> unat len \<le> length buf \<and> unat len < 2 ^ 31"

lemma emits_skip: "emits buf len (\<lambda>s. Inr (s, False)) []"
  by (simp add: emits_def)

lemma emits_then: "emits buf len f u \<Longrightarrow> emits buf len g v \<Longrightarrow> emits buf len (then_vs f g) (u @ v)"
  by (simp add: emits_def then_vs_def)

lemma pos_fit:
  assumes "buf_ok buf len" "k + n < unat len"
  shows "unat (of_nat k :: u32) = k" "unat (of_nat n :: u32) = n" "of_nat k + of_nat n < len + 1" "of_nat (k + n) \<noteq> len - 1 \<or> Suc (k + n) = unat len"
proof -
  have b: "unat len < 2 ^ 31" using assms by (simp add: buf_ok_def)
  show "unat (of_nat k :: u32) = k" "unat (of_nat n :: u32) = n" using b assms(2) by (simp_all add: unat_of_nat_small)
  have kn: "unat (of_nat (k + n) :: u32) = k + n" using b assms(2) by (intro unat_of_nat_small) simp
  have "unat (len + 1) = unat len + 1" using b by (subst unat_add_nowrap) auto
  then show "of_nat k + of_nat n < len + 1" using kn assms(2) by (simp add: word_less_nat_alt)
  have "len \<noteq> 0" using assms(2) by auto
  then have "unat (len - 1) = unat len - 1" by (simp add: unat_minus_one)
  then show "of_nat (k + n) \<noteq> len - 1 \<or> Suc (k + n) = unat len" using kn assms(2) by auto
qed

lemma vst_write:
  assumes "unat len \<le> length buf" "length t + length u < unat len"
    "f (drop (length t) buf) = Inr (u @ drop (length u) (drop (length t) buf))"
  shows "at_off f (vbuf (vst buf t)) (length t) = Inr (vbuf (vst buf (t @ u)))"
  using assms by (simp add: at_off_def vst_def add.commute)

lemma emits_putc:
  assumes "buf_ok buf len"
  shows "emits buf len (vs_putc len c) [c]"
  unfolding emits_def
proof (intro allI impI)
  fix t :: bytes assume t: "length t + length [c] < unat len"
  note p = pos_fit [OF assms, of "length t" 0]
  have "of_nat (length t) \<noteq> len - 1" using p(4) t by auto
  moreover have "length t < length buf" using t assms by (simp add: buf_ok_def)
  ultimately show "vs_putc len c (vst buf t) = Inr (vst buf (t @ [c]), False)"
    using p(1) t by (simp add: vs_putc_def vst_def wr_def list_update_append Cons_nth_drop_Suc [symmetric] add.commute)
qed

lemma emits_pad:
  assumes "buf_ok buf len"
  shows "emits buf len (vs_pad len c (of_nat n)) (replicate n c)"
  unfolding emits_def
proof (intro allI impI)
  fix t :: bytes assume t: "length t + length (replicate n c) < unat len"
  then have t': "length t + n < unat len" by simp
  note p = pos_fit [OF assms t']
  have b: "unat len \<le> length buf" using assms by (simp add: buf_ok_def)
  have "memset (drop (length t) buf) c (of_nat n) = Inr (replicate n c @ drop (length (replicate n c)) (drop (length t) buf))"
    using p(2) t' b by (simp add: memset_ok)
  from vst_write [where f = "\<lambda>b. memset b c (of_nat n)", OF b t this]
  show "vs_pad len c (of_nat n) (vst buf t) = Inr (vst buf (t @ replicate n c), False)"
    using p by (simp add: vs_pad_def) (simp add: vst_def)
qed

lemma emits_str:
  assumes "buf_ok buf len" "0 \<notin> set u" "str = u @ x # r"
  shows "emits buf len (vs_str len str (of_nat (length u))) u"
  unfolding emits_def
proof (intro allI impI)
  fix t :: bytes assume t: "length t + length u < unat len"
  note p = pos_fit [OF assms(1) t]
  have b: "unat len \<le> length buf" "unat len < 2 ^ 31" using assms(1) by (simp_all add: buf_ok_def)
  have "strncpy (drop (length t) buf) str (of_nat (length u)) = Inr (u @ drop (length u) (drop (length t) buf))"
    unfolding strncpy_def assms(3) using strncpy_loop_exact [OF assms(2), of "drop (length t) buf" 0 x r] t b by simp
  from vst_write [where f = "\<lambda>b. strncpy b str (of_nat (length u))", OF b(1) t this]
  show "vs_str len str (of_nat (length u)) (vst buf t) = Inr (vst buf (t @ u), False)"
    using p by (simp add: vs_str_def) (simp add: vst_def)
qed

text \<open>Strings and numbers come out padded to their width.\<close>

lemma emits_puts:
  assumes "buf_ok buf len" "0 \<notin> set u" "str = u @ x # r" "length u < 2 ^ 31" "\<bar>n\<bar> < 2 ^ 31"
  shows "emits buf len (vs_puts len str (of_nat (length u)) n c) (pad_text n c u)"
proof -
  have ul: "uint (of_nat (length u) :: u32) = int (length u)" using assms(4) by (simp add: uint_nat unat_of_nat_small)
  have d: "of_int k - of_nat (length u) = (of_nat (nat k - length u) :: u32)" if "int (length u) < k" for k
  proof -
    have "of_int k = (of_nat (nat k) :: u32)" using that by (metis int_nat_eq of_int_of_nat_eq of_nat_0_le_iff order_less_imp_le order_trans)
    then show ?thesis using that by (simp add: of_nat_diff)
  qed
  show ?thesis
  proof (cases "n \<ge> 0")
    case True
    show ?thesis
    proof (cases "int (length u) < n")
      case lt: True
      have "emits buf len (vs_pad len c (of_int n - of_nat (length u))) (replicate (nat n - length u) c)"
        unfolding d [OF lt] by (rule emits_pad [OF assms(1)])
      then show ?thesis using True lt ul emits_then emits_str [OF assms(1-3)] by (simp add: vs_puts_def pad_text_def)
    next
      case False
      then show ?thesis using True ul emits_then [OF emits_skip emits_str [OF assms(1-3)]] by (simp add: vs_puts_def pad_text_def)
    qed
  next
    case neg: False
    show ?thesis
    proof (cases "int (length u) < - n")
      case lt: True
      have "emits buf len (vs_pad len c (of_int (- n) - of_nat (length u))) (replicate (nat (- n) - length u) c)"
        unfolding d [OF lt] by (rule emits_pad [OF assms(1)])
      then show ?thesis using neg lt ul emits_then [OF emits_str [OF assms(1-3)]] by (simp add: vs_puts_def pad_text_def)
    next
      case False
      then show ?thesis using neg ul emits_then [OF emits_str [OF assms(1-3)] emits_skip] by (simp add: vs_puts_def pad_text_def)
    qed
  qed
qed


section \<open>Numbers and conversions\<close>

lemma vsnprintf_ds_ok:
  assumes "length (sgn_str (ds_magnitude x s sz)) < length res"
  shows "\<exists>r. vsnprintf_ds x res s sz = Inr (sgn_str (ds_magnitude x s sz) @ 0 # r, length (sgn_str (ds_magnitude x s sz)))"
proof -
  let ?t = "sgn_str (ds_magnitude x s sz)"
  have d: "debug_ds x res s sz = Inr (?t @ 0 # drop (Suc (length ?t)) res)" by (rule debug_ds_ok [OF assms])
  have "vsnprintf_ds x res s sz = bindR (debug_ds x res s sz) (\<lambda>r. Inr (r, length ?t))"
  proof (cases "x = 0")
    case True
    then show ?thesis by (simp add: vsnprintf_ds_def debug_ds_def bindR_assoc ds_magnitude_def sgn_str_def dec_str_def)
  next
    case False
    obtain v neg where vn: "ds_magnitude x s sz = (v, neg)" by fastforce
    then have v: "0 < unat v" using ds_magnitude_nz [OF False, of s sz] by (simp add: unat_gt_0)
    have "ds_digits v res 0 = Inr (dec_rev (unat v) @ drop (length (dec_rev (unat v))) res, length (dec_rev (unat v)))"
      using ds_digits_ok [of 0 v res] assms vn v by (simp add: sgn_str_def dec_str_def split: if_splits)
    then show ?thesis using False vn v
      by (cases neg) (simp_all add: vsnprintf_ds_def debug_ds_def bindR_assoc sgn_str_def dec_str_def Let_def)
  qed
  then show ?thesis using d by simp
qed

lemma vsnprintf_xs_ok:
  assumes "16 \<le> length cset" "length (hex_str cset (unat v)) < length res"
  shows "\<exists>r. vsnprintf_xs v res cset = Inr (hex_str cset (unat v) @ 0 # r, length (hex_str cset (unat v)))"
proof -
  let ?t = "hex_str cset (unat v)"
  have d: "debug_xs v res cset = Inr (?t @ 0 # drop (Suc (length ?t)) res)" by (rule debug_xs_ok [OF assms])
  have "vsnprintf_xs v res cset = bindR (debug_xs v res cset) (\<lambda>r. Inr (r, length ?t))"
  proof (cases "v = 0")
    case True
    then show ?thesis by (simp add: vsnprintf_xs_def debug_xs_def bindR_assoc hex_str_def)
  next
    case False
    then have v: "0 < unat v" by (simp add: unat_gt_0)
    have "xs_digits v cset res 0 = Inr (hex_rev cset (unat v) @ drop (length (hex_rev cset (unat v))) res, length (hex_rev cset (unat v)))"
      using xs_digits_ok [of cset 0 v res] assms v by (simp add: hex_str_def split: if_splits)
    then show ?thesis using False v
      by (simp add: vsnprintf_xs_def debug_xs_def bindR_assoc hex_str_def)
  qed
  then show ?thesis using d by simp
qed

lemma dec_str_no_nul: "0 \<notin> set (dec_str n)"
  using dec_str_digits by blast

lemma int_str_no_zero: "0 \<notin> set (int_str i)"
  using dec_str_no_nul by (simp add: int_str_def)

lemma int_str_len: "length (int_str (sint (v :: u32))) < 22"
proof -
  have "sint v = sint (scast v :: u64)" by (simp add: sint_up_scast is_up)
  then show ?thesis using int_str_fits [of "scast v"] by simp
qed

lemma hex_set_ok:
  assumes "cset = debug_xs_set0 \<or> cset = debug_xs_set1"
  shows "16 \<le> length cset" "0 \<notin> set (hex_str cset n)" "n < 2 ^ 32 \<Longrightarrow> length (hex_str cset n) \<le> 8"
proof -
  show l: "16 \<le> length cset" using assms by (auto simp: debug_xs_set0_def debug_xs_set1_def lit_def)
  have "0 \<notin> set (take 16 cset)" using assms by (auto simp: debug_xs_set0_def debug_xs_set1_def lit_def)
  then show "0 \<notin> set (hex_str cset n)" using hex_rev_set [OF l, of n] by (auto simp: hex_str_def)
  show "length (hex_str cset n) \<le> 8" if "n < 2 ^ 32"
    using hex_rev_length [of n 8 cset] that by (auto simp: hex_str_def)
qed

text \<open>A conversion puts out its text and takes its argument.\<close>

definition conv_emits :: "bytes \<Rightarrow> u32 \<Rightarrow> (vout \<Rightarrow> (va_list \<times> vout \<times> bool) res) \<Rightarrow> bytes \<Rightarrow> va_list \<Rightarrow> bool" where
  "conv_emits buf len f u args \<longleftrightarrow>
     (\<forall>t. length t + length u < unat len \<longrightarrow> f (vst buf t) = Inr (args, vst buf (t @ u), False))"

lemma conv_emitsI: "emits buf len f u \<Longrightarrow> conv_emits buf len (\<lambda>s. bindR (f s) (\<lambda>r. Inr (args, r))) u args"
  by (simp add: emits_def conv_emits_def)

lemma conv_ds:
  assumes "buf_ok buf len" "length cb = 64" "\<bar>n\<bar> < 2 ^ 31" "sgn_str (ds_magnitude x sg True) = u" "length u < 22" "0 \<notin> set u"
  shows "conv_emits buf len (\<lambda>s. bindR (vsnprintf_ds x cb sg True) (\<lambda>(b, l). bindR (vs_puts len b (of_nat l) n c s) (\<lambda>r. Inr (args, r))))
    (pad_text n c u) args"
proof -
  obtain r where "vsnprintf_ds x cb sg True = Inr (u @ 0 # r, length u)" using vsnprintf_ds_ok [of x sg True cb] assms by auto
  moreover have "emits buf len (vs_puts len (u @ 0 # r) (of_nat (length u)) n c) (pad_text n c u)"
    using assms by (intro emits_puts) auto
  ultimately show ?thesis using conv_emitsI by simp
qed

lemma conv_xs:
  assumes "buf_ok buf len" "length cb = 64" "\<bar>n\<bar> < 2 ^ 31" "cset = debug_xs_set0 \<or> cset = debug_xs_set1"
  shows "\<exists>r. vsnprintf_xs (ucast (v :: u32)) cb cset = Inr (hex_str cset (unat v) @ 0 # r, length (hex_str cset (unat v))) \<and>
    emits buf len (vs_puts len (hex_str cset (unat v) @ 0 # r) (of_nat (length (hex_str cset (unat v)))) n c) (pad_text n c (hex_str cset (unat v)))"
proof -
  have u: "unat (ucast v :: u64) = unat v" by (simp add: unat_ucast_up)
  have "unat v < 2 ^ 32" using unsigned_less [of v] by simp
  then have l: "length (hex_str cset (unat v)) \<le> 8" using hex_set_ok(3) [OF assms(4)] by blast
  then obtain r where "vsnprintf_xs (ucast v) cb cset = Inr (hex_str cset (unat v) @ 0 # r, length (hex_str cset (unat v)))"
    using vsnprintf_xs_ok [of cset "ucast v" cb] assms(2) hex_set_ok(1) [OF assms(4)] u by auto
  moreover have "emits buf len (vs_puts len (hex_str cset (unat v) @ 0 # r) (of_nat (length (hex_str cset (unat v)))) n c) (pad_text n c (hex_str cset (unat v)))"
    using assms l hex_set_ok(2) [OF assms(4)] by (intro emits_puts) auto
  ultimately show ?thesis by blast
qed


lemma conv_ok:
  assumes "buf_ok buf len" "length cb = 64" "vspec_ok (Conv z m w c)" "vspec_text (Conv z m w c) as = Some (u, rest)"
    "length u < 2 ^ 31" "\<forall>a \<in> set as. \<forall>p. a = VAStr (Some p) \<longrightarrow> length p < 2 ^ 31"
  shows "conv_emits buf len (vs_conv len cb c (conv_width m w) (conv_pad z) as) u rest"
proof -
  obtain a as' where as: "as = a # as'" using assms(4) by (cases as) auto
  let ?n = "conv_width m w" and ?p = "conv_pad z"
  have n: "\<bar>?n\<bar> < 2 ^ 31" using assms(3) by (auto simp: conv_width_def)
  show ?thesis
  proof (cases a)
    case (VA32 v)
    consider "c = ch CHR ''p''" | "c = ch CHR ''c''" | "c = ch CHR ''i'' \<or> c = ch CHR ''d''" | "c = ch CHR ''u''" | "c = ch CHR ''x''" | "c = ch CHR ''X''"
      using assms(3,4) VA32 as by (auto split: if_splits)
    then show ?thesis
    proof cases
      case 1
      obtain r where r: "vsnprintf_xs (ucast v) cb debug_xs_set0 = Inr (hex_str debug_xs_set0 (unat v) @ 0 # r, length (hex_str debug_xs_set0 (unat v)))"
        "emits buf len (vs_puts len (hex_str debug_xs_set0 (unat v) @ 0 # r) (of_nat (length (hex_str debug_xs_set0 (unat v)))) 8 48)
          (pad_text 8 48 (hex_str debug_xs_set0 (unat v)))"
        using conv_xs [OF assms(1,2), of 8 debug_xs_set0 v 48] by auto
      have "emits buf len (then_vs (vs_putc len 48) (vs_putc len (ch CHR ''x''))) ([48] @ [ch CHR ''x''])"
        by (intro emits_then emits_putc assms(1))
      from conv_emitsI [OF emits_then [OF this r(2)], of rest] show ?thesis
        using 1 VA32 as assms(4) r(1) by (simp add: vs_conv_def [abs_def])
    next
      case 2
      then show ?thesis using VA32 as assms(4) conv_emitsI [OF emits_putc [OF assms(1)], of "ucast v" rest] by (simp add: vs_conv_def [abs_def])
    next
      case 3
      have s: "sgn_str (ds_magnitude (scast v) True True) = int_str (sint v)"
        by (simp add: sgn_str_signed64 sint_up_scast is_up)
      have "conv_emits buf len (\<lambda>s. bindR (vsnprintf_ds (scast v) cb True True) (\<lambda>(b, l). bindR (vs_puts len b (of_nat l) ?n ?p s) (\<lambda>r. Inr (rest, r))))
        (pad_text ?n ?p (int_str (sint v))) rest"
        by (rule conv_ds [OF assms(1,2) n s int_str_len int_str_no_zero])
      then show ?thesis using 3 VA32 as assms(4) by (auto simp: vs_conv_def [abs_def])
    next
      case 4
      have s: "sgn_str (ds_magnitude (ucast v) False True) = dec_str (unat v)"
        by (simp add: sgn_str_unsigned unat_ucast_up)
      have "length (dec_str (unat v)) < 22" using dec_str_fits [of "ucast v"] by (simp add: unat_ucast_up)
      then have "conv_emits buf len (\<lambda>s. bindR (vsnprintf_ds (ucast v) cb False True) (\<lambda>(b, l). bindR (vs_puts len b (of_nat l) ?n ?p s) (\<lambda>r. Inr (rest, r))))
        (pad_text ?n ?p (dec_str (unat v))) rest"
        by (rule conv_ds [OF assms(1,2) n s _ dec_str_no_nul])
      then show ?thesis using 4 VA32 as assms(4) by (auto simp: vs_conv_def [abs_def])
    next
      case 5
      obtain r where r: "vsnprintf_xs (ucast v) cb debug_xs_set0 = Inr (hex_str debug_xs_set0 (unat v) @ 0 # r, length (hex_str debug_xs_set0 (unat v)))"
        "emits buf len (vs_puts len (hex_str debug_xs_set0 (unat v) @ 0 # r) (of_nat (length (hex_str debug_xs_set0 (unat v)))) ?n ?p)
          (pad_text ?n ?p (hex_str debug_xs_set0 (unat v)))"
        using conv_xs [OF assms(1,2) n, of debug_xs_set0 v ?p] by auto
      then show ?thesis using 5 VA32 as assms(4) conv_emitsI [OF r(2), of rest] by (simp add: vs_conv_def [abs_def])
    next
      case 6
      obtain r where r: "vsnprintf_xs (ucast v) cb debug_xs_set1 = Inr (hex_str debug_xs_set1 (unat v) @ 0 # r, length (hex_str debug_xs_set1 (unat v)))"
        "emits buf len (vs_puts len (hex_str debug_xs_set1 (unat v) @ 0 # r) (of_nat (length (hex_str debug_xs_set1 (unat v)))) ?n ?p)
          (pad_text ?n ?p (hex_str debug_xs_set1 (unat v)))"
        using conv_xs [OF assms(1,2) n, of debug_xs_set1 v ?p] by auto
      then show ?thesis using 6 VA32 as assms(4) conv_emitsI [OF r(2), of rest] by (simp add: vs_conv_def [abs_def])
    qed
  next
    case (VA64 v)
    then show ?thesis using assms(4) as by (auto split: if_splits)
  next
    case (VAStr q)
    then have c: "c = ch CHR ''s''" using assms(4) as by (cases q) (simp_all split: if_splits)
    show ?thesis
    proof (cases q)
      case None
      let ?l = "map of_char ''(null)'' :: bytes"
      have "emits buf len (vs_puts len (?l @ 0 # []) (of_nat (length ?l)) ?n ?p) (pad_text ?n ?p ?l)"
        using n by (intro emits_puts assms(1)) auto
      from conv_emitsI [OF this, of rest] show ?thesis
        using None VAStr as c assms(4) by (simp add: vs_conv_def [abs_def] lit_def)
    next
      case (Some str)
      let ?t = "takeWhile (\<lambda>x. x \<noteq> 0) str"
      have z: "0 \<in> set str" "u = pad_text ?n ?p ?t" "rest = as'" using assms(4) as VAStr Some c by (auto split: if_splits)
      obtain r where r: "str = ?t @ 0 # r"
      proof -
        obtain ys zs where "str = ys @ 0 # zs" "0 \<notin> set ys" using split_list_first [OF z(1)] by blast
        moreover from this(2) have "takeWhile (\<lambda>x. x \<noteq> 0) (ys @ 0 # zs) = ys" by (induction ys) auto
        ultimately show ?thesis using that by simp
      qed
      have t: "0 \<notin> set ?t" by (auto dest: set_takeWhileD)
      have "usr_strlen_loop (v @ 0 # r) l = Inr (l + of_nat (length v))" if "0 \<notin> set v" for v l
        using that by (induction v arbitrary: l) (auto simp: algebra_simps)
      from this [OF t] have sl: "usr_strlen str = Inr (of_nat (length ?t))" using r by (metis add_0 usr_strlen_def)
      have "length ?t < 2 ^ 31" using assms(6) as VAStr Some length_takeWhile_le [of "\<lambda>x. x \<noteq> 0" str] by (auto intro: le_less_trans)
      then have "emits buf len (vs_puts len str (of_nat (length ?t)) ?n ?p) (pad_text ?n ?p ?t)"
        using n t r by (intro emits_puts assms(1)) auto
      from conv_emitsI [OF this, of rest] show ?thesis
        using Some VAStr as c z sl by (simp add: vs_conv_def [abs_def])
    qed
  qed
qed

section \<open>The format is parsed back\<close>

lemma vs_width_dec:
  assumes "\<not> is_digit c"
  shows "vs_width (dec_str w @ c # r) 0 = Inr (int w, c # r)"
proof -
  have s: "sint (48 + of_nat d :: u8) = 48 + int d" if "d < 10" for d
  proof -
    have "d \<in> set [0..<10]" using that by simp
    then show ?thesis by (simp add: upt_rec) auto
  qed
  have g: "vs_width (v @ c # r) k = Inr (foldl (\<lambda>k c. k * 10 + (sint c - 48)) k v, c # r)" if "\<forall>c \<in> set v. is_digit c" for v k
    using that assms by (induction v arbitrary: k) auto
  have f: "foldr (\<lambda>c k. k * 10 + (sint c - 48)) (dec_rev n) 0 = int n" for n
  proof (induction n rule: dec_rev.induct)
    case (1 n)
    show ?case
    proof (cases "n = 0")
      case False
      have "int (n div 10) * 10 + int (n mod 10) = int n" by (metis div_mult_mod_eq of_nat_add of_nat_mult of_nat_numeral)
      then show ?thesis using False "1.IH" s [of "n mod 10"] by (simp add: dec_rev_pos)
    qed simp
  qed
  have "foldl (\<lambda>k c. k * 10 + (sint c - 48)) 0 (dec_str w) = int w"
    using f [of w] by (simp add: dec_str_def foldl_conv_foldr)
  then show ?thesis using g [of "dec_str w" 0] dec_str_digits by simp
qed

lemma dec_rev_last: "0 < n \<Longrightarrow> dec_rev n \<noteq> [] \<and> last (dec_rev n) \<noteq> 48"
proof (induction n rule: dec_rev.induct)
  case (1 n)
  show ?case
  proof (cases "n < 10")
    case True
    have "n \<in> set [1..<10]" using True "1.prems" by simp
    then have "of_nat n \<noteq> (0 :: u8)" by (simp add: upt_rec) auto
    then show ?thesis using True "1.prems" by (simp add: dec_rev_pos)
  next
    case False
    then show ?thesis using "1.IH" "1.prems" by (simp add: dec_rev_pos [of n])
  qed
qed

lemma dec_str_hd:
  assumes "0 < w"
  shows "\<exists>x xs. dec_str w = x # xs \<and> x \<noteq> 48 \<and> x \<noteq> 45"
proof -
  obtain x xs where x: "dec_str w = x # xs" using dec_rev_last [OF assms] assms by (cases "dec_str w") (auto simp: dec_str_def)
  have "x \<noteq> 48" using x dec_rev_last [OF assms] assms by (auto simp: dec_str_def hd_rev dest: arg_cong [of _ _ hd])
  moreover have "is_digit x" using x dec_str_digits [of x w] by simp
  then have "x \<noteq> 45" by (auto simp: is_digit_def)
  ultimately show ?thesis using x by blast
qed

lemma vs_parse_ok:
  assumes "vspec_ok (Conv z m w c)"
  shows "vs_parse (tl (vspec_str (Conv z m w c)) @ r) = Inr (conv_width m w, conv_pad z, c # r)"
proof -
  have c: "\<not> is_digit c" "c \<noteq> 45" "c \<noteq> 48" using assms by (auto simp: is_digit_def)
  let ?w = "(if w = 0 then [] else dec_str w) @ c # r"
  have w: "vs_width ?w 0 = Inr (int w, c # r)" using vs_width_dec [OF c(1), of w r] c(1) by simp
  obtain x xs where x: "?w = x # xs" "x \<noteq> 48" "x \<noteq> 45"
    using dec_str_hd [of w] c by (cases "w = 0") auto
  have "vs_parse ((if z then [48] else []) @ (if m then [45] else []) @ ?w) = Inr (conv_width m w, conv_pad z, c # r)"
    using x w by (cases z; cases m) (simp_all add: vs_parse_def conv_width_def conv_pad_def)
  then show ?thesis by simp
qed

lemma vspec_text_chars: "vspec_text x as = Some (t, as') \<Longrightarrow> vspec_ok x \<Longrightarrow> set as' \<subseteq> set as"
  by (cases x; cases as) (auto split: if_splits vararg.splits option.splits)

lemma vs_loop_ok:
  assumes "buf_ok buf len" "length cb = 64" "list_all vspec_ok xs" "fmt_text xs as = Some u" "length t + length u < unat len"
    "\<forall>a \<in> set as. \<forall>p. a = VAStr (Some p) \<longrightarrow> length p < 2 ^ 31"
  shows "vs_loop len cb (concat (map vspec_str xs) @ 0 # r) as (vst buf t) = Inr (vst buf (t @ u))"
  using assms(3-6)
proof (induction xs arbitrary: as u t)
  case Nil
  then show ?case by (subst vs_loop.simps) simp
next
  case (Cons x xs)
  obtain v as' u' where x: "vspec_text x as = Some (v, as')" "fmt_text xs as' = Some u'" "u = v @ u'"
    using Cons.prems(2) by (auto split: option.splits)
  have ok: "vspec_ok x" "list_all vspec_ok xs" using Cons.prems(1) by simp_all
  have len: "length t + length v < unat len" "length (t @ v) + length u' < unat len" using x(3) Cons.prems(3) by simp_all
  have as': "\<forall>a \<in> set as'. \<forall>p. a = VAStr (Some p) \<longrightarrow> length p < 2 ^ 31"
    using Cons.prems(4) vspec_text_chars [OF x(1) ok(1)] by blast
  note IH = Cons.IH [OF ok(2) x(2) len(2) as']
  show ?case
  proof (cases x)
    case (Plain c)
    then have v: "v = [c]" "as' = as" "c \<noteq> 0" "c \<noteq> 37" using x(1) ok(1) by auto
    have "vs_putc len c (vst buf t) = Inr (vst buf (t @ v), False)"
      using emits_putc [OF assms(1), of c] len(1) v by (simp add: emits_def)
    then show ?thesis using IH Plain v x(3) by (subst vs_loop.simps) simp
  next
    case (Conv z m w c)
    have "length v < 2 ^ 31" using len(1) assms(1) by (simp add: buf_ok_def)
    then have "vs_conv len cb c (conv_width m w) (conv_pad z) as (vst buf t) = Inr (as', vst buf (t @ v), False)"
      using conv_ok [OF assms(1,2), of z m w c as v as'] ok(1) x(1) Conv Cons.prems(4) len(1) by (simp add: conv_emits_def)
    moreover have "vs_parse (tl (vspec_str x) @ concat (map vspec_str xs) @ 0 # r) =
        Inr (conv_width m w, conv_pad z, c # concat (map vspec_str xs) @ 0 # r)"
      using vs_parse_ok ok(1) Conv by blast
    moreover have "vspec_str x = 37 # tl (vspec_str x)" using Conv by simp
    ultimately show ?thesis using IH x(3) by (subst vs_loop.simps) (simp add: Conv)
  qed
qed

lemma vsnprintf_ok:
  assumes "unat len \<le> length buf" "unat len < 2 ^ 31" "length cb = 64" "list_all vspec_ok xs" "fmt_text xs as = Some t"
    "length t < unat len" "\<forall>a \<in> set as. \<forall>p. a = VAStr (Some p) \<longrightarrow> length p < 2 ^ 31"
  shows "vsnprintf cb buf len (concat (map vspec_str xs) @ 0 # r) as = Inr (t @ 0 # drop (Suc (length t)) buf, of_nat (length t))"
proof -
  have b: "buf_ok buf len" using assms by (simp add: buf_ok_def)
  have s: "vst buf [] = \<lparr>vbuf = buf, vpos = 0\<rparr>" by (simp add: vst_def)
  have "vs_loop len cb (concat (map vspec_str xs) @ 0 # r) as (vst buf []) = Inr (vst buf t)"
    using vs_loop_ok [OF b assms(3-5), of "[]" r] assms(6,7) by simp
  moreover have "unat (of_nat (length t) :: u32) = length t" using pos_fit(1) [OF b, of "length t" 0] assms(6) by simp
  moreover have "length t < length buf" using assms(1,6) by simp
  ultimately show ?thesis
    by (simp add: vsnprintf_def s [symmetric]) (simp add: vst_def wr_def list_update_append Cons_nth_drop_Suc [symmetric])
qed

text \<open>
  C9: \<open>vsnprintf\<close> agrees with the reference semantics of formats: whenever the text that a format and its
  arguments stand for is shorter than the buffer, it is what the buffer holds afterwards, with its final
  NUL, and its length is the result. The rest of the buffer is left alone.
\<close>

theorem vsnprintf_text:
  assumes "unat len \<le> length buf" "unat len < 2 ^ 31" "length cb = 64" "list_all vspec_ok xs" "fmt_text xs as = Some t"
    "length t < unat len" "\<forall>a \<in> set as. \<forall>p. a = VAStr (Some p) \<longrightarrow> length p < 2 ^ 31"
  shows "vsnprintf cb buf len (concat (map vspec_str xs) @ 0 # r) as = Inr (t @ 0 # drop (Suc (length t)) buf, of_nat (length t))"
  using assms by (rule vsnprintf_ok)

theorem vsnprintf_text_witness:
  "vsnprintf (replicate 64 0) (replicate 16 0) 16 (concat (map vspec_str [Plain 35, Conv True False 5 (ch CHR ''d''), Conv False True 4 (ch CHR ''s'')]) @ 0 # [])
     [VA32 (- 42), VAStr (Some (lit ''ab''))] = Inr (35 # 48 # 48 # map of_char ''-42ab  '' @ replicate 6 0, 10)"
proof -
  let ?xs = "[Plain 35, Conv True False 5 (ch CHR ''d''), Conv False True 4 (ch CHR ''s'')]"
  have two: "replicate 2 x = [x, x]" for x :: u8 by (simp add: numeral_2_eq_2)
  have d: "dec_str 42 = [52, 50]" by (simp add: dec_str_def dec_rev_pos)
  have t: "fmt_text ?xs [VA32 (- 42), VAStr (Some (lit ''ab''))] = Some (35 # 48 # 48 # map of_char ''-42ab  '')"
    by (simp add: lit_def int_str_def d pad_text_def conv_width_def conv_pad_def two)
  have r: "replicate 6 (0 :: u8) = 0 # replicate 5 0" by (simp flip: replicate_Suc)
  have "list_all vspec_ok ?xs" by simp
  then show ?thesis using vsnprintf_text [OF _ _ _ _ t, of 16 "replicate 16 0" "replicate 64 0" "[]"]
    by (simp add: lit_def r)
qed

section \<open>The edge of the buffer\<close>

text \<open>
  What \<open>vsnprintf\<close> does with a string at the edge of its buffer. A shorter string comes out whole, a longer
  one cut off, both with a final NUL; a string exactly as long as the buffer fills it to the last byte
  and the NUL is written behind its end, because the comparison allows one character too many.
\<close>

theorem vsnprintf_edge:
  assumes "unat len = length buf" "0 < length buf" "length buf < 2 ^ 31" "0 \<notin> set t" "length t < 2 ^ 31"
  shows "vsnprintf cb buf len (lit ''%s'') [VAStr (Some (t @ 0 # r))] =
    (if length t < length buf then Inr (t @ 0 # drop (Suc (length t)) buf, of_nat (length t))
     else if length t = length buf then Inl OutOfBounds
     else Inr (take (length buf - 1) t @ [0], len - 1))"
proof -
  let ?l = "of_nat (length t) :: u32"
  have ul: "unat ?l = length t" using assms(5) by (simp add: unat_of_nat_small)
  have sl: "usr_strlen (t @ 0 # r) = Inr ?l"
  proof -
    have "usr_strlen_loop (v @ 0 # r) l = Inr (l + of_nat (length v))" if "0 \<notin> set v" for v l
      using that by (induction v arbitrary: l) (auto simp: algebra_simps)
    from this [OF assms(4)] show ?thesis by (simp add: usr_strlen_def)
  qed
  have p: "vs_parse [115, 0] = Inr (0, 32, [115, 0])" by (simp add: vs_parse_def is_digit_def)
  have e: "vsnprintf cb buf len (lit ''%s'') [VAStr (Some (t @ 0 # r))] =
      bindR (vs_str len (t @ 0 # r) ?l \<lparr>vbuf = buf, vpos = 0\<rparr>) (\<lambda>(s, _). bindR (wr (vbuf s) (unat (vpos s)) 0) (\<lambda>b. Inr (b, vpos s)))"
    by (subst vsnprintf_def, subst vs_loop.simps)
      (auto simp: lit_def p vs_conv_def sl vs_puts_def then_vs_def vs_loop.simps [of _ _ "[0]"] bindR_assoc
        intro!: arg_cong [where f = "bindR _"] split: prod.splits)
  have len: "len + 1 \<noteq> 0" "unat (len + 1) = length buf + 1" "unat (len - 1) = length buf - 1"
  proof -
    show u: "unat (len + 1) = length buf + 1" using assms(1,3) by (subst unat_add_nowrap) auto
    then show "len + 1 \<noteq> 0" by auto
    show "unat (len - 1) = length buf - 1" using assms(1,2) by (subst unat_minus_one) auto
  qed
  have fit: "?l < len + 1 \<longleftrightarrow> length t \<le> length buf" using ul len(2) by (simp add: word_less_nat_alt less_Suc_eq_le)
  show ?thesis
  proof (cases "length t \<le> length buf")
    case True
    then have "strncpy buf (t @ 0 # r) ?l = Inr (t @ drop (length t) buf)"
      unfolding strncpy_def using strncpy_loop_exact [OF assms(4), of buf 0 0 r] assms(3) by simp
    then have "vs_str len (t @ 0 # r) ?l \<lparr>vbuf = buf, vpos = 0\<rparr> = Inr (\<lparr>vbuf = t @ drop (length t) buf, vpos = ?l\<rparr>, False)"
      using True fit by (simp add: vs_str_def at_off_def)
    then show ?thesis using True ul e by (auto simp: wr_def list_update_append Cons_nth_drop_Suc [symmetric])
  next
    case False
    let ?k = "length buf - 1"
    obtain x xs where x: "drop ?k t = x # xs" using False by (cases "drop ?k t") auto
    have t: "t @ 0 # r = take ?k t @ x # (xs @ 0 # r)" using x by (metis append_Cons append_assoc append_take_drop_id)
    have z: "0 \<notin> set (take ?k t)" using assms(4) in_set_takeD by fast
    have lk: "length (take ?k t) = ?k" using False by simp
    have "strncpy buf (t @ 0 # r) (len - 1) = Inr (take ?k t @ drop ?k buf)"
    proof -
      have "len - 1 = of_nat (length (take ?k t))" using len(3) lk by (metis of_nat_unat ucast_id)
      then show ?thesis unfolding strncpy_def t using strncpy_loop_exact [OF z, of buf 0 x "xs @ 0 # r"] assms(3) lk by simp
    qed
    then have "vs_str len (t @ 0 # r) ?l \<lparr>vbuf = buf, vpos = 0\<rparr> = Inr (\<lparr>vbuf = take ?k t @ drop ?k buf, vpos = len - 1\<rparr>, True)"
      using False fit by (simp add: vs_str_def at_off_def)
    moreover have "drop ?k buf = [buf ! ?k]" using assms(2) Cons_nth_drop_Suc [of ?k buf] by simp
    ultimately show ?thesis using False e lk len(3) assms(2) by (simp add: wr_def list_update_append)
  qed
qed

theorem vsnprintf_edge_witness:
  "vsnprintf (replicate 64 0) [1, 1, 1] 3 (lit ''%s'') [VAStr (Some ([97, 98, 99] @ 0 # []))] = Inl OutOfBounds"
  using vsnprintf_edge [of 3 "[1, 1, 1]" "[97, 98, 99]" "replicate 64 0" "[]"] by simp

end
