(* ===== verification/Console.thy ===== *)
theory Console
  imports CString
begin

text \<open>
  The text console (\<open>arch/x86/hw/console.c\<close>, built without the frame buffer): the cells of the screen
  memory, the cursor, and the port writes that move the hardware cursor. The lemmas relate the flat
  array to a list of rows and show what is on the screen after lines of text have been printed.
\<close>

record console =
  con_data :: "u16 list"
  con_width :: u16
  con_height :: u16
  con_cury :: u16
  con_curx :: u16
  crtc :: "(u16 \<times> u8) list"

definition x86_con_cursor :: "console \<Rightarrow> console" where
  "x86_con_cursor s =
     (let p = con_cury s * 80 + con_curx s in
      s\<lparr>crtc := crtc s @ [(0x03D4, 0x0F), (0x03D5, ucast (p AND 0xFF)), (0x03D4, 0x0E), (0x03D5, ucast (drop_bit 8 p AND 0xFF))]\<rparr>)"

text \<open>The index arithmetic is done in \<open>int\<close>: \<open>nat\<close> here, as no operand is negative.\<close>

definition con_set :: "nat \<Rightarrow> u16 \<Rightarrow> console \<Rightarrow> console res" where
  "con_set i v s = bindR (wr (con_data s) i v) (\<lambda>d. Inr (s\<lparr>con_data := d\<rparr>))"

definition con_index :: "console \<Rightarrow> nat" where
  "con_index s = unat (con_cury s) * unat (con_width s) + unat (con_curx s)"

definition scroll_rows :: "nat \<Rightarrow> nat \<Rightarrow> u16 list \<Rightarrow> u16 list res" where
  "scroll_rows w h d =
     foldR (\<lambda>i. foldR (\<lambda>j d. bindR (rd d ((i + 1) * w + j)) (\<lambda>v. wr d (i * w + j) v)) [0..<w]) [0..<h - 1] d"

definition x86_con_scroll :: "console \<Rightarrow> console res" where
  "x86_con_scroll s =
     (let w = unat (con_width s); h = unat (con_height s); k = h * w - w in
      bindR (scroll_rows w h (con_data s)) (\<lambda>d.
      bindR (memsetw (drop k d) 0x0700 (of_nat w)) (\<lambda>r. Inr (s\<lparr>con_data := take k d @ r\<rparr>))))"

text \<open>The comparisons with the last column and the last row are comparisons of \<open>int\<close>s.\<close>

definition con_last :: "u16 \<Rightarrow> u16 \<Rightarrow> bool" where
  "con_last p n \<longleftrightarrow> uint p = uint n - 1"

definition con_wrap :: "console \<Rightarrow> console res" where
  "con_wrap s = (if con_last (con_cury s) (con_height s) then x86_con_scroll (s\<lparr>con_cury := con_height s - 2\<rparr>) else Inr s)"

definition con_printable :: "u8 \<Rightarrow> bool" where
  "con_printable c \<longleftrightarrow> sint c \<ge> 32"

text \<open>The branches of \<open>x86_con_putc\<close> but the last, which prints a question mark.\<close>

definition con_branch :: "u8 \<Rightarrow> console \<Rightarrow> console res" where
  "con_branch c s =
     (if con_printable c then
        (let s = (if con_last (con_curx s) (con_width s) then s\<lparr>con_curx := 0, con_cury := con_cury s + 1\<rparr> else s) in
         bindR (con_wrap s) (\<lambda>s.
         bindR (con_set (con_index s) (0x0700 OR ucast c) s) (\<lambda>s. Inr (s\<lparr>con_curx := con_curx s + 1\<rparr>))))
      else if c = 10 then con_wrap (s\<lparr>con_curx := 0, con_cury := con_cury s + 1\<rparr>)
      else if nz (con_curx s) then
        (let s = s\<lparr>con_curx := con_curx s - 1\<rparr> in con_set (con_index s) 0x0700 s)
      else Inr s)"

definition x86_con_putc :: "u8 \<Rightarrow> console \<Rightarrow> console res" where
  "x86_con_putc c s =
     bindR (if con_printable c \<or> c = 10 \<or> c = 8 then con_branch c s
            else bindR (con_branch 63 s) (\<lambda>s. Inr (x86_con_cursor s))) (\<lambda>s. Inr (x86_con_cursor s))"

definition x86_con_init :: "console \<Rightarrow> console res" where
  "x86_con_init s =
     bindR (memsetw (con_data s) 0x0700 (ucast (con_width s) * ucast (con_height s))) (\<lambda>d. Inr (s\<lparr>con_data := d\<rparr>))"

section \<open>Rows\<close>

definition blank :: "nat \<Rightarrow> u16 list" where
  "blank w = replicate w 0x0700"

definition cell :: "u8 \<Rightarrow> u16" where
  "cell c = 0x0700 OR ucast c"

text \<open>The screen as a list of rows, with the column and the row of the cursor.\<close>

record screen =
  rows :: "u16 list list"
  col :: nat
  row :: nat

definition con_rel :: "nat \<Rightarrow> nat \<Rightarrow> console \<Rightarrow> screen \<Rightarrow> bool" where
  "con_rel w h s t \<longleftrightarrow> con_data s = concat (rows t) \<and> length (rows t) = h \<and> (\<forall>r \<in> set (rows t). length r = w) \<and>
     unat (con_width s) = w \<and> unat (con_height s) = h \<and> unat (con_curx s) = col t \<and> unat (con_cury s) = row t \<and>
     2 \<le> w \<and> 2 \<le> h \<and> h * w < 2 ^ 16 \<and> col t < w \<and> row t < h - 1"

definition scr_scroll :: "nat \<Rightarrow> screen \<Rightarrow> screen" where
  "scr_scroll w t = t\<lparr>rows := tl (rows t) @ [blank w]\<rparr>"

definition scr_newline :: "nat \<Rightarrow> nat \<Rightarrow> screen \<Rightarrow> screen" where
  "scr_newline w h t = (if Suc (row t) = h - 1 then scr_scroll w (t\<lparr>col := 0\<rparr>) else t\<lparr>col := 0, row := Suc (row t)\<rparr>)"

definition scr_print :: "nat \<Rightarrow> nat \<Rightarrow> u8 \<Rightarrow> screen \<Rightarrow> screen" where
  "scr_print w h c t =
     (let t = (if Suc (col t) = w then scr_newline w h t else t) in
      t\<lparr>rows := (rows t)[row t := (rows t ! row t)[col t := cell c]], col := Suc (col t)\<rparr>)"

definition scr_back :: "screen \<Rightarrow> screen" where
  "scr_back t = (if col t = 0 then t else t\<lparr>rows := (rows t)[row t := (rows t ! row t)[col t - 1 := 0x0700]], col := col t - 1\<rparr>)"

definition scr_putc :: "nat \<Rightarrow> nat \<Rightarrow> u8 \<Rightarrow> screen \<Rightarrow> screen" where
  "scr_putc w h c t =
     (if con_printable c then scr_print w h c t else if c = 10 then scr_newline w h t
      else if c = 8 then scr_back t else scr_print w h 63 t)"


section \<open>The array and the rows\<close>

lemma concat_update:
  "\<forall>r \<in> set rs. length r = w \<Longrightarrow> y < length rs \<Longrightarrow> x < w \<Longrightarrow> (concat rs)[y * w + x := v] = concat (rs[y := (rs ! y)[x := v]])"
proof (induction rs arbitrary: y)
  case (Cons r rs)
  then show ?case by (cases y) (auto simp: list_update_append add.assoc)
qed simp

lemma length_concat_rows: "\<forall>r \<in> set rs. length r = w \<Longrightarrow> length (concat rs) = length rs * w"
  by (induction rs) auto

text \<open>The state of the copy loops after \<open>k\<close> cells.\<close>

definition shifted :: "nat \<Rightarrow> u16 list \<Rightarrow> nat \<Rightarrow> u16 list" where
  "shifted w d k = take k (drop w d) @ drop k d"

lemma shifted_step:
  assumes "0 < w" "k + w < length d"
  shows "bindR (rd (shifted w d k) (k + w)) (\<lambda>v. wr (shifted w d k) k v) = Inr (shifted w d (Suc k))"
proof -
  have l: "length (take k (drop w d)) = k" using assms by simp
  have "shifted w d k ! (k + w) = d ! (k + w)" using assms l by (simp add: shifted_def nth_append)
  moreover have "length (shifted w d k) = length d" using assms by (simp add: shifted_def)
  moreover have "(shifted w d k)[k := d ! (k + w)] = shifted w d (Suc k)"
  proof -
    have "drop k d = d ! k # drop (Suc k) d" using assms by (simp add: Cons_nth_drop_Suc)
    moreover have "take (Suc k) (drop w d) = take k (drop w d) @ [d ! (k + w)]"
      using assms by (simp add: take_Suc_conv_app_nth add.commute)
    ultimately show ?thesis using l by (simp add: shifted_def list_update_append)
  qed
  ultimately show ?thesis using assms by (simp add: rd_def wr_def)
qed

lemma shift_row:
  assumes "0 < w" "n \<le> w" "(i + 1) * w + n \<le> length d"
  shows "foldR (\<lambda>j d. bindR (rd d ((i + 1) * w + j)) (\<lambda>v. wr d (i * w + j) v)) [0..<n] (shifted w d (i * w)) =
    Inr (shifted w d (i * w + n))"
  using assms(2,3)
proof (induction n)
  case (Suc n)
  have "(i + 1) * w + n = (i * w + n) + w" by simp
  then show ?case using Suc shifted_step [of w "i * w + n" d] assms(1) by (simp add: foldR_append ac_simps bindR_assoc)
qed simp

lemma scroll_rows_ok:
  assumes "0 < w" "length d = h * w" "0 < h"
  shows "scroll_rows w h d = Inr (drop w d @ drop ((h - 1) * w) d)"
proof -
  have "foldR (\<lambda>i. foldR (\<lambda>j d. bindR (rd d ((i + 1) * w + j)) (\<lambda>v. wr d (i * w + j) v)) [0..<w]) [0..<n] d =
      Inr (shifted w d (n * w))" if "n \<le> h - 1" for n
    using that
  proof (induction n)
    case 0
    then show ?case by (simp add: shifted_def)
  next
    case (Suc n)
    have "(n + 1) * w + w \<le> length d"
    proof -
      have "n + 2 \<le> h" using Suc.prems assms(3) by linarith
      then have "(n + 2) * w \<le> h * w" by (rule mult_le_mono1)
      then show ?thesis using assms(2) by (simp add: algebra_simps)
    qed
    then show ?case using Suc shift_row [of w w n d] assms(1) by (simp add: foldR_append add.commute)
  qed
  from this [of "h - 1"] show ?thesis
    using assms by (simp add: scroll_rows_def shifted_def diff_mult_distrib)
qed

lemma scroll_ok:
  assumes "con_rel w h s t"
  shows "\<exists>s'. x86_con_scroll s = Inr s' \<and> con_rel w h s' (scr_scroll w t)"
proof -
  have r: "con_data s = concat (rows t)" "length (rows t) = h" "\<forall>r \<in> set (rows t). length r = w" "unat (con_width s) = w"
    "unat (con_height s) = h" "2 \<le> w" "2 \<le> h" "h * w < 2 ^ 16"
    using assms by (simp_all add: con_rel_def)
  have l: "length (con_data s) = h * w" using length_concat_rows [OF r(3)] r(1,2) by simp
  obtain r0 rs where rs: "rows t = r0 # rs" using r(2,7) by (cases "rows t") auto
  have d: "drop w (con_data s) = concat rs" using r(1,3) rs by simp
  have sr: "scroll_rows w h (con_data s) = Inr (concat rs @ drop ((h - 1) * w) (con_data s))"
    using scroll_rows_ok [OF _ l] r(6,7) d by simp
  have k: "h * w - w = length (concat rs)" using l d by (metis length_drop)
  have "length (drop ((h - 1) * w) (con_data s)) = w" using l r(7) by (simp add: diff_mult_distrib le_add_diff_inverse2)
  moreover have "unat (of_nat w :: u32) = w"
  proof (rule unat_of_nat_small)
    have "1 * w \<le> h * w" by (rule mult_le_mono1) (use r(7) in simp)
    then have "w < 2 ^ 16" using r(8) by linarith
    then show "w < 2 ^ LENGTH(32)" by simp
  qed
  ultimately have m: "memsetw (drop ((h - 1) * w) (con_data s)) 0x0700 (of_nat w) = Inr (blank w)"
    by (simp add: memsetw_def fill_loop_ok blank_def)
  have "x86_con_scroll s = Inr (s\<lparr>con_data := concat rs @ blank w\<rparr>)"
    using r(4,5) sr k m by (simp add: x86_con_scroll_def Let_def)
  moreover have "con_rel w h (s\<lparr>con_data := concat rs @ blank w\<rparr>) (scr_scroll w t)"
    using assms rs by (auto simp: con_rel_def scr_scroll_def blank_def)
  ultimately show ?thesis by blast
qed


section \<open>Printing\<close>

lemma u16_less: "unat (x :: u16) < 2 ^ 16"
  using unsigned_less [of x] by simp

lemma con_last_unat: "con_last p n \<longleftrightarrow> Suc (unat p) = unat n"
  unfolding con_last_def uint_nat by linarith

lemma con_rel_words:
  assumes "con_rel w h s t"
  shows "con_last (con_curx s) (con_width s) \<longleftrightarrow> Suc (col t) = w" "con_last (con_cury s + 1) (con_height s) \<longleftrightarrow> Suc (row t) = h - 1"
    "unat (con_cury s + 1) = Suc (row t)" "unat (con_curx s + 1) = Suc (col t)" "unat (con_height s - 2) = h - 2" "\<not> con_last (con_cury s) (con_height s)"
proof -
  have r: "unat (con_width s) = w" "unat (con_height s) = h" "unat (con_curx s) = col t" "unat (con_cury s) = row t" "2 \<le> w" "2 \<le> h"
    "col t < w" "row t < h - 1"
    using assms by (simp_all add: con_rel_def)
  have wl: "w < 2 ^ 16" unfolding r(1) [symmetric] by (rule u16_less)
  have hl: "h < 2 ^ 16" unfolding r(2) [symmetric] by (rule u16_less)
  show "unat (con_cury s + 1) = Suc (row t)" using r wl hl by (subst unat_add_nowrap) auto
  then show "con_last (con_cury s + 1) (con_height s) \<longleftrightarrow> Suc (row t) = h - 1" using r by (auto simp: con_last_unat)
  show "unat (con_curx s + 1) = Suc (col t)" using r wl hl by (subst unat_add_nowrap) auto
  show "con_last (con_curx s) (con_width s) \<longleftrightarrow> Suc (col t) = w" using r by (auto simp: con_last_unat)
  show "unat (con_height s - 2) = h - 2" using r by (subst unat_sub; simp add: word_le_nat_alt)
  show "\<not> con_last (con_cury s) (con_height s)" using r by (auto simp: con_last_unat)
qed

text \<open>The cursor goes to the start of the next row; the last row is never entered.\<close>

lemma newline_ok:
  assumes "con_rel w h s t"
  shows "\<exists>s'. con_wrap (s\<lparr>con_curx := 0, con_cury := con_cury s + 1\<rparr>) = Inr s' \<and> con_rel w h s' (scr_newline w h t)"
proof -
  note f = con_rel_words [OF assms]
  have r: "2 \<le> w" "2 \<le> h" "row t < h - 1" using assms by (simp_all add: con_rel_def)
  show ?thesis
  proof (cases "Suc (row t) = h - 1")
    case True
    let ?s = "s\<lparr>con_curx := 0, con_cury := con_height s - 2\<rparr>" and ?t = "t\<lparr>col := 0\<rparr>"
    have "con_rel w h ?s ?t" using assms f(5) True r by (auto simp: con_rel_def)
    from scroll_ok [OF this] obtain s' where s': "x86_con_scroll ?s = Inr s'" "con_rel w h s' (scr_scroll w ?t)" by blast
    then show ?thesis using True f(2) by (auto simp: con_wrap_def scr_newline_def scr_scroll_def)
  next
    case False
    then have "con_rel w h (s\<lparr>con_curx := 0, con_cury := con_cury s + 1\<rparr>) (t\<lparr>col := 0, row := Suc (row t)\<rparr>)"
      using assms f(3) r by (auto simp: con_rel_def)
    then show ?thesis using False f(2) by (auto simp: con_wrap_def scr_newline_def)
  qed
qed

lemma con_set_ok:
  assumes "con_rel w h s t" "x < w" "unat (con_curx s') = x" "s' = s\<lparr>con_curx := con_curx s'\<rparr>"
  shows "con_set (con_index s') v s' = Inr (s'\<lparr>con_data := concat ((rows t)[row t := (rows t ! row t)[x := v]])\<rparr>)"
proof -
  have r: "con_data s = concat (rows t)" "length (rows t) = h" "\<forall>r \<in> set (rows t). length r = w" "unat (con_width s) = w"
    "unat (con_cury s) = row t" "row t < h - 1" "2 \<le> h"
    using assms(1) by (simp_all add: con_rel_def)
  have e: "con_data s' = con_data s" "con_width s' = con_width s" "con_cury s' = con_cury s"
    by (subst assms(4), simp)+
  have i: "con_index s' = row t * w + x" using r e assms(3) by (simp add: con_index_def)
  have "(row t + 1) * w \<le> h * w" using r by (intro mult_le_mono1) linarith
  then have "row t * w + x < length (con_data s')" using length_concat_rows [OF r(3)] r(1,2) e(1) assms(2) by (simp add: algebra_simps)
  then show ?thesis using i r e concat_update [OF r(3) _ assms(2)] by (simp add: con_set_def wr_def)
qed

lemma print_ok:
  assumes "con_rel w h s t" "con_printable c"
  shows "\<exists>s'. con_branch c s = Inr s' \<and> con_rel w h s' (scr_print w h c t)"
proof -
  note f = con_rel_words [OF assms(1)]
  define t1 where "t1 = (if Suc (col t) = w then scr_newline w h t else t)"
  have "\<exists>s1. con_wrap (if con_last (con_curx s) (con_width s) then s\<lparr>con_curx := 0, con_cury := con_cury s + 1\<rparr> else s) = Inr s1 \<and> con_rel w h s1 t1"
    using newline_ok [OF assms(1)] assms(1) f(1,6) by (auto simp: t1_def con_wrap_def)
  then obtain s1 where s1: "con_wrap (if con_last (con_curx s) (con_width s) then s\<lparr>con_curx := 0, con_cury := con_cury s + 1\<rparr> else s) = Inr s1"
    "con_rel w h s1 t1" by blast
  have c: "Suc (col t1) < w"
  proof -
    have "2 \<le> w" "col t < w" using assms(1) by (simp_all add: con_rel_def)
    then show ?thesis by (auto simp: t1_def scr_newline_def scr_scroll_def)
  qed
  have "con_set (con_index s1) (cell c) s1 = Inr (s1\<lparr>con_data := concat ((rows t1)[row t1 := (rows t1 ! row t1)[col t1 := cell c]])\<rparr>)"
    using s1(2) c by (intro con_set_ok [OF s1(2)]) (simp_all add: con_rel_def)
  then have "con_branch c s = Inr (s1\<lparr>con_data := concat ((rows t1)[row t1 := (rows t1 ! row t1)[col t1 := cell c]]), con_curx := con_curx s1 + 1\<rparr>)"
    using s1(1) assms(2) by (simp add: con_branch_def Let_def cell_def)
  moreover have "con_rel w h (s1\<lparr>con_data := concat ((rows t1)[row t1 := (rows t1 ! row t1)[col t1 := cell c]]), con_curx := con_curx s1 + 1\<rparr>)
      (scr_print w h c t)"
    using s1(2) c con_rel_words(4) [OF s1(2)] by (auto simp: con_rel_def scr_print_def Let_def t1_def [symmetric] dest!: set_update_subset_insert [THEN subsetD])
  ultimately show ?thesis by blast
qed

lemma back_ok:
  assumes "con_rel w h s t"
  shows "\<exists>s'. con_branch 8 s = Inr s' \<and> con_rel w h s' (scr_back t)"
proof (cases "col t = 0")
  case True
  then have "con_curx s = 0" using assms by (simp add: con_rel_def unat_eq_zero)
  then show ?thesis using assms True by (simp add: con_branch_def con_printable_def scr_back_def)
next
  case False
  let ?s = "s\<lparr>con_curx := con_curx s - 1\<rparr>" and ?rs = "(rows t)[row t := (rows t ! row t)[col t - 1 := 0x0700]]"
  have r: "unat (con_curx s) = col t" "col t < w" "row t < length (rows t)" using assms by (auto simp: con_rel_def)
  have n: "con_curx s \<noteq> 0" using False r(1) by auto
  then have u: "unat (con_curx s - 1) = col t - 1" using r(1) by (simp add: unat_minus_one)
  have "con_set (con_index ?s) 0x0700 ?s = Inr (?s\<lparr>con_data := concat ?rs\<rparr>)"
    using u r(2) by (intro con_set_ok [OF assms]) auto
  then have "con_branch 8 s = Inr (?s\<lparr>con_data := concat ?rs\<rparr>)"
    using n by (simp add: con_branch_def con_printable_def Let_def)
  moreover have "con_rel w h (?s\<lparr>con_data := concat ?rs\<rparr>) (scr_back t)"
    using assms u False by (auto simp: con_rel_def scr_back_def dest!: set_update_subset_insert [THEN subsetD])
  ultimately show ?thesis by blast
qed

text \<open>The screen after a character, and the cursor the hardware is told.\<close>

lemma putc_ok:
  assumes "con_rel w h s t"
  shows "\<exists>s'. x86_con_putc c s = Inr s' \<and> con_rel w h s' (scr_putc w h c t)"
proof -
  have cur: "con_rel w h (x86_con_cursor s1) t1 = con_rel w h s1 t1" for s1 t1
    by (simp add: con_rel_def x86_con_cursor_def Let_def)
  have br: "\<exists>s'. con_branch c s = Inr s' \<and> con_rel w h s' (scr_putc w h c t)" if k: "con_printable c \<or> c = 10 \<or> c = 8" for c
  proof -
    consider "con_printable c" | "c = 10" "\<not> con_printable c" | "c = 8" "\<not> con_printable c" using k by blast
    then show ?thesis
    proof cases
      case 1
      then show ?thesis using print_ok [OF assms 1] by (simp add: scr_putc_def)
    next
      case 2
      then show ?thesis using newline_ok [OF assms] by (simp add: scr_putc_def con_branch_def)
    next
      case 3
      then show ?thesis using back_ok [OF assms] by (simp add: scr_putc_def)
    qed
  qed
  show ?thesis
  proof (cases "con_printable c \<or> c = 10 \<or> c = 8")
    case True
    from br [OF this] obtain s' where "con_branch c s = Inr s'" "con_rel w h s' (scr_putc w h c t)" by blast
    then show ?thesis using True cur by (auto simp: x86_con_putc_def)
  next
    case False
    have p: "con_printable 63" by (simp add: con_printable_def)
    then obtain s' where "con_branch 63 s = Inr s'" "con_rel w h s' (scr_putc w h 63 t)" using br [of 63] by blast
    then show ?thesis using False cur p by (auto simp: x86_con_putc_def scr_putc_def)
  qed
qed

lemma foldR_putc_ok:
  "con_rel w h s t \<Longrightarrow> \<exists>s'. foldR x86_con_putc cs s = Inr s' \<and> con_rel w h s' (fold (scr_putc w h) cs t)"
proof (induction cs arbitrary: s t)
  case (Cons c cs)
  from putc_ok [OF Cons.prems, of c] obtain s1 where "x86_con_putc c s = Inr s1" "con_rel w h s1 (scr_putc w h c t)" by blast
  then show ?case using Cons.IH [of s1 "scr_putc w h c t"] by simp
qed simp


section \<open>Lines of text\<close>

text \<open>A row that shows the text \<open>l\<close>, and the screen after the lines \<open>ls\<close>.\<close>

definition text_row :: "nat \<Rightarrow> bytes \<Rightarrow> u16 list" where
  "text_row w l = map cell l @ replicate (w - length l) 0x0700"

definition shown_lines :: "nat \<Rightarrow> bytes list \<Rightarrow> bytes list" where
  "shown_lines h ls = drop (length ls - (h - 2)) ls"

definition shown :: "nat \<Rightarrow> nat \<Rightarrow> bytes list \<Rightarrow> screen" where
  "shown w h ls = (let k = min (length ls) (h - 2) in
     \<lparr>rows = map (text_row w) (shown_lines h ls) @ replicate (h - k) (blank w), col = 0, row = k\<rparr>)"

lemma text_row_snoc:
  assumes "length l < w"
  shows "(text_row w l)[length l := cell c] = text_row w (l @ [c])"
proof -
  have "w - length l = Suc (w - Suc (length l))" using assms by simp
  then have "replicate (w - length l) 0x0700 = (0x0700 :: u16) # replicate (w - Suc (length l)) 0x0700"
    by (simp only: replicate_Suc)
  then show ?thesis by (simp add: text_row_def list_update_append)
qed

lemma print_text:
  assumes "\<forall>c \<in> set cs. con_printable c" "row t < length (rows t)"
    "rows t ! row t = text_row w l" "col t = length l" "length l + length cs < w"
  shows "fold (scr_putc w h) cs t = t\<lparr>rows := (rows t)[row t := text_row w (l @ cs)], col := length l + length cs\<rparr>"
  using assms
proof (induction cs arbitrary: t l)
  case Nil
  then show ?case by (simp flip: Nil.prems(3,4))
next
  case (Cons c cs)
  have "scr_putc w h c t = t\<lparr>rows := (rows t)[row t := text_row w (l @ [c])], col := Suc (length l)\<rparr>"
    using Cons.prems by (simp add: scr_putc_def scr_print_def text_row_snoc)
  then show ?case using Cons.IH [of "t\<lparr>rows := (rows t)[row t := text_row w (l @ [c])], col := Suc (length l)\<rparr>" "l @ [c]"] Cons.prems by simp
qed

lemma print_line:
  assumes "\<forall>c \<in> set l. con_printable c" "length l < w" "2 < h"
  shows "fold (scr_putc w h) (l @ [10]) (shown w h ls) = shown w h (ls @ [l])"
proof -
  let ?k = "min (length ls) (h - 2)" and ?m = "map (text_row w) (shown_lines h ls)"
  have lk: "length (shown_lines h ls) = ?k" by (auto simp: shown_lines_def)
  have hk: "h - ?k = Suc (h - Suc ?k)" using assms(3) by auto
  have sh: "shown w h ls = \<lparr>rows = ?m @ blank w # replicate (h - Suc ?k) (blank w), col = 0, row = ?k\<rparr>"
    by (simp only: shown_def Let_def hk replicate_Suc)
  have "fold (scr_putc w h) l (shown w h ls) =
      \<lparr>rows = ?m @ text_row w l # replicate (h - Suc ?k) (blank w), col = length l, row = ?k\<rparr>"
    using print_text [of l "shown w h ls" w "[]" h] assms lk
    by (simp add: sh nth_append text_row_def blank_def list_update_append)
  moreover have "scr_newline w h \<lparr>rows = ?m @ text_row w l # replicate (h - Suc ?k) (blank w), col = length l, row = ?k\<rparr> = shown w h (ls @ [l])"
  proof (cases "length ls < h - 2")
    case True
    then have "Suc (length ls) \<noteq> h - 1" by linarith
    then show ?thesis using True by (simp add: scr_newline_def shown_def Let_def shown_lines_def)
  next
    case False
    then have k: "?k = h - 2" by simp
    have e: "Suc (h - 2) = h - 1" "h - (h - 2) = 2" using assms(3) by linarith+
    have "shown_lines h ls = ls ! (length ls - (h - 2)) # drop (Suc (length ls - (h - 2))) ls"
      unfolding shown_lines_def using False assms(3) by (intro Cons_nth_drop_Suc [symmetric]) linarith
    moreover have "shown_lines h (ls @ [l]) = drop (Suc (length ls - (h - 2))) ls @ [l]"
      using False assms(3) by (simp add: shown_lines_def Suc_diff_le)
    moreover have "h - Suc (h - 2) = 1" using assms(3) by linarith
    ultimately show ?thesis using False e
      by (simp add: k scr_newline_def scr_scroll_def shown_def Let_def numeral_2_eq_2)
  qed
  moreover have "scr_putc w h 10 t = scr_newline w h t" for t by (simp add: scr_putc_def con_printable_def)
  ultimately show ?thesis by simp
qed

lemma print_lines:
  assumes "2 < h"
  shows "\<forall>l \<in> set ls. length l < w \<and> (\<forall>c \<in> set l. con_printable c) \<Longrightarrow>
    fold (scr_putc w h) (concat (map (\<lambda>l. l @ [10]) ls)) (shown w h []) = shown w h ls"
proof (induction ls rule: rev_induct)
  case (snoc l ls)
  then show ?case using print_line [of l w h ls] assms by simp
qed simp

lemma init_ok:
  assumes "unat (con_width s) = w" "unat (con_height s) = h" "length (con_data s) = h * w" "con_curx s = 0" "con_cury s = 0"
    "2 \<le> w" "2 < h" "h * w < 2 ^ 16"
  shows "\<exists>s'. x86_con_init s = Inr s' \<and> con_rel w h s' (shown w h [])"
proof -
  have "unat (ucast (con_width s) * ucast (con_height s) :: u32) = h * w"
    using assms(1,2,8) by (simp add: unat_word_ariths unat_ucast_up mult.commute)
  then have "x86_con_init s = Inr (s\<lparr>con_data := replicate (h * w) 0x0700\<rparr>)"
    using assms(3) by (simp add: x86_con_init_def memsetw_def fill_loop_ok)
  moreover have "concat (replicate h (blank w)) = replicate (h * w) 0x0700"
    by (induction h) (simp_all add: blank_def replicate_add)
  ultimately show ?thesis using assms by (auto simp: con_rel_def shown_def Let_def shown_lines_def blank_def)
qed

text \<open>
  C10: The console implements a screen of rows: whatever characters are printed, from a state that
  shows a screen on, every one returns, none of the writes falls outside the screen memory, and the memory
  and the cursor are those of the screen after the same characters, each of them printed, moving to a new row,
  rubbing out a cell or shown as a question mark.
\<close>

theorem console_refines_screen:
  assumes "con_rel w h s t"
  shows "\<exists>s'. foldR x86_con_putc cs s = Inr s' \<and> con_rel w h s' (fold (scr_putc w h) cs t)"
  using assms by (rule foldR_putc_ok)

theorem console_refines_screen_witness:
  "\<exists>s'. foldR x86_con_putc [65, 8, 10, 7, 66, 67, 68]
      \<lparr>con_data = concat [blank 4, blank 4, blank 4], con_width = 4, con_height = 3, con_cury = 0, con_curx = 0, crtc = []\<rparr> = Inr s' \<and>
    con_rel 4 3 s' (fold (scr_putc 4 3) [65, 8, 10, 7, 66, 67, 68] \<lparr>rows = [blank 4, blank 4, blank 4], col = 0, row = 0\<rparr>)"
  by (rule console_refines_screen) (simp add: con_rel_def blank_def)

text \<open>
  C39: After the console has been initialised, lines of printable characters, each shorter than a
  row and each followed by a newline, are on the screen one to a row and in order: the
  last \<open>height - 2\<close> of them when there are more (the older ones have scrolled away), and
  every other row is blank, with the cursor at the start of the row below the text.
\<close>

theorem console_shows_lines:
  assumes "unat (con_width s) = w" "unat (con_height s) = h" "length (con_data s) = h * w" "con_curx s = 0" "con_cury s = 0"
    "2 \<le> w" "2 < h" "h * w < 2 ^ 16"
    "\<forall>l \<in> set ls. length l < w \<and> (\<forall>c \<in> set l. con_printable c)"
  shows "\<exists>s'. bindR (x86_con_init s) (foldR x86_con_putc (concat (map (\<lambda>l. l @ [10]) ls))) = Inr s' \<and>
    con_data s' = concat (map (text_row w) (drop (length ls - (h - 2)) ls)) @ replicate ((h - min (length ls) (h - 2)) * w) 0x0700 \<and>
    con_curx s' = 0 \<and> unat (con_cury s') = min (length ls) (h - 2)"
proof -
  from init_ok [OF assms(1-8)] obtain s1 where s1: "x86_con_init s = Inr s1" "con_rel w h s1 (shown w h [])" by blast
  from foldR_putc_ok [OF s1(2)] print_lines [OF assms(7,9)] obtain s'
    where s': "foldR x86_con_putc (concat (map (\<lambda>l. l @ [10]) ls)) s1 = Inr s'" "con_rel w h s' (shown w h ls)"
    by (metis (no_types, lifting))
  have c: "concat (replicate n (blank w)) = replicate (n * w) 0x0700" for n
    by (induction n) (simp_all add: blank_def replicate_add)
  show ?thesis using s1(1) s' by (auto simp: con_rel_def shown_def shown_lines_def Let_def c unat_eq_zero)
qed

theorem console_shows_lines_witness:
  "\<exists>s'. bindR (x86_con_init \<lparr>con_data = replicate 12 7, con_width = 3, con_height = 4, con_cury = 0, con_curx = 0, crtc = []\<rparr>)
      (foldR x86_con_putc (concat (map (\<lambda>l. l @ [10]) [[65, 66], [67], [68]]))) = Inr s' \<and>
    con_data s' = concat (map (text_row 3) (drop (length [[65, 66], [67], [68 :: u8]] - (4 - 2)) [[65, 66], [67], [68]])) @
      replicate ((4 - min (length [[65, 66], [67], [68 :: u8]]) (4 - 2)) * 3) 0x0700 \<and>
    con_curx s' = 0 \<and> unat (con_cury s') = min (length [[65, 66], [67], [68 :: u8]]) (4 - 2)"
  by (rule console_shows_lines) (simp_all add: con_printable_def)

end
