(* ===== verification/UsrLib.thy ===== *)
theory UsrLib
  imports UsrFmt
begin

text \<open>
  The user library (\<open>usr/lib\<close>): system calls, printing, error texts and signals. A program talks to the
  kernel by calls and answers: the answers are a list that the state carries, the calls that have been made
  another. The model says nothing about what the kernel answers.
\<close>

named_theorems usr_simps \<open>equations of the user library that the proofs about programs unfold\<close>

section \<open>Processes\<close>

text \<open>A handler of signals: the two of the library, or a function of the program at an address.\<close>

datatype sighandler = SIG_IGN | SIG_DFL | Handler u32

text \<open>The system calls. A path is the text at the pointer; the buffers of \<open>read\<close> and \<open>readdir\<close> are filled by the answer.\<close>

datatype ucall =
    URead u32 u32
  | UWrite u32 bytes
  | UOpen "bytes option" u32 u32
  | UClose u32
  | UExit u32
  | UFork
  | UExecve "bytes option"
  | UFexecve "bytes option"
  | UGetpid
  | UNanosleep u32 u32
  | UKill u32 u32
  | UWaitpid u32 u32
  | USignal u32
  | USigreturn

text \<open>The answers to come: the value in \<open>eax\<close> and the bytes the kernel has written to the buffer of the call.\<close>

record uproc =
  replies :: "(u32 \<times> bytes) list"
  calls :: "ucall list"
  errno :: u32
  psignals :: "sighandler list"
  usignals :: "sighandler list"
  ustack :: "nat \<Rightarrow> u8"

text \<open>A run stops in a call that is not answered, in \<open>exit\<close>, or at a fault.\<close>

datatype ustop = Waiting | Exited | Fault fault

datatype 'a ures = Ret 'a uproc | Stop ustop uproc

definition bindU :: "'a ures \<Rightarrow> ('a \<Rightarrow> uproc \<Rightarrow> 'b ures) \<Rightarrow> 'b ures" where
  "bindU r f = (case r of Ret x s \<Rightarrow> f x s | Stop e s \<Rightarrow> Stop e s)"

lemma bindU_simps [simp]: "bindU (Ret x s) f = f x s" "bindU (Stop e s) f = Stop e s"
  by (simp_all add: bindU_def)

lemma bindU_cong [fundef_cong]: "r = r' \<Longrightarrow> (\<And>x s. r' = Ret x s \<Longrightarrow> f x s = g x s) \<Longrightarrow> bindU r f = bindU r' g"
  by (cases r') auto

lemma bindU_assoc: "bindU (bindU r f) g = bindU r (\<lambda>x s. bindU (f x s) g)"
  by (cases r) auto

lemma bindU_eq_Ret: "bindU r f = Ret y t \<longleftrightarrow> (\<exists>x s. r = Ret x s \<and> f x s = Ret y t)"
  by (cases r) auto

definition liftU :: "'a res \<Rightarrow> uproc \<Rightarrow> 'a ures" where
  "liftU r s = (case r of Inl e \<Rightarrow> Stop (Fault e) s | Inr x \<Rightarrow> Ret x s)"

lemma liftU_simps [simp]: "liftU (Inl e) s = Stop (Fault e) s" "liftU (Inr x) s = Ret x s"
  by (simp_all add: liftU_def)

lemma liftU_eq_Ret: "liftU r s = Ret x t \<longleftrightarrow> r = Inr x \<and> t = s"
  by (cases r) auto

fun foldU :: "('i \<Rightarrow> uproc \<Rightarrow> unit ures) \<Rightarrow> 'i list \<Rightarrow> uproc \<Rightarrow> unit ures" where
  "foldU f [] s = Ret () s"
| "foldU f (i # is) s = bindU (f i s) (\<lambda>_. foldU f is)"

lemma foldU_append: "foldU f (is @ js) s = bindU (foldU f is s) (\<lambda>_. foldU f js)"
proof (induction "is" arbitrary: s)
  case (Cons i "is")
  have "foldU f (is @ js) = (\<lambda>s. bindU (foldU f is s) (\<lambda>_. foldU f js))" by (rule ext) (rule Cons.IH)
  then show ?case by (simp add: bindU_assoc)
qed simp

text \<open>An uninitialised array on the stack.\<close>

definition local_array :: "nat \<Rightarrow> uproc \<Rightarrow> bytes" where
  "local_array n s = map (ustack s) [0..<n]"

lemma length_local_array [simp]: "length (local_array n s) = n"
  by (simp add: local_array_def)


section \<open>usr/lib/sys/ygg/syscall.c\<close>

text \<open>\<open>int $0x80\<close>\<close>

definition usys :: "ucall \<Rightarrow> uproc \<Rightarrow> (u32 \<times> bytes) ures" where
  "usys c s = (let s = s\<lparr>calls := calls s @ [c]\<rparr> in
     case replies s of [] \<Rightarrow> Stop Waiting s | r # rs \<Rightarrow> Ret r (s\<lparr>replies := rs\<rparr>))"

definition set_errno :: "u32 \<Rightarrow> uproc \<Rightarrow> u32 ures" where
  "set_errno x s = (if sint x < 0 then Ret (- 1) (s\<lparr>errno := - x\<rparr>) else Ret x (s\<lparr>errno := 0\<rparr>))"

definition ucall_int :: "ucall \<Rightarrow> uproc \<Rightarrow> u32 ures" where
  "ucall_int c s = bindU (usys c s) (\<lambda>(r, _) s. set_errno r s)"

definition c_text :: "bytes \<Rightarrow> bytes" where
  "c_text p = takeWhile (\<lambda>x. x \<noteq> 0) p"

definition fill_buf :: "bytes \<Rightarrow> bytes \<Rightarrow> bytes res" where
  "fill_buf buf d = (if length d \<le> length buf then Inr (d @ drop (length d) buf) else Inl OutOfBounds)"

definition usr_dirent_size :: u32 where "usr_dirent_size = 268"

definition uread :: "u32 \<Rightarrow> bytes \<Rightarrow> u32 \<Rightarrow> uproc \<Rightarrow> (u32 \<times> bytes) ures" where
  "uread fd buf len s =
     bindU (usys (URead fd len) s) (\<lambda>(r, d) s. bindU (liftU (fill_buf buf d) s) (\<lambda>buf s. bindU (set_errno r s) (\<lambda>r s. Ret (r, buf) s)))"

definition ureaddir :: "u32 \<Rightarrow> bytes \<Rightarrow> uproc \<Rightarrow> (u32 \<times> bytes) ures" where
  "ureaddir dir ent s =
     bindU (usys (URead dir usr_dirent_size) s) (\<lambda>(r, d) s.
     bindU (liftU (fill_buf ent d) s) (\<lambda>ent s. bindU (set_errno r s) (\<lambda>r s. Ret (r, ent) s)))"

definition uwrite :: "u32 \<Rightarrow> bytes \<Rightarrow> u32 \<Rightarrow> uproc \<Rightarrow> u32 ures" where
  "uwrite fd data len s = (if unat len \<le> length data then ucall_int (UWrite fd (take (unat len) data)) s else Stop (Fault OutOfBounds) s)"

definition uopen :: "bytes option \<Rightarrow> u32 \<Rightarrow> u32 \<Rightarrow> uproc \<Rightarrow> u32 ures" where
  "uopen path flags mode s = ucall_int (UOpen (map_option c_text path) flags mode) s"

definition O_RDONLY :: u32 where "O_RDONLY = 1"
definition O_DIRECTORY :: u32 where "O_DIRECTORY = push_bit 21 1"

definition uopendir :: "bytes option \<Rightarrow> uproc \<Rightarrow> u32 ures" where
  "uopendir path s = ucall_int (UOpen (map_option c_text path) O_DIRECTORY 0) s"

definition uclose :: "u32 \<Rightarrow> uproc \<Rightarrow> unit ures" where
  "uclose fd s = bindU (usys (UClose fd) s) (\<lambda>_ s. Ret () s)"

text \<open>\<open>exit\<close> never returns: whatever the kernel does, \<open>while (1)\<close> follows.\<close>

definition uexit :: "u32 \<Rightarrow> uproc \<Rightarrow> 'a ures" where
  "uexit r s = Stop Exited (s\<lparr>calls := calls s @ [UExit r]\<rparr>)"

definition ufork :: "uproc \<Rightarrow> u32 ures" where
  "ufork s = ucall_int UFork s"

definition ufexecve :: "bytes option \<Rightarrow> uproc \<Rightarrow> u32 ures" where
  "ufexecve path s = ucall_int (UFexecve (map_option c_text path)) s"

definition uexecve :: "bytes option \<Rightarrow> uproc \<Rightarrow> u32 ures" where
  "uexecve path s = ucall_int (UExecve (map_option c_text path)) s"

definition ugetpid :: "uproc \<Rightarrow> u32 ures" where
  "ugetpid s = bindU (usys UGetpid s) (\<lambda>(r, _) s. Ret r s)"

definition unanosleep :: "u32 \<Rightarrow> u32 \<Rightarrow> uproc \<Rightarrow> u32 ures" where
  "unanosleep sec nsec s = ucall_int (UNanosleep sec nsec) s"

definition ukill :: "u32 \<Rightarrow> u32 \<Rightarrow> uproc \<Rightarrow> u32 ures" where
  "ukill pid sig s = ucall_int (UKill pid sig) s"

definition uwaitpid :: "u32 \<Rightarrow> u32 \<Rightarrow> uproc \<Rightarrow> u32 ures" where
  "uwaitpid pid options s = ucall_int (UWaitpid pid options) s"


section \<open>usr/lib/posix: unistd.c, printf.c, errno.c\<close>

definition STDOUT_FILENO :: u32 where "STDOUT_FILENO = 0"
definition STDIN_FILENO :: u32 where "STDIN_FILENO = 1"

definition usleep :: "u32 \<Rightarrow> uproc \<Rightarrow> u32 ures" where
  "usleep sec s = unanosleep sec 0 s"

definition uputc :: "u8 \<Rightarrow> uproc \<Rightarrow> unit ures" where
  "uputc c s = bindU (uwrite STDOUT_FILENO [c] 1 s) (\<lambda>_ s. Ret () s)"

definition uputs :: "bytes \<Rightarrow> uproc \<Rightarrow> unit ures" where
  "uputs p s = bindU (liftU (usr_strlen p) s) (\<lambda>l s. bindU (uwrite STDOUT_FILENO p l s) (\<lambda>_ s. uputc 10 s))"

definition snprintf :: "bytes \<Rightarrow> u32 \<Rightarrow> bytes \<Rightarrow> va_list \<Rightarrow> uproc \<Rightarrow> (bytes \<times> u32) ures" where
  "snprintf buf len fmt args s = liftU (vsnprintf (local_array 64 s) buf len fmt args) s"

definition dprintf :: "u32 \<Rightarrow> bytes \<Rightarrow> va_list \<Rightarrow> uproc \<Rightarrow> u32 ures" where
  "dprintf fd fmt args s =
     bindU (liftU (vsnprintf (local_array 64 s) (local_array 512 s) 512 fmt args) s) (\<lambda>(buf, r) s. uwrite fd buf r s)"

definition printf :: "bytes \<Rightarrow> va_list \<Rightarrow> uproc \<Rightarrow> u32 ures" where
  "printf fmt args s =
     bindU (liftU (vsnprintf (local_array 64 s) (local_array 512 s) 512 fmt args) s) (\<lambda>(buf, r) s. uwrite STDOUT_FILENO buf r s)"

definition E_PERM :: u32 where "E_PERM = 1"
definition E_NOENT :: u32 where "E_NOENT = 2"

definition strerror :: "u32 \<Rightarrow> bytes" where
  "strerror e =
     (if e = 0 then lit ''no error'' else if e = E_PERM then lit ''operation not permitted''
      else if e = E_NOENT then lit ''no such file or directory'' else lit ''unknown error'')"

definition perror :: "bytes \<Rightarrow> uproc \<Rightarrow> unit ures" where
  "perror v s = bindU (printf (lit ''%s: %s\<newline>'') [VAStr (Some v), VAStr (Some (strerror (errno s)))] s) (\<lambda>_ s. Ret () s)"


section \<open>usr/lib/posix: signal.c, abort.c\<close>

definition SIGABRT :: u32 where "SIGABRT = 6"
definition SIGKILL :: u32 where "SIGKILL = 9"
definition SIGSEGV :: u32 where "SIGSEGV = 11"
definition SIGUSR1 :: u32 where "SIGUSR1 = 16"
definition SIGUSR2 :: u32 where "SIGUSR2 = 17"

lemmas sig_defs = SIGABRT_def SIGKILL_def SIGSEGV_def SIGUSR1_def SIGUSR2_def

definition sig_ign :: "u32 \<Rightarrow> uproc \<Rightarrow> unit ures" where
  "sig_ign signum s = bindU (printf (lit ''Ignored a signal\<newline>'') [] s) (\<lambda>_ s. Ret () s)"

definition sig_dfl :: "u32 \<Rightarrow> uproc \<Rightarrow> unit ures" where
  "sig_dfl signum s =
     bindU (ugetpid s) (\<lambda>pid s.
     bindU (if signum = SIGKILL then printf (lit ''%d: killed\<newline>'') [VA32 pid] s
            else if signum = SIGABRT then printf (lit ''%d: abort() was called\<newline>'') [VA32 pid] s
            else if signum = SIGSEGV then printf (lit ''%d: segmentation fault\<newline>'') [VA32 pid] s
            else if signum = SIGUSR1 \<or> signum = SIGUSR2 then
              printf (lit ''%d: user signal %d\<newline>'') [VA32 pid, VA32 (signum - SIGUSR1 + 1)] s
            else printf (lit ''%d: unhandled signal: %d\<newline>'') [VA32 pid, VA32 signum] s) (\<lambda>_ s. uexit 1 s))"

text \<open>The call of a handler; \<open>user\<close> are the functions of the program.\<close>

definition run_handler :: "(u32 \<Rightarrow> u32 \<Rightarrow> uproc \<Rightarrow> unit ures) \<Rightarrow> sighandler \<Rightarrow> u32 \<Rightarrow> uproc \<Rightarrow> unit ures" where
  "run_handler user h signum s =
     (case h of SIG_IGN \<Rightarrow> sig_ign signum s | SIG_DFL \<Rightarrow> sig_dfl signum s | Handler a \<Rightarrow> user a signum s)"

definition libc_signal_handle :: "(u32 \<Rightarrow> u32 \<Rightarrow> uproc \<Rightarrow> unit ures) \<Rightarrow> u32 \<Rightarrow> uproc \<Rightarrow> unit ures" where
  "libc_signal_handle user signum s =
     bindU (if signum = SIGUSR1 \<or> signum = SIGUSR2 then
              bindU (liftU (rd (usignals s) (unat (signum - SIGUSR1))) s) (\<lambda>h s. run_handler user h signum s)
            else if signum \<ge> 16 then sig_dfl signum s
            else bindU (liftU (rd (psignals s) (unat signum)) s) (\<lambda>h s. run_handler user h signum s)) (\<lambda>_ s.
     bindU (usys USigreturn s) (\<lambda>_ s. Ret () s))"

text \<open>\<open>entry\<close> is the address of \<open>__libc_signal_handle\<close>.\<close>

definition libc_signal_init :: "u32 \<Rightarrow> uproc \<Rightarrow> unit ures" where
  "libc_signal_init entry s =
     bindU (usys (USignal entry) (s\<lparr>psignals := replicate 16 SIG_DFL, usignals := [SIG_DFL, SIG_DFL]\<rparr>)) (\<lambda>_ s. Ret () s)"

definition signal :: "u32 \<Rightarrow> sighandler \<Rightarrow> uproc \<Rightarrow> sighandler ures" where
  "signal signum newh s =
     (if signum = SIGUSR1 \<or> signum = SIGUSR2 then
        bindU (liftU (rd (usignals s) (unat (signum - SIGUSR1))) s) (\<lambda>old s.
        bindU (liftU (wr (usignals s) (unat (signum - SIGUSR1)) newh) s) (\<lambda>u s. Ret old (s\<lparr>usignals := u\<rparr>)))
      else if signum \<ge> 16 then Ret SIG_DFL s
      else
        bindU (liftU (rd (psignals s) (unat signum)) s) (\<lambda>old s.
        bindU (liftU (wr (psignals s) (unat signum) newh) s) (\<lambda>p s. Ret old (s\<lparr>psignals := p\<rparr>))))"

definition raise :: "u32 \<Rightarrow> uproc \<Rightarrow> unit ures" where
  "raise sig s = bindU (ugetpid s) (\<lambda>pid s. bindU (ukill pid sig s) (\<lambda>_ s. Ret () s))"

definition uabort :: "uproc \<Rightarrow> unit ures" where
  "uabort s = raise SIGABRT s"

text \<open>\<open>assert\<close> of the user library: the program goes on when \<open>abort\<close> returns.\<close>

definition uassert :: "bool \<Rightarrow> bytes \<Rightarrow> uproc \<Rightarrow> unit ures" where
  "uassert c msg s = (if c then Ret () s else bindU (uputs msg s) (\<lambda>_ s. uabort s))"


section \<open>What a call does\<close>

text \<open>
  \<open>does s n cs s'\<close>: from \<open>s\<close> to \<open>s'\<close> the calls \<open>cs\<close> have been made and \<open>n\<close> answers used up; the signal
  handlers and the memory are the same.
\<close>

definition does :: "uproc \<Rightarrow> nat \<Rightarrow> ucall list \<Rightarrow> uproc \<Rightarrow> bool" where
  "does s n cs s' \<longleftrightarrow> n \<le> length (replies s) \<and> replies s' = drop n (replies s) \<and> calls s' = calls s @ cs \<and>
     psignals s' = psignals s \<and> usignals s' = usignals s \<and> ustack s' = ustack s"

lemma does_refl: "does s 0 [] s"
  by (simp add: does_def)

lemma does_trans: "does s n cs t \<Longrightarrow> does t m ds u \<Longrightarrow> does s (n + m) (cs @ ds) u"
  by (auto simp: does_def add.commute)

lemma set_errno_Ret: "\<exists>r' s'. set_errno r s = Ret r' s' \<and> does s 0 [] s'"
  by (simp add: set_errno_def does_def)

lemma ucall_int_Ret: "replies s \<noteq> [] \<Longrightarrow> \<exists>r s'. ucall_int c s = Ret r s' \<and> does s 1 [c] s'"
  by (cases "replies s") (auto simp: ucall_int_def usys_def set_errno_def does_def)

lemma uwrite_Ret:
  "replies s \<noteq> [] \<Longrightarrow> unat len \<le> length d \<Longrightarrow> \<exists>r s'. uwrite fd d len s = Ret r s' \<and> does s 1 [UWrite fd (take (unat len) d)] s'"
  using ucall_int_Ret by (simp add: uwrite_def)

lemma uputc_Ret: "replies s \<noteq> [] \<Longrightarrow> \<exists>s'. uputc c s = Ret () s' \<and> does s 1 [UWrite 0 [c]] s'"
  using uwrite_Ret [of s 1 "[c]" 0] by (auto simp: uputc_def STDOUT_FILENO_def)

text \<open>A text that fits into the buffer of \<open>printf\<close> is written in one call.\<close>

lemma printf_Ret:
  assumes "list_all vspec_ok xs" "fmt_text xs as = Some t" "length t < 512" "\<forall>a \<in> set as. \<forall>p. a = VAStr (Some p) \<longrightarrow> length p < 2 ^ 31"
    "replies s \<noteq> []" "fmt = concat (map vspec_str xs) @ [0]"
  shows "\<exists>r s'. printf fmt as s = Ret r s' \<and> does s 1 [UWrite 0 t] s'"
proof -
  have v: "vsnprintf (local_array 64 s) (local_array 512 s) 512 fmt as = Inr (t @ 0 # drop (Suc (length t)) (local_array 512 s), of_nat (length t))"
    unfolding assms(6) using assms(3) by (intro vsnprintf_ok [OF _ _ _ assms(1,2) _ assms(4)]) simp_all
  have "unat (of_nat (length t) :: u32) = length t" using assms(3) by (intro unat_of_nat_small) simp
  then show ?thesis
    using uwrite_Ret [OF assms(5), of "of_nat (length t)" "t @ 0 # drop (Suc (length t)) (local_array 512 s)" 0]
    by (simp add: printf_def v STDOUT_FILENO_def)
qed

text \<open>Loops that make a call in every pass end: the answers are used up.\<close>

definition shrinks :: "nat \<Rightarrow> 'a ures \<Rightarrow> bool" where
  "shrinks n r \<longleftrightarrow> (\<forall>x s. r = Ret x s \<longrightarrow> length (replies s) \<le> n)"

lemma shrinks_bind: "shrinks n r \<Longrightarrow> (\<And>x s. length (replies s) \<le> n \<Longrightarrow> shrinks n (f x s)) \<Longrightarrow> shrinks n (bindU r f)"
  by (cases r) (auto simp: shrinks_def)

lemma shrinks_mono: "shrinks n r \<Longrightarrow> n \<le> m \<Longrightarrow> shrinks m r"
  by (auto simp: shrinks_def)

lemma shrinks_Ret: "length (replies s) \<le> n \<Longrightarrow> shrinks n (Ret x s)"
  by (simp add: shrinks_def)

lemma shrinks_Stop: "shrinks n (Stop e s)"
  by (simp add: shrinks_def)

lemma shrinks_lift: "length (replies s) \<le> n \<Longrightarrow> shrinks n (liftU r s)"
  by (cases r) (simp_all add: shrinks_def)

lemma shrinks_usys: "length (replies s) \<le> Suc n \<Longrightarrow> shrinks n (usys c s)"
  by (auto simp: usys_def shrinks_def Let_def split: list.splits)

lemma shrinks_set_errno: "length (replies s) \<le> n \<Longrightarrow> shrinks n (set_errno r s)"
  by (simp add: set_errno_def shrinks_def)

lemma shrinks_uread: "length (replies s) \<le> Suc n \<Longrightarrow> shrinks n (uread fd buf len s)"
  unfolding uread_def
  by (auto intro!: shrinks_bind shrinks_usys shrinks_lift shrinks_set_errno shrinks_Ret split: prod.splits)

lemma shrinks_ureaddir: "length (replies s) \<le> Suc n \<Longrightarrow> shrinks n (ureaddir d ent s)"
  unfolding ureaddir_def
  by (auto intro!: shrinks_bind shrinks_usys shrinks_lift shrinks_set_errno shrinks_Ret split: prod.splits)

lemma shrinks_ucall_int: "length (replies s) \<le> Suc n \<Longrightarrow> shrinks n (ucall_int c s)"
  unfolding ucall_int_def by (auto intro!: shrinks_bind shrinks_usys shrinks_set_errno split: prod.splits)

lemma shrinks_uwrite: "length (replies s) \<le> Suc n \<Longrightarrow> shrinks n (uwrite fd d l s)"
  by (simp add: uwrite_def shrinks_ucall_int shrinks_Stop)

lemma shrinks_uputc: "length (replies s) \<le> Suc n \<Longrightarrow> shrinks n (uputc c s)"
  unfolding uputc_def by (auto intro!: shrinks_bind shrinks_uwrite shrinks_Ret)

lemma shrinks_printf: "length (replies s) \<le> Suc n \<Longrightarrow> shrinks n (printf fmt as s)"
  by (auto simp: printf_def liftU_def intro!: shrinks_uwrite shrinks_Stop split: sum.splits)

lemma shrinksD: "shrinks n r \<Longrightarrow> r = Ret x s \<Longrightarrow> length (replies s) \<le> n"
  by (simp add: shrinks_def)

lemmas uwrite_le = shrinksD [OF shrinks_uwrite [OF le_SucI [OF order_refl]]]
  and printf_le = shrinksD [OF shrinks_printf [OF le_SucI [OF order_refl]]]
  and uputc_le = shrinksD [OF shrinks_uputc [OF le_SucI [OF order_refl]]]

lemma usys_answered: "usys c s = Ret x s' \<Longrightarrow> replies s \<noteq> []"
  by (auto simp: usys_def Let_def)

lemma uread_answered: "uread fd buf l s = Ret x s' \<Longrightarrow> replies s \<noteq> []"
  by (auto simp: uread_def bindU_eq_Ret dest: usys_answered)

lemma ureaddir_answered: "ureaddir d ent s = Ret x s' \<Longrightarrow> replies s \<noteq> []"
  by (auto simp: ureaddir_def bindU_eq_Ret dest: usys_answered)

text \<open>A call that is answered leaves fewer answers.\<close>

lemma uread_less: "uread fd buf l s = Ret x s' \<Longrightarrow> length (replies s') < length (replies s)"
  using shrinks_uread [of s "length (replies s) - 1" fd buf l] uread_answered [of fd buf l s x s']
  by (cases "replies s") (auto simp: shrinks_def)

lemma ureaddir_less: "ureaddir d ent s = Ret x s' \<Longrightarrow> length (replies s') < length (replies s)"
  using shrinks_ureaddir [of s "length (replies s) - 1" d ent] ureaddir_answered [of d ent s x s']
  by (cases "replies s") (auto simp: shrinks_def)

lemmas shrinks_intros = shrinks_bind shrinks_Ret shrinks_Stop shrinks_lift


section \<open>Signals\<close>

text \<open>The handler that runs for a signal.\<close>

definition sig_handler :: "u32 \<Rightarrow> uproc \<Rightarrow> sighandler" where
  "sig_handler n s = (if n = SIGUSR1 \<or> n = SIGUSR2 then usignals s ! unat (n - SIGUSR1) else if n \<ge> 16 then SIG_DFL else psignals s ! unat n)"

definition sig_tables :: "uproc \<Rightarrow> bool" where
  "sig_tables s \<longleftrightarrow> length (psignals s) = 16 \<and> length (usignals s) = 2"

definition sig_settable :: "u32 \<Rightarrow> bool" where
  "sig_settable n \<longleftrightarrow> n < 16 \<or> n = SIGUSR1 \<or> n = SIGUSR2"

lemma libc_signal_init_ok:
  assumes "replies s \<noteq> []"
  shows "\<exists>s'. libc_signal_init e s = Ret () s' \<and> sig_tables s' \<and> (\<forall>n. sig_handler n s' = SIG_DFL)"
proof -
  have "sig_handler n t = SIG_DFL" if "psignals t = replicate 16 SIG_DFL" "usignals t = [SIG_DFL, SIG_DFL]" for n t
    using that by (auto simp: sig_handler_def sig_defs word_le_nat_alt not_le)
  then show ?thesis using assms by (cases "replies s") (auto simp: libc_signal_init_def usys_def sig_tables_def)
qed

lemma small_signal: "\<not> (16 :: u32) \<le> n \<Longrightarrow> unat n < 16"
  by (simp add: word_le_nat_alt)

lemma libc_signal_handle_ok:
  assumes "sig_tables s"
  shows "libc_signal_handle user m s = bindU (run_handler user (sig_handler m s) m s) (\<lambda>_ s. bindU (usys USigreturn s) (\<lambda>_ s. Ret () s))"
proof -
  consider "m = 16" | "m = 17" | "m \<noteq> 16" "m \<noteq> 17" "16 \<le> m" | "\<not> 16 \<le> m" by blast
  then show ?thesis
  proof cases
    case 4
    then have "m \<noteq> 16" "m \<noteq> 17" "unat m < 16" by (auto simp: word_le_nat_alt)
    then show ?thesis using assms 4 by (simp add: libc_signal_handle_def sig_handler_def sig_tables_def sig_defs rd_def)
  qed (use assms in \<open>simp_all add: libc_signal_handle_def sig_handler_def sig_tables_def sig_defs rd_def run_handler_def\<close>)
qed

lemma signal_ok:
  assumes "sig_tables s"
  shows "\<exists>s'. signal n h s = Ret (sig_handler n s) s' \<and> sig_tables s' \<and> calls s' = calls s \<and> replies s' = replies s \<and>
      (\<forall>m. sig_handler m s' = (if m = n \<and> sig_settable n then h else sig_handler m s))"
proof -
  have t: "length (psignals s) = 16" "length (usignals s) = 2" using assms by (simp_all add: sig_tables_def)
  consider "n = 16 \<or> n = 17" | "n \<noteq> 16" "n \<noteq> 17" "16 \<le> n" | "\<not> 16 \<le> n" by blast
  then show ?thesis
  proof cases
    case 1
    then have "unat (n - 16) < 2" by auto
    then have "signal n h s = Ret (sig_handler n s) (s\<lparr>usignals := (usignals s)[unat (n - 16) := h]\<rparr>)"
      using 1 t by (auto simp: signal_def sig_handler_def sig_defs rd_def wr_def)
    then show ?thesis using 1 t by (auto simp: sig_handler_def sig_tables_def sig_settable_def sig_defs)
  next
    case 2
    then have "signal n h s = Ret (sig_handler n s) s" by (simp add: signal_def sig_handler_def sig_defs)
    then show ?thesis using 2 assms by (auto simp: sig_settable_def sig_defs)
  next
    case 3
    then have n: "n \<noteq> 16" "n \<noteq> 17" "unat n < 16" by (auto simp: word_le_nat_alt)
    then have "signal n h s = Ret (sig_handler n s) (s\<lparr>psignals := (psignals s)[unat n := h]\<rparr>)"
      using 3 t by (simp add: signal_def sig_handler_def sig_defs rd_def wr_def)
    moreover have "(psignals s)[unat n := h] ! unat m = (if m = n then h else psignals s ! unat m)" if "\<not> 16 \<le> m" for m
      using t small_signal [OF that] n(3) by (cases "m = n") (simp_all add: word_unat_eq_iff)
    ultimately show ?thesis using 3 n t by (auto simp: sig_handler_def sig_tables_def sig_settable_def sig_defs not_le)
  qed
qed

text \<open>
  C40: the handlers of signals. \<open>signal\<close> returns the handler that a signal has, and when it is one that can be set the
  new handler is the one that runs on its delivery, with every other signal's handler kept; otherwise nothing changes.
  A delivery runs the handler of the table and then returns to the kernel; numbers outside the tables,
  negative ones too, run the default handler, so no delivery reads outside them.
\<close>

theorem signal_delivered:
  assumes "sig_tables s"
  shows "\<exists>s'. signal n h s = Ret (sig_handler n s) s' \<and> sig_tables s' \<and> calls s' = calls s \<and> replies s' = replies s \<and>
      (\<forall>m. sig_handler m s' = (if m = n \<and> sig_settable n then h else sig_handler m s)) \<and>
      (\<forall>m. libc_signal_handle user m s' =
        bindU (run_handler user (sig_handler m s') m s') (\<lambda>_ s. bindU (usys USigreturn s) (\<lambda>_ s. Ret () s)))"
  using signal_ok [OF assms, of n h] libc_signal_handle_ok by blast

theorem signal_delivered_witness:
  "\<exists>s'. signal 17 SIG_IGN \<lparr>replies = [], calls = [], errno = 0, psignals = replicate 16 SIG_DFL, usignals = [SIG_DFL, Handler 5], ustack = (\<lambda>_. 0)\<rparr> =
      Ret (Handler 5) s' \<and> sig_handler 17 s' = SIG_IGN"
proof -
  let ?s = "\<lparr>replies = [], calls = [], errno = 0, psignals = replicate 16 SIG_DFL, usignals = [SIG_DFL, Handler 5], ustack = (\<lambda>_. 0)\<rparr>"
  have "sig_tables ?s" "sig_handler 17 ?s = Handler 5" "sig_settable 17"
    by (simp_all add: sig_tables_def sig_handler_def sig_settable_def sig_defs)
  then show ?thesis using signal_delivered [of ?s 17 SIG_IGN "\<lambda>_ _. Ret ()"] by auto
qed

end
