(* ===== verification/Shell.thy ===== *)
theory Shell
  imports UsrLib Console
begin

text \<open>
  The programs \<open>usr/bin\<close>: the shell (\<open>init.c\<close>) with its built-in commands, \<open>ls\<close> and \<open>hello\<close>. The lemmas
  show that the line editor yields the edited line, that the terminal shows it, and which command it runs.
\<close>

section \<open>Built-in commands\<close>

datatype builtin = B_echo | B_ls | B_cat | B_hex | B_pid | B_exit

definition builtins :: "(bytes \<times> builtin) list" where
  "builtins = [(lit ''echo'', B_echo), (lit ''ls'', B_ls), (lit ''cat'', B_cat), (lit ''hex'', B_hex), (lit ''pid'', B_pid), (lit ''exit'', B_exit)]"

definition b_echo :: "bytes option \<Rightarrow> uproc \<Rightarrow> u32 ures" where
  "b_echo arg s = bindU (printf (lit ''%s\<newline>'') [VAStr arg] s) (\<lambda>_ s. Ret 0 s)"

text \<open>\<open>d_name\<close> and \<open>d_type\<close> of a directory entry.\<close>

definition ent_name :: "bytes \<Rightarrow> bytes" where "ent_name ent = drop 11 ent"

function ls_loop :: "u32 \<Rightarrow> bytes \<Rightarrow> uproc \<Rightarrow> unit ures" where
  "ls_loop d ent s =
     bindU (ureaddir d ent s) (\<lambda>x s.
       if fst x = 0 then bindU (printf (lit ''%s\<newline>'') [VAStr (Some (ent_name (snd x)))] s) (\<lambda>_. ls_loop d (snd x)) else Ret () s)"
  by pat_completeness auto
termination
proof (relation "measure (\<lambda>(_, _, s). length (replies s))", simp, clarsimp)
  fix d ent e u :: _ and s s1 s2
  assume a: "ureaddir d ent s = Ret (0, e) s1" "printf (lit ''%s\<newline>'') [VAStr (Some (ent_name e))] s1 = Ret u s2"
  show "length (replies s2) < length (replies s)"
    using ureaddir_less [OF a(1)] printf_le [OF a(2)] by linarith
qed

declare ls_loop.simps [simp del]

definition b_ls :: "bytes option \<Rightarrow> uproc \<Rightarrow> u32 ures" where
  "b_ls arg s =
     bindU (uopendir (case arg of Some p \<Rightarrow> Some p | None \<Rightarrow> Some (lit ''/'')) s) (\<lambda>d s.
     if d = - 1 then bindU (perror (lit ''opendir()'') s) (\<lambda>_ s. Ret (- 1) s)
     else bindU (ls_loop d (local_array 268 s) s) (\<lambda>_ s. bindU (uclose d s) (\<lambda>_ s. Ret 0 s)))"

function cat_loop :: "u32 \<Rightarrow> bytes \<Rightarrow> uproc \<Rightarrow> unit ures" where
  "cat_loop f buf s =
     bindU (uread f buf 256 s) (\<lambda>x s.
       if sint (fst x) > 0 then bindU (uwrite STDOUT_FILENO (snd x) (fst x) s) (\<lambda>_. cat_loop f (snd x)) else Ret () s)"
  by pat_completeness auto
termination
proof (relation "measure (\<lambda>(_, _, s). length (replies s))", simp, clarsimp)
  fix f buf r b u :: _ and s s1 s2
  assume a: "uread f buf 256 s = Ret (r, b) s1" "uwrite STDOUT_FILENO b r s1 = Ret u s2"
  show "length (replies s2) < length (replies s)"
    using uread_less [OF a(1)] uwrite_le [OF a(2)] by linarith
qed

declare cat_loop.simps [simp del]

definition b_cat :: "bytes option \<Rightarrow> uproc \<Rightarrow> u32 ures" where
  "b_cat arg s =
     bindU (uopen arg 0 O_RDONLY s) (\<lambda>f s.
     if f = - 1 then bindU (perror (lit ''open()'') s) (\<lambda>_ s. Ret (- 1) s)
     else bindU (cat_loop f (local_array 256 s) s) (\<lambda>_ s. bindU (uclose f s) (\<lambda>_ s. Ret 0 s)))"

text \<open>One line of the hexadecimal dump, and the lines of one piece of the file.\<close>

definition hex_byte :: "bytes \<Rightarrow> int \<Rightarrow> int \<Rightarrow> uproc \<Rightarrow> unit ures" where
  "hex_byte buf r k s =
     bindU (if k < r then bindU (liftU (rd buf (nat k)) s) (\<lambda>c s. printf (lit ''%02x '') [VA32 (ucast c AND 0xFF)] s)
            else printf (lit ''   '') [] s) (\<lambda>_ s. Ret () s)"

definition hex_char :: "bytes \<Rightarrow> int \<Rightarrow> uproc \<Rightarrow> unit ures" where
  "hex_char buf k s =
     bindU (liftU (rd buf (nat k)) s) (\<lambda>c s.
     bindU (printf (lit ''%c'') [VA32 (scast (if sint c \<ge> 32 then c else 46))] s) (\<lambda>_ s. Ret () s))"

definition hex_row :: "bytes \<Rightarrow> int \<Rightarrow> int \<Rightarrow> uproc \<Rightarrow> unit ures" where
  "hex_row buf r i s =
     bindU (foldU (hex_byte buf r) (map (\<lambda>j. i + int j) [0..<16]) s) (\<lambda>_ s.
     bindU (printf (lit ''| '') [] s) (\<lambda>_ s.
     bindU (foldU (hex_char buf) (filter (\<lambda>k. k < r) (map (\<lambda>j. i + int j) [0..<16])) s) (\<lambda>_ s.
     bindU (printf (lit ''\<newline>'') [] s) (\<lambda>_ s. Ret () s))))"

definition hex_rows :: "bytes \<Rightarrow> int \<Rightarrow> uproc \<Rightarrow> unit ures" where
  "hex_rows buf r = foldU (hex_row buf r) (map (\<lambda>n. 16 * int n) [0..<nat ((r + 15) div 16)])"

lemma shrinks_foldU:
  assumes "\<And>i s. i \<in> set is \<Longrightarrow> shrinks (length (replies s)) (f i s)"
  shows "shrinks (length (replies s)) (foldU f is s)"
  using assms
proof (induction "is" arbitrary: s)
  case (Cons i "is")
  show ?case
    unfolding foldU.simps
  proof (rule shrinks_bind)
    show "shrinks (length (replies s)) (f i s)" using Cons.prems by simp
    fix x and t :: uproc assume "length (replies t) \<le> length (replies s)"
    then show "shrinks (length (replies s)) (foldU f is t)" using Cons.IH [of t] Cons.prems shrinks_mono by fastforce
  qed
qed (simp add: shrinks_Ret)

lemma shrinks_hex_rows: "shrinks (length (replies s)) (hex_rows buf r s)"
proof -
  have b: "shrinks (length (replies s)) (hex_byte buf r k s)" for k s
    by (auto simp: hex_byte_def intro!: shrinks_intros shrinks_printf)
  have c: "shrinks (length (replies s)) (hex_char buf k s)" for k s
    by (auto simp: hex_char_def intro!: shrinks_intros shrinks_printf)
  have "shrinks (length (replies s)) (hex_row buf r i s)" for i s
    unfolding hex_row_def
    by (intro shrinks_intros shrinks_printf; (rule shrinks_mono [OF shrinks_foldU] | simp)?; (rule b c | simp)?)
  then show ?thesis unfolding hex_rows_def by (rule shrinks_foldU)
qed

function hex_loop :: "u32 \<Rightarrow> bytes \<Rightarrow> uproc \<Rightarrow> unit ures" where
  "hex_loop f buf s =
     bindU (uread f buf 256 s) (\<lambda>x s.
       if sint (fst x) > 0 then bindU (hex_rows (snd x) (sint (fst x)) s) (\<lambda>_. hex_loop f (snd x)) else Ret () s)"
  by pat_completeness auto
termination
proof (relation "measure (\<lambda>(_, _, s). length (replies s))", simp, clarsimp)
  fix f buf r b u :: _ and s s1 s2
  assume a: "uread f buf 256 s = Ret (r, b) s1" "hex_rows b (sint r) s1 = Ret () s2"
  show "length (replies s2) < length (replies s)"
    using uread_less [OF a(1)] shrinksD [OF shrinks_hex_rows a(2)] by linarith
qed

declare hex_loop.simps [simp del]

definition b_hex :: "bytes option \<Rightarrow> uproc \<Rightarrow> u32 ures" where
  "b_hex arg s =
     bindU (uopen arg 0 O_RDONLY s) (\<lambda>f s.
     if f = - 1 then bindU (perror (lit ''open()'') s) (\<lambda>_ s. Ret (- 1) s)
     else bindU (hex_loop f (local_array 256 s) s) (\<lambda>_ s. bindU (uclose f s) (\<lambda>_ s. Ret 0 s)))"

definition b_pid :: "bytes option \<Rightarrow> uproc \<Rightarrow> u32 ures" where
  "b_pid arg s = bindU (ugetpid s) (\<lambda>pid s. bindU (printf (lit ''My PID is %d\<newline>'') [VA32 pid] s) (\<lambda>_ s. Ret 0 s))"

definition b_exit :: "bytes option \<Rightarrow> uproc \<Rightarrow> u32 ures" where
  "b_exit arg s = uexit 0 s"

fun run_builtin :: "builtin \<Rightarrow> bytes option \<Rightarrow> uproc \<Rightarrow> u32 ures" where
  "run_builtin B_echo = b_echo"
| "run_builtin B_ls = b_ls"
| "run_builtin B_cat = b_cat"
| "run_builtin B_hex = b_hex"
| "run_builtin B_pid = b_pid"
| "run_builtin B_exit = b_exit"


section \<open>The line editor and the commands\<close>

text \<open>The loop of \<open>readline\<close>; \<open>c\<close> is the character variable as an array of one byte.\<close>

function readline_loop :: "bytes \<Rightarrow> u32 \<Rightarrow> u32 \<Rightarrow> bytes \<Rightarrow> uproc \<Rightarrow> (bytes \<times> u32) ures" where
  "readline_loop buf len p c s =
     (if p < len - 1 then
        bindU (uread STDIN_FILENO c 1 s) (\<lambda>x s.
        let c = snd x in
        if fst x = 1 then
          (if sint (hd c) \<ge> 32 then
             bindU (liftU (wr buf (unat p) (hd c)) s) (\<lambda>buf s. bindU (uputc (hd c) s) (\<lambda>_. readline_loop buf len (p + 1) c))
           else if hd c = 8 then
             (if nz p then bindU (liftU (wr buf (unat p) 0) s) (\<lambda>buf s. bindU (uputc 8 s) (\<lambda>_. readline_loop buf len (p - 1) c))
              else readline_loop buf len p c s)
           else if hd c = 10 then bindU (uputc 10 s) (\<lambda>_ s. Ret (buf, p) s)
           else readline_loop buf len p c s)
        else Ret (buf, p) s)
      else Ret (buf, p) s)"
  by pat_completeness auto
termination
  by (relation "measure (\<lambda>(_, _, _, _, s). length (replies s))")
    (auto simp: liftU_eq_Ret dest!: uread_less uputc_le)

declare readline_loop.simps [simp del]

text \<open>The result is the buffer; the number returned is always 0.\<close>

definition readline :: "bytes \<Rightarrow> u32 \<Rightarrow> uproc \<Rightarrow> bytes ures" where
  "readline buf len s =
     bindU (readline_loop buf len 0 (local_array 1 s) s) (\<lambda>(buf, p) s. liftU (wr buf (unat p) 0) s)"

fun find_builtin :: "(bytes \<times> builtin) list \<Rightarrow> bytes \<Rightarrow> builtin option res" where
  "find_builtin [] cmd = Inr None"
| "find_builtin ((n, b) # bs) cmd = bindR (usr_strcmp n cmd) (\<lambda>r. if r = 0 then Inr (Some b) else find_builtin bs cmd)"

definition run_program :: "bytes \<Rightarrow> uproc \<Rightarrow> u32 ures" where
  "run_program cmd s =
     bindU (ufork s) (\<lambda>pid s.
     if pid = 0 then
       bindU (uexecve (Some cmd) s) (\<lambda>r s.
       bindU (if nz r then perror (lit ''execve()'') s else Ret () s) (\<lambda>_ s. uexit 1 s))
     else if pid = - 1 then bindU (perror (lit ''fork()'') s) (\<lambda>_ s. Ret (- 1) s)
     else bindU (uwaitpid pid 0 s) (\<lambda>_ s. Ret 0 s))"

definition execute :: "bytes \<Rightarrow> bytes option \<Rightarrow> uproc \<Rightarrow> u32 ures" where
  "execute cmd arg s =
     bindU (liftU (find_builtin builtins cmd) s) (\<lambda>b s. case b of Some b \<Rightarrow> run_builtin b arg s | None \<Rightarrow> run_program cmd s)"

text \<open>The command and its argument; \<open>cmd\<close> is the array of 64 bytes.\<close>

definition split_line :: "bytes \<Rightarrow> bytes \<Rightarrow> uproc \<Rightarrow> (bytes \<times> bytes option) ures" where
  "split_line input cmd s =
     bindU (liftU (strchr input 32) s) (\<lambda>arg s.
     case arg of Some rest \<Rightarrow>
       let n = length input - length rest in
       bindU (uassert (n < 64) (lit ''Assertion failed: arg - input < 64'') s) (\<lambda>_ s.
       bindU (liftU (strncpy cmd input (of_nat n)) s) (\<lambda>cmd s.
       bindU (liftU (wr cmd n 0) s) (\<lambda>cmd s. Ret (cmd, Some (tl rest)) s)))
     | None \<Rightarrow>
       bindU (liftU (usr_strlen input) s) (\<lambda>l s.
       bindU (uassert (l < 64) (lit ''Assertion failed: strlen(input) < 64'') s) (\<lambda>_ s.
       bindU (liftU (strcpy cmd input) s) (\<lambda>cmd s. Ret (cmd, None) s))))"

text \<open>One pass of the loop of \<open>main\<close>, and the loop, which ends only with the program.\<close>

definition shell_step :: "bytes \<Rightarrow> bytes \<Rightarrow> uproc \<Rightarrow> (bytes \<times> bytes) ures" where
  "shell_step input cmd s =
     bindU (printf (lit ''# '') [] s) (\<lambda>_ s.
     bindU (readline input 256 s) (\<lambda>input s.
     bindU (split_line input cmd s) (\<lambda>(cmd, arg) s.
     bindU (execute cmd arg s) (\<lambda>_ s. Ret (input, cmd) s))))"

text \<open>None of the commands makes new answers.\<close>

named_theorems shr \<open>operations use up answers\<close>

lemma shr_basic [shr]:
  fixes s :: uproc
  shows "length (replies s) \<le> n \<Longrightarrow> shrinks n (Ret x s)" "shrinks n (Stop e s)"
    "length (replies s) \<le> n \<Longrightarrow> shrinks n (liftU r s)"
    "length (replies s) \<le> n \<Longrightarrow> shrinks n (usys c s)"
    "length (replies s) \<le> n \<Longrightarrow> shrinks n (uread fd buf len s)"
    "length (replies s) \<le> n \<Longrightarrow> shrinks n (ureaddir fd buf s)"
    "length (replies s) \<le> n \<Longrightarrow> shrinks n (ucall_int c s)"
    "length (replies s) \<le> n \<Longrightarrow> shrinks n (uwrite fd d len s)"
    "length (replies s) \<le> n \<Longrightarrow> shrinks n (uputc byte s)"
    "length (replies s) \<le> n \<Longrightarrow> shrinks n (printf fmt as s)"
  by (simp_all add: shrinks_intros shrinks_usys shrinks_uread shrinks_ureaddir shrinks_ucall_int shrinks_uwrite shrinks_uputc shrinks_printf)

lemma shr_lib [shr]:
  fixes s :: uproc
  assumes "length (replies s) \<le> n"
  shows "shrinks n (perror v s)" "shrinks n (uputs v s)" "shrinks n (uassert c v s)" "shrinks n (uexit r s)" "shrinks n (ugetpid s)"
    "shrinks n (uclose d s)"
proof -
  have g: "shrinks m (ugetpid t)" if "length (replies t) \<le> m" for m and t :: uproc
    using that unfolding ugetpid_def by (auto intro!: shrinks_bind shr)
  show "shrinks n (ugetpid s)" using assms by (rule g)
  show "shrinks n (perror v s)" using assms unfolding perror_def by (intro shrinks_bind shr) auto
  show u: "shrinks n (uputs v s)" using assms unfolding uputs_def by (intro shrinks_bind shr) auto
  show "shrinks n (uassert c v s)" using assms unfolding uassert_def uabort_def raise_def ukill_def
    by (auto intro!: shrinks_bind shr u g)
  show "shrinks n (uexit r s)" by (simp add: uexit_def shrinks_def)
  show "shrinks n (uclose d s)" using assms unfolding uclose_def by (intro shrinks_bind shr) auto
qed

lemma shr_bind: "shrinks n r \<Longrightarrow> (\<And>x s. r = Ret x s \<Longrightarrow> length (replies s) \<le> n \<Longrightarrow> shrinks n (f x s)) \<Longrightarrow> shrinks n (bindU r f)"
  by (cases r) (auto simp: shrinks_def)

lemma shr_ls_loop [shr]: "length (replies s) \<le> n \<Longrightarrow> shrinks n (ls_loop d ent s)"
proof (induction d ent s arbitrary: n rule: ls_loop.induct)
  case (1 d ent s)
  show ?case
  proof (subst ls_loop.simps, rule shr_bind)
    show "shrinks n (ureaddir d ent s)" using 1(2) by (rule shr)
    fix x and t :: uproc assume r: "ureaddir d ent s = Ret x t" "length (replies t) \<le> n"
    show "shrinks n (if fst x = 0 then bindU (printf (lit ''%s\<newline>'') [VAStr (Some (ent_name (snd x)))] t) (\<lambda>_. ls_loop d (snd x)) else Ret () t)"
      using 1(1) [OF r(1)] r(2) by (auto intro!: shr_bind shr)
  qed
qed

lemma shr_cat_loop [shr]: "length (replies s) \<le> n \<Longrightarrow> shrinks n (cat_loop f buf s)"
proof (induction f buf s arbitrary: n rule: cat_loop.induct)
  case (1 f buf s)
  show ?case
  proof (subst cat_loop.simps, rule shr_bind)
    show "shrinks n (uread f buf 256 s)" using 1(2) by (rule shr)
    fix x and t :: uproc assume r: "uread f buf 256 s = Ret x t" "length (replies t) \<le> n"
    show "shrinks n (if sint (fst x) > 0 then bindU (uwrite STDOUT_FILENO (snd x) (fst x) t) (\<lambda>_. cat_loop f (snd x)) else Ret () t)"
      using 1(1) [OF r(1)] r(2) by (auto intro!: shr_bind shr)
  qed
qed

lemma shr_hex_loop [shr]: "length (replies s) \<le> n \<Longrightarrow> shrinks n (hex_loop f buf s)"
proof (induction f buf s arbitrary: n rule: hex_loop.induct)
  case (1 f buf s)
  have h: "shrinks n (hex_rows b r t)" if "length (replies t) \<le> n" for b r and t :: uproc
    using shrinks_mono [OF shrinks_hex_rows that] .
  show ?case
  proof (subst hex_loop.simps, rule shr_bind)
    show "shrinks n (uread f buf 256 s)" using 1(2) by (rule shr)
    fix x and t :: uproc assume r: "uread f buf 256 s = Ret x t" "length (replies t) \<le> n"
    show "shrinks n (if sint (fst x) > 0 then bindU (hex_rows (snd x) (sint (fst x)) t) (\<lambda>_. hex_loop f (snd x)) else Ret () t)"
      using 1(1) [OF r(1)] r(2) by (auto intro!: shr_bind shr h)
  qed
qed

lemma shr_builtin [shr]:
  assumes "length (replies s) \<le> n"
  shows "shrinks n (run_builtin b arg s)"
  using assms
  by (cases b) (auto simp: b_echo_def b_ls_def b_cat_def b_hex_def b_pid_def b_exit_def uopendir_def uopen_def intro!: shr_bind shr)

lemma shr_readline_loop [shr]: "length (replies s) \<le> n \<Longrightarrow> shrinks n (readline_loop buf len p c s)"
proof (induction buf len p c s arbitrary: n rule: readline_loop.induct)
  case (1 buf len p c s)
  show ?case
  proof (cases "p < len - 1")
    case True
    have "shrinks n (bindU (uread STDIN_FILENO c 1 s) (\<lambda>x s.
        let c = snd x in
        if fst x = 1 then
          (if sint (hd c) \<ge> 32 then
             bindU (liftU (wr buf (unat p) (hd c)) s) (\<lambda>buf s. bindU (uputc (hd c) s) (\<lambda>_. readline_loop buf len (p + 1) c))
           else if hd c = 8 then
             (if nz p then bindU (liftU (wr buf (unat p) 0) s) (\<lambda>buf s. bindU (uputc 8 s) (\<lambda>_. readline_loop buf len (p - 1) c))
              else readline_loop buf len p c s)
           else if hd c = 10 then bindU (uputc 10 s) (\<lambda>_ s. Ret (buf, p) s)
           else readline_loop buf len p c s)
        else Ret (buf, p) s))"
    proof (rule shr_bind)
      show "shrinks n (uread STDIN_FILENO c 1 s)" using 1(5) by (rule shr)
      fix x and t :: uproc assume r: "uread STDIN_FILENO c 1 s = Ret x t" "length (replies t) \<le> n"
      note IH = 1(1-4) [OF True r(1) refl]
      show "shrinks n (let c = snd x in
        if fst x = 1 then
          (if sint (hd c) \<ge> 32 then
             bindU (liftU (wr buf (unat p) (hd c)) t) (\<lambda>buf s. bindU (uputc (hd c) s) (\<lambda>_. readline_loop buf len (p + 1) c))
           else if hd c = 8 then
             (if nz p then bindU (liftU (wr buf (unat p) 0) t) (\<lambda>buf s. bindU (uputc 8 s) (\<lambda>_. readline_loop buf len (p - 1) c))
              else readline_loop buf len p c t)
           else if hd c = 10 then bindU (uputc 10 t) (\<lambda>_ s. Ret (buf, p) s)
           else readline_loop buf len p c t)
        else Ret (buf, p) t)"
        using IH r(2) by (auto simp: Let_def intro!: shr_bind shr)
    qed
    then show ?thesis using True by (subst readline_loop.simps) simp
  qed (subst readline_loop.simps, simp add: 1(5) shr)
qed

lemma shr_split_line [shr]: "length (replies s) \<le> n \<Longrightarrow> shrinks n (split_line input cmd s)"
  unfolding split_line_def by (auto simp: Let_def intro!: shr_bind shr split: option.splits)

lemma shr_execute [shr]: "length (replies s) \<le> n \<Longrightarrow> shrinks n (execute cmd arg s)"
  unfolding execute_def run_program_def ufork_def uexecve_def uwaitpid_def by (auto intro!: shr_bind shr split: option.splits)

lemma shr_readline [shr]: "length (replies s) \<le> n \<Longrightarrow> shrinks n (readline buf len s)"
  unfolding readline_def by (auto intro!: shr_bind shr)

lemma shr_shell_step: "length (replies s) \<le> Suc n \<Longrightarrow> shrinks n (shell_step input cmd s)"
  unfolding shell_step_def by (rule shr_bind, erule shrinks_printf) (auto intro!: shr_bind shr)

lemma printf_answered: "printf fmt as s = Ret r t \<Longrightarrow> replies s \<noteq> []"
  by (auto simp: printf_def uwrite_def ucall_int_def bindU_eq_Ret liftU_eq_Ret dest: usys_answered split: if_splits)

lemma shell_step_less:
  assumes "shell_step input cmd s = Ret x t"
  shows "length (replies t) < length (replies s)"
proof -
  have "replies s \<noteq> []" using assms by (auto simp: shell_step_def bindU_eq_Ret dest: printf_answered)
  then show ?thesis using shrinksD [OF shr_shell_step [of s "length (replies s) - 1"] assms] by (cases "replies s") simp_all
qed

text \<open>The loop of \<open>main\<close> ends only with the program.\<close>

function shell_loop :: "bytes \<Rightarrow> bytes \<Rightarrow> uproc \<Rightarrow> unit ures" where
  "shell_loop input cmd s = bindU (shell_step input cmd s) (\<lambda>x. shell_loop (fst x) (snd x))"
  by pat_completeness auto
termination
  by (relation "measure (\<lambda>(_, _, s). length (replies s))") (auto dest: shell_step_less)

declare shell_loop.simps [simp del]

definition init_main :: "uproc \<Rightarrow> unit ures" where
  "init_main s = bindU (shell_loop (local_array 256 s) (local_array 64 s) s) (\<lambda>_ s. uexit 0 s)"


section \<open>usr/bin/ls.c, hello.c\<close>

definition dt_type :: "u32 \<Rightarrow> u8" where
  "dt_type t = (if t = 8 then ch CHR ''f'' else if t = 4 then ch CHR ''d'' else ch CHR ''?'')"

function ls_main_loop :: "u32 \<Rightarrow> bytes \<Rightarrow> uproc \<Rightarrow> unit ures" where
  "ls_main_loop d ent s =
     bindU (ureaddir d ent s) (\<lambda>x s.
       if fst x = 0 then
         bindU (printf (lit '' %c %s\<newline>'') [VA32 (scast (dt_type (ucast (snd x ! 10)))), VAStr (Some (ent_name (snd x)))] s)
           (\<lambda>_. ls_main_loop d (snd x))
       else Ret () s)"
  by pat_completeness auto
termination
  by (relation "measure (\<lambda>(_, _, s). length (replies s))") (auto dest!: ureaddir_less printf_le)

declare ls_main_loop.simps [simp del]

definition ls_main :: "uproc \<Rightarrow> unit ures" where
  "ls_main s =
     bindU (uopendir (Some (lit ''/'')) s) (\<lambda>d s. bindU (ls_main_loop d (local_array 268 s) s) (\<lambda>_ s. bindU (uclose d s) (\<lambda>_ s. uexit 0 s)))"

definition handle_usr1 :: "u32 \<Rightarrow> uproc \<Rightarrow> unit ures" where
  "handle_usr1 signum s =
     bindU (ugetpid s) (\<lambda>pid s. bindU (printf (map of_char ''I'' @ 39 # lit ''m USR1 handler in %d, hello\<newline>'') [VA32 pid] s) (\<lambda>_ s. Ret () s))"

text \<open>\<open>usr1\<close> is the address of \<open>handle_usr1\<close>.\<close>

definition hello_main :: "u32 \<Rightarrow> uproc \<Rightarrow> unit ures" where
  "hello_main usr1 s =
     bindU (signal SIGUSR1 (Handler usr1) s) (\<lambda>_ s.
     bindU (foldU (\<lambda>_ s.
       bindU (ugetpid s) (\<lambda>pid s.
       bindU (printf (lit ''Hello from #%d!\<newline>'') [VA32 pid] s) (\<lambda>_ s.
       bindU (usleep 3 s) (\<lambda>r s.
       bindU (if nz r then printf (lit ''Waking up from aborted sleep\<newline>'') [] s else Ret 0 s) (\<lambda>_ s. Ret () s))))) [0..<10] s) (\<lambda>_ s.
     uexit 0 s))"


section \<open>What is typed and what is read\<close>

text \<open>
  The line after the keys \<open>cs\<close>, what the terminal is sent for them, and the answers of the kernel when
  they are typed one by one: each key is read, and each echo is written.
\<close>

fun edit :: "bytes \<Rightarrow> bytes \<Rightarrow> bytes" where
  "edit l [] = l"
| "edit l (c # cs) = (if con_printable c then edit (l @ [c]) cs else if c = 8 then edit (butlast l) cs else edit l cs)"

fun echo :: "bytes \<Rightarrow> bytes \<Rightarrow> bytes" where
  "echo l [] = []"
| "echo l (c # cs) = (if con_printable c then c # echo (l @ [c]) cs
     else if c = 8 then (if l = [] then echo l cs else 8 # echo (butlast l) cs) else echo l cs)"

fun typed :: "bytes \<Rightarrow> bytes \<Rightarrow> (u32 \<times> bytes) list" where
  "typed l [] = [(1, [10]), (1, [])]"
| "typed l (c # cs) = (1, [c]) # (if con_printable c then (1, []) # typed (l @ [c]) cs
     else if c = 8 then (if l = [] then typed l cs else (1, []) # typed (butlast l) cs) else typed l cs)"

fun uout :: "ucall list \<Rightarrow> bytes" where
  "uout [] = []"
| "uout (UWrite fd d # cs) = d @ uout cs"
| "uout (_ # cs) = uout cs"

lemma uout_append [simp]: "uout (cs @ ds) = uout cs @ uout ds"
  by (induction cs rule: uout.induct) auto

lemma length_edit: "length (edit l cs) \<le> length l + length cs"
  by (induction l cs rule: edit.induct) auto

lemma list_all_butlast: "list_all P l \<Longrightarrow> list_all P (butlast l)"
  unfolding list_all_iff using in_set_butlastD [of _ l] by blast

lemma edit_printable: "list_all con_printable l \<Longrightarrow> list_all con_printable (edit l cs)"
  by (induction l cs rule: edit.induct) (simp_all add: list_all_butlast)

lemma uread_key:
  assumes "replies s = (1, [c]) # rs" "length d = 1"
  shows "\<exists>t. uread STDIN_FILENO d 1 s = Ret (1, [c]) t \<and> replies t = rs \<and> uout (calls t) = uout (calls s)"
  using assms by (simp add: uread_def usys_def fill_buf_def set_errno_def)

lemma uputc_out:
  assumes "replies s = r # rs"
  shows "\<exists>t. uputc c s = Ret () t \<and> replies t = rs \<and> uout (calls t) = uout (calls s) @ [c]"
  using uputc_Ret [of s c] assms by (auto simp: does_def)

lemma readline_loop_ok:
  assumes "10 \<notin> set cs" "length l + length cs < 255" "length buf = 256" "take (length l) buf = l" "length d = 1"
    "replies s = typed l cs @ rs"
  shows "\<exists>buf' t. readline_loop buf 256 (of_nat (length l)) d s = Ret (buf', of_nat (length (edit l cs))) t \<and>
    length buf' = 256 \<and> take (length (edit l cs)) buf' = edit l cs \<and> replies t = rs \<and> uout (calls t) = uout (calls s) @ echo l cs @ [10]"
  using assms
proof (induction cs arbitrary: l buf d s)
  case Nil
  from uread_key [of s 10 "(1, []) # rs" d] obtain t where t: "uread STDIN_FILENO d 1 s = Ret (1, [10]) t"
    "replies t = (1, []) # rs" "uout (calls t) = uout (calls s)" using Nil.prems by auto
  from uputc_out [OF t(2), of 10] obtain u where u: "uputc 10 t = Ret () u" "replies u = rs" "uout (calls u) = uout (calls t) @ [10]" by blast
  have "(of_nat (length l) :: u32) < 256 - 1" using Nil.prems(2) by (simp add: word_less_nat_alt unat_of_nat_small)
  then have "readline_loop buf 256 (of_nat (length l)) d s = Ret (buf, of_nat (length l)) u"
    by (subst readline_loop.simps) (simp add: t(1) u(1))
  then show ?case using Nil.prems u t by simp
next
  case (Cons c cs)
  obtain rest where "replies s = (1, [c]) # rest" and rest: "rest = (if con_printable c then (1, []) # typed (l @ [c]) cs
     else if c = 8 then (if l = [] then typed l cs else (1, []) # typed (butlast l) cs) else typed l cs) @ rs"
    using Cons.prems(6) by simp
  then obtain t where t: "uread STDIN_FILENO d 1 s = Ret (1, [c]) t" "replies t = rest" "uout (calls t) = uout (calls s)"
    using uread_key Cons.prems(5) by blast
  have p: "(of_nat (length l) :: u32) < 256 - 1" "unat (of_nat (length l) :: u32) = length l"
    using Cons.prems(2) by (simp_all add: word_less_nat_alt unat_of_nat_small)
  have c10: "c \<noteq> 10" "10 \<notin> set cs" using Cons.prems(1) by auto
  consider "con_printable c" | "c = 8" "l = []" | "c = 8" "l \<noteq> []" | "\<not> con_printable c" "c \<noteq> 8" by blast
  then show ?case
  proof cases
    case 1
    then obtain u where u: "uputc c t = Ret () u" "replies u = typed (l @ [c]) cs @ rs" "uout (calls u) = uout (calls t) @ [c]"
      using uputc_out [of t "(1, [])" "typed (l @ [c]) cs @ rs" c] t(2) rest by auto
    have "take (length (l @ [c])) (buf[length l := c]) = l @ [c]"
      using Cons.prems(2,3,4) by (simp add: take_Suc_conv_app_nth)
    moreover have "readline_loop buf 256 (of_nat (length l)) d s = readline_loop (buf[length l := c]) 256 (of_nat (length (l @ [c]))) [c] u"
      using 1 p t(1) u(1) Cons.prems(2,3) by (subst readline_loop.simps) (simp add: con_printable_def wr_def add.commute)
    ultimately show ?thesis
      using Cons.IH [OF c10(2), of "l @ [c]" "buf[length l := c]" "[c]" u] Cons.prems(2,3) 1 u t(3) by (auto simp: add.commute)
  next
    case 2
    then have "readline_loop buf 256 (of_nat (length l)) d s = readline_loop buf 256 (of_nat (length l)) [c] t"
      using p t(1) by (subst readline_loop.simps) simp
    then show ?thesis using Cons.IH [OF c10(2), of l buf "[c]" t] Cons.prems 2 t rest by (auto simp: con_printable_def)
  next
    case 3
    then obtain u where u: "uputc 8 t = Ret () u" "replies u = typed (butlast l) cs @ rs" "uout (calls u) = uout (calls t) @ [8]"
      using uputc_out [of t "(1, [])" "typed (butlast l) cs @ rs" 8] t(2) rest by (auto simp: con_printable_def)
    have "take (length (butlast l)) (buf[length l := 0]) = butlast l"
    proof -
      have "take (length l - 1) buf = take (length l - 1) (take (length l) buf)" by simp
      then show ?thesis by (simp add: Cons.prems(4) butlast_conv_take take_update_cancel)
    qed
    moreover have "readline_loop buf 256 (of_nat (length l)) d s = readline_loop (buf[length l := 0]) 256 (of_nat (length (butlast l))) [c] u"
    proof -
      have "0 < length l" using 3 by simp
      then have "(of_nat (length l) :: u32) \<noteq> 0" "of_nat (length (butlast l)) = (of_nat (length l) :: u32) - 1"
        using p(2) by (auto simp: of_nat_diff Suc_leI simp flip: unat_eq_zero)
      then show ?thesis
        using 3 p t(1) u(1) Cons.prems(2,3) by (subst readline_loop.simps) (simp add: wr_def Let_def del: length_butlast)
    qed
    ultimately show ?thesis
      using Cons.IH [OF c10(2), of "butlast l" "buf[length l := 0]" "[c]" u] Cons.prems(2,3) 3 u t(3) by (auto simp: con_printable_def)
  next
    case 4
    then have "readline_loop buf 256 (of_nat (length l)) d s = readline_loop buf 256 (of_nat (length l)) [c] t"
      using p t(1) c10(1) by (subst readline_loop.simps) (simp add: con_printable_def)
    then show ?thesis using Cons.IH [OF c10(2), of l buf "[c]" t] Cons.prems 4 t rest by auto
  qed
qed

lemma readline_ok:
  assumes "10 \<notin> set cs" "length cs < 255" "length buf = 256" "replies s = typed [] cs @ rs"
  shows "\<exists>r t. readline buf 256 s = Ret (edit [] cs @ 0 # r) t \<and> length r = 255 - length (edit [] cs) \<and> replies t = rs \<and>
    uout (calls t) = uout (calls s) @ echo [] cs @ [10]"
proof -
  let ?e = "edit [] cs"
  from readline_loop_ok [of cs "[]" buf "local_array 1 s" s rs] assms
  obtain buf' t where t: "readline_loop buf 256 0 (local_array 1 s) s = Ret (buf', of_nat (length ?e)) t" "length buf' = 256"
    "take (length ?e) buf' = ?e" "replies t = rs" "uout (calls t) = uout (calls s) @ echo [] cs @ [10]" by auto
  have l: "length ?e < 255" using length_edit [of "[]" cs] assms(2) by simp
  then have u: "unat (of_nat (length ?e) :: u32) = length ?e" by (intro unat_of_nat_small) simp
  have "buf' = ?e @ buf' ! length ?e # drop (Suc (length ?e)) buf'"
    using id_take_nth_drop [of "length ?e" buf'] t(2,3) l by simp
  then have "buf'[length ?e := 0] = ?e @ 0 # drop (Suc (length ?e)) buf'" by (metis list_update_length)
  then have "readline buf 256 s = Ret (?e @ 0 # drop (Suc (length ?e)) buf') t"
    using t(1,2) u l by (simp add: readline_def wr_def)
  then show ?thesis using t l by (intro exI conjI) auto
qed

text \<open>The echo of the keys shows the edited line behind what the row showed before.\<close>

lemma scr_back_text:
  assumes "row t < length (rows t)" "rows t ! row t = text_row w (l @ [c])" "col t = Suc (length l)" "Suc (length l) \<le> w"
  shows "scr_putc w h 8 t = t\<lparr>rows := (rows t)[row t := text_row w l], col := length l\<rparr>"
proof -
  have "w - length l = Suc (w - Suc (length l))" using assms(4) by simp
  then have "replicate (w - length l) 0x0700 = (0x0700 :: u16) # replicate (w - Suc (length l)) 0x0700" by (simp only: replicate_Suc)
  then have "(text_row w (l @ [c]))[length l := 0x0700] = text_row w l" by (simp add: text_row_def list_update_append)
  then show ?thesis using assms by (simp add: scr_putc_def con_printable_def scr_back_def)
qed

lemma echo_shows:
  assumes "row t < length (rows t)" "rows t ! row t = text_row w (q @ l)" "col t = length q + length l"
    "length q + length l + length cs < w"
  shows "fold (scr_putc w h) (echo l cs) t = t\<lparr>rows := (rows t)[row t := text_row w (q @ edit l cs)], col := length q + length (edit l cs)\<rparr>"
  using assms
proof (induction cs arbitrary: l t)
  case Nil
  then show ?case by (simp flip: Nil.prems(2,3))
next
  case (Cons c cs)
  show ?case
  proof (cases "con_printable c")
    case True
    let ?t = "t\<lparr>rows := (rows t)[row t := text_row w (q @ l @ [c])], col := Suc (length q + length l)\<rparr>"
    have "scr_putc w h c t = ?t"
      using Cons.prems True text_row_snoc [of "q @ l" w c] by (simp add: scr_putc_def scr_print_def)
    then show ?thesis using Cons.IH [of ?t "l @ [c]"] Cons.prems True by simp
  next
    case False
    show ?thesis
    proof (cases "c = 8 \<and> l \<noteq> []")
      case True
      then obtain k d where l: "l = k @ [d]" by (metis append_butlast_last_id)
      let ?t = "t\<lparr>rows := (rows t)[row t := text_row w (q @ k)], col := length q + length k\<rparr>"
      have "scr_putc w h 8 t = ?t"
        using Cons.prems l scr_back_text [of t w "q @ k" d h] by simp
      then show ?thesis using Cons.IH [of ?t k] Cons.prems True False l by simp
    next
      case f: False
      then show ?thesis using Cons.IH [of t l] Cons.prems False by auto
    qed
  qed
qed

text \<open>
  C12: the line editor of the shell, together with the console. Whatever keys are typed before the end of the line (fewer
  than 255), \<open>readline\<close> returns the line that they edit: printable characters are appended, a backspace
  takes the last one back and stops at the beginning, other keys do nothing. What it sends to the terminal makes the console's current row show
  the prompt and exactly that line, with the cursor behind it.
\<close>

theorem shell_line_shown:
  assumes "10 \<notin> set cs" "length cs < 255" "length buf = 256" "replies s = typed [] cs @ rs"
    "con_rel w h con t" "rows t ! row t = text_row w q" "col t = length q" "length q + length cs < w"
  shows "\<exists>r s' con'. readline buf 256 s = Ret (edit [] cs @ 0 # r) s' \<and> replies s' = rs \<and>
    uout (calls s') = uout (calls s) @ echo [] cs @ [10] \<and> foldR x86_con_putc (echo [] cs) con = Inr con' \<and>
    con_rel w h con' (t\<lparr>rows := (rows t)[row t := text_row w (q @ edit [] cs)], col := length q + length (edit [] cs)\<rparr>)"
proof -
  have "row t < length (rows t)" using assms(5) by (auto simp: con_rel_def)
  from echo_shows [of t w q "[]" cs h, OF this] assms(6-8)
  have "fold (scr_putc w h) (echo [] cs) t = t\<lparr>rows := (rows t)[row t := text_row w (q @ edit [] cs)], col := length q + length (edit [] cs)\<rparr>"
    by simp
  with foldR_putc_ok [OF assms(5), of "echo [] cs"] readline_ok [OF assms(1-4)] show ?thesis by metis
qed

theorem shell_line_shown_witness:
  "\<exists>r s' con'. readline (replicate 256 0)  256
      \<lparr>replies = typed [] [97, 98, 8, 99] @ [], calls = [], errno = 0, psignals = [], usignals = [], ustack = (\<lambda>_. 0)\<rparr> = Ret (97 # 99 # 0 # r) s' \<and>
    foldR x86_con_putc [97, 98, 8, 99]
      \<lparr>con_data = concat [text_row 8 [35], blank 8, blank 8], con_width = 8, con_height = 3, con_cury = 0, con_curx = 1, crtc = []\<rparr> = Inr con' \<and>
    con_rel 8 3 con' \<lparr>rows = [text_row 8 [35, 97, 99], blank 8, blank 8], col = length [35] + length [97, 99], row = 0\<rparr>"
proof -
  let ?s = "\<lparr>replies = typed [] [97, 98, 8, 99] @ [], calls = [], errno = 0, psignals = [], usignals = [], ustack = (\<lambda>_. 0)\<rparr>"
  let ?c = "\<lparr>con_data = concat [text_row 8 [35], blank 8, blank 8], con_width = 8, con_height = 3, con_cury = 0, con_curx = 1, crtc = []\<rparr>"
  let ?t = "\<lparr>rows = [text_row 8 [35], blank 8, blank 8], col = 1, row = 0\<rparr>"
  have r: "con_rel 8 3 ?c ?t" by (simp add: con_rel_def blank_def text_row_def)
  have e: "edit [] [97, 98, 8, 99] = [97, 99]" "echo [] [97, 98, 8, 99] = [97, 98, 8, 99]" by (simp_all add: con_printable_def)
  show ?thesis
    using shell_line_shown [of "[97, 98, 8, 99]" "replicate 256 0" ?s "[]" 8 3 ?c ?t "[35]"] r by (simp add: e del: typed.simps edit.simps echo.simps) (elim exE conjE, intro exI conjI, assumption+)
qed


section \<open>Commands\<close>

definition cmd_word :: "bytes \<Rightarrow> bytes" where
  "cmd_word l = takeWhile (\<lambda>x. x \<noteq> 32) l"

definition cmd_arg :: "bytes \<Rightarrow> bytes option" where
  "cmd_arg l = (if 32 \<in> set l then Some (drop (Suc (length (cmd_word l))) l) else None)"

definition builtin_names :: "(bytes \<times> builtin) list" where
  "builtin_names = [(map of_char ''echo'', B_echo), (map of_char ''ls'', B_ls), (map of_char ''cat'', B_cat), (map of_char ''hex'', B_hex),
     (map of_char ''pid'', B_pid), (map of_char ''exit'', B_exit)]"

lemma find_builtin_ok:
  assumes "cstr cmd a" "list_all (\<lambda>(n, _). 0 \<notin> set n) bs"
  shows "find_builtin (map (\<lambda>(n, b). (n @ [0], b)) bs) cmd = Inr (map_of bs a)"
  using assms(2)
proof (induction bs)
  case (Cons x bs)
  obtain n b where x: "x = (n, b)" by fastforce
  have "usr_strcmp (n @ [0]) cmd = Inr (if n = a then 0 else 1)"
    using Cons.prems x assms(1) cstr_append [of n "[]"] by (intro usr_strcmp_cstr) simp_all
  then show ?case using Cons x by auto
qed simp

lemma execute_ok:
  assumes "0 \<notin> set a"
  shows "execute (a @ 0 # r) arg s = (case map_of builtin_names a of Some b \<Rightarrow> run_builtin b arg s | None \<Rightarrow> run_program (a @ 0 # r) s)"
proof -
  have b: "builtins = map (\<lambda>(n, b). (n @ [0], b)) builtin_names" by (simp add: builtins_def builtin_names_def lit_def)
  have "list_all (\<lambda>(n, _). 0 \<notin> set n) builtin_names" by (simp add: builtin_names_def)
  then have "find_builtin builtins (a @ 0 # r) = Inr (map_of builtin_names a)"
    unfolding b by (rule find_builtin_ok [OF cstr_append [OF assms]])
  then show ?thesis by (simp add: execute_def)
qed

lemma split_line_ok:
  assumes "0 \<notin> set l" "length (cmd_word l) < 64" "length cmd = 64" "length l < 2 ^ 31"
  shows "\<exists>c. split_line (l @ 0 # r) cmd s = Ret (cmd_word l @ 0 # c, map_option (\<lambda>a. a @ 0 # r) (cmd_arg l)) s"
proof -
  let ?a = "cmd_word l"
  have sc: "strchr (l @ 0 # r) 32 = Inr (if 32 \<in> set l then Some (drop (length ?a) (l @ 0 # r)) else None)"
    using strchr_cstr [OF cstr_append [OF assms(1)]] by (simp add: cmd_word_def)
  show ?thesis
  proof (cases "32 \<in> set l")
    case True
    then have d: "dropWhile (\<lambda>x. x \<noteq> 32) l \<noteq> []" by (auto simp: dropWhile_eq_Nil_conv)
    obtain y b where y: "dropWhile (\<lambda>x. x \<noteq> 32) l = y # b" using d by (cases "dropWhile (\<lambda>x. x \<noteq> 32) l") auto
    have "y = 32" using hd_dropWhile [OF d] y by simp
    then have l: "l = ?a @ 32 # b" using y takeWhile_dropWhile_id [of "\<lambda>x. x \<noteq> 32" l] by (simp add: cmd_word_def)
    have a: "0 \<notin> set ?a" using assms(1) set_takeWhileD [of 0 "\<lambda>x. x \<noteq> 32" l] by (auto simp: cmd_word_def)
    have dr: "drop (length ?a) (l @ 0 # r) = 32 # b @ 0 # r" by (subst l, simp)
    have "length (l @ 0 # r) - length (32 # b @ 0 # r) = length ?a"
      using arg_cong [OF l, of length] by simp
    moreover have "strncpy cmd (l @ 0 # r) (of_nat (length ?a)) = Inr (?a @ drop (length ?a) cmd)"
      using strncpy_loop_exact [OF a, of cmd 0 32 "b @ 0 # r"] assms(2,3) by (subst l) (simp add: strncpy_def)
    moreover have "wr (?a @ drop (length ?a) cmd) (length ?a) 0 = Inr (?a @ 0 # drop (Suc (length ?a)) cmd)"
      using assms(2,3) by (simp add: wr_def list_update_append Cons_nth_drop_Suc [symmetric])
    moreover have "drop (Suc (length ?a)) l = b" by (subst l, simp)
    moreover have "strchr (l @ 0 # r) 32 = Inr (Some (32 # b @ 0 # r))" using sc True dr by simp
    ultimately show ?thesis using True assms(2) by (simp add: split_line_def Let_def uassert_def cmd_arg_def del: length_append)
  next
    case False
    then have a: "?a = l" by (auto simp: cmd_word_def takeWhile_eq_all_conv)
    have "usr_strlen_loop (v @ 0 # r) k = Inr (k + of_nat (length v))" if "0 \<notin> set v" for v k
      using that by (induction v arbitrary: k) (auto simp: algebra_simps)
    from this [OF assms(1), of 0] have "usr_strlen (l @ 0 # r) = Inr (of_nat (length l))" by (simp add: usr_strlen_def)
    moreover have "(of_nat (length l) :: u32) < 64"
      using assms(2) a by (simp add: word_less_nat_alt unat_of_nat_small)
    moreover have "strcpy cmd (l @ 0 # r) = Inr (l @ 0 # drop (Suc (length l)) cmd)"
      using strcpy_cstr [OF cstr_append [OF assms(1)], of cmd] assms(2,3) a by simp
    ultimately show ?thesis using False sc a by (simp add: split_line_def uassert_def cmd_arg_def)
  qed
qed

text \<open>
  A command of 64 characters or more: the assertion only sends a message and a signal, which the kernel
  delivers at a later timer interrupt. The program goes on and copies the line over the end of its array.
\<close>

lemma shell_long_command:
  assumes "0 \<notin> set l" "32 \<notin> set l" "64 \<le> length l" "length l < 2 ^ 31" "length cmd = 64" "4 \<le> length (replies s)"
  shows "\<exists>t pid msg. split_line (l @ 0 # r) cmd s = Stop (Fault OutOfBounds) t \<and>
    calls t = calls s @ [UWrite 0 msg, UWrite 0 [10], UGetpid, UKill pid SIGABRT]"
proof -
  obtain r1 r2 r3 r4 rs where rs: "replies s = r1 # r2 # r3 # r4 # rs"
    using assms(6) by (auto simp: Suc_le_length_iff numeral_eq_Suc)
  have "strchr (l @ 0 # r) 32 = Inr None" using strchr_cstr [OF cstr_append [OF assms(1)]] assms(2) by simp
  moreover have "usr_strlen_loop (v @ 0 # r) k = Inr (k + of_nat (length v))" if "0 \<notin> set v" for v k
    using that by (induction v arbitrary: k) (auto simp: algebra_simps)
  then have "usr_strlen (l @ 0 # r) = Inr (of_nat (length l))" using assms(1) by (simp add: usr_strlen_def)
  moreover have "\<not> (of_nat (length l) :: u32) < 64" using assms(3,4) by (simp add: word_less_nat_alt unat_of_nat_small)
  moreover have "strcpy cmd (l @ 0 # r) = Inl OutOfBounds"
    using strcpy_overflow [OF cstr_append [OF assms(1)]] assms(3,5) by simp
  moreover have "\<exists>t pid msg. uassert False (lit ''Assertion failed: strlen(input) < 64'') s = Ret () t \<and>
      calls t = calls s @ [UWrite 0 msg, UWrite 0 [10], UGetpid, UKill pid SIGABRT]"
    using rs by (simp add: uassert_def uputs_def usr_strlen_def lit_def uwrite_def ucall_int_def usys_def set_errno_def uputc_def
        uabort_def raise_def ugetpid_def ukill_def STDOUT_FILENO_def split: prod.splits)
  ultimately show ?thesis by (auto simp: split_line_def)
qed

text \<open>
  C11: what the shell runs. One pass of its main loop, whatever line the keys edit (fewer than 255 keys, the command
  word shorter than 64 characters), prompts, reads and splits the line at its first blank and runs exactly
  the built-in command that has the word as its name, with the rest of the line as its
  argument, or, when there is none, forks and executes the program that the word names.
\<close>

theorem shell_runs_command:
  assumes "10 \<notin> set cs" "length cs < 255" "length (cmd_word (edit [] cs)) < 64" "length input = 256" "length cmd = 64"
    "replies s = k # typed [] cs @ rs"
  shows "\<exists>t c r. replies t = rs \<and> uout (calls t) = uout (calls s) @ map of_char ''# '' @ echo [] cs @ [10] \<and>
    shell_step input cmd s = bindU
      (case map_of builtin_names (cmd_word (edit [] cs)) of
         Some b \<Rightarrow> run_builtin b (map_option (\<lambda>a. a @ 0 # r) (cmd_arg (edit [] cs))) t
       | None \<Rightarrow> run_program (cmd_word (edit [] cs) @ 0 # c) t)
      (\<lambda>_ s. Ret (edit [] cs @ 0 # r, cmd_word (edit [] cs) @ 0 # c) s)"
proof -
  let ?l = "edit [] cs"
  have "\<exists>r t. printf (lit ''# '') [] s = Ret r t \<and> does s 1 [UWrite 0 (map of_char ''# '')] t"
    using assms(6) by (intro printf_Ret [where xs = "map Plain (map of_char ''# '')"]) (simp_all add: lit_def)
  then obtain r1 t1 where t1: "printf (lit ''# '') [] s = Ret r1 t1" "replies t1 = typed [] cs @ rs"
    "uout (calls t1) = uout (calls s) @ map of_char ''# ''" using assms(6) by (auto simp: does_def)
  from readline_ok [OF assms(1,2,4) t1(2)] obtain r t where t: "readline input 256 t1 = Ret (?l @ 0 # r) t" "replies t = rs"
    "uout (calls t) = uout (calls t1) @ echo [] cs @ [10]" by blast
  have nz: "0 \<notin> set ?l" using edit_printable [of "[]" cs] by (auto simp: list_all_iff con_printable_def)
  have "length ?l < 2 ^ 31" using length_edit [of "[]" cs] assms(2) by simp
  from split_line_ok [OF nz assms(3,5) this, of r t] obtain c
    where c: "split_line (?l @ 0 # r) cmd t = Ret (cmd_word ?l @ 0 # c, map_option (\<lambda>a. a @ 0 # r) (cmd_arg ?l)) t" by blast
  have "0 \<notin> set (cmd_word ?l)" using nz set_takeWhileD [of 0 "\<lambda>x. x \<noteq> 32" ?l] by (auto simp: cmd_word_def)
  from execute_ok [OF this] show ?thesis
    using t1 t c by (intro exI [of _ t] exI [of _ c] exI [of _ r]) (simp add: shell_step_def)
qed

theorem shell_runs_command_witness:
  "\<exists>t c r. replies t = [] \<and> uout (calls t) = map of_char ''# '' @ [108, 120, 8, 115, 32, 47, 10] \<and>
    shell_step (replicate 256 0) (replicate 64 0)
      \<lparr>replies = (2, []) # typed [] [108, 120, 8, 115, 32, 47] @ [], calls = [], errno = 0, psignals = [], usignals = [], ustack = (\<lambda>_. 0)\<rparr> =
    bindU (run_builtin B_ls (Some (47 # 0 # r)) t) (\<lambda>_ s. Ret (108 # 115 # 32 # 47 # 0 # r, 108 # 115 # 0 # c) s)"
proof -
  let ?cs = "[108, 120, 8, 115, 32, 47]"
  let ?s = "\<lparr>replies = (2, []) # typed [] ?cs @ [], calls = [], errno = 0, psignals = [], usignals = [], ustack = (\<lambda>_. 0)\<rparr>"
  have e: "edit [] ?cs = [108, 115, 32, 47]" "echo [] ?cs = ?cs" by (simp_all add: con_printable_def)
  have w: "cmd_word [108, 115, 32, 47] = [108, 115]" "cmd_arg [108, 115, 32, 47] = Some [47]"
    by (simp_all add: cmd_word_def cmd_arg_def)
  have b: "map_of builtin_names [108, 115] = Some B_ls" by (simp add: builtin_names_def)
  show ?thesis
    using shell_runs_command [of ?cs "replicate 256 0" "replicate 64 0" ?s "(2, [])" "[]"]
    by (simp add: e w b del: typed.simps edit.simps echo.simps run_builtin.simps)
qed

end
