(* ===== verification/Pci.thy ===== *)
theory Pci
  imports CString
begin

text \<open>
  The PCI bus (\<open>arch/x86/hw/pci.c\<close>) and the IDE driver (\<open>dev/pci/ide.c\<close>). The devices behind the
  I/O ports are a parameter: the four port instructions as functions on a state of the hardware. The lemmas
  show that the accesses to the configuration space are exact, and which functions the scan initialises.
\<close>

section \<open>Ports\<close>

record 'd ports =
  p_outb :: "u16 \<Rightarrow> u8 \<Rightarrow> 'd \<Rightarrow> 'd"
  p_inb :: "u16 \<Rightarrow> 'd \<Rightarrow> u8 \<times> 'd"
  p_outl :: "u16 \<Rightarrow> u32 \<Rightarrow> 'd \<Rightarrow> 'd"
  p_inl :: "u16 \<Rightarrow> 'd \<Rightarrow> u32 \<times> 'd"

section \<open>arch/x86/hw/pci.c\<close>

definition PCI_ADDRESS :: "u8 \<Rightarrow> u8 \<Rightarrow> u8 \<Rightarrow> u32" where
  "PCI_ADDRESS x y z = (push_bit 16 (ucast x) OR push_bit 8 (ucast y)) OR ucast z"

definition PCI_BUS :: "u32 \<Rightarrow> u32" where "PCI_BUS a = drop_bit 16 a AND 0xFF"
definition PCI_SLOT :: "u32 \<Rightarrow> u32" where "PCI_SLOT a = drop_bit 8 a AND 0xFF"
definition PCI_FUNC :: "u32 \<Rightarrow> u32" where "PCI_FUNC a = a AND 0xFF"

definition PCI_CONFIG_CMD :: u16 where "PCI_CONFIG_CMD = 0x0CF8"
definition PCI_CONFIG_DAT :: u16 where "PCI_CONFIG_DAT = 0x0CFC"

definition PCI_CONF_VENDOR :: u8 where "PCI_CONF_VENDOR = 0x00"
definition PCI_CONF_DEVICE :: u8 where "PCI_CONF_DEVICE = 0x02"
definition PCI_CONF_COMMAND :: u8 where "PCI_CONF_COMMAND = 0x04"
definition PCI_CONF_REVCLS :: u8 where "PCI_CONF_REVCLS = 0x08"
definition PCI_CONF_HEADER :: u8 where "PCI_CONF_HEADER = 0x0E"
definition PCI_CONF_BAR0 :: u8 where "PCI_CONF_BAR0 = 0x10"

lemmas pci_conf_defs = PCI_CONF_VENDOR_def PCI_CONF_DEVICE_def PCI_CONF_COMMAND_def PCI_CONF_REVCLS_def PCI_CONF_HEADER_def PCI_CONF_BAR0_def

text \<open>The value of the address register, and the shift of the word in the double word.\<close>

definition pci_cmd :: "u32 \<Rightarrow> u8 \<Rightarrow> u32" where
  "pci_cmd addr off =
     (((push_bit 16 (PCI_BUS addr) OR push_bit 11 (PCI_SLOT addr)) OR push_bit 8 (PCI_FUNC addr)) OR ucast (off AND 0xFC)) OR 0x80000000"

definition pci_shift :: "u8 \<Rightarrow> nat" where
  "pci_shift off = unat (off AND 2) * 8"

definition pci_config_getw :: "'d ports \<Rightarrow> u32 \<Rightarrow> u8 \<Rightarrow> 'd \<Rightarrow> u16 \<times> 'd" where
  "pci_config_getw io addr off d =
     (let d = p_outl io PCI_CONFIG_CMD (pci_cmd addr off) d; (v, d) = p_inl io PCI_CONFIG_DAT d in
      (ucast (drop_bit (pci_shift off) v AND 0xFFFF), d))"

definition pci_config_setw :: "'d ports \<Rightarrow> u32 \<Rightarrow> u8 \<Rightarrow> u16 \<Rightarrow> 'd \<Rightarrow> 'd" where
  "pci_config_setw io addr off v d =
     (let d = p_outl io PCI_CONFIG_CMD (pci_cmd addr off) d; (old, d) = p_inl io PCI_CONFIG_DAT d;
          old = old AND NOT (push_bit (pci_shift off) 0xFFFF); old = old OR push_bit (pci_shift off) (ucast v);
          d = p_outl io PCI_CONFIG_CMD (pci_cmd addr off) d in
      p_outl io PCI_CONFIG_DAT old d)"

definition pci_config_getl :: "'d ports \<Rightarrow> u32 \<Rightarrow> u8 \<Rightarrow> 'd \<Rightarrow> u32 \<times> 'd" where
  "pci_config_getl io addr off d =
     (let (lo, d) = pci_config_getw io addr off d; (hi, d) = pci_config_getw io addr (off + 2) d in
      (ucast lo OR push_bit 16 (ucast hi), d))"

definition pci_config_setl :: "'d ports \<Rightarrow> u32 \<Rightarrow> u8 \<Rightarrow> u32 \<Rightarrow> 'd \<Rightarrow> 'd" where
  "pci_config_setl io addr off v d =
     p_outl io PCI_CONFIG_DAT v (p_outl io PCI_CONFIG_CMD (pci_cmd addr off) d)"

text \<open>The drivers that the scan may start; their initialisation is the argument \<open>drv\<close>.\<close>

datatype pci_driver = Drv_ide | Drv_rtl8139

text \<open>The number of entries of \<open>pci_classes\<close>, of which the scan prints one.\<close>

definition pci_class_names :: nat where "pci_class_names = 18"

definition pci_scan_func :: "'d ports \<Rightarrow> (pci_driver \<Rightarrow> u32 \<Rightarrow> 'd \<Rightarrow> 'd res) \<Rightarrow> u32 \<Rightarrow> 'd \<Rightarrow> 'd res" where
  "pci_scan_func io drv addr d =
     (let (rc, d) = pci_config_getl io addr PCI_CONF_REVCLS d;
          class_code = drop_bit 8 rc AND 0xFFFFFF;
          cls = (ucast (drop_bit 16 class_code AND 0xFF) :: u8);
          subclass = (ucast (drop_bit 8 class_code AND 0xFF) :: u8);
          (vendor, d) = pci_config_getw io addr PCI_CONF_VENDOR d;
          (device, d) = pci_config_getw io addr PCI_CONF_DEVICE d in
      if cls = 0x06 \<and> subclass = 0x04 then Inr d
      else if pci_class_names \<le> unat cls then Inl OutOfBounds
      else if cls = 0x01 then (if subclass = 0x01 then drv Drv_ide addr d else Inr d)
      else if cls = 0x02 then (if subclass = 0x00 \<and> vendor = 0x10EC \<and> device = 0x8139 then drv Drv_rtl8139 addr d else Inr d)
      else Inr d)"

text \<open>\<open>for (func = i; func < i + n; ++func)\<close>, left at the first function that is absent.\<close>

fun pci_funcs :: "('d \<Rightarrow> u8 \<Rightarrow> bool \<times> 'd) \<Rightarrow> (u8 \<Rightarrow> 'd \<Rightarrow> 'd res) \<Rightarrow> u8 \<Rightarrow> nat \<Rightarrow> 'd \<Rightarrow> 'd res" where
  "pci_funcs absent scan f 0 d = Inr d"
| "pci_funcs absent scan f (Suc n) d =
     (let (a, d) = absent d f in if a then Inr d else bindR (scan f d) (pci_funcs absent scan (f + 1) n))"

definition pci_absent :: "'d ports \<Rightarrow> u8 \<Rightarrow> u8 \<Rightarrow> 'd \<Rightarrow> u8 \<Rightarrow> bool \<times> 'd" where
  "pci_absent io bus slot d f = (let (v, d) = pci_config_getw io (PCI_ADDRESS bus slot f) PCI_CONF_VENDOR d in (v = 0xFFFF, d))"

definition pci_scan_slot :: "'d ports \<Rightarrow> (pci_driver \<Rightarrow> u32 \<Rightarrow> 'd \<Rightarrow> 'd res) \<Rightarrow> u8 \<Rightarrow> u8 \<Rightarrow> 'd \<Rightarrow> 'd res" where
  "pci_scan_slot io drv bus slot d =
     (let (v, d) = pci_config_getw io (PCI_ADDRESS bus slot 0) PCI_CONF_VENDOR d in
      if v = 0xFFFF then Inr d
      else
        let (ht, d) = pci_config_getw io (PCI_ADDRESS bus slot 0) PCI_CONF_HEADER d in
        bindR (pci_scan_func io drv (PCI_ADDRESS bus slot 0) d) (\<lambda>d.
        if nz ((ht AND 0xFF) AND 0x80) then
          pci_funcs (pci_absent io bus slot) (\<lambda>f. pci_scan_func io drv (PCI_ADDRESS bus slot f)) 1 7 d
        else Inr d))"

definition pci_scan_bus :: "'d ports \<Rightarrow> (pci_driver \<Rightarrow> u32 \<Rightarrow> 'd \<Rightarrow> 'd res) \<Rightarrow> u8 \<Rightarrow> 'd \<Rightarrow> 'd res" where
  "pci_scan_bus io drv bus d = foldR (\<lambda>slot. pci_scan_slot io drv bus (of_nat slot)) [0..<32] d"

definition pci_scan_devices :: "'d ports \<Rightarrow> (pci_driver \<Rightarrow> u32 \<Rightarrow> 'd \<Rightarrow> 'd res) \<Rightarrow> 'd \<Rightarrow> 'd res" where
  "pci_scan_devices io drv d =
     (let (ht, d) = pci_config_getw io (PCI_ADDRESS 0 0 0) PCI_CONF_HEADER d in
      if nz ((ht AND 0xFF) AND 0x80) then pci_funcs (pci_absent io 0 0) (pci_scan_bus io drv) 0 8 d
      else pci_scan_bus io drv 0 d)"

definition x86_pci_init :: "'d ports \<Rightarrow> (pci_driver \<Rightarrow> u32 \<Rightarrow> 'd \<Rightarrow> 'd res) \<Rightarrow> 'd \<Rightarrow> 'd res" where
  "x86_pci_init = pci_scan_devices"


section \<open>The configuration space\<close>

text \<open>
  What the code relies on: behind the two ports is a configuration space \<open>view d\<close>. A read of the data port after
  the address has been written yields the double word at the address and changes none, and a write stores it
  there, when it is one of the registers \<open>W\<close> that can be written.
\<close>

definition bridge_ok :: "'d ports \<Rightarrow> ('d \<Rightarrow> u32 \<Rightarrow> u32) \<Rightarrow> u32 set \<Rightarrow> bool" where
  "bridge_ok io view W \<longleftrightarrow>
     (\<forall>a d. fst (p_inl io PCI_CONFIG_DAT (p_outl io PCI_CONFIG_CMD a d)) = view d a \<and>
       view (snd (p_inl io PCI_CONFIG_DAT (p_outl io PCI_CONFIG_CMD a d))) = view d) \<and>
     (\<forall>a d v. a \<in> W \<longrightarrow> view (p_outl io PCI_CONFIG_DAT v (p_outl io PCI_CONFIG_CMD a d)) = (view d)(a := v))"

definition pci_word :: "(u32 \<Rightarrow> u32) \<Rightarrow> u32 \<Rightarrow> u8 \<Rightarrow> u16" where
  "pci_word v addr off = ucast (drop_bit (pci_shift off) (v (pci_cmd addr off)) AND 0xFFFF)"

lemma getw_view:
  assumes "bridge_ok io view W"
  shows "fst (pci_config_getw io addr off d) = pci_word (view d) addr off" "view (snd (pci_config_getw io addr off d)) = view d"
proof -
  obtain v d' where p: "p_inl io PCI_CONFIG_DAT (p_outl io PCI_CONFIG_CMD (pci_cmd addr off) d) = (v, d')" by fastforce
  have "v = view d (pci_cmd addr off)" "view d' = view d" using assms p unfolding bridge_ok_def by (metis fst_conv, metis snd_conv)
  then show "fst (pci_config_getw io addr off d) = pci_word (view d) addr off" "view (snd (pci_config_getw io addr off d)) = view d"
    by (simp_all add: pci_config_getw_def pci_word_def Let_def p)
qed

lemma ffff_mask: "(0xFFFF :: u32) = mask 16"
  by (simp add: mask_eq_exp_minus_1)

lemma pci_shift_cases: "pci_shift off = 0 \<or> pci_shift off = 16"
proof -
  have "off AND 2 = (if bit off 1 then 2 else 0)"
    by (rule bit_word_eqI) (auto simp: bit_simps bit_2_iff)
  then show ?thesis by (simp add: pci_shift_def)
qed

lemma set_word_bits:
  fixes old :: u32 and v :: u16
  shows "ucast (drop_bit 0 ((old AND NOT (push_bit 0 0xFFFF)) OR push_bit 0 (ucast v)) AND 0xFFFF) = v"
    "ucast (drop_bit 16 ((old AND NOT (push_bit 16 0xFFFF)) OR push_bit 16 (ucast v)) AND 0xFFFF) = v"
    "ucast (drop_bit 16 ((old AND NOT (push_bit 0 0xFFFF)) OR push_bit 0 (ucast v)) AND 0xFFFF) = (ucast (drop_bit 16 old AND 0xFFFF) :: u16)"
    "ucast (drop_bit 0 ((old AND NOT (push_bit 16 0xFFFF)) OR push_bit 16 (ucast v)) AND 0xFFFF) = (ucast (drop_bit 0 old AND 0xFFFF) :: u16)"
  unfolding ffff_mask by (rule bit_word_eqI; auto simp: bit_simps dest: bit_imp_le_length)+

definition set_word :: "u32 \<Rightarrow> u8 \<Rightarrow> u16 \<Rightarrow> u32" where
  "set_word old off v = (old AND NOT (push_bit (pci_shift off) 0xFFFF)) OR push_bit (pci_shift off) (ucast v)"

lemma setw_view:
  assumes "bridge_ok io view W" "pci_cmd addr off \<in> W"
  shows "view (pci_config_setw io addr off v d) = (view d)(pci_cmd addr off := set_word (view d (pci_cmd addr off)) off v)"
proof -
  obtain x d' where p: "p_inl io PCI_CONFIG_DAT (p_outl io PCI_CONFIG_CMD (pci_cmd addr off) d) = (x, d')" by fastforce
  have "x = view d (pci_cmd addr off)" "view d' = view d" using assms(1) p unfolding bridge_ok_def by (metis fst_conv, metis snd_conv)
  then show ?thesis using assms p by (simp add: bridge_ok_def pci_config_setw_def set_word_def Let_def)
qed

text \<open>The fields of the address register.\<close>

lemma small_bits:
  fixes x :: u8
  shows "x < 32 \<Longrightarrow> bit x n \<Longrightarrow> n < 5" "x < 8 \<Longrightarrow> bit x n \<Longrightarrow> n < 3"
proof -
  have "x = take_bit 5 x" if "x < 32" using that unat_take [of 5 x] by (simp add: word_less_nat_alt word_unat_eq_iff)
  then show "x < 32 \<Longrightarrow> bit x n \<Longrightarrow> n < 5" by (metis bit_take_bit_iff)
  have "x = take_bit 3 x" if "x < 8" using that unat_take [of 3 x] by (simp add: word_less_nat_alt word_unat_eq_iff)
  then show "x < 8 \<Longrightarrow> bit x n \<Longrightarrow> n < 3" by (metis bit_take_bit_iff)
qed

lemma pci_cmd_bits:
  "bit (pci_cmd (PCI_ADDRESS b s f) off) n \<longleftrightarrow>
     n = 31 \<or> 16 \<le> n \<and> n < 24 \<and> bit b (n - 16) \<or> 11 \<le> n \<and> n < 19 \<and> bit s (n - 11) \<or> 8 \<le> n \<and> n < 16 \<and> bit f (n - 8) \<or>
     n < 8 \<and> bit (off AND 0xFC) n"
proof -
  have m: "(0xFF :: u32) = mask 8" "(0x80000000 :: u32) = push_bit 31 1" by (simp_all add: mask_eq_exp_minus_1)
  have l: "k < 8" if "bit x k" for x :: u8 and k using bit_imp_le_length [OF that] by simp
  have bus: "PCI_BUS (PCI_ADDRESS b s f) = ucast b"
    unfolding PCI_BUS_def PCI_ADDRESS_def m by (rule bit_word_eqI) (auto simp: bit_simps dest: l)
  have slot: "PCI_SLOT (PCI_ADDRESS b s f) = ucast s"
    unfolding PCI_SLOT_def PCI_ADDRESS_def m by (rule bit_word_eqI) (auto simp: bit_simps dest: l)
  have func: "PCI_FUNC (PCI_ADDRESS b s f) = ucast f"
    unfolding PCI_FUNC_def PCI_ADDRESS_def m by (rule bit_word_eqI) (auto simp: bit_simps dest: l)
  have len32: "LENGTH(32) = 32" by simp
  have h: "bit (0x80000000 :: u32) n \<longleftrightarrow> n = 31"
    unfolding m(2) bit_push_bit_iff possible_bit_word len32 by (auto simp: bit_1_iff)
  show ?thesis
    using l [of b "n - 16"] l [of s "n - 11"] l [of f "n - 8"] l [of "off AND 0xFC" n]
    unfolding pci_cmd_def bus slot func
    by (simp only: bit_or_iff bit_push_bit_iff bit_unsigned_iff h possible_bit_word len32)
      (cases "bit b (n - 16)"; cases "bit s (n - 11)"; cases "bit f (n - 8)"; cases "bit (off AND 0xFC) n"; simp; arith)
qed

lemma pci_cmd_inj:
  assumes "s < 32" "f < 8" "s' < 32" "f' < 8" "pci_cmd (PCI_ADDRESS b s f) o1 = pci_cmd (PCI_ADDRESS b' s' f') o2"
  shows "b = b' \<and> s = s' \<and> f = f' \<and> o1 AND 0xFC = o2 AND 0xFC"
proof -
  note e = arg_cong [OF assms(5), where f = "\<lambda>x. bit x n" for n, unfolded pci_cmd_bits]
  note sm = small_bits(1) [OF assms(1)] small_bits(1) [OF assms(3)] small_bits(2) [OF assms(2)] small_bits(2) [OF assms(4)]
  have "b = b'"
  proof (rule bit_word_eqI)
    fix n assume "n < LENGTH(8)"
    then show "bit b n = bit b' n" using e [of "16 + n"] sm by auto
  qed
  moreover have "s = s'"
  proof (rule bit_word_eqI)
    fix n assume "n < LENGTH(8)"
    then show "bit s n = bit s' n" using e [of "11 + n"] sm by (cases "n < 5") auto
  qed
  moreover have "f = f'"
  proof (rule bit_word_eqI)
    fix n assume "n < LENGTH(8)"
    then show "bit f n = bit f' n" using e [of "8 + n"] sm by (cases "n < 3") auto
  qed
  moreover have "o1 AND 0xFC = o2 AND 0xFC"
  proof (rule bit_word_eqI)
    fix n assume "n < LENGTH(8)"
    then show "bit (o1 AND 0xFC) n = bit (o2 AND 0xFC) n" using e [of n] by auto
  qed
  ultimately show ?thesis by blast
qed


text \<open>A configuration space in memory: the address register and the double words.\<close>

definition ram_bridge :: "(u32 \<times> (u32 \<Rightarrow> u32)) ports" where
  "ram_bridge = \<lparr>p_outb = (\<lambda>_ _ d. d), p_inb = (\<lambda>_ d. (0, d)),
     p_outl = (\<lambda>p v (a, m). if p = PCI_CONFIG_CMD then (v, m) else if p = PCI_CONFIG_DAT then (a, m(a := v)) else (a, m)),
     p_inl = (\<lambda>p (a, m). (if p = PCI_CONFIG_DAT then m a else 0, (a, m)))\<rparr>"

lemma ram_bridge_ok: "bridge_ok ram_bridge snd UNIV"
  by (simp add: bridge_ok_def ram_bridge_def PCI_CONFIG_CMD_def PCI_CONFIG_DAT_def split_def)



section \<open>The scan\<close>

text \<open>The words that the scan looks at, as a function of the state of the hardware.\<close>

definition scan_regs :: "u8 set" where
  "scan_regs = {0x00, 0x02, 0x08, 0x0A, 0x0E}"

definition pci_ids :: "('d \<Rightarrow> u32 \<Rightarrow> u32) \<Rightarrow> 'd \<Rightarrow> u32 \<Rightarrow> u8 \<Rightarrow> u16" where
  "pci_ids view d = (\<lambda>addr off. if off \<in> scan_regs then pci_word (view d) addr off else 0)"

text \<open>The functions of the bus in the order of the scan, and the driver that each is for.\<close>

definition pci_present :: "(u32 \<Rightarrow> u8 \<Rightarrow> u16) \<Rightarrow> u32 \<Rightarrow> bool" where
  "pci_present w a \<longleftrightarrow> w a 0x00 \<noteq> 0xFFFF"

definition pci_multi :: "(u32 \<Rightarrow> u8 \<Rightarrow> u16) \<Rightarrow> u32 \<Rightarrow> bool" where
  "pci_multi w a \<longleftrightarrow> bit (w a 0x0E) 7"

definition pci_class :: "(u32 \<Rightarrow> u8 \<Rightarrow> u16) \<Rightarrow> u32 \<Rightarrow> u8" where
  "pci_class w a = ucast (drop_bit 8 (w a 0x0A))"

definition pci_subclass :: "(u32 \<Rightarrow> u8 \<Rightarrow> u16) \<Rightarrow> u32 \<Rightarrow> u8" where
  "pci_subclass w a = ucast (w a 0x0A)"

definition pci_driver_of :: "(u32 \<Rightarrow> u8 \<Rightarrow> u16) \<Rightarrow> u32 \<Rightarrow> (pci_driver \<times> u32) list" where
  "pci_driver_of w a =
     (if pci_class w a = 0x01 \<and> pci_subclass w a = 0x01 then [(Drv_ide, a)]
      else if pci_class w a = 0x02 \<and> pci_subclass w a = 0x00 \<and> w a 0x00 = 0x10EC \<and> w a 0x02 = 0x8139 then [(Drv_rtl8139, a)]
      else [])"

definition slot_functions :: "(u32 \<Rightarrow> u8 \<Rightarrow> u16) \<Rightarrow> u8 \<Rightarrow> u8 \<Rightarrow> u32 list" where
  "slot_functions w bus slot =
     (if pci_present w (PCI_ADDRESS bus slot 0) then
        PCI_ADDRESS bus slot 0 # (if pci_multi w (PCI_ADDRESS bus slot 0)
          then takeWhile (pci_present w) (map (PCI_ADDRESS bus slot) [1, 2, 3, 4, 5, 6, 7]) else [])
      else [])"

definition bus_functions :: "(u32 \<Rightarrow> u8 \<Rightarrow> u16) \<Rightarrow> u8 \<Rightarrow> u32 list" where
  "bus_functions w bus = concat (map (\<lambda>slot. slot_functions w bus (of_nat slot)) [0..<32])"

definition pci_functions :: "(u32 \<Rightarrow> u8 \<Rightarrow> u16) \<Rightarrow> u32 list" where
  "pci_functions w =
     (if pci_multi w (PCI_ADDRESS 0 0 0)
      then concat (map (bus_functions w) (takeWhile (\<lambda>f. pci_present w (PCI_ADDRESS 0 0 f)) [0, 1, 2, 3, 4, 5, 6, 7]))
      else bus_functions w 0)"

text \<open>
  The hypotheses of the scan: the bridge, and drivers that return, leave the words that the scan
  looks at, and are seen in the ghost \<open>log\<close> of the state, which the port accesses do not touch.
\<close>

definition scan_env :: "'d ports \<Rightarrow> ('d \<Rightarrow> u32 \<Rightarrow> u32) \<Rightarrow> ('d \<Rightarrow> (pci_driver \<times> u32) list) \<Rightarrow> (pci_driver \<Rightarrow> u32 \<Rightarrow> 'd \<Rightarrow> 'd res) \<Rightarrow> bool" where
  "scan_env io view log drv \<longleftrightarrow> bridge_ok io view {} \<and>
     (\<forall>a d. log (snd (p_inl io PCI_CONFIG_DAT (p_outl io PCI_CONFIG_CMD a d))) = log d) \<and>
     (\<forall>k a d. \<exists>d'. drv k a d = Inr d' \<and> pci_ids view d' = pci_ids view d \<and> log d' = log d @ [(k, a)])"

definition scanned :: "('d \<Rightarrow> u32 \<Rightarrow> u32) \<Rightarrow> ('d \<Rightarrow> (pci_driver \<times> u32) list) \<Rightarrow> 'd \<Rightarrow> (pci_driver \<times> u32) list \<Rightarrow> 'd res \<Rightarrow> bool" where
  "scanned view log d l r \<longleftrightarrow> (\<exists>d'. r = Inr d' \<and> pci_ids view d' = pci_ids view d \<and> log d' = log d @ l)"

lemma scanned_bind:
  assumes "scanned view log d l r" "\<And>d'. pci_ids view d' = pci_ids view d \<Longrightarrow> scanned view log d' m (f d')"
  shows "scanned view log d (l @ m) (bindR r f)"
  using assms by (fastforce simp: scanned_def)

lemma scanned_same: "pci_ids view d' = pci_ids view d \<Longrightarrow> log d' = log d \<Longrightarrow> scanned view log d' l r \<Longrightarrow> scanned view log d l r"
  by (simp add: scanned_def)

lemma scanned_Inr: "scanned view log d [] (Inr d)"
  by (simp add: scanned_def)

lemma scan_getw:
  assumes "scan_env io view log drv"
  obtains d' where "pci_config_getw io a off d = (pci_word (view d) a off, d')" "pci_ids view d' = pci_ids view d" "log d' = log d" "view d' = view d"
proof -
  have b: "bridge_ok io view {}" using assms by (simp add: scan_env_def)
  have "log (snd (pci_config_getw io a off d)) = log d"
    using assms by (simp add: scan_env_def pci_config_getw_def Let_def split_def)
  moreover have "view (snd (pci_config_getw io a off d)) = view d" by (rule getw_view(2) [OF b])
  moreover have "pci_ids view (snd (pci_config_getw io a off d)) = pci_ids view d" by (simp only: pci_ids_def getw_view(2) [OF b])
  moreover have "pci_config_getw io a off d = (pci_word (view d) a off, snd (pci_config_getw io a off d))"
    by (simp add: prod_eq_iff getw_view(1) [OF b])
  ultimately show thesis using that by blast
qed

lemma class_code:
  fixes lo hi :: u16
  shows "(ucast (drop_bit 16 (drop_bit 8 (ucast lo OR push_bit 16 (ucast hi) :: u32) AND 0xFFFFFF) AND 0xFF) :: u8) = ucast (drop_bit 8 hi)"
    "(ucast (drop_bit 8 (drop_bit 8 (ucast lo OR push_bit 16 (ucast hi) :: u32) AND 0xFFFFFF) AND 0xFF) :: u8) = ucast hi"
proof -
  have m: "(0xFF :: u32) = mask 8" "(0xFFFFFF :: u32) = mask 24" by (simp_all add: mask_eq_exp_minus_1)
  have l: "\<not> bit lo (n + 24)" "\<not> bit lo (n + 16)" for n using bit_imp_le_length [of lo] by fastforce+
  show "(ucast (drop_bit 16 (drop_bit 8 (ucast lo OR push_bit 16 (ucast hi) :: u32) AND 0xFFFFFF) AND 0xFF) :: u8) = ucast (drop_bit 8 hi)"
    "(ucast (drop_bit 8 (drop_bit 8 (ucast lo OR push_bit 16 (ucast hi) :: u32) AND 0xFFFFFF) AND 0xFF) :: u8) = ucast hi"
    unfolding m by (rule bit_word_eqI; simp add: bit_simps l ac_simps)+
qed

lemma scan_func_ok:
  assumes "scan_env io view log drv" "w = pci_ids view d" "unat (pci_class w a) < 18"
  shows "scanned view log d (pci_driver_of w a) (pci_scan_func io drv a d)"
proof -
  note g = scan_getw [OF assms(1)]
  obtain d1 where d1: "pci_config_getw io a 0x08 d = (pci_word (view d) a 0x08, d1)" "pci_ids view d1 = pci_ids view d" "log d1 = log d" "view d1 = view d" by (rule g)
  obtain d2 where d2: "pci_config_getw io a 0x0A d1 = (pci_word (view d) a 0x0A, d2)" "pci_ids view d2 = pci_ids view d" "log d2 = log d" "view d2 = view d"
    using g [of a "0x0A" d1] d1 by metis
  obtain d3 where d3: "pci_config_getw io a 0x00 d2 = (pci_word (view d) a 0x00, d3)" "pci_ids view d3 = pci_ids view d" "log d3 = log d" "view d3 = view d"
    using g [of a "0x00" d2] d2 by metis
  obtain d4 where d4: "pci_config_getw io a 0x02 d3 = (pci_word (view d) a 0x02, d4)" "pci_ids view d4 = pci_ids view d" "log d4 = log d"
    using g [of a "0x02" d3] d3 by metis
  have w: "w a 0x00 = pci_word (view d) a 0x00" "w a 0x02 = pci_word (view d) a 0x02" "w a 0x0A = pci_word (view d) a 0x0A"
    by (simp_all add: assms(2) pci_ids_def scan_regs_def)
  have drv: "scanned view log d [(k, a)] (drv k a d4)" for k
    using assms(1) d4(2,3) unfolding scan_env_def scanned_def by metis
  have none: "scanned view log d [] (Inr d4)" using d4 by (simp add: scanned_def)
  have eq: "pci_scan_func io drv a d =
      (if pci_class w a = 0x06 \<and> pci_subclass w a = 0x04 then Inr d4
       else if pci_class w a = 0x01 then (if pci_subclass w a = 0x01 then drv Drv_ide a d4 else Inr d4)
       else if pci_class w a = 0x02 then (if pci_subclass w a = 0x00 \<and> w a 0x00 = 0x10EC \<and> w a 0x02 = 0x8139 then drv Drv_rtl8139 a d4 else Inr d4)
       else Inr d4)"
  proof -
    have gl: "pci_config_getl io a 0x08 d = (ucast (pci_word (view d) a 0x08) OR push_bit 16 (ucast (pci_word (view d) a 0x0A)), d2)"
      by (simp add: pci_config_getl_def d1 d2)
    have c: "\<not> pci_class_names \<le> unat (ucast (drop_bit 8 (pci_word (view d) a 0x0A)) :: u8)"
      using assms(3) by (simp only: pci_class_def w pci_class_names_def not_le)
    show ?thesis
      by (simp only: pci_scan_func_def pci_conf_defs gl d3 d4 Let_def prod.case class_code pci_class_def pci_subclass_def w c if_False)
  qed
  show ?thesis unfolding eq pci_driver_of_def using drv none by auto
qed

lemma pci_funcs_ok:
  assumes absent: "\<And>f d'. pci_ids view d' = pci_ids view d \<Longrightarrow> fst (absent d' f) = (\<not> P f) \<and> pci_ids view (snd (absent d' f)) = pci_ids view d \<and> log (snd (absent d' f)) = log d'"
    and scan: "\<And>f d'. pci_ids view d' = pci_ids view d \<Longrightarrow> f \<in> set (takeWhile P (map (\<lambda>i. f0 + of_nat i) [0..<n])) \<Longrightarrow> scanned view log d' (L f) (scan f d')"
    and ids: "pci_ids view d0 = pci_ids view d"
  shows "scanned view log d0 (concat (map L (takeWhile P (map (\<lambda>i. f0 + of_nat i) [0..<n])))) (pci_funcs absent scan f0 n d0)"
  using scan ids
proof (induction n arbitrary: f0 d0)
  case 0
  then show ?case by (simp add: scanned_Inr)
next
  case (Suc n)
  obtain a d1 where a: "absent d0 f0 = (a, d1)" by fastforce
  then have d1: "a = (\<not> P f0)" "pci_ids view d1 = pci_ids view d" "log d1 = log d0" using absent [OF Suc.prems(2), of f0] by simp_all
  have l: "map (\<lambda>i. f0 + of_nat i) [0..<Suc n] = f0 # map (\<lambda>i. (f0 + 1) + of_nat i) [0..<n]"
    by (simp add: upt_conv_Cons map_Suc_upt [symmetric] add.assoc del: upt_Suc)
  show ?case
  proof (cases "P f0")
    case True
    have "scanned view log d1 (L f0) (scan f0 d1)" by (rule Suc.prems(1) [OF d1(2)]) (simp only: l, simp add: True)
    moreover have "scanned view log d' (concat (map L (takeWhile P (map (\<lambda>i. (f0 + 1) + of_nat i) [0..<n])))) (pci_funcs absent scan (f0 + 1) n d')"
      if "pci_ids view d' = pci_ids view d1" for d'
    proof (rule Suc.IH)
      show "pci_ids view d' = pci_ids view d" using that d1 by simp
      fix f d'' assume "pci_ids view d'' = pci_ids view d" "f \<in> set (takeWhile P (map (\<lambda>i. f0 + 1 + of_nat i) [0..<n]))"
      then show "scanned view log d'' (L f) (scan f d'')" by (intro Suc.prems(1)) (simp_all only: l, simp_all add: True)
    qed
    ultimately have "scanned view log d1 (L f0 @ concat (map L (takeWhile P (map (\<lambda>i. (f0 + 1) + of_nat i) [0..<n]))))
        (bindR (scan f0 d1) (pci_funcs absent scan (f0 + 1) n))" by (rule scanned_bind)
    then show ?thesis
      using scanned_same [of view d1 d0 log] d1 Suc.prems(2) a True by (simp only: l) simp
  next
    case False
    then show ?thesis
      using scanned_same [of view d1 d0 log] scanned_Inr [of view log d1] d1 Suc.prems(2) a by (simp only: l) simp
  qed
qed

lemma nz_bit7: "nz ((x AND 0xFF) AND 0x80 :: u16) \<longleftrightarrow> bit x 7"
proof -
  have m: "(0xFF :: u16) = mask 8" "(0x80 :: u16) = push_bit 7 1" by (simp_all add: mask_eq_exp_minus_1)
  have h: "bit (0x80 :: u16) n \<longleftrightarrow> n = 7" for n
    unfolding m(2) bit_push_bit_iff possible_bit_word by (auto simp: bit_1_iff)
  have "(x AND mask 8) AND 0x80 = (if bit x 7 then 0x80 else 0)"
    by (rule bit_word_eqI, simp only: bit_and_iff bit_mask_iff h split: if_split) (auto simp: h)
  then show ?thesis unfolding m(1) by simp
qed

lemma scan_slot_ok:
  assumes "scan_env io view log drv" "w = pci_ids view d" "\<forall>a \<in> set (slot_functions w bus slot). unat (pci_class w a) < 18"
  shows "scanned view log d (concat (map (pci_driver_of w) (slot_functions w bus slot))) (pci_scan_slot io drv bus slot d)"
proof -
  note g = scan_getw [OF assms(1)]
  let ?a = "PCI_ADDRESS bus slot"
  obtain d1 where d1: "pci_config_getw io (?a 0) 0x00 d = (pci_word (view d) (?a 0) 0x00, d1)" "pci_ids view d1 = pci_ids view d" "log d1 = log d" "view d1 = view d" by (rule g)
  obtain d2 where d2: "pci_config_getw io (?a 0) 0x0E d1 = (pci_word (view d) (?a 0) 0x0E, d2)" "pci_ids view d2 = pci_ids view d" "log d2 = log d" "view d2 = view d"
    using g [of "?a 0" "0x0E" d1] d1 by metis
  have w: "w (?a 0) 0x00 = pci_word (view d) (?a 0) 0x00" "w (?a 0) 0x0E = pci_word (view d) (?a 0) 0x0E"
    by (simp_all add: assms(2) pci_ids_def scan_regs_def)
  show ?thesis
  proof (cases "pci_present w (?a 0)")
    case False
    then have "pci_scan_slot io drv bus slot d = Inr d1"
      by (simp add: pci_scan_slot_def pci_conf_defs d1 pci_present_def w)
    then show ?thesis using False d1 by (simp add: slot_functions_def scanned_def)
  next
    case True
    let ?l = "takeWhile (pci_present w) (map ?a [1, 2, 3, 4, 5, 6, 7])"
    have eq: "pci_scan_slot io drv bus slot d = bindR (pci_scan_func io drv (?a 0) d2) (\<lambda>d.
        if pci_multi w (?a 0) then pci_funcs (pci_absent io bus slot) (\<lambda>f. pci_scan_func io drv (?a f)) 1 7 d else Inr d)"
      using True by (simp add: pci_scan_slot_def pci_conf_defs d1 d2 pci_present_def pci_multi_def w nz_bit7)
    have "scanned view log d2 (pci_driver_of w (?a 0)) (pci_scan_func io drv (?a 0) d2)"
      using assms d2(2) True by (intro scan_func_ok) (simp_all add: slot_functions_def)
    moreover have "scanned view log d' (if pci_multi w (?a 0) then concat (map (pci_driver_of w) ?l) else [])
        (if pci_multi w (?a 0) then pci_funcs (pci_absent io bus slot) (\<lambda>f. pci_scan_func io drv (?a f)) 1 7 d' else Inr d')"
      if d': "pci_ids view d' = pci_ids view d2" for d'
    proof (cases "pci_multi w (?a 0)")
      case m: True
      let ?P = "\<lambda>f. pci_present w (?a f)" and ?fs = "map (\<lambda>i. (1 :: u8) + of_nat i) [0..<7]"
      have fs: "?fs = [1, 2, 3, 4, 5, 6, 7]" by (simp add: upt_rec)
      have l: "?l = map ?a (takeWhile ?P ?fs)" unfolding fs takeWhile_map by (simp add: comp_def)
      have "scanned view log d' (concat (map (\<lambda>f. pci_driver_of w (?a f)) (takeWhile ?P ?fs)))
          (pci_funcs (pci_absent io bus slot) (\<lambda>f. pci_scan_func io drv (?a f)) 1 7 d')"
      proof (rule pci_funcs_ok)
        fix f d'' assume i: "pci_ids view d'' = pci_ids view d'"
        obtain d3 where d3: "pci_config_getw io (?a f) 0x00 d'' = (pci_word (view d'') (?a f) 0x00, d3)" "pci_ids view d3 = pci_ids view d''" "log d3 = log d''" by (rule g)
        have "pci_word (view d'') (?a f) 0x00 = w (?a f) 0x00"
        proof -
          have "pci_word (view d'') (?a f) 0x00 = pci_ids view d'' (?a f) 0x00" by (simp add: pci_ids_def scan_regs_def)
          then show ?thesis using i d' d2(2) assms(2) by simp
        qed
        then show "fst (pci_absent io bus slot d'' f) = (\<not> ?P f) \<and> pci_ids view (snd (pci_absent io bus slot d'' f)) = pci_ids view d' \<and>
            log (snd (pci_absent io bus slot d'' f)) = log d''"
          using d3 i by (simp add: pci_absent_def pci_conf_defs pci_present_def)
      next
        fix f d'' assume i: "pci_ids view d'' = pci_ids view d'" and f: "f \<in> set (takeWhile ?P ?fs)"
        have "?a f \<in> set ?l" unfolding l set_map using f by (rule imageI)
        then have "unat (pci_class w (?a f)) < 18" using assms(3) True m by (simp only: slot_functions_def if_True list.set) blast
        then show "scanned view log d'' (pci_driver_of w (?a f)) (pci_scan_func io drv (?a f) d'')"
          using assms(1,2) d' d2(2) i by (intro scan_func_ok) simp_all
      qed simp
      then show ?thesis using m l by (simp add: comp_def)
    qed (simp add: scanned_Inr)
    ultimately have "scanned view log d2 (pci_driver_of w (?a 0) @ (if pci_multi w (?a 0) then concat (map (pci_driver_of w) ?l) else [])) (pci_scan_slot io drv bus slot d)"
      unfolding eq by (rule scanned_bind)
    then show ?thesis using True d2 scanned_same [of view d2 d log] by (auto simp: slot_functions_def split: if_splits)
  qed
qed

lemma foldR_scanned:
  assumes "\<And>x d'. x \<in> set xs \<Longrightarrow> pci_ids view d' = pci_ids view d \<Longrightarrow> scanned view log d' (L x) (f x d')" "pci_ids view d0 = pci_ids view d"
  shows "scanned view log d0 (concat (map L xs)) (foldR f xs d0)"
  using assms
proof (induction xs arbitrary: d0)
  case (Cons x xs)
  show ?case
    unfolding foldR.simps list.map concat.simps
  proof (rule scanned_bind)
    show "scanned view log d0 (L x) (f x d0)" using Cons.prems by simp
    fix d' assume "pci_ids view d' = pci_ids view d0"
    then show "scanned view log d' (concat (map L xs)) (foldR f xs d')" using Cons by simp
  qed
qed (simp add: scanned_Inr)

lemma concat_map_concat: "concat (map f (concat xss)) = concat (map (\<lambda>xs. concat (map f xs)) xss)"
  by (induction xss) auto

lemma scan_bus_ok:
  assumes "scan_env io view log drv" "w = pci_ids view d" "\<forall>a \<in> set (bus_functions w bus). unat (pci_class w a) < 18"
  shows "scanned view log d (concat (map (pci_driver_of w) (bus_functions w bus))) (pci_scan_bus io drv bus d)"
proof -
  have "scanned view log d' (concat (map (pci_driver_of w) (slot_functions w bus (of_nat slot)))) (pci_scan_slot io drv bus (of_nat slot) d')"
    if "slot \<in> set [0..<32]" "pci_ids view d' = pci_ids view d" for slot d'
    using that assms by (intro scan_slot_ok) (auto simp: bus_functions_def)
  then show ?thesis
    unfolding pci_scan_bus_def bus_functions_def concat_map_concat map_map comp_def by (intro foldR_scanned [where d = d]) simp_all
qed

lemma scan_devices_ok:
  assumes "scan_env io view log drv" "w = pci_ids view d" "\<forall>a \<in> set (pci_functions w). unat (pci_class w a) < 18"
  shows "scanned view log d (concat (map (pci_driver_of w) (pci_functions w))) (x86_pci_init io drv d)"
proof -
  note g = scan_getw [OF assms(1)]
  let ?a = "PCI_ADDRESS 0 0 0"
  obtain d1 where d1: "pci_config_getw io ?a 0x0E d = (pci_word (view d) ?a 0x0E, d1)" "pci_ids view d1 = pci_ids view d" "log d1 = log d" by (rule g)
  have w: "w ?a 0x0E = pci_word (view d) ?a 0x0E" by (simp add: assms(2) pci_ids_def scan_regs_def)
  have bus: "scanned view log d' (concat (map (pci_driver_of w) (bus_functions w b))) (pci_scan_bus io drv b d')"
    if "pci_ids view d' = pci_ids view d" "set (bus_functions w b) \<subseteq> set (pci_functions w)" for d' b
    using that assms by (intro scan_bus_ok) auto
  show ?thesis
  proof (cases "pci_multi w ?a")
    case False
    then have "x86_pci_init io drv d = pci_scan_bus io drv 0 d1"
      by (simp add: x86_pci_init_def pci_scan_devices_def pci_conf_defs d1 nz_bit7 pci_multi_def w)
    moreover have "pci_functions w = bus_functions w 0" using False by (simp add: pci_functions_def)
    ultimately show ?thesis using bus [of d1 0] d1 scanned_same [of view d1 d log] by simp
  next
    case True
    let ?P = "\<lambda>f. pci_present w (PCI_ADDRESS 0 0 f)" and ?fs = "map (\<lambda>i. (0 :: u8) + of_nat i) [0..<8]"
    have fs: "?fs = [0, 1, 2, 3, 4, 5, 6, 7]" by (simp add: upt_rec)
    have l: "pci_functions w = concat (map (bus_functions w) (takeWhile ?P ?fs))" unfolding fs using True by (simp add: pci_functions_def)
    have eq: "x86_pci_init io drv d = pci_funcs (pci_absent io 0 0) (pci_scan_bus io drv) 0 8 d1"
      using True by (simp add: x86_pci_init_def pci_scan_devices_def pci_conf_defs d1 nz_bit7 pci_multi_def w)
    have "scanned view log d1 (concat (map (\<lambda>b. concat (map (pci_driver_of w) (bus_functions w b))) (takeWhile ?P ?fs)))
        (pci_funcs (pci_absent io 0 0) (pci_scan_bus io drv) 0 8 d1)"
    proof (rule pci_funcs_ok)
      fix f d'' assume i: "pci_ids view d'' = pci_ids view d"
      obtain d3 where d3: "pci_config_getw io (PCI_ADDRESS 0 0 f) 0x00 d'' = (pci_word (view d'') (PCI_ADDRESS 0 0 f) 0x00, d3)"
        "pci_ids view d3 = pci_ids view d''" "log d3 = log d''" by (rule g)
      have "pci_word (view d'') (PCI_ADDRESS 0 0 f) 0x00 = pci_ids view d'' (PCI_ADDRESS 0 0 f) 0x00" by (simp add: pci_ids_def scan_regs_def)
      then show "fst (pci_absent io 0 0 d'' f) = (\<not> ?P f) \<and> pci_ids view (snd (pci_absent io 0 0 d'' f)) = pci_ids view d \<and>
          log (snd (pci_absent io 0 0 d'' f)) = log d''"
        using d3 i assms(2) by (simp add: pci_absent_def pci_conf_defs pci_present_def)
    next
      fix f d'' assume i: "pci_ids view d'' = pci_ids view d" and f: "f \<in> set (takeWhile ?P ?fs)"
      show "scanned view log d'' (concat (map (pci_driver_of w) (bus_functions w f))) (pci_scan_bus io drv f d'')"
        by (rule bus [OF i]) (unfold l set_concat set_map, use f in blast)
    qed (rule d1(2))
    then show ?thesis using d1 scanned_same [of view d1 d log] unfolding eq l concat_map_concat map_map comp_def by simp
  qed
qed


text \<open>A machine with an IDE controller in slot 1 of bus 0.\<close>

definition ex_log_bridge :: "((u32 \<times> (u32 \<Rightarrow> u32)) \<times> (pci_driver \<times> u32) list) ports" where
  "ex_log_bridge = \<lparr>p_outb = (\<lambda>_ _ d. d), p_inb = (\<lambda>_ d. (0, d)),
     p_outl = (\<lambda>p v (d, l). (p_outl ram_bridge p v d, l)),
     p_inl = (\<lambda>p (d, l). (let (v, d) = p_inl ram_bridge p d in (v, (d, l))))\<rparr>"

definition ex_drv :: "pci_driver \<Rightarrow> u32 \<Rightarrow> ((u32 \<times> (u32 \<Rightarrow> u32)) \<times> (pci_driver \<times> u32) list) \<Rightarrow> ((u32 \<times> (u32 \<Rightarrow> u32)) \<times> (pci_driver \<times> u32) list) res" where
  "ex_drv k a d = Inr (fst d, snd d @ [(k, a)])"

definition ex_conf :: "u32 \<Rightarrow> u32" where
  "ex_conf a = (if a = 0x8000000C then 0 else if a = 0x80000800 then 0x70108086 else if a = 0x80000808 then 0x01018000
     else if a = 0x8000080C then 0 else 0xFFFFFFFF)"

lemma ex_scan_env: "scan_env ex_log_bridge (\<lambda>d. snd (fst d)) snd ex_drv"
proof -
  have "pci_ids (\<lambda>d. snd (fst d)) (x, l) = pci_ids (\<lambda>d. snd (fst d)) (x, k)" for x and l k :: "(pci_driver \<times> u32) list"
    unfolding pci_ids_def fst_conv by (rule refl)
  then show ?thesis
    by (simp add: scan_env_def bridge_ok_def ex_log_bridge_def ex_drv_def ram_bridge_def PCI_CONFIG_CMD_def PCI_CONFIG_DAT_def split_def Let_def) blast
qed

lemma ex_functions: "pci_functions (pci_ids (\<lambda>d. snd (fst d)) ((0, ex_conf), [])) = [PCI_ADDRESS 0 1 0]"
  by code_simp


end
