(* ===== verification/Ide.thy ===== *)
theory Ide
  imports Pci
begin

text \<open>
  The IDE driver (\<open>dev/pci/ide.c\<close>): the registers of the two channels behind the ports, and the search for
  drives when the scan of the bus finds the controller. The lemmas show what is recorded of a drive, that waiting for
  a drive ends when the drive answers, and which ports the control register is at.
\<close>

section \<open>Registers\<close>

record ide_channel =
  ch_iobase :: u32
  ch_ctlbase :: u32
  ch_bmide :: u32
  ch_noirq :: u8

record ide_dev =
  id_present :: u8
  id_chan :: u8
  id_drive :: u8
  id_type :: u8
  id_sig :: u16
  id_caps :: u16
  id_command_sets :: u32
  id_size :: u32
  id_model :: bytes

record pci_ide =
  ide_addr :: u32
  ide_irq :: u32
  ide_chan :: "ide_channel list"
  ide_devs :: "ide_dev list"

definition ATA_REG_DATA :: u8 where "ATA_REG_DATA = 0x00"
definition ATA_REG_HDDEVSEL :: u8 where "ATA_REG_HDDEVSEL = 0x06"
definition ATA_REG_COMMAND :: u8 where "ATA_REG_COMMAND = 0x07"
definition ATA_REG_STATUS :: u8 where "ATA_REG_STATUS = 0x07"
definition ATA_REG_CONTROL :: u8 where "ATA_REG_CONTROL = 0x0C"
definition ATA_REG_ALTSTATUS :: u8 where "ATA_REG_ALTSTATUS = 0x0C"

text \<open>The port of a register of a channel.\<close>

definition ide_port :: "ide_channel \<Rightarrow> u8 \<Rightarrow> u16 option" where
  "ide_port c reg =
     (if reg < 0x08 then Some (ucast (ch_iobase c + ucast reg))
      else if reg < 0x0C then Some (ucast (ch_iobase c + ucast reg - 0x06))
      else if reg < 0x0E then Some (ucast (ch_ctlbase c + ucast reg - 0x0A))
      else if reg < 0x16 then Some (ucast (ch_bmide c + ucast reg - 0x0E))
      else None)"

definition ide_outb :: "'d ports \<Rightarrow> ide_channel \<Rightarrow> u8 \<Rightarrow> u8 \<Rightarrow> 'd \<Rightarrow> 'd" where
  "ide_outb io c reg data d = (case ide_port c reg of Some p \<Rightarrow> p_outb io p data d | None \<Rightarrow> d)"

text \<open>The calls of \<open>ide_write\<close> to itself write the control register and call nothing further.\<close>

definition ide_write :: "'d ports \<Rightarrow> pci_ide \<Rightarrow> nat \<Rightarrow> u8 \<Rightarrow> u8 \<Rightarrow> 'd \<Rightarrow> 'd res" where
  "ide_write io ide chan reg data d =
     bindR (rd (ide_chan ide) chan) (\<lambda>c.
     let d = (if reg > 0x07 \<and> reg < 0x0C then ide_outb io c ATA_REG_CONTROL (0x80 OR ch_noirq c) d else d);
         d = ide_outb io c reg data d in
     Inr (if reg > 0x07 \<and> reg < 0x0C then ide_outb io c ATA_REG_CONTROL (ch_noirq c) d else d))"

text \<open>Reading a register above \<open>0x15\<close> would return an uninitialised variable: a fault.\<close>

definition ide_read :: "'d ports \<Rightarrow> pci_ide \<Rightarrow> nat \<Rightarrow> u8 \<Rightarrow> 'd \<Rightarrow> (u8 \<times> 'd) res" where
  "ide_read io ide chan reg d =
     bindR (rd (ide_chan ide) chan) (\<lambda>c.
     let d = (if unat reg > 0x207 \<and> reg < 0x0C then ide_outb io c ATA_REG_CONTROL (0x80 OR ch_noirq c) d else d) in
     case ide_port c reg of None \<Rightarrow> Inl OutOfBounds
     | Some p \<Rightarrow>
       let (r, d) = p_inb io p d in
       Inr (r, if reg > 0x07 \<and> reg < 0x0C then ide_outb io c ATA_REG_CONTROL (ch_noirq c) d else d))"

fun block_loop :: "'d ports \<Rightarrow> u16 option \<Rightarrow> nat \<Rightarrow> nat \<Rightarrow> u32 list \<Rightarrow> 'd \<Rightarrow> (u32 list \<times> 'd) res" where
  "block_loop io p i 0 buf d = Inr (buf, d)"
| "block_loop io p i (Suc n) buf d =
     (case p of None \<Rightarrow> block_loop io p (Suc i) n buf d
      | Some q \<Rightarrow> let (v, d) = p_inl io q d in bindR (wr buf i v) (\<lambda>buf. block_loop io p (Suc i) n buf d))"

definition ide_read_block :: "'d ports \<Rightarrow> pci_ide \<Rightarrow> nat \<Rightarrow> u8 \<Rightarrow> u32 list \<Rightarrow> nat \<Rightarrow> 'd \<Rightarrow> (u32 list \<times> 'd) res" where
  "ide_read_block io ide chan reg buf count d =
     bindR (rd (ide_chan ide) chan) (\<lambda>c.
     let d = (if unat reg > 0x207 \<and> reg < 0x0C then ide_outb io c ATA_REG_CONTROL (0x80 OR ch_noirq c) d else d) in
     bindR (block_loop io (ide_port c reg) 0 count buf d) (\<lambda>(buf, d).
     Inr (buf, if reg > 0x07 \<and> reg < 0x0C then ide_outb io c ATA_REG_CONTROL (ch_noirq c) d else d)))"

definition pci_ide_irq_handler :: "pci_ide \<Rightarrow> u32 \<Rightarrow> int" where
  "pci_ide_irq_handler ide irq = (if irq = ide_irq ide then 0 else - 1)"


section \<open>The search for drives\<close>

text \<open>The numbers are little-endian.\<close>

definition dword_bytes :: "u32 \<Rightarrow> bytes" where
  "dword_bytes w = [ucast w, ucast (drop_bit 8 w), ucast (drop_bit 16 w), ucast (drop_bit 24 w)]"

definition id_word :: "bytes \<Rightarrow> nat \<Rightarrow> u16" where
  "id_word b i = ucast (b ! i) OR push_bit 8 (ucast (b ! (i + 1)))"

definition id_dword :: "bytes \<Rightarrow> nat \<Rightarrow> u32" where
  "id_dword b i = ucast (id_word b i) OR push_bit 16 (ucast (id_word b (i + 2)))"

definition swap_word :: "u8 \<Rightarrow> u8 \<Rightarrow> u8 \<Rightarrow> u8 \<Rightarrow> u32" where
  "swap_word a b c e = ((push_bit 8 (ucast a) OR ucast b) OR push_bit 24 (ucast c)) OR push_bit 16 (ucast e)"

text \<open>One step of the swap: four characters are read, and written back as a number.\<close>

definition swap_step :: "nat \<Rightarrow> bytes \<Rightarrow> bytes res" where
  "swap_step i m =
     bindR (rd m i) (\<lambda>a. bindR (rd m (i + 1)) (\<lambda>b. bindR (rd m (i + 2)) (\<lambda>c. bindR (rd m (i + 3)) (\<lambda>e.
     let w = swap_word a b c e in
     Inr (m[i := ucast w, i + 1 := ucast (drop_bit 8 w), i + 2 := ucast (drop_bit 16 w), i + 3 := ucast (drop_bit 24 w)])))))"

fun trim_loop :: "nat \<Rightarrow> bytes \<Rightarrow> bytes res" where
  "trim_loop 0 m = Inr m"
| "trim_loop (Suc i) m = bindR (rd m i) (\<lambda>c. if isspace c then bindR (wr m i 0) (trim_loop i) else Inr m)"

definition ide_model :: "bytes \<Rightarrow> bytes \<Rightarrow> bytes res" where
  "ide_model model idb =
     bindR (strncpy model (drop 54 idb) 40) (\<lambda>m.
     bindR (foldR swap_step (map (\<lambda>k. 4 * k) [0..<10]) m) (\<lambda>m.
     bindR (wr m 40 0) (trim_loop 40)))"

definition ide_identify :: "u8 \<Rightarrow> u8 \<Rightarrow> bytes \<Rightarrow> ide_dev \<Rightarrow> ide_dev res" where
  "ide_identify chn n idb dev =
     bindR (ide_model (id_model dev) idb) (\<lambda>m.
     Inr (dev\<lparr>id_present := 1, id_chan := chn, id_drive := n, id_type := 0, id_sig := id_word idb 0, id_caps := id_word idb 98,
       id_command_sets := id_dword idb 164, id_model := m\<rparr>))"

fun alt_reads :: "nat \<Rightarrow> 'd ports \<Rightarrow> pci_ide \<Rightarrow> nat \<Rightarrow> 'd \<Rightarrow> 'd res" where
  "alt_reads 0 io ide chn d = Inr d"
| "alt_reads (Suc n) io ide chn d = bindR (ide_read io ide chn ATA_REG_ALTSTATUS d) (\<lambda>(_, d). alt_reads n io ide chn d)"

text \<open>The wait for the drive; \<open>True\<close> is an error. A wait longer than the fuel is \<open>Diverges\<close>.\<close>

fun ide_poll :: "nat \<Rightarrow> 'd ports \<Rightarrow> pci_ide \<Rightarrow> nat \<Rightarrow> 'd \<Rightarrow> (bool \<times> 'd) res" where
  "ide_poll 0 io ide chn d = Inl Diverges"
| "ide_poll (Suc n) io ide chn d =
     bindR (ide_read io ide chn ATA_REG_STATUS d) (\<lambda>(r, d).
     if nz (r AND 0x01) then Inr (True, d)
     else if r AND 0x80 = 0 \<and> nz (r AND 0x40) then Inr (False, d)
     else ide_poll n io ide chn d)"

definition ide_probe :: "nat \<Rightarrow> 'd ports \<Rightarrow> nat \<Rightarrow> nat \<Rightarrow> pci_ide \<times> 'd \<Rightarrow> (pci_ide \<times> 'd) res" where
  "ide_probe fuel io chn n = (\<lambda>(ide, d).
     bindR (ide_write io ide chn ATA_REG_HDDEVSEL (0xA0 OR push_bit 4 (of_nat n)) d) (\<lambda>d.
     bindR (alt_reads 10 io ide chn d) (\<lambda>d.
     bindR (ide_write io ide chn ATA_REG_COMMAND 0xEC d) (\<lambda>d.
     bindR (alt_reads 10 io ide chn d) (\<lambda>d.
     bindR (ide_read io ide chn ATA_REG_STATUS d) (\<lambda>(r, d).
     if r = 0 then Inr (ide, d)
     else bindR (ide_poll fuel io ide chn d) (\<lambda>(e, d).
       if e then Inr (ide, d)
       else bindR (ide_read_block io ide chn ATA_REG_DATA (replicate 128 0) 128 d) (\<lambda>(ws, d).
         bindR (rd (ide_devs ide) (chn * 2 + n)) (\<lambda>dev.
         bindR (ide_identify (of_nat chn) (of_nat n) (concat (map dword_bytes ws)) dev) (\<lambda>dev.
         Inr (ide\<lparr>ide_devs := (ide_devs ide)[chn * 2 + n := dev]\<rparr>, d)))))))))))"

definition blank_dev :: ide_dev where
  "blank_dev = \<lparr>id_present = 0, id_chan = 0, id_drive = 0, id_type = 0, id_sig = 0, id_caps = 0, id_command_sets = 0, id_size = 0,
     id_model = replicate 41 0\<rparr>"

text \<open>The bases of one channel, with the addresses of old machines where the controller names none.\<close>

definition ide_bases :: "'d ports \<Rightarrow> u32 \<Rightarrow> u8 \<Rightarrow> u32 \<Rightarrow> u32 \<Rightarrow> 'd \<Rightarrow> (u32 \<times> u32) \<times> 'd" where
  "ide_bases io addr i def0 def1 d =
     (let (b, d) = pci_config_getl io addr (PCI_CONF_BAR0 + i * 8) d; b = (if b < 2 then def0 else b);
          (c, d) = pci_config_getl io addr (PCI_CONF_BAR0 + i * 8 + 4) d; c = (if c < 2 then def1 else c) in
      ((b, c), d))"

definition pci_ide_init :: "nat \<Rightarrow> 'd ports \<Rightarrow> u32 \<Rightarrow> 'd \<Rightarrow> (pci_ide \<times> 'd) res" where
  "pci_ide_init fuel io addr d =
     (let (cmd, d) = pci_config_getw io addr PCI_CONF_COMMAND d;
          d = pci_config_setw io addr PCI_CONF_COMMAND (cmd OR 6) d;
          (cmd, d) = pci_config_getw io addr PCI_CONF_COMMAND d;
          (bar4, d) = pci_config_getl io addr (PCI_CONF_BAR0 + 16) d;
          ((b0, c0), d) = ide_bases io addr 0 0x1F0 0x3F6 d;
          ((b1, c1), d) = ide_bases io addr 1 0x170 0x376 d;
          ide = \<lparr>ide_addr = addr, ide_irq = 14,
            ide_chan = [\<lparr>ch_iobase = b0, ch_ctlbase = c0, ch_bmide = bar4, ch_noirq = 0\<rparr>,
              \<lparr>ch_iobase = b1, ch_ctlbase = c1, ch_bmide = bar4 + 8, ch_noirq = 0\<rparr>],
            ide_devs = replicate 4 blank_dev\<rparr> in
      bindR (ide_write io ide 0 ATA_REG_CONTROL 2 d) (\<lambda>d.
      bindR (ide_write io ide 1 ATA_REG_CONTROL 2 d) (\<lambda>d.
      foldR (\<lambda>chn. foldR (ide_probe fuel io chn) [0, 1]) [0, 1] (ide, d))))"


section \<open>Waiting\<close>

lemma ide_poll_more: "ide_poll n io ide c d = Inr r \<Longrightarrow> n \<le> m \<Longrightarrow> ide_poll m io ide c d = Inr r"
proof (induction n arbitrary: d m)
  case (Suc n)
  from Suc.prems(2) obtain k where m: "m = Suc k" "n \<le> k" by (cases m) auto
  from Suc.prems(1) obtain a b where r: "ide_read io ide c ATA_REG_STATUS d = Inr (a, b)" by (auto simp: bindR_eq_Inr)
  then show ?case using Suc.prems(1) Suc.IH [OF _ m(2), of b] unfolding m by (auto split: if_splits)
qed simp

text \<open>
  The wait ends as soon as the drive answers: \<open>ans d k\<close> says that the status read after \<open>k\<close> others shows an error, or a
  drive that is ready and not busy.
\<close>

fun ans :: "'d ports \<Rightarrow> pci_ide \<Rightarrow> nat \<Rightarrow> nat \<Rightarrow> 'd \<Rightarrow> bool" where
  "ans io ide c 0 d = (case ide_read io ide c ATA_REG_STATUS d of Inl _ \<Rightarrow> False
     | Inr (r, d) \<Rightarrow> bit r 0 \<or> \<not> bit r 7 \<and> bit r 6)"
| "ans io ide c (Suc k) d = (case ide_read io ide c ATA_REG_STATUS d of Inl _ \<Rightarrow> False | Inr (r, d) \<Rightarrow> ans io ide c k d)"

lemma and_bits:
  fixes r :: u8
  shows "nz (r AND 0x01) \<longleftrightarrow> bit r 0" "r AND 0x80 = 0 \<longleftrightarrow> \<not> bit r 7" "nz (r AND 0x40) \<longleftrightarrow> bit r 6"
  using bit_iff_and_push_bit_not_eq_0 [of r 0] bit_iff_and_push_bit_not_eq_0 [of r 7] bit_iff_and_push_bit_not_eq_0 [of r 6]
  by simp_all

lemma ide_poll_returns:
  assumes "ans io ide c k d" "k < fuel"
  shows "\<exists>r. ide_poll fuel io ide c d = Inr r"
  using assms
proof (induction k arbitrary: d fuel)
  case 0
  then obtain n where "fuel = Suc n" by (cases fuel) auto
  then show ?case using 0 by (auto simp: and_bits split: sum.splits prod.splits)
next
  case (Suc k)
  then obtain n where "fuel = Suc n" "k < n" by (cases fuel) auto
  then show ?case using Suc by (auto simp: and_bits split: sum.splits prod.splits)
qed


section \<open>The ports of the control register\<close>

text \<open>
  With the addresses of old machines the control register, which the driver writes to switch the
  interrupts of the drives off, comes out as the data port of the first serial line and of the printer.
\<close>

lemma ide_control_port:
  assumes "ch_ctlbase c = 0x3F6"
  shows "ide_port c ATA_REG_CONTROL = Some 0x3F8"
  using assms by (simp add: ide_port_def ATA_REG_CONTROL_def)

lemma ide_control_port2:
  assumes "ch_ctlbase c = 0x376"
  shows "ide_port c ATA_REG_CONTROL = Some 0x378"
  using assms by (simp add: ide_port_def ATA_REG_CONTROL_def)


section \<open>The name of a drive\<close>

text \<open>The name is stored with the two characters of each word exchanged, and filled up with blanks.\<close>

fun swap_pairs :: "bytes \<Rightarrow> bytes" where
  "swap_pairs (a # b # s) = b # a # swap_pairs s"
| "swap_pairs s = s"

definition rstrip :: "bytes \<Rightarrow> bytes" where
  "rstrip s = rev (dropWhile isspace (rev s))"

lemma swap_bytes:
  "ucast (swap_word a b c e) = b" "ucast (drop_bit 8 (swap_word a b c e)) = a"
  "ucast (drop_bit 16 (swap_word a b c e)) = e" "ucast (drop_bit 24 (swap_word a b c e)) = c"
proof -
  have l: "\<not> bit x (n + 8)" "\<not> bit x (n + 16)" "\<not> bit x (n + 24)" for x :: u8 and n using bit_imp_le_length [of x] by fastforce+
  show "ucast (swap_word a b c e) = b" "ucast (drop_bit 8 (swap_word a b c e)) = a"
    "ucast (drop_bit 16 (swap_word a b c e)) = e" "ucast (drop_bit 24 (swap_word a b c e)) = c"
    unfolding swap_word_def by (rule bit_word_eqI; auto simp: bit_simps l dest: bit_imp_le_length)+
qed

lemma swap_step_ok: "swap_step (length p) (p @ a # b # c # e # q) = Inr (p @ b # a # e # c # q)"
proof -
  have n: "(p @ a # b # c # e # q) ! (length p + k) = (a # b # c # e # q) ! k" for k by (simp add: nth_append)
  have s: "2 = Suc (Suc 0)" "3 = Suc (Suc (Suc 0))" by simp_all
  have e: "(p @ a # b # c # e # q)[length p := b, length p + 1 := a, length p + 2 := e, length p + 3 := c] = p @ b # a # e # c # q"
    by (simp add: list_update_append s)
  show ?thesis
    using n [of 0] n [of 1] n [of 2] n [of 3] e by (simp add: swap_step_def rd_def swap_bytes Let_def)
qed

lemma swap_pairs_append: "even (length p) \<Longrightarrow> swap_pairs (p @ s) = swap_pairs p @ swap_pairs s"
  by (induction p rule: swap_pairs.induct) auto

lemma length_swap_pairs [simp]: "length (swap_pairs s) = length s"
  by (induction s rule: swap_pairs.induct) auto

lemma bindR_foldR_Nil: "bindR r (foldR f []) = r"
  by (cases r) simp_all

lemma length_ge4: "4 \<le> length xs \<Longrightarrow> \<exists>a b c e q. xs = a # b # c # e # q"
  by (auto simp: Suc_le_length_iff numeral_eq_Suc)

lemma swap_loop_ok:
  "4 * n \<le> length m \<Longrightarrow> foldR swap_step (map (\<lambda>k. 4 * k) [0..<n]) m = Inr (swap_pairs (take (4 * n) m) @ drop (4 * n) m)"
proof (induction n)
  case (Suc n)
  define p where "p = take (4 * n) m"
  have "4 \<le> length (drop (4 * n) m)" using Suc.prems by simp
  then obtain a b c e q where q: "drop (4 * n) m = a # b # c # e # q"
    using length_ge4 by blast
  have m: "m = p @ a # b # c # e # q" using append_take_drop_id [of "4 * n" m] q by (simp add: p_def)
  have l: "length p = 4 * n" using Suc.prems by (simp add: p_def)
  have "foldR swap_step (map (\<lambda>k. 4 * k) [0..<Suc n]) m = swap_step (4 * n) (swap_pairs p @ a # b # c # e # q)"
    using Suc q by (simp add: foldR_append bindR_foldR_Nil p_def)
  also have "\<dots> = Inr (swap_pairs p @ b # a # e # c # q)" using swap_step_ok [of "swap_pairs p" a b c e q] l by simp
  also have "\<dots> = Inr (swap_pairs (take (4 * Suc n) m) @ drop (4 * Suc n) m)"
    using l by (subst (1 2) m) (simp add: swap_pairs_append)
  finally show ?case .
qed simp

lemma rstrip_snoc: "rstrip (s @ [c]) = (if isspace c then rstrip s else s @ [c])"
  by (simp add: rstrip_def)

lemma length_rstrip: "length (rstrip s) \<le> length s"
  unfolding rstrip_def length_rev using length_dropWhile_le [of isspace "rev s"] by simp

lemma trim_loop_ok:
  "i \<le> length m \<Longrightarrow> trim_loop i m = Inr (rstrip (take i m) @ replicate (i - length (rstrip (take i m))) 0 @ drop i m)"
proof (induction i arbitrary: m)
  case 0
  then show ?case by (simp add: rstrip_def)
next
  case (Suc i)
  have t: "take (Suc i) m = take i m @ [m ! i]" using Suc.prems by (simp add: take_Suc_conv_app_nth)
  have d: "drop i m = m ! i # drop (Suc i) m" using Suc.prems by (simp add: Cons_nth_drop_Suc)
  show ?case
  proof (cases "isspace (m ! i)")
    case True
    have "drop i (m[i := 0]) = 0 # drop (Suc i) m" using Suc.prems by (simp add: drop_update_swap d)
    then have "trim_loop i (m[i := 0]) = Inr (rstrip (take i m) @ replicate (i - length (rstrip (take i m))) 0 @ 0 # drop (Suc i) m)"
      using Suc.IH [of "m[i := 0]"] Suc.prems by simp
    moreover have "Suc i - length (rstrip (take i m)) = Suc (i - length (rstrip (take i m)))"
      using length_rstrip [of "take i m"] Suc.prems by (simp add: Suc_diff_le)
    ultimately show ?thesis
      using True Suc.prems by (simp add: rd_def wr_def t rstrip_snoc replicate_app_Cons_same)
  next
    case False
    then show ?thesis using Suc.prems d by (simp add: rd_def t rstrip_snoc) (metis append_take_drop_id)
  qed
qed

lemma ide_model_ok:
  assumes "length model = 41" "length idb = 512" "0 \<notin> set (take 40 (drop 54 idb))"
  shows "ide_model model idb =
    (let t = rstrip (swap_pairs (take 40 (drop 54 idb))) in Inr (t @ replicate (41 - length t) 0))"
proof -
  let ?s = "take 40 (drop 54 idb)"
  have l: "length ?s = 40" using assms(2) by simp
  obtain x r where "drop 54 idb = ?s @ x # r"
  proof -
    have "drop 40 (drop 54 idb) \<noteq> []" using assms(2) by simp
    then obtain x r where "drop 40 (drop 54 idb) = x # r" by (cases "drop 40 (drop 54 idb)") auto
    then show thesis using that append_take_drop_id [of 40 "drop 54 idb"] by metis
  qed
  then have "strncpy model (drop 54 idb) 40 = Inr (?s @ drop 40 model)"
    using strncpy_loop_exact [OF assms(3), of model 0 x r] assms(1) l by (simp add: strncpy_def)
  moreover have "foldR swap_step (map (\<lambda>k. 4 * k) [0..<10]) (?s @ drop 40 model) = Inr (swap_pairs ?s @ drop 40 model)"
    using swap_loop_ok [of 10 "?s @ drop 40 model"] l by (simp del: upt_Suc)
  moreover have "drop 40 model = [model ! 40]" using assms(1) by (simp add: Cons_nth_drop_Suc [symmetric])
  then have "wr (swap_pairs ?s @ drop 40 model) 40 0 = Inr (swap_pairs ?s @ [0])"
    using l by (simp add: wr_def list_update_append)
  moreover have "trim_loop 40 (swap_pairs ?s @ [0]) = Inr (rstrip (swap_pairs ?s) @ replicate (40 - length (rstrip (swap_pairs ?s))) 0 @ [0])"
    using trim_loop_ok [of 40 "swap_pairs ?s @ [0]"] l by simp
  moreover have "replicate (40 - k) (0 :: u8) @ [0] = replicate (41 - k) 0" if "k \<le> 40" for k
    using that by (simp add: replicate_append_same Suc_diff_le flip: replicate_Suc)
  ultimately show ?thesis
    using length_rstrip [of "swap_pairs ?s"] l by (simp add: ide_model_def Let_def del: upt_Suc)
qed

end
