(* ===== verification/Hardware.thy ===== *)
theory Hardware
  imports Pci Kernel
begin

text \<open>
  The hardware of the PC (\<open>arch/x86/hw\<close>): the segment and interrupt tables, the interrupt
  controller, the timers and clocks, the serial line and the processor's features. The lemmas show that the
  packed table entries keep what is put into them, and how far the system time follows the timer.
\<close>

section \<open>gdt.c\<close>

record gdt_entry =
  limit_lo :: u16
  base_lo :: u16
  base_mi :: u8
  gdt_access :: u8
  gdt_flags :: u8
  base_hi :: u8

record tss =
  tss_esp0 :: u32
  tss_ss0 :: u32
  tss_flags :: u32

record gdt_state =
  s_gdt :: "gdt_entry list"
  x86_tss :: tss
  gdtr_size :: u16

definition GDT_ACC_AC :: u8 where "GDT_ACC_AC = 0x01"
definition GDT_ACC_RW :: u8 where "GDT_ACC_RW = 0x02"
definition GDT_ACC_EX :: u8 where "GDT_ACC_EX = 0x08"
definition GDT_ACC_S :: u8 where "GDT_ACC_S = 0x10"
definition GDT_ACC_R0 :: u8 where "GDT_ACC_R0 = 0x00"
definition GDT_ACC_R3 :: u8 where "GDT_ACC_R3 = 0x60"
definition GDT_ACC_PR :: u8 where "GDT_ACC_PR = 0x80"
definition GDT_FLG_SZ :: u8 where "GDT_FLG_SZ = 0x40"
definition GDT_FLG_GR :: u8 where "GDT_FLG_GR = 0x80"

lemmas gdt_flag_defs = GDT_ACC_AC_def GDT_ACC_RW_def GDT_ACC_EX_def GDT_ACC_S_def GDT_ACC_R0_def GDT_ACC_R3_def GDT_ACC_PR_def
  GDT_FLG_SZ_def GDT_FLG_GR_def

definition gdt_pack :: "u32 \<Rightarrow> u32 \<Rightarrow> u8 \<Rightarrow> u8 \<Rightarrow> gdt_entry" where
  "gdt_pack base limit flags access =
     \<lparr>limit_lo = ucast (limit AND 0xFFFF), base_lo = ucast (base AND 0xFFFF), base_mi = ucast (drop_bit 16 base AND 0xFF),
      gdt_access = access, gdt_flags = (flags AND 0xF0) OR ucast (drop_bit 16 limit AND 0xF), base_hi = ucast (drop_bit 24 base AND 0xFF)\<rparr>"

definition x86_gdt_set :: "nat \<Rightarrow> u32 \<Rightarrow> u32 \<Rightarrow> u8 \<Rightarrow> u8 \<Rightarrow> gdt_state \<Rightarrow> gdt_state res" where
  "x86_gdt_set idx base limit flags access s = bindR (wr (s_gdt s) idx (gdt_pack base limit flags access)) (\<lambda>g. Inr (s\<lparr>s_gdt := g\<rparr>))"

definition x86_tss_set :: "u32 \<Rightarrow> gdt_state \<Rightarrow> gdt_state" where
  "x86_tss_set sp s = s\<lparr>x86_tss := (x86_tss s)\<lparr>tss_esp0 := sp\<rparr>\<rparr>"

definition x86_gdt_load :: "gdt_state \<Rightarrow> gdt_state" where
  "x86_gdt_load s = s\<lparr>gdtr_size := 6 * 8 - 1\<rparr>"

text \<open>\<open>sizeof(x86_tss)\<close>, and \<open>tss\<close> its address.\<close>

definition tss_size :: u32 where "tss_size = 104"

definition gdt_init :: "u32 \<Rightarrow> gdt_state \<Rightarrow> gdt_state res" where
  "gdt_init tss s =
     (let s = s\<lparr>x86_tss := \<lparr>tss_esp0 = 0, tss_ss0 = 0x10, tss_flags = push_bit 16 tss_size\<rparr>\<rparr> in
      bindR (x86_gdt_set 0 0 0 0 0 s) (\<lambda>s.
      bindR (x86_gdt_set 1 0 0xFFFFF (GDT_FLG_GR OR GDT_FLG_SZ) (((GDT_ACC_PR OR GDT_ACC_R0) OR GDT_ACC_EX) OR GDT_ACC_S) s) (\<lambda>s.
      bindR (x86_gdt_set 2 0 0xFFFFF (GDT_FLG_GR OR GDT_FLG_SZ) (((GDT_ACC_PR OR GDT_ACC_R0) OR GDT_ACC_RW) OR GDT_ACC_S) s) (\<lambda>s.
      bindR (x86_gdt_set 3 0 0xFFFFF (GDT_FLG_GR OR GDT_FLG_SZ) (((GDT_ACC_PR OR GDT_ACC_R3) OR GDT_ACC_EX) OR GDT_ACC_S) s) (\<lambda>s.
      bindR (x86_gdt_set 4 0 0xFFFFF (GDT_FLG_GR OR GDT_FLG_SZ) (((GDT_ACC_PR OR GDT_ACC_R3) OR GDT_ACC_RW) OR GDT_ACC_S) s) (\<lambda>s.
      bindR (x86_gdt_set 5 tss tss_size GDT_FLG_SZ ((GDT_ACC_PR OR GDT_ACC_EX) OR GDT_ACC_AC) s) (\<lambda>s.
      Inr (x86_gdt_load s))))))))"


section \<open>ints.c\<close>

record idt_entry =
  idt_base_lo :: u16
  idt_selector :: u16
  idt_zero :: u8
  idt_flags :: u8
  idt_base_hi :: u16

definition IDT_GATE :: u8 where "IDT_GATE = 0x8E"
definition IDT_GATE_USER :: u8 where "IDT_GATE_USER = 0xEE"

definition idt_pack :: "u32 \<Rightarrow> u16 \<Rightarrow> u8 \<Rightarrow> idt_entry" where
  "idt_pack base selector flags =
     \<lparr>idt_base_lo = ucast (base AND 0xFFFF), idt_selector = selector, idt_zero = 0, idt_flags = flags, idt_base_hi = ucast (drop_bit 16 base AND 0xFFFF)\<rparr>"

definition x86_idt_set :: "nat \<Rightarrow> u32 \<Rightarrow> u16 \<Rightarrow> u8 \<Rightarrow> idt_entry list \<Rightarrow> idt_entry list res" where
  "x86_idt_set idx base selector flags t = wr t idx (idt_pack base selector flags)"


section \<open>pic8259.c, irq.h\<close>

definition x86_irq_eoi :: "'d ports \<Rightarrow> nat \<Rightarrow> 'd \<Rightarrow> 'd" where
  "x86_irq_eoi io n d = p_outb io 0x20 0x20 (if n \<ge> 8 then p_outb io 0xA0 0x20 d else d)"

definition PIC_MDAT :: u16 where "PIC_MDAT = 0x21"
definition PIC_SDAT :: u16 where "PIC_SDAT = 0xA1"

definition pic8259_clear_mask :: "'d ports \<Rightarrow> u8 \<Rightarrow> 'd \<Rightarrow> 'd" where
  "pic8259_clear_mask io line d =
     (let (port, line) = (if line < 8 then (PIC_MDAT, line) else (PIC_SDAT, line - 8)); (v, d) = p_inb io port d in
      p_outb io port (v AND NOT (push_bit (unat line) 1)) d)"

definition pic8259_init :: "'d ports \<Rightarrow> 'd \<Rightarrow> 'd" where
  "pic8259_init io d =
     (let (a1, d) = p_inb io PIC_MDAT d; (a2, d) = p_inb io PIC_SDAT d;
          d = p_outb io 0x20 0x11 d; d = p_outb io 0xA0 0x11 d; d = p_outb io PIC_MDAT 0x20 d; d = p_outb io PIC_SDAT 0x28 d;
          d = p_outb io PIC_MDAT 4 d; d = p_outb io PIC_SDAT 2 d; d = p_outb io PIC_MDAT 0x01 d; d = p_outb io PIC_SDAT 0x01 d;
          d = p_outb io PIC_MDAT a1 d; d = p_outb io PIC_SDAT a2 d in
      pic8259_clear_mask io 11 d)"

text \<open>\<open>isr\<close> and \<open>irq\<close> are the addresses of the assembly entry points.\<close>

definition ints_init :: "'d ports \<Rightarrow> (nat \<Rightarrow> u32) \<Rightarrow> (nat \<Rightarrow> u32) \<Rightarrow> u32 \<Rightarrow> idt_entry list \<times> 'd \<Rightarrow> (idt_entry list \<times> 'd) res" where
  "ints_init io isr irq sysc = (\<lambda>(t, d).
     bindR (foldR (\<lambda>i. x86_idt_set i (isr i) 0x08 IDT_GATE) [0..<32] t) (\<lambda>t.
     let d = pic8259_init io d in
     bindR (foldR (\<lambda>i. x86_idt_set (32 + i) (irq i) 0x08 IDT_GATE) [0, 1, 8, 11, 14] t) (\<lambda>t.
     bindR (x86_idt_set 128 sysc 0x08 IDT_GATE_USER t) (\<lambda>t. Inr (t, d)))))"


section \<open>com.c, timer.c, rtc.c\<close>

text \<open>The wait for the line; a wait longer than the fuel is \<open>Diverges\<close>.\<close>

fun com_send :: "nat \<Rightarrow> 'd ports \<Rightarrow> u16 \<Rightarrow> u8 \<Rightarrow> 'd \<Rightarrow> 'd res" where
  "com_send 0 io port v d = Inl Diverges"
| "com_send (Suc n) io port v d =
     (let (s, d) = p_inb io (port + 5) d in if s AND 0x20 = 0 then com_send n io port v d else Inr (p_outb io port v d))"

text \<open>A division by zero is undefined.\<close>

definition x86_timer_init :: "'d ports \<Rightarrow> u32 \<Rightarrow> 'd \<Rightarrow> 'd res" where
  "x86_timer_init io freq d =
     (if freq = 0 then Inl OutOfBounds
      else
        let dv = 1193182 div freq; dv = (if dv > 0xFFFF then 0xFFFF else dv);
            d = p_outb io 0x43 0x26 d; d = p_outb io 0x40 (ucast (dv AND 0xFF)) d in
        Inr (p_outb io 0x40 (ucast (drop_bit 8 dv AND 0xFF)) d))"

record rtc =
  rtc_sec :: u8
  rtc_min :: u8
  rtc_hour :: u8
  rtc_day :: u8
  rtc_month :: u8
  rtc_year :: u16
  rtc_counter :: u32
  rtc_century_addr :: u16

definition cmos_read :: "'d ports \<Rightarrow> u16 \<Rightarrow> 'd \<Rightarrow> u8 \<times> 'd" where
  "cmos_read io reg d = p_inb io 0x71 (p_outb io 0x70 (ucast (0x80 OR reg)) d)"

text \<open>The order of the two reads of a year with a century is the compiler's; here the century is first.\<close>

definition x86_rtc_fetch :: "'d ports \<Rightarrow> rtc \<times> 'd \<Rightarrow> rtc \<times> 'd" where
  "x86_rtc_fetch io = (\<lambda>(r, d).
     let (s, d) = cmos_read io 0x00 d; (m, d) = cmos_read io 0x02 d; (h, d) = cmos_read io 0x04 d;
         (dy, d) = cmos_read io 0x07 d; (mo, d) = cmos_read io 0x08 d;
         r = r\<lparr>rtc_sec := s, rtc_min := m, rtc_hour := h, rtc_day := dy, rtc_month := mo\<rparr> in
     if rtc_century_addr r = 0 then
       let (y, d) = cmos_read io 0x09 d in (r\<lparr>rtc_year := ucast y + 2000\<rparr>, d)
     else
       let (c, d) = cmos_read io (rtc_century_addr r) d; (y, d) = cmos_read io 0x09 d in
       (r\<lparr>rtc_year := ucast c * 100 + ucast y\<rparr>, d))"

definition x86_rtc_set_century_addr :: "u16 \<Rightarrow> rtc \<Rightarrow> rtc" where
  "x86_rtc_set_century_addr a r = r\<lparr>rtc_century_addr := a\<rparr>"

definition x86_rtc_init :: "'d ports \<Rightarrow> 'd \<Rightarrow> 'd" where
  "x86_rtc_init io d =
     (let d = p_outb io 0x70 0x8B d; (prev, d) = p_inb io 0x71 d; d = p_outb io 0x70 0x8B d in p_outb io 0x71 (prev OR 0x44) d)"

definition x86_irq_handler_8 :: "'d ports \<Rightarrow> rtc \<times> 'd \<Rightarrow> rtc \<times> 'd" where
  "x86_irq_handler_8 io = (\<lambda>(r, d).
     let d = p_outb io 0x70 0x0C d; (_, d) = p_inb io 0x71 d; d = x86_irq_eoi io 8 d; c = rtc_counter r + 1 in
     (r\<lparr>rtc_counter := (if c = 1024 then 0 else c)\<rparr>, d))"


section \<open>hpet.c\<close>

text \<open>
  The registers the driver uses; the counter runs on its own, so each read of it is an argument. In periodic mode two writes
  of the timer's value mean two things, so \<open>h_tvalue\<close> is the list of the values written, the last one last.
\<close>

record hpet =
  h_caps :: u64
  h_ctrl :: u64
  h_intr :: u64
  h_tctrl :: u64
  h_tvalue :: "u64 list"

record hpet_st =
  hpet :: "hpet option"
  hpet_systick_res :: u64
  hpet_freq :: u64
  hpet_last :: u64
  systime_prev :: u64
  hpet_systime :: u64

definition hpet_available :: "hpet_st \<Rightarrow> bool" where
  "hpet_available s \<longleftrightarrow> hpet s \<noteq> None"

definition hpet_set_base :: "hpet \<Rightarrow> hpet_st \<Rightarrow> hpet_st" where
  "hpet_set_base regs s = s\<lparr>hpet := Some regs\<rparr>"

definition hpet_timer_func :: "u64 \<Rightarrow> hpet_st \<Rightarrow> hpet_st res" where
  "hpet_timer_func now s =
     (case hpet s of None \<Rightarrow> Inl NullDeref
      | Some h \<Rightarrow>
        if hpet_systick_res s = 0 then Inl OutOfBounds
        else
          let s = s\<lparr>hpet_systime := hpet_systime s + (now - hpet_last s) div hpet_systick_res s, hpet_last := now\<rparr>;
              s = (if hpet_systime s - systime_prev s \<ge> SYSTICK_DES_RES then s\<lparr>systime_prev := hpet_systime s\<rparr> else s) in
          Inr (s\<lparr>hpet := Some (h\<lparr>h_intr := h_intr h OR 1\<rparr>)\<rparr>))"

definition hpet_init :: "u64 \<Rightarrow> u64 \<Rightarrow> hpet_st \<Rightarrow> hpet_st res" where
  "hpet_init count1 count2 s =
     (case hpet s of None \<Rightarrow> Inl NullDeref
      | Some h \<Rightarrow>
        let clk = (ucast (drop_bit 32 (h_caps h) AND 0xFFFFFFFF) :: u32) in
        if clk = 0 then Inl OutOfBounds
        else
          let s = s\<lparr>hpet_freq := 1000000000000000 div ucast clk\<rparr> in
          assertR (bit (h_tctrl h) 4)
            (let h = h\<lparr>h_ctrl := h_ctrl h OR 3, h_tctrl := 0x4C, h_tvalue := h_tvalue h @ [hpet_freq s div 1000, count1 + hpet_freq s div 1000]\<rparr> in
             Inr (s\<lparr>hpet := Some h, hpet_last := count2, hpet_systick_res := hpet_freq s div SYSTICK_DES_RES\<rparr>)))"


section \<open>cpuid.c\<close>

text \<open>The instruction is the argument \<open>cpuid\<close>, its results \<open>eax\<close>, \<open>ebx\<close>, \<open>ecx\<close> and \<open>edx\<close>.\<close>

record cpu =
  s_cpuid_vendor :: "u32 list"
  s_cpuid_brand :: "u32 list"
  s_cpuid_feature_edx :: u32
  s_cpuid_feature_ecx :: u32

text \<open>A shift of a 32-bit number by 32 is undefined; the processor shifts by 0.\<close>

definition x86_cpuid_check_feature :: "u32 \<Rightarrow> cpu \<Rightarrow> bool" where
  "x86_cpuid_check_feature num s =
     (if num \<le> 32 then nz (s_cpuid_feature_ecx s AND push_bit (unat num mod 32) 1)
      else nz (s_cpuid_feature_edx s AND push_bit (unat (num - 32) mod 32) 1))"

definition x86_cpuid_init :: "(u32 \<Rightarrow> u32 \<times> u32 \<times> u32 \<times> u32) \<Rightarrow> cpu res" where
  "x86_cpuid_init cpuid =
     (let (_, _, fc, fd) = cpuid 1; (_, b, c, d) = cpuid 0;
          s = \<lparr>s_cpuid_vendor = [b, d, c],
            s_cpuid_brand = concat (map (\<lambda>i. case cpuid (0x8000002 + of_nat i) of (a, b, c, d) \<Rightarrow> [a, b, c, d]) [0..<3]),
            s_cpuid_feature_edx = fd, s_cpuid_feature_ecx = fc\<rparr> in
      assertR (x86_cpuid_check_feature 32 s) (Inr s))"

definition x86_cpuid_ecx_feature_names :: "string list" where
  "x86_cpuid_ecx_feature_names =
     [''sse3'', ''pclmul'', ''dtes64'', ''monitor'', ''ds_cpl'', ''vmx'', ''smx'', ''est'', ''tm2'', ''ssse3'', ''cid'', [], ''fma'', ''cx16'',
      ''etprd'', ''pdcm'', ''pcide'', ''dca'', ''sse4.1'', ''sse4.2'', ''x2-apic'', ''movbe'', ''popcnt'', ''aes'', ''xsave'', ''osxsave'', ''avx'']"

definition x86_cpuid_edx_feature_names :: "string list" where
  "x86_cpuid_edx_feature_names =
     [''fpu'', ''vme'', ''de'', ''pse'', ''tsc'', ''msr'', ''pae'', ''mce'', ''cx8'', ''apic'', ''sep'', ''mtrr'', ''pge'', ''mca'', ''cmov'', ''pat'',
      ''pse36'', ''psn'', ''clf'', [], ''dtes'', ''acpi'', ''mmx'', ''fxsr'', ''sse'', ''sse2'', ''ss'', ''htt'', ''tm1'', ''ia64'', ''pbe'']"

text \<open>The names printed, \<open>[]\<close> in a table being the null pointer.\<close>

definition feature_list :: "string list \<Rightarrow> u32 \<Rightarrow> string list" where
  "feature_list names fs = map snd (filter (\<lambda>(i, s). nz (push_bit i 1 AND fs) \<and> s \<noteq> []) (enumerate 0 names))"

definition x86_cpuid_dump_features :: "cpu \<Rightarrow> string list \<times> string list" where
  "x86_cpuid_dump_features s =
     (feature_list x86_cpuid_edx_feature_names (s_cpuid_feature_edx s), feature_list x86_cpuid_ecx_feature_names (s_cpuid_feature_ecx s))"

text \<open>The names of the second register are one bit off from bit 10 on: bit 11 is \<open>CPUID_FEAT_SEP\<close>, and bit 19 \<open>CPUID_FEAT_CLF\<close>.\<close>

lemma sep_listed_as_mtrr: "feature_list x86_cpuid_edx_feature_names (push_bit 11 1) = [''mtrr'']"
  by code_simp

lemma clf_not_listed: "feature_list x86_cpuid_edx_feature_names (push_bit 19 1) = []"
  by code_simp

text \<open>The check for a floating-point unit, feature 32, looks at the first bit of the wrong register.\<close>

lemma fpu_check_wrong: "x86_cpuid_check_feature 32 s \<longleftrightarrow> bit (s_cpuid_feature_ecx s) 0"
  using bit_iff_and_push_bit_not_eq_0 [of "s_cpuid_feature_ecx s" 0] by (simp add: x86_cpuid_check_feature_def)


section \<open>Tables\<close>

definition gdt_base :: "gdt_entry \<Rightarrow> u32" where
  "gdt_base e = (ucast (base_lo e) OR push_bit 16 (ucast (base_mi e))) OR push_bit 24 (ucast (base_hi e))"

definition gdt_limit :: "gdt_entry \<Rightarrow> u32" where
  "gdt_limit e = ucast (limit_lo e) OR push_bit 16 (ucast (gdt_flags e AND 0x0F))"

definition idt_base :: "idt_entry \<Rightarrow> u32" where
  "idt_base e = ucast (idt_base_lo e) OR push_bit 16 (ucast (idt_base_hi e))"

lemma gdt_base_pack: "gdt_base (gdt_pack base limit flags access) = base"
proof -
  have m: "(0xFFFF :: u32) = mask 16" "(0xFF :: u32) = mask 8" by (simp_all add: mask_eq_exp_minus_1)
  show ?thesis unfolding gdt_base_def gdt_pack_def gdt_entry.simps m
  proof (rule bit_word_eqI)
    fix n assume n: "n < LENGTH(32)"
    have e: "24 \<le> n \<Longrightarrow> 24 + (n - 24) = n" "16 \<le> n \<Longrightarrow> 16 + (n - 16) = n" by simp_all
    show "bit ((ucast (ucast (base AND mask 16) :: u16) OR push_bit 16 (ucast (ucast (drop_bit 16 base AND mask 8) :: u8))) OR
        push_bit 24 (ucast (ucast (drop_bit 24 base AND mask 8) :: u8)) :: u32) n = bit base n"
      using n e by (cases "n < 16"; cases "n < 24") (auto simp: bit_simps)
  qed
qed

lemma gdt_limit_pack:
  assumes "limit < 2 ^ 20"
  shows "gdt_limit (gdt_pack base limit flags access) = limit"
proof -
  have m: "(0xFFFF :: u32) = mask 16" "(0xF :: u32) = mask 4" "(0x0F :: u8) = mask 4" "(0xF0 :: u8) = NOT (mask 4)"
    by (simp_all add: mask_eq_exp_minus_1)
  have t: "take_bit 20 limit = limit" using assms unat_take [of 20 limit] by (simp add: word_less_nat_alt word_unat_eq_iff)
  have b: "n < 20" if "bit limit n" for n using that t by (metis bit_take_bit_iff)
  have f: "((flags AND NOT (mask 4)) OR ucast (drop_bit 16 limit AND mask 4)) AND mask 4 = (ucast (drop_bit 16 limit AND mask 4) :: u8)"
    by (rule bit_word_eqI) (auto simp: bit_simps)
  show ?thesis unfolding gdt_limit_def gdt_pack_def gdt_entry.simps m f
    by (rule bit_word_eqI) (auto simp: bit_simps dest: b)
qed

lemma idt_base_pack: "idt_base (idt_pack base sel flags) = base"
proof -
  have m: "(0xFFFF :: u32) = mask 16" by (simp add: mask_eq_exp_minus_1)
  show ?thesis unfolding idt_base_def idt_pack_def m by (rule bit_word_eqI) (auto simp: bit_simps)
qed


section \<open>The system time\<close>

lemma hpet_tick:
  assumes "hpet s = Some h" "hpet_systick_res s \<noteq> 0" "unat (hpet_last s) \<le> unat now"
    "unat (hpet_systime s) + (unat now - unat (hpet_last s)) < 2 ^ 64"
  shows "\<exists>s1 h1. hpet_timer_func now s = Inr s1 \<and> hpet s1 = Some h1 \<and> hpet_systick_res s1 = hpet_systick_res s \<and> hpet_last s1 = now \<and>
    unat (hpet_systime s1) = unat (hpet_systime s) + (unat now - unat (hpet_last s)) div unat (hpet_systick_res s)"
proof -
  let ?d = "(now - hpet_last s) div hpet_systick_res s"
  have "unat ?d = (unat now - unat (hpet_last s)) div unat (hpet_systick_res s)"
    using assms(3) by (simp add: unat_div unat_sub word_le_nat_alt)
  moreover have "unat (hpet_systime s) + (unat now - unat (hpet_last s)) div unat (hpet_systick_res s) < 2 ^ 64"
    using assms(4) div_le_dividend [of "unat now - unat (hpet_last s)" "unat (hpet_systick_res s)"] by linarith
  ultimately have "unat (hpet_systime s + ?d) = unat (hpet_systime s) + (unat now - unat (hpet_last s)) div unat (hpet_systick_res s)"
    by (subst unat_add_nowrap) auto
  then show ?thesis using assms(1,2) by (simp add: hpet_timer_func_def Let_def)
qed

lemma hpet_ticks:
  assumes "hpet s = Some h" "0 < unat (hpet_systick_res s)" "sorted (map unat (hpet_last s # cs))"
    "unat (hpet_systime s) + (unat (last (hpet_last s # cs)) - unat (hpet_last s)) < 2 ^ 64"
  shows "\<exists>s' t. foldR hpet_timer_func cs s = Inr s' \<and> unat (hpet_systime s') = unat (hpet_systime s) + t \<and>
    t * unat (hpet_systick_res s) \<le> unat (last (hpet_last s # cs)) - unat (hpet_last s) \<and>
    unat (last (hpet_last s # cs)) - unat (hpet_last s) \<le> t * unat (hpet_systick_res s) + length cs * (unat (hpet_systick_res s) - 1)"
  using assms
proof (induction cs arbitrary: s h)
  case Nil
  then show ?case by (intro exI [of _ s] exI [of _ 0]) simp
next
  case (Cons c cs)
  let ?r = "unat (hpet_systick_res s)" and ?e = "last (c # cs)"
  define d where "d = unat c - unat (hpet_last s)"
  have so: "unat (hpet_last s) \<le> unat c" "sorted (map unat (c # cs))" using Cons.prems(3) by simp_all
  have "unat c \<le> unat ?e" using so(2) by (cases cs rule: rev_cases) (auto simp: sorted_append)
  then have D: "unat ?e - unat (hpet_last s) = d + (unat ?e - unat c)" using so(1) by (simp add: d_def)
  have nz: "hpet_systick_res s \<noteq> 0" using Cons.prems(2) by auto
  have p4: "unat (hpet_systime s) + (unat ?e - unat (hpet_last s)) < 2 ^ 64" using Cons.prems(4) by simp
  then have lt: "unat (hpet_systime s) + d < 2 ^ 64" using D by linarith
  from hpet_tick [OF Cons.prems(1) nz so(1)] lt obtain s1 h1 where s1: "hpet_timer_func c s = Inr s1" "hpet s1 = Some h1"
    "hpet_systick_res s1 = hpet_systick_res s" "hpet_last s1 = c" "unat (hpet_systime s1) = unat (hpet_systime s) + d div ?r"
    by (auto simp: d_def)
  have "unat (hpet_systime s1) + (unat ?e - unat c) < 2 ^ 64"
    using p4 D div_le_dividend [of d ?r] s1(5) by linarith
  then obtain s' t where s': "foldR hpet_timer_func cs s1 = Inr s'" "unat (hpet_systime s') = unat (hpet_systime s1) + t"
    "t * ?r \<le> unat ?e - unat c" "unat ?e - unat c \<le> t * ?r + length cs * (?r - 1)"
    using Cons.IH [OF s1(2)] Cons.prems(2) so(2) s1(3,4) by auto
  have dv: "d div ?r * ?r \<le> d" "d \<le> d div ?r * ?r + (?r - 1)"
  proof -
    have "d = d div ?r * ?r + d mod ?r" by simp
    moreover have "d mod ?r < ?r" using Cons.prems(2) by simp
    ultimately show "d div ?r * ?r \<le> d" "d \<le> d div ?r * ?r + (?r - 1)" by linarith+
  qed
  have e: "last (hpet_last s # c # cs) = ?e" by simp
  have l: "length (c # cs) * (?r - 1) = (?r - 1) + length cs * (?r - 1)" by simp
  show ?case
  proof (intro exI conjI)
    show "foldR hpet_timer_func (c # cs) s = Inr s'" using s1(1) s'(1) by simp
    show "unat (hpet_systime s') = unat (hpet_systime s) + (d div ?r + t)" using s1(5) s'(2) by simp
    show "(d div ?r + t) * ?r \<le> unat (last (hpet_last s # c # cs)) - unat (hpet_last s)"
      unfolding e D add_mult_distrib using dv(1) s'(3) by linarith
    show "unat (last (hpet_last s # c # cs)) - unat (hpet_last s) \<le> (d div ?r + t) * ?r + length (c # cs) * (?r - 1)"
      unfolding e D add_mult_distrib l using dv(2) s'(4) by linarith
  qed
qed

text \<open>
  C28: the system time and the timer. Over any run of timer interrupts the handler returns and adds up the time that
  the counter has run, rounded down at every interrupt: the system time is never ahead of the counter, and it loses less than one
  of its units at each interrupt (the remainder is dropped and not carried over).
\<close>

theorem hpet_time_bounds:
  assumes "hpet s = Some h" "0 < unat (hpet_systick_res s)" "sorted (map unat (hpet_last s # cs))"
    "unat (hpet_systime s) + (unat (last (hpet_last s # cs)) - unat (hpet_last s)) < 2 ^ 64"
  shows "\<exists>s' t. foldR hpet_timer_func cs s = Inr s' \<and> unat (hpet_systime s') = unat (hpet_systime s) + t \<and>
    t * unat (hpet_systick_res s) \<le> unat (last (hpet_last s # cs)) - unat (hpet_last s) \<and>
    unat (last (hpet_last s # cs)) - unat (hpet_last s) \<le> t * unat (hpet_systick_res s) + length cs * (unat (hpet_systick_res s) - 1)"
  using assms by (rule hpet_ticks)

theorem hpet_time_bounds_witness:
  "\<exists>s' t. foldR hpet_timer_func [19, 38, 57]
      \<lparr>hpet = Some \<lparr>h_caps = 0, h_ctrl = 3, h_intr = 0, h_tctrl = 0, h_tvalue = []\<rparr>, hpet_systick_res = 10, hpet_freq = 10000000, hpet_last = 0,
        systime_prev = 0, hpet_systime = 0\<rparr> = Inr s' \<and> unat (hpet_systime s') = t \<and> t * 10 \<le> 57 \<and> 57 \<le> t * 10 + 27"
  using hpet_time_bounds [of "\<lparr>hpet = Some \<lparr>h_caps = 0, h_ctrl = 3, h_intr = 0, h_tctrl = 0, h_tvalue = []\<rparr>, hpet_systick_res = 10, hpet_freq = 10000000,
      hpet_last = 0, systime_prev = 0, hpet_systime = 0\<rparr>" _ "[19, 38, 57]"] by simp

end
