(* ===== verification/Acpi.thy ===== *)
theory Acpi
  imports Paging DebugFmt
begin

text \<open>
  The search for the ACPI tables (\<open>arch/x86/hw/acpi.c\<close>): the root pointer is looked for in the BIOS area, the table of tables
  is mapped and checked, and the tables the kernel uses are noted; the event timer found there is mapped. All reads go through the
  kernel's page directory. The theorem shows which root pointer is taken.
\<close>

section \<open>Reading the tables\<close>

text \<open>The bytes that can be read from an address on, at most \<open>n\<close>: the string routines run on them.\<close>

fun kview :: "u32 \<Rightarrow> nat \<Rightarrow> mm \<Rightarrow> bytes" where
  "kview a 0 m = []"
| "kview a (Suc n) m = (case kread a m of Inl _ \<Rightarrow> [] | Inr b \<Rightarrow> b # kview (a + 1) n m)"

text \<open>\<open>!strncmp(addr, s, n)\<close> for a constant \<open>s\<close> of \<open>n\<close> characters\<close>

definition ksig :: "u32 \<Rightarrow> bytes \<Rightarrow> mm \<Rightarrow> bool res" where
  "ksig a s m = bindR (strncmp (kview a (Suc (length s)) m) (s @ [0]) (of_nat (length s))) (\<lambda>r. Inr (r = 0))"

definition kread32 :: "u32 \<Rightarrow> mm \<Rightarrow> u32 res" where
  "kread32 a m =
     bindR (kread a m) (\<lambda>b0. bindR (kread (a + 1) m) (\<lambda>b1. bindR (kread (a + 2) m) (\<lambda>b2. bindR (kread (a + 3) m) (\<lambda>b3.
     Inr (((ucast b0 OR push_bit 8 (ucast b1)) OR push_bit 16 (ucast b2)) OR push_bit 24 (ucast b3))))))"

definition ACPI_MAP_VIRT :: u32 where "ACPI_MAP_VIRT = 0xFF000000"

fun acpi_sum :: "u32 \<Rightarrow> nat \<Rightarrow> u8 \<Rightarrow> mm \<Rightarrow> u8 res" where
  "acpi_sum a 0 acc m = Inr acc"
| "acpi_sum a (Suc n) acc m = bindR (kread a m) (\<lambda>b. acpi_sum (a + 1) n (acc + b) m)"

text \<open>\<open>length\<close> is at offset 20 of the root pointer, and at offset 4 of a table.\<close>

definition acpi_validate_rsdp :: "u32 \<Rightarrow> mm \<Rightarrow> int res" where
  "acpi_validate_rsdp addr m =
     bindR (kread32 (addr + 20) m) (\<lambda>len.
     if len > 36 then Inr (- 1) else bindR (acpi_sum addr (unat len) 0 m) (\<lambda>sm. Inr (if sm \<noteq> 0 then 1 else 0)))"

definition acpi_validate_header :: "u32 \<Rightarrow> mm \<Rightarrow> int res" where
  "acpi_validate_header addr m =
     bindR (kread32 (addr + 4) m) (\<lambda>len. bindR (acpi_sum addr (unat len) 0 m) (\<lambda>sm. Inr (if sm \<noteq> 0 then 1 else 0)))"

section \<open>The root pointer\<close>

text \<open>One of the two loops: \<open>n\<close> addresses from \<open>addr\<close> on, and \<open>rsdt\<close> when none of them is a root pointer.\<close>

fun rsdp_loop :: "nat \<Rightarrow> u32 \<Rightarrow> u32 \<Rightarrow> mm \<Rightarrow> u32 res" where
  "rsdp_loop 0 addr rsdt m = Inr rsdt"
| "rsdp_loop (Suc n) addr rsdt m =
     bindR (ksig addr (map of_char ''RSD PTR '') m) (\<lambda>sig.
     bindR (if sig then acpi_validate_rsdp addr m else Inr 1) (\<lambda>v.
     if sig \<and> v = 0 then kread32 (addr + 16) m else rsdp_loop n (addr + 4) rsdt m))"

text \<open>\<open>for (addr = from; addr < to; addr += 4)\<close>\<close>

definition acpi_iter :: "u32 \<Rightarrow> u32 \<Rightarrow> nat" where
  "acpi_iter from to = (if from < to then (unat to - unat from + 3) div 4 else 0)"

definition acpi_find_rsdt :: "mm \<Rightarrow> u32 res" where
  "acpi_find_rsdt m =
     bindR (kread (0x040E + KERNEL_VIRT_BASE) m) (\<lambda>lo. bindR (kread (0x040F + KERNEL_VIRT_BASE) m) (\<lambda>hi.
     let ebda = push_bit 4 (ucast lo OR push_bit 8 (ucast hi)) + KERNEL_VIRT_BASE in
     bindR (rsdp_loop (acpi_iter ebda (0xA0000 - 4)) ebda 0 m) (\<lambda>rsdt.
     rsdp_loop (acpi_iter (0xE0000 + KERNEL_VIRT_BASE) (0x100000 + KERNEL_VIRT_BASE - 4)) (0xE0000 + KERNEL_VIRT_BASE) rsdt m)))"

section \<open>The tables\<close>

text \<open>The tables noted, \<open>MM_NADDR\<close> for one that is not there.\<close>

record acpi_tabs =
  a_hpet :: u32
  a_fadt :: u32
  a_apic :: u32

text \<open>One round of the loop over the entries of the table of tables.\<close>

definition acpi_entry :: "u32 \<Rightarrow> u32 \<Rightarrow> mm \<Rightarrow> nat \<Rightarrow> acpi_tabs \<Rightarrow> acpi_tabs res" where
  "acpi_entry rsdt rsdt_p m i t =
     bindR (kread32 (rsdt + 36 + 4 * of_nat i) m) (\<lambda>phys_addr.
     if phys_addr AND - 0x400000 \<noteq> rsdt_p AND - 0x400000 then Inl Panic
     else
       let virt_addr = (phys_addr AND 0x3FFFFF) OR ACPI_MAP_VIRT in
       bindR (acpi_validate_header virt_addr m) (\<lambda>v.
       if v \<noteq> 0 then Inr t
       else
         bindR (kreads virt_addr 4 m) (\<lambda>b.
         bindR (strncmp (b @ [0]) (lit ''FACP'') 4) (\<lambda>r. if r = 0 then Inr (t\<lparr>a_fadt := virt_addr\<rparr>) else
         bindR (strncmp (b @ [0]) (lit ''HPET'') 4) (\<lambda>r. if r = 0 then Inr (t\<lparr>a_hpet := virt_addr\<rparr>) else
         bindR (strncmp (b @ [0]) (lit ''APIC'') 4) (\<lambda>r. if r = 0 then Inr (t\<lparr>a_apic := virt_addr\<rparr>) else Inr t))))))"

text \<open>The fields are at offset 108 (\<open>century\<close>) and 36 (\<open>firmware_ctrl\<close>).\<close>

definition acpi_check_facs :: "u32 \<Rightarrow> u32 \<Rightarrow> mm \<Rightarrow> unit res" where
  "acpi_check_facs fadt rsdt_p m =
     bindR (kread (fadt + 108) m) (\<lambda>_.
     bindR (kread32 (fadt + 36) m) (\<lambda>facs.
     if facs = 0 then Inr ()
     else if facs AND - 0x400000 \<noteq> rsdt_p AND - 0x400000 then Inl Panic
     else bindR (ksig ((facs AND 0x3FFFFF) OR ACPI_MAP_VIRT) (map of_char ''FACS'') m) (\<lambda>sig. if sig then Inr () else Inl Panic)))"

text \<open>The base of the timer: its kind at offset 40, the lower half of its address at offset 44.\<close>

definition acpi_map_hpet :: "u32 \<Rightarrow> mm \<Rightarrow> (mm \<times> u32) res" where
  "acpi_map_hpet hpet m =
     bindR (kread (hpet + 40) m) (\<lambda>space.
     assertR (space = 0)
       (bindR (kread32 (hpet + 44) m) (\<lambda>hpet_phys.
        let hpet_addr = ACPI_MAP_VIRT + 0x400000 in
        bindR (mm_map_range_linear (mm_kernel m) hpet_addr hpet_phys 1 MM_FLG_WR m) (\<lambda>m. Inr (m, hpet_addr)))))"

text \<open>The result is the argument of \<open>hpet_set_base\<close>, if it is called; the value returned is always -1.\<close>

definition x86_acpi_init :: "mm \<Rightarrow> (mm \<times> u32 option) res" where
  "x86_acpi_init m =
     bindR (acpi_find_rsdt m) (\<lambda>rsdt_p.
     assertR (rsdt_p \<noteq> 0)
       (bindR (mm_map_range_pages (mm_kernel m) ACPI_MAP_VIRT [rsdt_p AND - 0x400000] 1 (MM_FLG_PS OR MM_FLG_WR) m) (\<lambda>m.
        let rsdt = (rsdt_p AND 0x3FFFFF) OR ACPI_MAP_VIRT in
        bindR (ksig rsdt (map of_char ''RSDT'') m) (\<lambda>sig.
        if \<not> sig then Inl Panic
        else
          bindR (acpi_validate_header rsdt m) (\<lambda>v.
          assertR (v = 0)
            (bindR (kread32 (rsdt + 4) m) (\<lambda>len.
             bindR (foldR (acpi_entry rsdt rsdt_p m) [0..<unat ((len - 36) div 4)] \<lparr>a_hpet = MM_NADDR, a_fadt = MM_NADDR, a_apic = MM_NADDR\<rparr>) (\<lambda>t.
             bindR (if a_fadt t \<noteq> MM_NADDR then acpi_check_facs (a_fadt t) rsdt_p m else Inr ()) (\<lambda>_.
             if a_hpet t \<noteq> MM_NADDR then bindR (acpi_map_hpet (a_hpet t) m) (\<lambda>(m, a). Inr (m, Some a)) else Inr (m, None))))))))))"

section \<open>Which root pointer is taken\<close>

text \<open>The area the search reads is mapped, with the bytes \<open>B\<close>.\<close>

definition bios_area :: "u32 \<Rightarrow> bool" where
  "bios_area a \<longleftrightarrow> 0xC0000000 \<le> a \<and> a < 0xC0100040"

definition bios_ok :: "mm \<Rightarrow> (u32 \<Rightarrow> u8) \<Rightarrow> bool" where
  "bios_ok m B \<longleftrightarrow> (\<forall>a. bios_area a \<longrightarrow> kread a m = Inr (B a))"

definition span :: "(u32 \<Rightarrow> u8) \<Rightarrow> u32 \<Rightarrow> nat \<Rightarrow> bytes" where
  "span B a n = map (\<lambda>i. B (a + of_nat i)) [0..<n]"

definition dword_at :: "(u32 \<Rightarrow> u8) \<Rightarrow> u32 \<Rightarrow> u32" where
  "dword_at B a = ((ucast (B a) OR push_bit 8 (ucast (B (a + 1)))) OR push_bit 16 (ucast (B (a + 2)))) OR push_bit 24 (ucast (B (a + 3)))"

text \<open>A root pointer: its signature, a length the code accepts, and bytes that add up to 0.\<close>

definition is_rsdp :: "(u32 \<Rightarrow> u8) \<Rightarrow> u32 \<Rightarrow> bool" where
  "is_rsdp B a \<longleftrightarrow> span B a 8 = map of_char ''RSD PTR '' \<and> dword_at B (a + 20) \<le> 36 \<and> sum_list (span B a (unat (dword_at B (a + 20)))) = 0"

definition first_rsdt :: "(u32 \<Rightarrow> u8) \<Rightarrow> u32 list \<Rightarrow> u32 \<Rightarrow> u32" where
  "first_rsdt B as r = (case find (is_rsdp B) as of None \<Rightarrow> r | Some a \<Rightarrow> dword_at B (a + 16))"

lemma span_Suc: "span B a (Suc n) = B a # span B (a + 1) n"
  unfolding span_def by (simp add: upt_conv_Cons map_Suc_upt [symmetric] add.assoc del: upt_Suc)

lemma length_span [simp]: "length (span B a n) = n"
  by (simp add: span_def)

definition readable :: "mm \<Rightarrow> (u32 \<Rightarrow> u8) \<Rightarrow> u32 \<Rightarrow> nat \<Rightarrow> bool" where
  "readable m B a n \<longleftrightarrow> (\<forall>i<n. kread (a + of_nat i) m = Inr (B (a + of_nat i)))"

lemma readable_Suc: "readable m B a (Suc n) \<longleftrightarrow> kread a m = Inr (B a) \<and> readable m B (a + 1) n"
  unfolding readable_def less_Suc_eq_0_disj by (auto simp: add.assoc)

lemma kview_ok: "readable m B a n \<Longrightarrow> kview a n m = span B a n"
proof (induction n arbitrary: a)
  case (Suc n)
  then show ?case by (simp add: readable_Suc span_Suc)
qed (simp add: span_def)

lemma acpi_sum_ok: "readable m B a n \<Longrightarrow> acpi_sum a n acc m = Inr (acc + sum_list (span B a n))"
proof (induction n arbitrary: a acc)
  case (Suc n)
  then show ?case by (simp add: readable_Suc span_Suc add.assoc)
qed (simp add: span_def)

lemma strncmp_sig:
  assumes "length x = length s" "0 \<notin> set s" "unat p + length s = unat l"
  shows "strncmp_loop (x @ [e]) (s @ [0]) p l = Inr (if x = s then 0 else 1)"
  using assms
proof (induction s arbitrary: x p)
  case Nil
  then have "p = l" by (simp add: word_unat_eq_iff)
  with Nil show ?case by (simp add: strncmp_end_def)
next
  case (Cons c s)
  then obtain y ys where x: "x = y # ys" "length ys = length s" by (cases x) auto
  have pl: "p < l" using Cons.prems(3) by (simp add: word_less_nat_alt)
  have "unat (p + 1) = Suc (unat p)" using unat_Suc_lt [OF pl] by simp
  then have "strncmp_loop (ys @ [e]) (s @ [0]) (p + 1) l = Inr (if ys = s then 0 else 1)"
    using Cons.IH [of ys "p + 1"] Cons.prems x by simp
  then show ?case using Cons.prems(2) pl x by (auto simp: strncmp_end_def)
qed

lemma ksig_ok:
  assumes "readable m B a (Suc (length s))" "0 \<notin> set s" "length s < 2 ^ 32"
  shows "ksig a s m = Inr (span B a (length s) = s)"
proof -
  have e: "span B a (Suc (length s)) = span B a (length s) @ [B (a + of_nat (length s))]" by (simp add: span_def)
  have "unat (of_nat (length s) :: u32) = length s" using assms(3) by (intro unat_of_nat_small) simp
  then have "strncmp_loop (span B a (length s) @ [B (a + of_nat (length s))]) (s @ [0]) 0 (of_nat (length s)) =
      Inr (if span B a (length s) = s then 0 else 1)"
    using assms(2) by (intro strncmp_sig) simp_all
  then show ?thesis by (simp add: ksig_def strncmp_def kview_ok [OF assms(1)] e del: kview.simps)
qed

lemma kread32_ok:
  assumes "readable m B a 4"
  shows "kread32 a m = Inr (dword_at B a)"
proof -
  have "readable m B a (Suc (Suc (Suc (Suc 0))))" using assms by (simp add: numeral_eq_Suc)
  then show ?thesis by (simp add: readable_Suc kread32_def dword_at_def add.commute)
qed

text \<open>Everything that the test of one address reads is in the area.\<close>

definition scan_addr :: "u32 \<Rightarrow> bool" where
  "scan_addr a \<longleftrightarrow> 0xC00E0000 \<le> a \<and> a < 0xC00FFFFC"

lemma scan_readable:
  assumes "bios_ok m B" "scan_addr a" "unat k + n \<le> 60"
  shows "readable m B (a + k) n"
  unfolding readable_def
proof (intro allI impI)
  fix i assume i: "i < n"
  have u: "unat (of_nat i :: u32) = i" using i assms(3) by (intro unat_of_nat_small) simp
  have a: "unat a < 0xC00FFFFC" "0xC00E0000 \<le> unat a" using assms(2) by (simp_all add: scan_addr_def word_less_nat_alt word_le_nat_alt)
  have "unat (a + k) = unat a + unat k" using a i assms(3) by (subst unat_add_nowrap) auto
  then have "unat (a + k + of_nat i) = unat a + unat k + i" using a i assms(3) u by (subst unat_add_nowrap) auto
  then have "bios_area (a + k + of_nat i)" using a i assms(3) by (simp add: bios_area_def word_less_nat_alt word_le_nat_alt)
  then show "kread (a + k + of_nat i) m = Inr (B (a + k + of_nat i))" using assms(1) by (simp add: bios_ok_def)
qed

lemma validate_ok:
  assumes "bios_ok m B" "scan_addr a"
  shows "\<exists>v. acpi_validate_rsdp a m = Inr v \<and> (v = 0 \<longleftrightarrow> dword_at B (a + 20) \<le> 36 \<and> sum_list (span B a (unat (dword_at B (a + 20)))) = 0)"
proof -
  have r: "kread32 (a + 20) m = Inr (dword_at B (a + 20))" using assms by (intro kread32_ok scan_readable) simp_all
  show ?thesis
  proof (cases "dword_at B (a + 20) > 36")
    case True
    then show ?thesis by (simp add: acpi_validate_rsdp_def r linorder_not_le)
  next
    case False
    then have "unat (dword_at B (a + 20)) \<le> 36" by (simp add: word_less_nat_alt)
    then have "readable m B (a + 0) (unat (dword_at B (a + 20)))" using assms by (intro scan_readable) simp_all
    then have "acpi_sum a (unat (dword_at B (a + 20))) 0 m = Inr (sum_list (span B a (unat (dword_at B (a + 20)))))"
      using acpi_sum_ok [of m B a _ 0] by simp
    then show ?thesis using False by (simp add: acpi_validate_rsdp_def r not_less)
  qed
qed

lemma rsdp_step:
  assumes "bios_ok m B" "scan_addr a"
  shows "rsdp_loop (Suc n) a r m = (if is_rsdp B a then Inr (dword_at B (a + 16)) else rsdp_loop n (a + 4) r m)"
proof -
  have r: "readable m B a 9" using scan_readable [OF assms, of 0 9] by simp
  have k: "ksig a s m = Inr (span B a 8 = s)" if "length s = 8" "0 \<notin> set s" for s
    using ksig_ok [of m B a s] r that by simp
  have s: "ksig a (map of_char ''RSD PTR '') m = Inr (span B a 8 = map of_char ''RSD PTR '')" by (rule k) simp_all
  obtain v where v: "acpi_validate_rsdp a m = Inr v"
    "v = 0 \<longleftrightarrow> dword_at B (a + 20) \<le> 36 \<and> sum_list (span B a (unat (dword_at B (a + 20)))) = 0"
    using validate_ok [OF assms] by blast
  have "kread32 (a + 16) m = Inr (dword_at B (a + 16))" using assms by (intro kread32_ok scan_readable) simp_all
  then show ?thesis unfolding rsdp_loop.simps s is_rsdp_def using v by simp
qed

lemma rsdp_loop_ok:
  assumes "bios_ok m B" "0xC00E0000 \<le> unat a" "unat a + 4 * n \<le> 0xC00FFFFC"
  shows "rsdp_loop n a r m = Inr (first_rsdt B (map (\<lambda>i. a + 4 * of_nat i) [0..<n]) r)"
  using assms(2,3)
proof (induction n arbitrary: a)
  case (Suc n)
  have "scan_addr a" using Suc.prems by (simp add: scan_addr_def word_less_nat_alt word_le_nat_alt)
  moreover have "unat (a + 4) = unat a + 4" using Suc.prems by (subst unat_add_nowrap) auto
  moreover have "map (\<lambda>i. a + 4 * of_nat i) [0..<Suc n] = a # map (\<lambda>i. a + 4 + 4 * of_nat i) [0..<n]"
    by (simp add: upt_conv_Cons map_Suc_upt [symmetric] algebra_simps del: upt_Suc)
  ultimately show ?case
    using Suc rsdp_step [OF assms(1), of a n r] by (simp add: first_rsdt_def del: upt_Suc rsdp_loop.simps)
qed (simp add: first_rsdt_def)

section \<open>The first loop\<close>

text \<open>
  The first loop compares virtual addresses with a physical one and never runs: the extended BIOS data area is not searched.
\<close>

lemma ebda_not_searched:
  fixes lo hi :: u8
  shows "acpi_iter (push_bit 4 (ucast lo OR push_bit 8 (ucast hi)) + KERNEL_VIRT_BASE) (0xA0000 - 4) = 0"
proof -
  let ?x = "ucast lo OR push_bit 8 (ucast hi) :: u32" and ?y = "push_bit 4 (ucast lo OR push_bit 8 (ucast hi)) :: u32"
  have "?y = take_bit 20 ?y" by (rule bit_word_eqI) (auto simp: bit_simps dest: bit_imp_le_length)
  then have "unat ?y = unat (take_bit 20 ?y)" by (rule arg_cong)
  also have "\<dots> = take_bit 20 (unat ?y)" by (simp only: unsigned_take_bit_eq)
  also have "\<dots> < 2 ^ 20" by (rule take_bit_nat_less_exp)
  finally have "unat ?y < 2 ^ 20" .
  then have "unat (?y + KERNEL_VIRT_BASE) = unat ?y + 0xC0000000"
    by (subst unat_add_nowrap) (auto simp: KERNEL_VIRT_BASE_def)
  then show ?thesis by (simp add: acpi_iter_def word_less_nat_alt)
qed

text \<open>
  C27: the root pointer of the ACPI tables. When the low memory of the machine can be read, the search returns, and its result is the
  table address of the first address of the BIOS area, in steps of four, that holds the signature and a structure of at
  most 36 bytes whose bytes add up to 0; it is 0 when there is none. The extended BIOS data area, which is to be searched first,
  is never looked at.
\<close>

theorem acpi_finds_first:
  assumes "bios_ok m B"
  shows "acpi_find_rsdt m = Inr (first_rsdt B (map (\<lambda>i. 0xC00E0000 + 4 * of_nat i) [0..<32767]) 0)"
proof -
  have r: "kread 0xC000040E m = Inr (B 0xC000040E)" "kread 0xC000040F m = Inr (B 0xC000040F)"
    using assms by (simp_all add: bios_ok_def bios_area_def)
  have i: "acpi_iter 0xC00E0000 0xC00FFFFC = 32767" by (simp add: acpi_iter_def)
  have l: "rsdp_loop 32767 0xC00E0000 0 m = Inr (first_rsdt B (map (\<lambda>i. 0xC00E0000 + 4 * of_nat i) [0..<32767]) 0)"
    by (rule rsdp_loop_ok [OF assms]) simp_all
  show ?thesis
    using ebda_not_searched [of "B 0xC000040E" "B 0xC000040F"]
    by (simp add: acpi_find_rsdt_def Let_def KERNEL_VIRT_BASE_def r i l del: upt_rec_numeral)
qed

text \<open>A machine whose low memory is mapped by one big page and has a root pointer at \<open>0xE0004\<close>.\<close>

definition ex_rsdp :: bytes where
  "ex_rsdp = [82, 83, 68, 32, 80, 84, 82, 32, 184, 0, 0, 0, 0, 0, 0, 0, 0, 0, 0xFE, 7, 36, 0, 0, 0, 0, 0, 0, 0, 0, 0, 0, 0, 0, 0, 0, 0]"

definition ex_acpi_ram :: "u32 \<Rightarrow> u8" where
  "ex_acpi_ram p = (if 0xE0004 \<le> p \<and> p < 0xE0028 then ex_rsdp ! unat (p - 0xE0004) else 0)"

definition ex_acpi :: mm where
  "ex_acpi = ex_mm\<lparr>tab := (\<lambda>_ _. 0x83), ram := ex_acpi_ram\<rparr>"

lemma kread_ps:
  assumes "bit (tab m (mm_kernel m) (pdi_of a)) 0" "bit (tab m (mm_kernel m) (pdi_of a)) 7"
  shows "kread a m = Inr (ram m ((tab m (mm_kernel m) (pdi_of a) AND - 0x400000) OR (a AND 0x3FFFFF)))"
proof -
  have "drop_bit 22 a = take_bit 10 (drop_bit 22 a)" by (rule bit_word_eqI) (auto simp: bit_simps dest: bit_imp_le_length)
  then have "pdi_of a = unat (take_bit 10 (drop_bit 22 a))" unfolding pdi_of_def by (rule arg_cong)
  also have "\<dots> = take_bit 10 (unat (drop_bit 22 a))" by (simp only: unsigned_take_bit_eq)
  also have "\<dots> < 2 ^ 10" by (rule take_bit_nat_less_exp)
  finally have "pdi_of a < 1024" by simp
  then show ?thesis using assms by (simp add: kread_def kaddr_def mm_translate_def rdE_def flg_simps)
qed

lemma ex_acpi_ok: "bios_ok ex_acpi (\<lambda>a. ex_acpi_ram (a AND 0x3FFFFF))"
proof -
  have b: "bit (0x83 :: u32) 0" "bit (0x83 :: u32) 7" "(0x83 AND - 0x400000 :: u32) = 0" by code_simp+
  show ?thesis unfolding bios_ok_def
    using kread_ps [of ex_acpi] b by (simp add: ex_acpi_def)
qed

theorem acpi_finds_first_witness: "acpi_find_rsdt ex_acpi = Inr 0x07FE0000"
proof -
  let ?B = "\<lambda>a. ex_acpi_ram (a AND 0x3FFFFF)"
  have l: "map (\<lambda>i. 0xC00E0000 + 4 * of_nat i) [0..<32767] = (0xC00E0000 :: u32) # 0xC00E0004 # map (\<lambda>i. 0xC00E0000 + 4 * of_nat i) [2..<32767]"
    using upt_conv_Cons [of 0 32767] upt_conv_Cons [of 1 32767] by (simp add: numeral_2_eq_2 del: upt_rec_numeral)
  have a: "span ?B 0xC00E0000 8 = [0, 0, 0, 0, 82, 83, 68, 32]" "span ?B 0xC00E0004 8 = [82, 83, 68, 32, 80, 84, 82, 32]"
    "span ?B 0xC00E0004 36 = ex_rsdp"
    by (simp_all add: span_def ex_acpi_ram_def ex_rsdp_def upt_conv_Cons)
  have b: "dword_at ?B 0xC00E0014 = 0x07FE0000" "dword_at ?B 0xC00E0018 = 36"
    by (simp_all add: dword_at_def ex_acpi_ram_def ex_rsdp_def)
  have n: "\<not> is_rsdp ?B 0xC00E0000" "is_rsdp ?B 0xC00E0004" using a b by (simp_all add: is_rsdp_def ex_rsdp_def)
  show ?thesis unfolding acpi_finds_first [OF ex_acpi_ok] first_rsdt_def l using n b by (simp del: upt_rec_numeral)
qed

text \<open>A structure of the first version of the standard has no \<open>length\<close>; where the field reads 0 nothing is checked.\<close>

lemma zero_length_accepted:
  assumes "span B a 8 = map of_char ''RSD PTR ''" "dword_at B (a + 20) = 0"
  shows "is_rsdp B a"
  using assms by (simp add: is_rsdp_def span_def)

end
