(* ===== verification/Irqs.thy ===== *)
theory Irqs
  imports VfsProps SchedInv NetProps Ide Hardware
begin

text \<open>
  The interrupt handlers: the keyboard (\<open>arch/x86/hw/ps2.c\<close>), the interrupts of the network card and the disk controller
  (\<open>periph_irq.c\<close>) and the page fault (\<open>pfault.c\<close>). The theorem of the keyboard puts the handler, the terminal and the
  pending read of a task together.
\<close>

section \<open>ps2.c, ps2cs.h\<close>

definition PS2_FLG_RAW :: u32 where "PS2_FLG_RAW = 1"
definition PS2_MOD_SHIFT :: u32 where "PS2_MOD_SHIFT = 2"
definition PS2_MOD_CAPS :: u32 where "PS2_MOD_CAPS = 4"

text \<open>The tables: octal 27 is 23, and 39 and 92 are the quote and the backslash.\<close>

definition x86_ps2_scan :: bytes where
  "x86_ps2_scan = [0, 23] @ map of_char ''1234567890-='' @ [8, 9] @ map of_char ''qwertyuiop[]'' @ [10, 0] @ map of_char ''asdfghjkl;'' @ [39, 96, 0, 92] @
     map of_char ''zxcvbnm,./'' @ [0, 0, 0] @ map of_char '' '' @ replicate 70 0"

definition x86_ps2_scan_alt :: bytes where
  "x86_ps2_scan_alt = [0, 23] @ map of_char ''!@#$%^&*()_='' @ [8, 9] @ map of_char ''QWERTYUIOP{}'' @ [10, 0] @ map of_char ''ASDFGHJKL:'' @ [34, 126, 0, 124] @
     map of_char ''ZXCVBNM<>?'' @ [0, 0, 0] @ map of_char '' '' @ replicate 70 0"

definition ps2_lookup_char :: "u32 \<Rightarrow> u8 \<Rightarrow> u8 res" where
  "ps2_lookup_char ps2_flags scan =
     bindR (rd (if nz (ps2_flags AND PS2_MOD_SHIFT) then x86_ps2_scan_alt else x86_ps2_scan) (unat scan)) (\<lambda>c0.
     Inr (if nz (ps2_flags AND PS2_MOD_CAPS) then togglecase c0 else c0))"

definition ps2_key :: "u8 \<Rightarrow> u32 \<times> kst \<Rightarrow> (u32 \<times> kst) res" where
  "ps2_key c = (\<lambda>(ps2_flags, s).
     if \<not> nz (ps2_flags AND PS2_FLG_RAW) \<and> (c = 0x2A \<or> c = 0x36) then Inr (ps2_flags OR PS2_MOD_SHIFT, s)
     else if \<not> nz (ps2_flags AND PS2_FLG_RAW) \<and> (c = 0xAA \<or> c = 0xB6) then Inr (ps2_flags AND NOT PS2_MOD_SHIFT, s)
     else if \<not> nz (ps2_flags AND PS2_FLG_RAW) \<and> c = 0x3A then Inr (ps2_flags XOR PS2_MOD_CAPS, s)
     else if c < 0x80 then
       if \<not> nz (ps2_flags AND PS2_FLG_RAW) then
         bindR (ps2_lookup_char ps2_flags c) (\<lambda>r.
         if nz r then bindR (tty_type 0 r s) (\<lambda>s. Inr (ps2_flags, s)) else Inr (ps2_flags, s))
       else Inl Panic
     else Inr (ps2_flags, s))"

definition x86_irq_handler_1 :: "'d ports \<Rightarrow> (u32 \<times> kst) \<times> 'd \<Rightarrow> ((u32 \<times> kst) \<times> 'd) res" where
  "x86_irq_handler_1 io = (\<lambda>(k, d).
     let (c, d) = p_inb io 0x60 d; d = x86_irq_eoi io 1 d in bindR (ps2_key c k) (\<lambda>k. Inr (k, d)))"

section \<open>periph_irq.c\<close>

definition x86_irq_handler_11 :: "'d ports \<Rightarrow> net \<times> 'd \<Rightarrow> (net \<times> 'd) res" where
  "x86_irq_handler_11 io = (\<lambda>(n, d).
     bindR (rtl8139_irq_handler n) (\<lambda>(n, r). if r = 0 then Inr (n, x86_irq_eoi io 11 d) else Inl Panic))"

definition x86_irq_handler_14 :: "'d ports \<Rightarrow> pci_ide \<Rightarrow> 'd \<Rightarrow> 'd" where
  "x86_irq_handler_14 io ide d = (if pci_ide_irq_handler ide 14 = 0 then x86_irq_eoi io 14 d else d)"

section \<open>pfault.c\<close>

definition TASK_EXIT_SEGV :: u32 where "TASK_EXIT_SEGV = 1000"

text \<open>The task stops, and the value tells the reason.\<close>

definition fault_stop :: "u32 \<Rightarrow> kst \<Rightarrow> kst res" where
  "fault_stop regs s =
     bindR (upd_task (task_current s) (\<lambda>x. x\<lparr>t_flag := t_flag x OR TASK_FLG_STOP\<rparr>) s) (\<lambda>s.
     bindR (upd_ctx regs (\<lambda>g. g\<lparr>x_ebx := TASK_EXIT_SEGV\<rparr>) s) x86_task_switch)"

text \<open>
  \<open>regs\<close> is the address of the saved registers. A fault of the kernel itself prints the registers and halts; 11 is \<open>SIGSEGV\<close>.
\<close>

definition x86_page_fault :: "u32 \<Rightarrow> kst \<Rightarrow> kst res" where
  "x86_page_fault regs s =
     bindR (get_ctx regs s) (\<lambda>g.
     if x_cs g = 0x08 then Inl Panic
     else
       bindR (get_task (task_current s) s) (\<lambda>x.
       bindR (get_ctl (t_ctl x) s) (\<lambda>c.
       if nz (pending_signal c) then fault_stop regs s
       else
         bindR (upd_ctl (t_ctl x) (\<lambda>c. c\<lparr>pending_signal := 11\<rparr>) s) (\<lambda>s.
         bindR (x86_task_enter_signal (task_current s) s) (\<lambda>(s, r).
         if r \<noteq> 0 then fault_stop regs s else Inr s)))))"

section \<open>Typing\<close>

text \<open>The characters that a run of scan codes stands for, with the shift key held (\<open>sh\<close>) and the caps lock on (\<open>cp\<close>).\<close>

definition key_char :: "bool \<Rightarrow> bool \<Rightarrow> u8 \<Rightarrow> u8" where
  "key_char sh cp c = (let x = (if sh then x86_ps2_scan_alt else x86_ps2_scan) ! unat c in if cp then togglecase x else x)"

fun typed_keys :: "bool \<Rightarrow> bool \<Rightarrow> bytes \<Rightarrow> bytes" where
  "typed_keys sh cp [] = []"
| "typed_keys sh cp (c # cs) =
     (if c = 0x2A \<or> c = 0x36 then typed_keys True cp cs
      else if c = 0xAA \<or> c = 0xB6 then typed_keys False cp cs
      else if c = 0x3A then typed_keys sh (\<not> cp) cs
      else if c < 0x80 \<and> key_char sh cp c \<noteq> 0 then key_char sh cp c # typed_keys sh cp cs
      else typed_keys sh cp cs)"

text \<open>The keyboard hands out the codes, one at each interrupt.\<close>

fun sends :: "'d ports \<Rightarrow> bytes \<Rightarrow> 'd \<Rightarrow> bool" where
  "sends io [] d \<longleftrightarrow> True"
| "sends io (c # cs) d \<longleftrightarrow> fst (p_inb io 0x60 d) = c \<and> sends io cs (x86_irq_eoi io 1 (snd (p_inb io 0x60 d)))"

definition mods :: "u32 \<Rightarrow> bool \<Rightarrow> bool \<Rightarrow> bool" where
  "mods fl sh cp \<longleftrightarrow> \<not> bit fl 0 \<and> bit fl 1 = sh \<and> bit fl 2 = cp"

lemma mod_bits:
  "nz (fl AND PS2_FLG_RAW) \<longleftrightarrow> bit fl 0" "nz (fl AND PS2_MOD_SHIFT) \<longleftrightarrow> bit fl 1" "nz (fl AND PS2_MOD_CAPS) \<longleftrightarrow> bit fl 2"
  using bit_iff_and_push_bit_not_eq_0 [of fl 0] bit_iff_and_push_bit_not_eq_0 [of fl 1] bit_iff_and_push_bit_not_eq_0 [of fl 2]
  by (simp_all add: PS2_FLG_RAW_def PS2_MOD_SHIFT_def PS2_MOD_CAPS_def)

lemma mods_shift:
  assumes "mods fl sh cp"
  shows "mods (fl OR PS2_MOD_SHIFT) True cp" "mods (fl AND NOT PS2_MOD_SHIFT) False cp" "mods (fl XOR PS2_MOD_CAPS) sh (\<not> cp)"
proof -
  have s: "PS2_MOD_SHIFT = push_bit 1 1" "PS2_MOD_CAPS = push_bit 2 1" by (simp_all add: PS2_MOD_SHIFT_def PS2_MOD_CAPS_def)
  show "mods (fl OR PS2_MOD_SHIFT) True cp" "mods (fl AND NOT PS2_MOD_SHIFT) False cp" "mods (fl XOR PS2_MOD_CAPS) sh (\<not> cp)"
    using assms unfolding mods_def s by (auto simp: bit_simps)
qed

lemma scan_tables: "length x86_ps2_scan = 128" "length x86_ps2_scan_alt = 128"
  by (simp_all add: x86_ps2_scan_def x86_ps2_scan_alt_def)

lemma ps2_lookup_ok:
  assumes "mods fl sh cp" "c < 0x80"
  shows "ps2_lookup_char fl c = Inr (key_char sh cp c)"
proof -
  have "unat c < 128" using assms(2) by (simp add: word_less_nat_alt)
  then show ?thesis
    using assms(1) by (simp add: ps2_lookup_char_def mod_bits mods_def key_char_def rd_def scan_tables Let_def)
qed

text \<open>The keys of one interrupt after another type the characters they stand for, one after another.\<close>

lemma keys_type:
  assumes "mods fl sh cp" "sends io cs d" "foldR (tty_type 0) (typed_keys sh cp cs) s = Inr s'"
  shows "\<exists>fl' d'. foldR (\<lambda>_. x86_irq_handler_1 io) cs ((fl, s), d) = Inr ((fl', s'), d')"
  using assms
proof (induction cs arbitrary: fl sh cp s d)
  case (Cons c cs)
  define d1 where "d1 = x86_irq_eoi io 1 (snd (p_inb io 0x60 d))"
  have io: "x86_irq_handler_1 io ((fl, s), d) = bindR (ps2_key c (fl, s)) (\<lambda>k. Inr (k, d1))" for fl s
    using Cons.prems(2) by (cases "p_inb io 0x60 d") (simp add: x86_irq_handler_1_def d1_def Let_def)
  have snd': "sends io cs d1" using Cons.prems(2) by (simp add: d1_def)
  have raw: "\<not> nz (fl AND PS2_FLG_RAW)" using Cons.prems(1) by (simp add: mod_bits mods_def)
  have step: ?case
    if "ps2_key c (fl, s) = Inr (fl1, s1)" "mods fl1 sh1 cp1" "foldR (tty_type 0) (typed_keys sh1 cp1 cs) s1 = Inr s'" for fl1 s1 sh1 cp1
    using Cons.IH [OF that(2) snd' that(3)] that(1) by (simp add: io)
  consider "c = 0x2A \<or> c = 0x36" | "c = 0xAA \<or> c = 0xB6" | "c = 0x3A"
    | "\<not> (c = 0x2A \<or> c = 0x36 \<or> c = 0xAA \<or> c = 0xB6 \<or> c = 0x3A)" "c < 0x80" "key_char sh cp c \<noteq> 0"
    | "\<not> (c = 0x2A \<or> c = 0x36 \<or> c = 0xAA \<or> c = 0xB6 \<or> c = 0x3A)" "\<not> (c < 0x80 \<and> key_char sh cp c \<noteq> 0)"
    by blast
  then show ?case
  proof cases
    case 1
    then show ?thesis using raw Cons.prems(3) by (intro step [OF _ mods_shift(1) [OF Cons.prems(1)]]) (auto simp: ps2_key_def)
  next
    case 2
    then show ?thesis using raw Cons.prems(3) by (intro step [OF _ mods_shift(2) [OF Cons.prems(1)]]) (auto simp: ps2_key_def)
  next
    case 3
    then show ?thesis using raw Cons.prems(3) by (intro step [OF _ mods_shift(3) [OF Cons.prems(1)]]) (auto simp: ps2_key_def)
  next
    case 4
    then obtain s1 where s1: "tty_type 0 (key_char sh cp c) s = Inr s1" "foldR (tty_type 0) (typed_keys sh cp cs) s1 = Inr s'"
      using Cons.prems(3) by (auto simp: bindR_eq_Inr)
    show ?thesis
      using 4 raw s1 ps2_lookup_ok [OF Cons.prems(1) 4(2)] by (intro step [OF _ Cons.prems(1) s1(2)]) (simp add: ps2_key_def)
  next
    case 5
    have t: "foldR (tty_type 0) (typed_keys sh cp cs) s = Inr s'" using 5 Cons.prems(3) by (auto split: if_splits)
    show ?thesis
      using 5 raw ps2_lookup_ok [OF Cons.prems(1)] by (intro step [OF _ Cons.prems(1) t]) (auto simp: ps2_key_def)
  qed
qed simp

text \<open>A letter is a capital when exactly one of shift and caps lock is on.\<close>

definition letter_codes :: bytes where
  "letter_codes = map of_nat ([16..<26] @ [30..<39] @ [44..<51])"

lemma letter_keys:
  "map (key_char True False) letter_codes = map toupper (map (key_char False False) letter_codes)"
  "map (key_char False True) letter_codes = map toupper (map (key_char False False) letter_codes)"
  "map (key_char True True) letter_codes = map (key_char False False) letter_codes"
  by (simp_all add: letter_codes_def key_char_def x86_ps2_scan_def x86_ps2_scan_alt_def togglecase_def toupper_def islower_def isupper_def upt_rec word_sle_eq)

text \<open>The key of the plus sign types an equals sign with shift as well.\<close>

lemma plus_key: "key_char True False 0x0D = 61"
  by code_simp

text \<open>
  C20: reading from the keyboard. When a task waits for \<open>n\<close> characters at the terminal, the interrupts of the keyboard return,
  and the characters that the scan codes stand for under the state of shift and caps lock, and no others, are copied to the task's
  buffer in order; the \<open>n\<close>th character completes the read and lets the task run.
\<close>

theorem keyboard_read:
  assumes "mods fl sh cp" "sends io cs d" "tty_wait s f buf res t n 0 tk"
    "copy_chars (t_pd tk) buf (typed_keys sh cp cs) (kmm s) = Inr m" "typed_keys sh cp cs \<noteq> []" "length (typed_keys sh cp cs) \<le> n"
  shows "\<exists>fl' s' d'. foldR (\<lambda>_. x86_irq_handler_1 io) cs ((fl, s), d) = Inr ((fl', s'), d') \<and> kmm s' = m \<and>
    (if length (typed_keys sh cp cs) = n then tty_done s' f res t n tk else tty_wait s' f buf res t n (length (typed_keys sh cp cs)) tk)"
  using tty_read_completes [OF assms(3-6)] keys_type [OF assms(1,2)] by fast

text \<open>A keyboard that holds down shift and types two letters.\<close>

definition ex_keyboard :: "bytes ports" where
  "ex_keyboard = \<lparr>p_outb = (\<lambda>_ _ d. d), p_inb = (\<lambda>_ d. (hd d, tl d)), p_outl = (\<lambda>_ _ d. d), p_inl = (\<lambda>_ d. (0, d))\<rparr>"

theorem keyboard_read_witness:
  "\<exists>fl' s' d'. foldR (\<lambda>_. x86_irq_handler_1 ex_keyboard) [0x2A, 0x1E, 0x30, 0xAA :: u8] ((0, ex_wait), [0x2A, 0x1E, 0x30, 0xAA]) = Inr ((fl', s'), d') \<and>
     tty_done s' 0xC0300000 0xC0400000 0xC0200000 2 ex_task"
proof -
  obtain m where m: "copy_chars 0xC1000000 0x400FFF [65, 66] ex_tmm = Inr m" using ex_wait_chars by blast
  have h: "holds (kernel_mem ex_wait) 0xC0400000 (word_bytes (of_nat 0))"
    using store_bytes_holds [where a = "0xC0400000" and bs = "[0, 0, 0, 0]" and m = "hmem ex_kheap"]
    by (simp add: ex_wait_def kernel_mem_def word_bytes_def)
  have w: "tty_wait ex_wait 0xC0300000 0x400FFF 0xC0400000 0xC0200000 2 0 ex_task"
    using h by (simp add: tty_wait_def) (simp add: ex_wait_def kspan_def KERNEL_VIRT_BASE_def)
  have t: "typed_keys False False [0x2A, 0x1E, 0x30, 0xAA] = [65, 66]" by code_simp
  have k: "mods 0 False False" "sends ex_keyboard [0x2A, 0x1E, 0x30, 0xAA] [0x2A, 0x1E, 0x30, 0xAA]"
    by (simp_all add: mods_def ex_keyboard_def x86_irq_eoi_def)
  have c: "copy_chars (t_pd ex_task) 0x400FFF [65, 66] (kmm ex_wait) = Inr m" using m by (simp add: ex_task_def ex_wait_def)
  show ?thesis using keyboard_read [OF k w, unfolded t, OF c] by auto
qed

section \<open>Page faults\<close>

text \<open>A fault of a task that can take a signal enters its handler with \<open>SIGSEGV\<close>, and the task goes on there.\<close>

lemma fault_enters_handler:
  assumes "ctxs s regs = Some g" "x_cs g \<noteq> 0x08" "task_current s = t" "t \<noteq> 0" "tasks s t = Some x" "t_ctl x \<noteq> 0" "ctls s (t_ctl x) = Some c"
    "pending_signal c = 0" "sigctx c \<noteq> 0" "sigeip x \<noteq> 0" "\<not> nz (t_flag x AND TASK_FLG_WAIT)"
    "regs \<noteq> 0" "ebp0 x \<noteq> stack_size" "ctxs s (ebp0 x - stack_size) = Some own" "ctxs s (sigctx c) = Some sg"
  shows "\<exists>s'. x86_page_fault regs s = Inr s' \<and> task_current s' = t \<and> tasks s' t = Some (x\<lparr>esp0 := sigctx c\<rparr>) \<and>
    (\<exists>c'. ctls s' (t_ctl x) = Some c' \<and> pending_signal c' = 11) \<and>
    (\<exists>h. ctxs s' (sigctx c) = Some h \<and> x_eip h = sigeip x \<and> x_esp h = sigesp x \<and> x_edx h = 11)"
  using assms
  by (simp add: x86_page_fault_def x86_task_enter_signal_def get_ctx_def get_task_def get_ctl_def upd_ctx_def upd_task_def upd_ctl_def obj_def
      signal_ctx_def clear_gp_def set_segs_def Let_def)

text \<open>A task that cannot take the signal, or that faults in its handler, is stopped, and the switch that follows reads the freed task.\<close>

lemma fault_stop_faults:
  assumes "sched_inv s us" "task_current s \<noteq> x86_task_idle" "ctxs s regs = Some g" "regs \<noteq> 0"
  shows "\<exists>e. fault_stop regs s = Inl e"
proof -
  obtain x where x: "tasks s (task_current s) = Some x" "task_current s \<noteq> 0" using sched_inv_current [OF assms(1)] by blast
  define s1 where "s1 = s\<lparr>tasks := (tasks s)(task_current s := Some (x\<lparr>t_flag := t_flag x OR TASK_FLG_STOP\<rparr>)),
    ctxs := (ctxs s)(regs := Some (g\<lparr>x_ebx := TASK_EXIT_SEGV\<rparr>))\<rparr>"
  have "fault_stop regs s = x86_task_switch s1"
    using x assms(3,4) by (simp add: fault_stop_def upd_task_def upd_ctx_def get_task_def get_ctx_def obj_def s1_def)
  moreover have "\<exists>e. x86_task_switch s1 = Inl e"
    using assms x by (intro stopped_switch_faults [of s us x s1]) (simp_all add: s1_def sched_inv_def)
  ultimately show ?thesis by simp
qed

lemma double_fault_stops:
  assumes "sched_inv s us" "task_current s \<noteq> x86_task_idle" "ctxs s regs = Some g" "regs \<noteq> 0" "x_cs g \<noteq> 0x08"
    "tasks s (task_current s) = Some x" "t_ctl x \<noteq> 0" "ctls s (t_ctl x) = Some c" "pending_signal c \<noteq> 0"
  shows "\<exists>e. x86_page_fault regs s = Inl e"
proof -
  have "task_current s \<noteq> 0" using sched_inv_current [OF assms(1)] by blast
  then have "x86_page_fault regs s = fault_stop regs s"
    using assms(3-9) by (simp add: x86_page_fault_def get_ctx_def get_task_def get_ctl_def obj_def)
  then show ?thesis using fault_stop_faults [OF assms(1-4)] by simp
qed

end
