(* ===== verification/Spec2Isabelle.thy ===== *)
theory Spec2Isabelle
  imports DebugFmt Heap Paging VfsProps SyscallProps NetProps UsrFmt Console Shell Ide Hardware Acpi Irqs
begin

text \<open>
  A model of the yggdrasil kernel (x86 build) and of its user library, and the theorems that
  say what its parts do.
\<close>

end
